(* ===== verification/Uleb.thy ===== *)
theory Uleb
  imports Prelude
begin

text \<open>
  \<open>packages/bcs/src/uleb.ts\<close>: \<open>ulebEncode\<close> and \<open>ulebDecode\<close>. The encoder works on a BigInt
  (\<open>bigNum\<close>), the decoder on the bytes from an offset; both loops are recursive functions.
\<close>

definition MAX_SAFE_INTEGER :: nat where
  "MAX_SAFE_INTEGER = 2 ^ 53 - 1"

text \<open>
  The \<open>while (bigNum > 0)\<close> loop: \<open>arr[len] = bigNum & 0x7f\<close>, shift right by seven, and set the
  continuation bit when something is left.
\<close>

function ulebEncode_loop :: "int \<Rightarrow> byte list" where
  "ulebEncode_loop bigNum =
     (if bigNum > 0
      then (let low = bigNum mod 128; rest = bigNum div 128
            in (if rest > 0 then word_of_int (low + 128) else word_of_int low)
                 # ulebEncode_loop rest)
      else [])"
  by pat_completeness auto
termination
  by (relation "measure nat") auto

declare ulebEncode_loop.simps [simp del]

definition ulebEncode :: "int \<Rightarrow> byte list" where
  "ulebEncode num = (if num = 0 then [0] else ulebEncode_loop num)"

text \<open>
  The \<open>while (true)\<close> loop of the decoder over the remaining bytes, with \<open>total\<close>, \<open>shift\<close> and
  \<open>len\<close> as in the source; it ends because every turn consumes a byte.
\<close>

fun ulebDecode_loop :: "nat \<Rightarrow> nat \<Rightarrow> nat \<Rightarrow> byte list \<Rightarrow> (nat \<times> nat) res" where
  "ulebDecode_loop tot shift len [] = Inl (Error ''ULEB decode error: buffer overflow'')"
| "ulebDecode_loop tot shift len (b # bs) =
     (let tot' = tot + (unat b mod 128) * 2 ^ shift
      in if unat b < 128 then Inr (tot', len + 1)
         else ulebDecode_loop tot' (shift + 7) (len + 1) bs)"

definition ulebDecode :: "byte list \<Rightarrow> (nat \<times> nat) res" where
  "ulebDecode arr =
     rbind (ulebDecode_loop 0 0 0 arr) (\<lambda>(tot, len).
       if tot > MAX_SAFE_INTEGER
       then Inl (Error ''ULEB decode error: value exceeds MAX_SAFE_INTEGER'')
       else Inr (tot, len))"

text \<open>What the encoder writes for a natural number.\<close>

lemma ulebEncode_loop_small:
  "0 < n \<Longrightarrow> n < 128 \<Longrightarrow> ulebEncode_loop (int n) = [word_of_nat n]"
  by (subst ulebEncode_loop.simps) (simp add: ulebEncode_loop.simps Let_def)

lemma ulebEncode_loop_big:
  "128 \<le> n \<Longrightarrow>
   ulebEncode_loop (int n) = word_of_nat (n mod 128 + 128) # ulebEncode_loop (int (n div 128))"
proof -
  assume n: "128 \<le> n"
  then have "0 < int n div 128" by linarith
  moreover have "int n mod 128 + 128 = int (n mod 128 + 128)"
    by (simp add: zmod_int)
  ultimately show ?thesis
    using n by (subst ulebEncode_loop.simps) (simp add: Let_def zdiv_int)
qed

lemma ulebDecode_loop_encode:
  assumes "0 < n"
  shows "ulebDecode_loop tot shift len (ulebEncode_loop (int n) @ rest)
         = Inr (tot + n * 2 ^ shift, len + length (ulebEncode_loop (int n)))"
  using assms
proof (induction n arbitrary: tot shift len rule: less_induct)
  case (less n)
  show ?case
  proof (cases "n < 128")
    case True
    with less.prems show ?thesis
      by (simp add: ulebEncode_loop_small Let_def)
  next
    case False
    then have pos: "0 < n div 128" and lt: "n div 128 < n" by auto
    have "n mod 128 * 2 ^ shift + n div 128 * 2 ^ (shift + 7)
          = n mod 128 * 2 ^ shift + 128 * (n div 128) * 2 ^ shift"
      by (simp add: power_add)
    also have "\<dots> = n * 2 ^ shift"
      by (simp only: add_mult_distrib [symmetric] mod_mult_div_eq)
    finally have split: "n mod 128 * 2 ^ shift + n div 128 * 2 ^ (shift + 7) = n * 2 ^ shift" .
    define b :: byte where "b = word_of_nat (n mod 128 + 128)"
    have ub: "unat b = n mod 128 + 128"
      unfolding b_def by (simp only: unat_byte_of_nat) simp
    have enc: "ulebEncode_loop (int n) = b # ulebEncode_loop (int (n div 128))"
      unfolding b_def using False by (intro ulebEncode_loop_big) simp
    show ?thesis
      using less.IH [OF lt pos] split by (simp add: enc ub Let_def add.assoc)
  qed
qed

text \<open>The whole decoder on the encoder's output, with any bytes after it.\<close>

lemma ulebDecode_ulebEncode:
  assumes "n \<le> MAX_SAFE_INTEGER"
  shows "ulebDecode (ulebEncode (int n) @ rest) = Inr (n, length (ulebEncode (int n)))"
proof (cases "n = 0")
  case False
  then show ?thesis
    using assms ulebDecode_loop_encode [of n 0 0 0 rest]
    by (simp add: ulebDecode_def ulebEncode_def)
qed (simp add: ulebDecode_def ulebEncode_def)

lemma ulebDecode_too_big:
  assumes "n > MAX_SAFE_INTEGER"
  shows "ulebDecode (ulebEncode (int n) @ rest)
         = Inl (Error ''ULEB decode error: value exceeds MAX_SAFE_INTEGER'')"
proof -
  have "n > 0" using assms by simp
  then show ?thesis
    using assms ulebDecode_loop_encode [of n 0 0 0 rest]
    by (simp add: ulebDecode_def ulebEncode_def)
qed

lemma ulebDecode_loop_prefix:
  "ulebDecode_loop tot shift len bs = Inr (v, l) \<Longrightarrow>
   len < l \<and> l \<le> len + length bs \<and>
   ulebDecode_loop tot shift len (take (l - len) bs @ rest) = Inr (v, l)"
proof (induction tot shift len bs rule: ulebDecode_loop.induct)
  case (2 tot shift len b bs)
  show ?case
  proof (cases "unat b < 128")
    case True
    with "2.prems" show ?thesis by (auto simp: Let_def)
  next
    case False
    with "2.prems" have "ulebDecode_loop (tot + unat b mod 128 * 2 ^ shift) (shift + 7) (len + 1) bs = Inr (v, l)"
      by (simp add: Let_def)
    from "2.IH" [OF refl False this]
    have ih: "len + 1 < l" "l \<le> len + 1 + length bs"
      "ulebDecode_loop (tot + unat b mod 128 * 2 ^ shift) (shift + 7) (len + 1)
         (take (l - (len + 1)) bs @ rest) = Inr (v, l)"
      by auto
    have "l - len = Suc (l - (len + 1))" using ih(1) by simp
    then show ?thesis using ih False by (simp add: Let_def)
  qed
qed simp

lemma ulebDecode_prefix:
  "ulebDecode bs = Inr (v, l) \<Longrightarrow>
   0 < l \<and> l \<le> length bs \<and> v \<le> MAX_SAFE_INTEGER \<and> ulebDecode (take l bs @ rest) = Inr (v, l)"
  using ulebDecode_loop_prefix [of 0 0 0 bs v l rest]
  by (auto simp: ulebDecode_def res_simps split: if_splits)

lemma ulebEncode_nonempty: "n \<ge> 0 \<Longrightarrow> ulebEncode n \<noteq> []"
  by (simp add: ulebEncode_def) (subst ulebEncode_loop.simps, simp add: Let_def)

text \<open>A negative number runs no turn of the loop: the encoder returns an empty array.\<close>

lemma ulebEncode_negative: "n < 0 \<Longrightarrow> ulebEncode n = []"
  by (simp add: ulebEncode_def ulebEncode_loop.simps)

end
