(* ===== verification/Js_Text.thy ===== *)
theory Js_Text
  imports Prelude
begin

text \<open>
  The JavaScript string and number primitives the source uses: \<open>toString(radix)\<close>, \<open>BigInt(str)\<close>,
  \<open>padStart\<close>, \<open>startsWith\<close>, \<open>slice\<close>, \<open>trim\<close>, \<open>toLowerCase\<close>, \<open>split(sep)\<close>, \<open>join(sep)\<close>.
  Strings are ASCII character lists; the case mapping of letters outside ASCII is not modelled.
\<close>

definition digit_char :: "nat \<Rightarrow> char" where
  "digit_char d = ''0123456789abcdef'' ! d"

definition digit_val :: "char \<Rightarrow> nat option" where
  "digit_val c =
     (let n = (of_char c :: nat) in
      if 48 \<le> n \<and> n \<le> 57 then Some (n - 48)
      else if 97 \<le> n \<and> n \<le> 102 then Some (n - 87)
      else if 65 \<le> n \<and> n \<le> 70 then Some (n - 55)
      else None)"

definition is_hex_char :: "char \<Rightarrow> bool" where
  "is_hex_char c \<longleftrightarrow> digit_val c \<noteq> None"

text \<open>\<open>n.toString(radix)\<close> for a natural number, most significant digit first.\<close>

function show_base :: "nat \<Rightarrow> nat \<Rightarrow> string" where
  "show_base r n =
     (if n < r \<or> r < 2 then [digit_char n]
      else show_base r (n div r) @ [digit_char (n mod r)])"
  by pat_completeness auto
termination
  by (relation "measure snd") auto

declare show_base.simps [simp del]

text \<open>The digits of a numeral, most significant first; \<open>None\<close> when one is no digit of the radix.\<close>

fun parse_digits :: "nat \<Rightarrow> nat \<Rightarrow> string \<Rightarrow> nat option" where
  "parse_digits r acc [] = Some acc"
| "parse_digits r acc (c # cs) =
     (case digit_val c of
        None \<Rightarrow> None
      | Some d \<Rightarrow> if d < r then parse_digits r (r * acc + d) cs else None)"

definition show_int :: "int \<Rightarrow> string" where
  "show_int i = (if i < 0 then ''-'' @ show_base 10 (nat (- i)) else show_base 10 (nat i))"

definition is_space :: "char \<Rightarrow> bool" where
  "is_space c \<longleftrightarrow> (let n = (of_char c :: nat) in n = 32 \<or> n = 160 \<or> (9 \<le> n \<and> n \<le> 13))"

definition trim :: "string \<Rightarrow> string" where
  "trim s = rev (dropWhile is_space (rev (dropWhile is_space s)))"

fun startsWith :: "string \<Rightarrow> string \<Rightarrow> bool" where
  "startsWith s [] = True"
| "startsWith [] (p # ps) = False"
| "startsWith (c # cs) (p # ps) = (c = p \<and> startsWith cs ps)"

definition padStart :: "nat \<Rightarrow> char \<Rightarrow> string \<Rightarrow> string" where
  "padStart n c s = replicate (n - length s) c @ s"

definition lower_char :: "char \<Rightarrow> char" where
  "lower_char c = (let n = (of_char c :: nat) in if 65 \<le> n \<and> n \<le> 90 then char_of (n + 32) else c)"

definition toLowerCase :: "string \<Rightarrow> string" where
  "toLowerCase s = map lower_char s"

text \<open>\<open>s.split(c)\<close> for a one-character separator, and \<open>parts.join(sep)\<close>.\<close>

fun split_char :: "char \<Rightarrow> string \<Rightarrow> string list" where
  "split_char c [] = [[]]"
| "split_char c (x # xs) =
     (if x = c then [] # split_char c xs
      else (case split_char c xs of [] \<Rightarrow> [[x]] | p # ps \<Rightarrow> (x # p) # ps))"

fun join :: "string \<Rightarrow> string list \<Rightarrow> string" where
  "join sep [] = []"
| "join sep [p] = p"
| "join sep (p # q # ps) = p @ sep @ join sep (q # ps)"

text \<open>
  \<open>BigInt(str)\<close> (StringToBigInt): blanks around the numeral are dropped, the empty string is 0,
  \<open>0x\<close>, \<open>0o\<close> and \<open>0b\<close> introduce unsigned numerals, a decimal numeral may carry a sign.
\<close>

definition parse_nat :: "nat \<Rightarrow> string \<Rightarrow> nat option" where
  "parse_nat r s = (if s = [] then None else parse_digits r 0 s)"

definition bigint_of_string :: "string \<Rightarrow> int res" where
  "bigint_of_string str =
     (let s = trim str;
          fail = Inl (SyntaxError ''Cannot convert to a BigInt'');
          num = (\<lambda>r t. case parse_nat r t of None \<Rightarrow> fail | Some n \<Rightarrow> Inr (int n))
      in if s = [] then Inr 0
         else if startsWith s ''0x'' \<or> startsWith s ''0X'' then num 16 (drop 2 s)
         else if startsWith s ''0o'' \<or> startsWith s ''0O'' then num 8 (drop 2 s)
         else if startsWith s ''0b'' \<or> startsWith s ''0B'' then num 2 (drop 2 s)
         else if startsWith s ''-'' then rmap uminus (num 10 (drop 1 s))
         else if startsWith s ''+'' then num 10 (drop 1 s)
         else num 10 s)"

subsection \<open>Digits\<close>

lemma digit_val_digit_char [simp]: "d < 16 \<Longrightarrow> digit_val (digit_char d) = Some d"
proof -
  assume "d < 16"
  then have "d \<in> set [0..<16]" by simp
  moreover have "\<forall>d \<in> set [0..<16]. digit_val (digit_char d) = Some d"
    by code_simp
  ultimately show ?thesis by blast
qed

lemma digit_char_not_special:
  "d < 16 \<Longrightarrow> digit_char d \<notin> {CHR ''x'', CHR ''X'', CHR ''o'', CHR ''O'', CHR ''B'', CHR ''-'', CHR ''+''}
     \<and> \<not> is_space (digit_char d)"
proof -
  assume "d < 16"
  then have "d \<in> set [0..<16]" by simp
  moreover have "\<forall>d \<in> set [0..<16]. digit_char d \<noteq> CHR ''x'' \<and> digit_char d \<noteq> CHR ''X'' \<and>
     digit_char d \<noteq> CHR ''o'' \<and> digit_char d \<noteq> CHR ''O'' \<and> digit_char d \<noteq> CHR ''B'' \<and>
     digit_char d \<noteq> CHR ''-'' \<and> digit_char d \<noteq> CHR ''+'' \<and> \<not> is_space (digit_char d)"
    by code_simp
  ultimately show ?thesis by blast
qed

lemma parse_digits_append:
  "parse_digits r acc (xs @ ys) =
   (case parse_digits r acc xs of None \<Rightarrow> None | Some a \<Rightarrow> parse_digits r a ys)"
  by (induction xs arbitrary: acc) (auto split: option.splits)

lemma parse_digits_replicate_0 [simp]:
  "2 \<le> r \<Longrightarrow> parse_digits r acc (replicate n CHR ''0'') = Some (r ^ n * acc)"
  by (induction n arbitrary: acc) (auto simp: digit_val_def mult.assoc mult.left_commute)

lemma parse_digits_show_base:
  assumes "2 \<le> r" "r \<le> 16"
  shows "parse_digits r acc (show_base r n) = Some (r ^ length (show_base r n) * acc + n)"
  using assms(1)
proof (induction n arbitrary: acc rule: less_induct)
  case (less n)
  show ?case
  proof (cases "n < r")
    case True
    with assms show ?thesis
      by (simp add: show_base.simps [of r n])
  next
    case False
    then have lt: "n div r < n" using less.prems
      by (intro div_less_dividend) auto
    have m: "n mod r < r" "n mod r < 16" using assms less.prems
      by (auto intro: order_less_le_trans [of _ r])
    have "r * (n div r) + n mod r = n" by simp
    then show ?thesis
      using False less.prems less.IH [OF lt less.prems] m
      by (simp add: show_base.simps [of r n] parse_digits_append algebra_simps)
  qed
qed

lemma show_base_nonempty [simp]: "show_base r n \<noteq> []"
  by (subst show_base.simps) simp

lemma parse_nat_show_base [simp]:
  "2 \<le> r \<Longrightarrow> r \<le> 16 \<Longrightarrow> parse_nat r (show_base r n) = Some n"
  by (simp add: parse_nat_def parse_digits_show_base)

lemma show_base_chars:
  assumes "2 \<le> r" "r \<le> 16"
  shows "c \<in> set (show_base r n) \<Longrightarrow> \<exists>d < r. c = digit_char d"
proof (induction n rule: less_induct)
  case (less n)
  show ?case
  proof (cases "n < r")
    case True
    with less.prems show ?thesis by (auto simp: show_base.simps [of r n])
  next
    case False
    then have lt: "n div r < n" using assms
      by (intro div_less_dividend) auto
    from False less.prems assms have "c \<in> set (show_base r (n div r)) \<or> c = digit_char (n mod r)"
      by (auto simp: show_base.simps [of r n])
    then show ?thesis using less.IH [OF lt] assms by force
  qed
qed

lemma length_show_base:
  assumes "2 \<le> r"
  shows "n < r ^ k \<Longrightarrow> 0 < k \<Longrightarrow> length (show_base r n) \<le> k"
proof (induction k arbitrary: n)
  case (Suc k)
  show ?case
  proof (cases "n < r")
    case True
    then show ?thesis by (simp add: show_base.simps [of r n])
  next
    case False
    have "n div r < r ^ k" using Suc.prems
      by (simp add: less_mult_imp_div_less mult.commute)
    moreover have "0 < k"
      using False Suc.prems by (cases k) auto
    ultimately show ?thesis
      using False assms Suc.IH by (simp add: show_base.simps [of r n])
  qed
qed simp

text \<open>
  The shape of \<open>high.toString(16) + low.toString(16).padStart(k, '0')\<close>, which the reader turns
  into one hexadecimal numeral.
\<close>

lemma parse_hex_pair:
  assumes "lo < 16 ^ k" "0 < k"
  shows "parse_nat 16 (show_base 16 hi @ padStart k CHR ''0'' (show_base 16 lo)) = Some (hi * 16 ^ k + lo)"
proof -
  let ?n = "length (show_base 16 lo)"
  have n: "?n \<le> k" using length_show_base [of 16 lo k] assms by simp
  then have "(16::nat) ^ ?n * (16 ^ (k - ?n) * hi) = 16 ^ k * hi"
    by (simp add: power_add [symmetric] flip: mult.assoc)
  then show ?thesis
    by (simp add: parse_nat_def parse_digits_append parse_digits_show_base padStart_def)
qed

lemma dropWhile_all_not: "(\<And>c. c \<in> set s \<Longrightarrow> \<not> P c) \<Longrightarrow> dropWhile P s = s"
  by (cases s) auto

lemma trim_id:
  assumes "\<And>c. c \<in> set s \<Longrightarrow> \<not> is_space c"
  shows "trim s = s"
proof -
  have "dropWhile is_space s = s" and "dropWhile is_space (rev s) = rev s"
    using assms by (auto intro: dropWhile_all_not)
  then show ?thesis by (simp add: trim_def)
qed

lemma trim_show_base: "2 \<le> r \<Longrightarrow> r \<le> 16 \<Longrightarrow> trim (show_base r n) = show_base r n"
  by (rule trim_id) (use digit_char_not_special show_base_chars in fastforce)

lemma startsWith_iff: "startsWith s p \<longleftrightarrow> take (length p) s = p"
  by (induction s p rule: startsWith.induct) auto

lemma startsWith_chars: "startsWith s p \<Longrightarrow> set p \<subseteq> set s"
  by (metis startsWith_iff set_take_subset)

lemma bigint_of_string_decimal [simp]: "bigint_of_string (show_base 10 n) = Inr (int n)"
proof -
  let ?s = "show_base 10 n"
  have no: "c \<notin> set ?s" if "\<forall>d \<in> set [0..<10]. digit_char d \<noteq> c" for c
  proof
    assume "c \<in> set ?s"
    then obtain d where "d < 10" "c = digit_char d" using show_base_chars [of 10 c n] by auto
    moreover from this(1) have "d \<in> set [0..<10]" by simp
    ultimately show False using that by blast
  qed
  have c: "CHR ''x'' \<notin> set ?s" "CHR ''X'' \<notin> set ?s" "CHR ''o'' \<notin> set ?s" "CHR ''O'' \<notin> set ?s"
    "CHR ''b'' \<notin> set ?s" "CHR ''B'' \<notin> set ?s" "CHR ''-'' \<notin> set ?s" "CHR ''+'' \<notin> set ?s"
    by (rule no, code_simp)+
  then have "\<not> startsWith ?s p" if "p \<in> {''0x'', ''0X'', ''0o'', ''0O'', ''0b'', ''0B'', ''-'', ''+''}" for p
    using that startsWith_chars [of ?s p] by auto
  then show ?thesis
    by (simp add: bigint_of_string_def Let_def trim_show_base)
qed

lemma bigint_of_string_hex:
  assumes "\<And>c. c \<in> set s \<Longrightarrow> \<not> is_space c" "parse_nat 16 s = Some n"
  shows "bigint_of_string (''0x'' @ s) = Inr (int n)"
proof -
  have "\<not> is_space CHR ''0''" "\<not> is_space CHR ''x''" by code_simp+
  then have "trim (''0x'' @ s) = ''0x'' @ s"
    by (intro trim_id) (use assms in auto)
  then show ?thesis
    using assms(2) by (simp add: bigint_of_string_def Let_def)
qed

lemma show_int_of_nat [simp]: "show_int (int n) = show_base 10 n"
  by (simp add: show_int_def)

lemma bigint_of_string_show_int [simp]: "bigint_of_string (show_int i) = Inr i"
proof (cases "i < 0")
  case True
  let ?s = "show_base 10 (nat (- i))"
  have "\<not> is_space CHR ''-''" by code_simp
  moreover have "\<And>c. c \<in> set ?s \<Longrightarrow> \<not> is_space c"
    using show_base_chars [of 10 _ "nat (- i)"] digit_char_not_special by fastforce
  ultimately have "trim (CHR ''-'' # ?s) = CHR ''-'' # ?s"
    by (intro trim_id) auto
  then show ?thesis
    using True by (simp add: show_int_def bigint_of_string_def Let_def)
next
  case False
  then show ?thesis by (simp add: show_int_def)
qed

lemma join_Cons: "ps \<noteq> [] \<Longrightarrow> join sep (p # ps) = p @ sep @ join sep ps"
  by (cases ps) auto

lemma split_char_nonempty [simp]: "split_char c s \<noteq> []"
  by (induction s) (auto split: list.splits)

lemma join_split_char: "join [c] (split_char c s) = s"
proof (induction s)
  case (Cons x xs)
  then show ?case
    by (cases "split_char c xs"; cases "tl (split_char c xs)") (auto simp: join_Cons)
qed simp

end
