(* ===== verification/Encodings.thy ===== *)
theory Encodings
  imports Js_Text
begin

text \<open>
  \<open>packages/utils/src\<close>: \<open>fromHex\<close> and \<open>toHex\<close> (hex.ts), \<open>fromBase64\<close> and \<open>toBase64\<close> (b64.ts,
  with the platform's \<open>btoa\<close> and \<open>atob\<close>), \<open>chunk\<close> (chunk.ts).
\<close>

subsection \<open>Hexadecimal\<close>

text \<open>
  \<open>padded.match(/[0-9a-fA-F]{2}/g)?.map(parseInt)\<close>: the leftmost non-overlapping pairs of
  hexadecimal digits; a position where no pair starts is skipped.
\<close>

fun hex_matches :: "string \<Rightarrow> byte list" where
  "hex_matches (c # d # cs) =
     (case (digit_val c, digit_val d) of
        (Some h, Some l) \<Rightarrow> word_of_nat (16 * h + l) # hex_matches cs
      | _ \<Rightarrow> hex_matches (d # cs))"
| "hex_matches [c] = []"
| "hex_matches [] = []"

definition fromHex :: "string \<Rightarrow> byte list res" where
  "fromHex hexStr =
     (let normalized = (if startsWith hexStr ''0x'' then drop 2 hexStr else hexStr);
          padded = (if even (length normalized) then normalized else CHR ''0'' # normalized);
          intArr = hex_matches padded
      in if 2 * length intArr \<noteq> length padded
         then Inl (Error ''Invalid hex string'')
         else Inr intArr)"

definition toHex :: "byte list \<Rightarrow> string" where
  "toHex bytes = foldl (\<lambda>str b. str @ padStart 2 CHR ''0'' (show_base 16 (unat b))) [] bytes"

lemma digit_val_bound: "digit_val c = Some d \<Longrightarrow> d < 16"
  by (auto simp: digit_val_def Let_def split: if_splits)

lemma hex_matches_length: "2 * length (hex_matches s) \<le> length s"
proof (induction s rule: hex_matches.induct)
  case (1 c d cs)
  show ?case
  proof (cases "digit_val c = None \<or> digit_val d = None")
    case True
    then have "2 * length (hex_matches (d # cs)) \<le> length (d # cs)"
      using "1.IH" by (cases "digit_val c"; cases "digit_val d") auto
    with True show ?thesis by (auto split: option.splits)
  next
    case False
    then show ?thesis using "1.IH" by (cases "digit_val c"; cases "digit_val d") auto
  qed
qed auto

text \<open>The result has half the length exactly when every character is a digit.\<close>

lemma hex_matches_full:
  "even (length s) \<Longrightarrow> 2 * length (hex_matches s) = length s \<longleftrightarrow> list_all is_hex_char s"
proof (induction s rule: hex_matches.induct)
  case (1 c d cs)
  have le: "2 * length (hex_matches (d # cs)) \<le> Suc (length cs)"
    using hex_matches_length [of "d # cs"] by simp
  show ?case
    using "1.IH" "1.prems" le by (auto simp: is_hex_char_def split: option.splits)
qed (auto)

text \<open>The two digits of a byte.\<close>

lemma pad_byte_hex:
  assumes "n < 256"
  shows "padStart 2 CHR ''0'' (show_base 16 n) = [digit_char (n div 16), digit_char (n mod 16)]"
proof (cases "n < 16")
  case True
  moreover have "digit_char 0 = CHR ''0''" by code_simp
  ultimately show ?thesis by (simp add: padStart_def show_base.simps [of 16 n])
next
  case False
  with assms have "n div 16 < 16" by (simp add: less_mult_imp_div_less)
  with False show ?thesis
    by (simp add: padStart_def show_base.simps [of 16 n] show_base.simps [of 16 "n div 16"])
qed

fun hex_of :: "byte list \<Rightarrow> string" where
  "hex_of [] = []"
| "hex_of (b # bs) = digit_char (unat b div 16) # digit_char (unat b mod 16) # hex_of bs"

lemma toHex_hex_of: "toHex bs = hex_of bs"
proof -
  have "foldl (\<lambda>str b. str @ padStart 2 CHR ''0'' (show_base 16 (unat b))) acc bs = acc @ hex_of bs" for acc
    by (induction bs arbitrary: acc) (auto simp: pad_byte_hex)
  then show ?thesis by (simp add: toHex_def)
qed

lemma length_hex_of [simp]: "length (hex_of bs) = 2 * length bs"
  by (induction bs) auto

lemma hex_matches_hex_of: "hex_matches (hex_of bs) = bs"
proof (induction bs)
  case (Cons b bs)
  have "unat b div 16 < 16" by (simp add: less_mult_imp_div_less)
  moreover have "(word_of_nat (16 * (unat b div 16) + unat b mod 16) :: byte) = b"
    by (simp only: mult_div_mod_eq) simp
  ultimately show ?case using Cons by simp
qed simp

lemma hex_of_chars: "c \<in> set (hex_of bs) \<Longrightarrow> \<exists>d < 16. c = digit_char d"
proof (induction bs)
  case (Cons b bs)
  have "unat b div 16 < 16" "unat b mod 16 < 16" by (simp_all add: less_mult_imp_div_less)
  moreover have "c = digit_char (unat b div 16) \<or> c = digit_char (unat b mod 16) \<or> c \<in> set (hex_of bs)"
    using Cons.prems by simp
  ultimately show ?case using Cons.IH by blast
qed simp

lemma hex_of_no_prefix: "\<not> startsWith (hex_of bs) ''0x''"
proof
  assume "startsWith (hex_of bs) ''0x''"
  then have "CHR ''x'' \<in> set (hex_of bs)" using startsWith_chars by fastforce
  then show False using hex_of_chars digit_char_not_special by fastforce
qed

lemma fromHex_toHex: "fromHex (toHex bs) = Inr bs"
  using hex_of_no_prefix [of bs]
  by (simp add: fromHex_def toHex_hex_of hex_matches_hex_of Let_def)

lemma fromHex_0x_toHex: "fromHex (''0x'' @ toHex bs) = Inr bs"
  by (simp add: fromHex_def toHex_hex_of hex_matches_hex_of Let_def)

subsection \<open>Base64\<close>

definition b64_char :: "nat \<Rightarrow> char" where
  "b64_char i = char_of (if i < 26 then i + 65 else if i < 52 then i + 71 else if i < 62 then i - 4
                         else if i = 62 then 43 else 47)"

definition b64_val :: "char \<Rightarrow> nat option" where
  "b64_val c =
     (let n = (of_char c :: nat) in
      if 65 \<le> n \<and> n \<le> 90 then Some (n - 65)
      else if 97 \<le> n \<and> n \<le> 122 then Some (n - 71)
      else if 48 \<le> n \<and> n \<le> 57 then Some (n + 4)
      else if n = 43 then Some 62
      else if n = 47 then Some 63
      else None)"

text \<open>\<open>btoa\<close> on the code units of a binary string.\<close>

fun btoa :: "nat list \<Rightarrow> string" where
  "btoa [] = []"
| "btoa [a] = [b64_char (a div 4), b64_char (a mod 4 * 16), CHR ''='', CHR ''='']"
| "btoa [a, b] = [b64_char (a div 4), b64_char (a mod 4 * 16 + b div 16),
                  b64_char (b mod 16 * 4), CHR ''='']"
| "btoa (a # b # c # r) =
     b64_char (a div 4) # b64_char (a mod 4 * 16 + b div 16)
       # b64_char (b mod 16 * 4 + c div 64) # b64_char (c mod 64) # btoa r"

text \<open>\<open>atob\<close>: forgiving-base64 decode.\<close>

fun b64_groups :: "nat list \<Rightarrow> nat list res" where
  "b64_groups [] = Inr []"
| "b64_groups [p] = Inl (Error ''InvalidCharacterError'')"
| "b64_groups [p, q] = Inr [p * 4 + q div 16]"
| "b64_groups [p, q, r] = Inr [p * 4 + q div 16, q mod 16 * 16 + r div 4]"
| "b64_groups (p # q # r # s # ts) =
     rmap (\<lambda>ns. (p * 4 + q div 16) # (q mod 16 * 16 + r div 4) # (r mod 4 * 64 + s) # ns)
       (b64_groups ts)"

text \<open>The ASCII whitespace that \<open>atob\<close> skips.\<close>

definition is_ascii_space :: "char \<Rightarrow> bool" where
  "is_ascii_space c \<longleftrightarrow> (let n = (of_char c :: nat) in n = 32 \<or> n = 9 \<or> n = 10 \<or> n = 12 \<or> n = 13)"

definition strip_padding :: "string \<Rightarrow> string" where
  "strip_padding s =
     (if length s mod 4 \<noteq> 0 then s
      else if drop (length s - 2) s = ''=='' then take (length s - 2) s
      else if drop (length s - 1) s = ''='' then take (length s - 1) s
      else s)"

definition atob :: "string \<Rightarrow> nat list res" where
  "atob str =
     (let s = strip_padding (filter (\<lambda>c. \<not> is_ascii_space c) str)
      in case those (map b64_val s) of
           None \<Rightarrow> Inl (Error ''InvalidCharacterError'')
         | Some ns \<Rightarrow> b64_groups ns)"

definition fromBase64 :: "string \<Rightarrow> byte list res" where
  "fromBase64 base64String = rmap (map word_of_nat) (atob base64String)"

definition CHUNK_SIZE :: nat where
  "CHUNK_SIZE = 8192"

text \<open>The loop \<open>for (i = 0; i < bytes.length; i += CHUNK_SIZE)\<close> that builds the binary string.\<close>

function b64_output :: "byte list \<Rightarrow> nat \<Rightarrow> nat list \<Rightarrow> nat list" where
  "b64_output bytes i output =
     (if i < length bytes
      then b64_output bytes (i + CHUNK_SIZE) (output @ map unat (take CHUNK_SIZE (drop i bytes)))
      else output)"
  by pat_completeness auto
termination
  by (relation "measure (\<lambda>(bytes, i, _). length bytes - i)") (auto simp: CHUNK_SIZE_def)

declare b64_output.simps [simp del]

definition toBase64 :: "byte list \<Rightarrow> string" where
  "toBase64 bytes =
     (if length bytes < CHUNK_SIZE then btoa (map unat bytes)
      else btoa (b64_output bytes 0 []))"

lemma b64_output_eq: "b64_output bytes i out = out @ map unat (drop i bytes)"
proof (induction bytes i out rule: b64_output.induct)
  case (1 bytes i out)
  show ?case
  proof (cases "i < length bytes")
    case True
    have "take CHUNK_SIZE (drop i bytes) @ drop (i + CHUNK_SIZE) bytes = drop i bytes"
      by (metis append_take_drop_id drop_drop add.commute)
    then show ?thesis
      using True 1 by (simp add: b64_output.simps [of bytes i out] flip: map_append)
  qed (simp add: b64_output.simps [of bytes i out])
qed

text \<open>Working chunk by chunk does not change the encoding.\<close>

lemma toBase64_eq_btoa: "toBase64 bytes = btoa (map unat bytes)"
  by (simp add: toBase64_def b64_output_eq)

lemma b64_val_char [simp]: "i < 64 \<Longrightarrow> b64_val (b64_char i) = Some i"
  by (auto simp: b64_val_def b64_char_def Let_def)

lemma b64_val_not: "b64_val c = Some i \<Longrightarrow> c \<noteq> CHR ''='' \<and> \<not> is_ascii_space c"
  by (auto simp: b64_val_def is_ascii_space_def Let_def split: if_splits)

lemma b64_char_not_pad: "i < 64 \<Longrightarrow> b64_char i \<noteq> CHR ''=''"
  using b64_val_char b64_val_not by blast

text \<open>The characters of an encoding, without its padding.\<close>

fun btoa_sextets :: "nat list \<Rightarrow> nat list" where
  "btoa_sextets [] = []"
| "btoa_sextets [a] = [a div 4, a mod 4 * 16]"
| "btoa_sextets [a, b] = [a div 4, a mod 4 * 16 + b div 16, b mod 16 * 4]"
| "btoa_sextets (a # b # c # r) =
     a div 4 # (a mod 4 * 16 + b div 16) # (b mod 16 * 4 + c div 64) # c mod 64 # btoa_sextets r"

definition b64_pad :: "nat \<Rightarrow> string" where
  "b64_pad n = (if n mod 3 = 1 then ''=='' else if n mod 3 = 2 then ''='' else [])"

lemma btoa_split: "btoa ns = map b64_char (btoa_sextets ns) @ b64_pad (length ns)"
  by (induction ns rule: btoa.induct) (auto simp: b64_pad_def)

lemma btoa_sextets_bound: "\<forall>n \<in> set ns. n < 256 \<Longrightarrow> \<forall>i \<in> set (btoa_sextets ns). i < 64"
  by (induction ns rule: btoa_sextets.induct) (auto simp: less_mult_imp_div_less)

lemma length_btoa: "4 dvd length (btoa ns)"
  by (induction ns rule: btoa.induct) (simp_all, presburger+)

lemma b64_groups_sextets: "\<forall>n \<in> set ns. n < 256 \<Longrightarrow> b64_groups (btoa_sextets ns) = Inr ns"
proof (induction ns rule: btoa_sextets.induct)
  case (2 a)
  then show ?case by simp
next
  case (3 a b)
  then have "b div 16 < 16" by (auto simp: less_mult_imp_div_less)
  with 3 show ?case by simp
next
  case (4 a b c r)
  then have "b div 16 < 16" "c div 64 < 4" by (auto simp: less_mult_imp_div_less)
  with 4 show ?case by (simp add: mod_mult2_eq)
qed simp

lemma strip_padding_btoa: 
  assumes "\<forall>n \<in> set ns. n < 256"
  shows "strip_padding (btoa ns) = map b64_char (btoa_sextets ns)"
proof -
  let ?m = "map b64_char (btoa_sextets ns)" and ?p = "b64_pad (length ns)"
  have len: "length (?m @ ?p) mod 4 = 0"
    using length_btoa [of ns] btoa_split [of ns] by (simp add: dvd_eq_mod_eq_0)
  have np: "c \<noteq> CHR ''=''" if "c \<in> set ?m" for c
    using that btoa_sextets_bound [OF assms] b64_char_not_pad by auto
  consider "?p = []" | "?p = ''=''" | "?p = ''==''" by (metis b64_pad_def)
  then show ?thesis
  proof cases
    case 1
    have no_pad: "drop (length ?m - k) ?m \<noteq> replicate k CHR ''=''" if "0 < k" "k \<le> length ?m" for k
    proof
      assume "drop (length ?m - k) ?m = replicate k CHR ''=''"
      then have "CHR ''='' \<in> set (drop (length ?m - k) ?m)" using that(1) by simp
      then show False using np in_set_dropD by metis
    qed
    show ?thesis
    proof (cases "?m = []")
      case True
      with 1 show ?thesis by (simp add: strip_padding_def btoa_split)
    next
      case False
      have aux: "0 < k \<Longrightarrow> k mod 4 = 0 \<Longrightarrow> 2 \<le> k" for k :: nat by presburger
      have "2 \<le> length ?m"
        by (rule aux) (use False 1 len in simp_all)
      then have "drop (length ?m - 1) ?m \<noteq> ''=''" "drop (length ?m - 2) ?m \<noteq> ''==''"
        using no_pad [of 1] no_pad [of 2] by (simp_all add: numeral_2_eq_2)
      then show ?thesis
        using 1 by (simp add: strip_padding_def btoa_split del: length_map)
    qed
  next
    case 2
    have "last ?m \<noteq> CHR ''=''" if "?m \<noteq> []" using np that last_in_set by blast
    with 2 len show ?thesis
      by (cases "?m" rule: rev_cases) (auto simp: strip_padding_def btoa_split)
  next
    case 3
    with len show ?thesis by (simp add: strip_padding_def btoa_split)
  qed
qed

lemma those_map_Some: "(\<And>x. x \<in> set xs \<Longrightarrow> f x = Some (g x)) \<Longrightarrow> those (map f xs) = Some (map g xs)"
  by (induction xs) auto

lemma atob_btoa:
  assumes "\<forall>n \<in> set ns. n < 256"
  shows "atob (btoa ns) = Inr ns"
proof -
  have bound: "i < 64" if "i \<in> set (btoa_sextets ns)" for i
    using that btoa_sextets_bound [OF assms] by blast
  have "filter (\<lambda>c. \<not> is_ascii_space c) (btoa ns) = btoa ns"
  proof -
    have "\<not> is_ascii_space CHR ''=''" by code_simp
    moreover have "\<not> is_ascii_space (b64_char i)" if "i < 64" for i
      using that b64_val_char b64_val_not by blast
    ultimately show ?thesis
      using bound by (auto simp: btoa_split b64_pad_def intro!: filter_True)
  qed
  moreover have "those (map b64_val (map b64_char (btoa_sextets ns))) = Some (btoa_sextets ns)"
    using those_map_Some [of "btoa_sextets ns" "b64_val \<circ> b64_char" id] bound by simp
  ultimately show ?thesis
    using b64_groups_sextets [OF assms] strip_padding_btoa [OF assms] by (simp add: atob_def)
qed

lemma fromBase64_toBase64: "fromBase64 (toBase64 bs) = Inr bs"
  by (simp add: fromBase64_def toBase64_eq_btoa atob_btoa map_idI)

subsection \<open>Chunks\<close>

text \<open>
  \<open>Array.from({length: Math.ceil(array.length / size)}, (_, i) => array.slice(i * size, (i + 1) * size))\<close>.
  A zero size gives \<open>0 / 0 = NaN\<close> for an empty array (no chunk) and an infinite length otherwise.
\<close>

definition chunk :: "'a list \<Rightarrow> nat \<Rightarrow> 'a list list res" where
  "chunk array n =
     (if n = 0 then (if array = [] then Inr [] else Inl (RangeError ''Invalid array length''))
      else Inr (map (\<lambda>i. take n (drop (i * n) array))
                  [0..<(length array + n - 1) div n]))"

lemma take_drop_blocks: "concat (map (\<lambda>i. take n (drop (i * n) xs)) [0..<k]) = take (k * n) xs"
proof (induction k)
  case (Suc k)
  then show ?case by (simp add: take_add [symmetric] add.commute)
qed simp

end
