(* ===== verification/Bcs_Writer.thy ===== *)
theory Bcs_Writer
  imports Uleb Encodings
begin

text \<open>
  \<open>packages/bcs/src/writer.ts\<close>: \<open>BcsWriter\<close>. The record holds the private fields; \<open>w_buf\<close> is the
  \<open>ArrayBuffer\<close> under \<open>dataView\<close>, and \<open>w_max = None\<close> is \<open>Infinity\<close>. The locale \<open>byte_sink\<close>
  is what the serializers need of a writer; it is interpreted on \<open>write8\<close>.
\<close>

record writer =
  w_buf :: "byte list"
  w_pos :: nat
  w_size :: nat
  w_max :: "nat option"
  w_alloc :: nat

record writer_options =
  o_initialSize :: "nat option"
  o_maxSize :: "nat option"
  o_allocateSize :: "nat option"

definition no_options :: writer_options where
  "no_options = \<lparr>o_initialSize = None, o_maxSize = None, o_allocateSize = None\<rparr>"

definition new_writer :: "writer_options \<Rightarrow> writer" where
  "new_writer opts =
     (let initialSize = (case o_initialSize opts of None \<Rightarrow> 1024 | Some n \<Rightarrow> n)
      in \<lparr>w_buf = replicate initialSize 0, w_pos = 0, w_size = initialSize, w_max = o_maxSize opts,
          w_alloc = (case o_allocateSize opts of None \<Rightarrow> 1024 | Some n \<Rightarrow> n)\<rparr>)"

definition not_enough_size :: js_error where
  "not_enough_size = Error ''Attempting to serialize to BCS, but buffer does not have enough size.''"

definition ensureSizeOrGrow :: "writer \<Rightarrow> nat \<Rightarrow> writer res" where
  "ensureSizeOrGrow w bytes =
     (let requiredSize = w_pos w + bytes in
      if requiredSize > w_size w then
        (let want = max (w_size w + requiredSize) (w_size w + w_alloc w);
             nextSize = (case w_max w of None \<Rightarrow> want | Some m \<Rightarrow> min m want)
         in if requiredSize > nextSize then Inl not_enough_size
            else if length (w_buf w) > nextSize then Inl (RangeError ''offset is out of bounds'')
            else Inr (w\<lparr>w_size := nextSize,
                        w_buf := w_buf w @ replicate (nextSize - length (w_buf w)) 0\<rparr>))
      else Inr w)"

definition w_shift :: "writer \<Rightarrow> nat \<Rightarrow> writer" where
  "w_shift w bytes = w\<lparr>w_pos := w_pos w + bytes\<rparr>"

text \<open>\<open>dataView.setUintN(pos, value, true)\<close>: the bytes go in at \<open>pos\<close>, out of range throws.\<close>

definition set_view :: "writer \<Rightarrow> nat \<Rightarrow> byte list \<Rightarrow> writer res" where
  "set_view w pos bs =
     (if pos + length bs > length (w_buf w) then Inl (RangeError ''Offset is outside the bounds of the DataView'')
      else Inr (w\<lparr>w_buf := take pos (w_buf w) @ bs @ drop (pos + length bs) (w_buf w)\<rparr>))"

definition write8 :: "writer \<Rightarrow> int \<Rightarrow> writer res" where
  "write8 w v =
     rbind (ensureSizeOrGrow w 1) (\<lambda>w.
     rbind (set_view w (w_pos w) [word_of_int v]) (\<lambda>w. Inr (w_shift w 1)))"

definition write16 :: "writer \<Rightarrow> int \<Rightarrow> writer res" where
  "write16 w v =
     rbind (ensureSizeOrGrow w 2) (\<lambda>w.
     rbind (set_view w (w_pos w) (le_bytes 2 (nat (v mod 2 ^ 16)))) (\<lambda>w. Inr (w_shift w 2)))"

definition write32 :: "writer \<Rightarrow> int \<Rightarrow> writer res" where
  "write32 w v =
     rbind (ensureSizeOrGrow w 4) (\<lambda>w.
     rbind (set_view w (w_pos w) (le_bytes 4 (nat (v mod 2 ^ 32)))) (\<lambda>w. Inr (w_shift w 4)))"

text \<open>The loop \<open>for (i ...) this.dataView.setUint8(this.bytePosition + i, bytes[i])\<close>.\<close>

fun set_bytes :: "writer \<Rightarrow> nat \<Rightarrow> byte list \<Rightarrow> writer res" where
  "set_bytes w i [] = Inr w"
| "set_bytes w i (b # bs) = rbind (set_view w (w_pos w + i) [b]) (\<lambda>w. set_bytes w (i + 1) bs)"

definition writeBytes :: "writer \<Rightarrow> byte list \<Rightarrow> writer res" where
  "writeBytes w bytes =
     rbind (ensureSizeOrGrow w (length bytes)) (\<lambda>w.
     rbind (set_bytes w 0 bytes) (\<lambda>w. Inr (w_shift w (length bytes))))"

text \<open>
  \<open>toLittleEndian\<close>: the loop over the bytes of a BigInt. A store past the end of the
  \<open>Uint8Array\<close> is ignored, as \<open>list_update\<close> ignores it.
\<close>

function toLittleEndian_loop :: "int \<Rightarrow> nat \<Rightarrow> byte list \<Rightarrow> byte list" where
  "toLittleEndian_loop bigint i result =
     (if bigint > 0
      then toLittleEndian_loop (bigint div 256) (i + 1) (result[i := word_of_int (bigint mod 256)])
      else result)"
  by pat_completeness auto
termination
  by (relation "measure (\<lambda>(bigint, _, _). nat bigint)") auto

declare toLittleEndian_loop.simps [simp del]

definition toLittleEndian :: "int \<Rightarrow> nat \<Rightarrow> byte list" where
  "toLittleEndian bigint n = toLittleEndian_loop bigint 0 (replicate n 0)"

text \<open>\<open>bytes.forEach((el) => this.write8(el))\<close>.\<close>

definition write8_all :: "writer \<Rightarrow> byte list \<Rightarrow> writer res" where
  "write8_all w bs = rfold (\<lambda>w b. write8 w (uint b)) w bs"

definition write64 :: "writer \<Rightarrow> int \<Rightarrow> writer res" where
  "write64 w v = write8_all w (toLittleEndian v 8)"

definition write128 :: "writer \<Rightarrow> int \<Rightarrow> writer res" where
  "write128 w v = write8_all w (toLittleEndian v 16)"

definition write256 :: "writer \<Rightarrow> int \<Rightarrow> writer res" where
  "write256 w v = write8_all w (toLittleEndian v 32)"

definition writeULEB :: "writer \<Rightarrow> int \<Rightarrow> writer res" where
  "writeULEB w v = write8_all w (ulebEncode v)"

definition writeVec :: "writer \<Rightarrow> 'a list \<Rightarrow> (writer \<Rightarrow> 'a \<Rightarrow> nat \<Rightarrow> nat \<Rightarrow> writer res) \<Rightarrow> writer res" where
  "writeVec w vector cb =
     rbind (writeULEB w (int (length vector))) (\<lambda>w.
       rfold (\<lambda>w (i, el). cb w el i (length vector)) w (enumerate 0 vector))"

definition w_toBytes :: "writer \<Rightarrow> byte list" where
  "w_toBytes w = take (w_pos w) (w_buf w)"

datatype encoding = Base58 | Base64 | Hex

text \<open>\<open>encodeStr\<close> of utils.ts; base58 comes from the package \<open>@scure/base\<close> and is a parameter.\<close>

definition encodeStr :: "(byte list \<Rightarrow> string) \<Rightarrow> byte list \<Rightarrow> encoding \<Rightarrow> string" where
  "encodeStr toBase58 bytes enc =
     (case enc of Base58 \<Rightarrow> toBase58 bytes | Base64 \<Rightarrow> toBase64 bytes | Hex \<Rightarrow> toHex bytes)"

definition w_toString :: "(byte list \<Rightarrow> string) \<Rightarrow> writer \<Rightarrow> encoding \<Rightarrow> string" where
  "w_toString toBase58 w enc = encodeStr toBase58 (w_toBytes w) enc"

subsection \<open>What a write does, seen from the bytes written so far\<close>

definition winv :: "writer \<Rightarrow> bool" where
  "winv w \<longleftrightarrow> length (w_buf w) = w_size w \<and> w_pos w \<le> w_size w"

text \<open>
  \<open>emits w bs r\<close>: the outcome \<open>r\<close> of an operation on \<open>w\<close> is either the writer with \<open>bs\<close>
  appended to its bytes, or an error because \<open>maxSize\<close> does not allow that many bytes.
\<close>

definition emits :: "writer \<Rightarrow> byte list \<Rightarrow> writer res \<Rightarrow> bool" where
  "emits w bs r =
     (case r of
        Inr w' \<Rightarrow> winv w' \<and> w_max w' = w_max w \<and> w_toBytes w' = w_toBytes w @ bs
      | Inl e \<Rightarrow> (\<exists>m. w_max w = Some m \<and> m < w_pos w + length bs))"

lemma winv_new_writer [simp]: "winv (new_writer opts)"
  by (simp add: winv_def new_writer_def Let_def)

lemma w_toBytes_new_writer [simp]: "w_toBytes (new_writer opts) = []"
  by (simp add: w_toBytes_def new_writer_def Let_def)

lemma w_max_new_writer [simp]: "w_max (new_writer opts) = o_maxSize opts"
  by (simp add: new_writer_def Let_def)

lemma length_w_toBytes: "winv w \<Longrightarrow> length (w_toBytes w) = w_pos w"
  by (simp add: winv_def w_toBytes_def)

lemma emits_nil [simp]: "winv w \<Longrightarrow> emits w [] (Inr w)"
  by (simp add: emits_def)

text \<open>Sequencing two writes.\<close>

lemma emits_bind:
  assumes "winv w" "emits w bs r" "\<And>w'. winv w' \<Longrightarrow> emits w' cs (f w')"
  shows "emits w (bs @ cs) (rbind r f)"
proof (cases r)
  case (Inl e)
  with assms(2) show ?thesis by (auto simp: emits_def)
next
  case (Inr w')
  with assms(2) have w': "winv w'" "w_max w' = w_max w" "w_toBytes w' = w_toBytes w @ bs"
    by (auto simp: emits_def)
  have pos: "w_pos w' = w_pos w + length bs"
    using w' assms(1) length_w_toBytes by (metis length_append)
  show ?thesis
    using assms(3) [OF w'(1)] w' pos Inr by (cases "f w'") (auto simp: emits_def)
qed

lemma emits_rfold:
  assumes "winv w" "\<And>w x. winv w \<Longrightarrow> x \<in> set xs \<Longrightarrow> emits w (enc x) (f w x)"
  shows "emits w (concat (map enc xs)) (rfold f w xs)"
  using assms
proof (induction xs arbitrary: w)
  case (Cons x xs)
  then show ?case by (auto intro!: emits_bind)
qed simp

lemma emits_InrD: "emits w bs (Inr w') \<Longrightarrow> winv w' \<and> w_max w' = w_max w \<and> w_toBytes w' = w_toBytes w @ bs"
  by (simp add: emits_def)

lemma emits_unbounded: "emits w bs r \<Longrightarrow> w_max w = None \<Longrightarrow> \<exists>w'. r = Inr w' \<and> winv w' \<and> w_toBytes w' = w_toBytes w @ bs"
  by (cases r) (auto simp: emits_def)

subsection \<open>The primitive writes\<close>

lemma ensure_ok:
  assumes "winv w" "ensureSizeOrGrow w n = Inr w'"
  shows "winv w' \<and> w_pos w' = w_pos w \<and> w_max w' = w_max w \<and> w_pos w + n \<le> w_size w'
         \<and> take (w_pos w) (w_buf w') = take (w_pos w) (w_buf w)"
  using assms by (auto simp: ensureSizeOrGrow_def winv_def Let_def split: if_splits option.splits)

lemma ensure_fails:
  assumes "winv w" "ensureSizeOrGrow w n = Inl e"
  shows "\<exists>m. w_max w = Some m \<and> m < w_pos w + n"
  using assms by (auto simp: ensureSizeOrGrow_def winv_def Let_def split: if_splits option.splits)

text \<open>A primitive write: make room, store the bytes at the cursor, advance.\<close>

lemma emits_primitive:
  assumes "winv w"
  shows "emits w bs (rbind (ensureSizeOrGrow w (length bs)) (\<lambda>w.
           rbind (set_view w (w_pos w) bs) (\<lambda>w. Inr (w_shift w (length bs)))))"
proof (cases "ensureSizeOrGrow w (length bs)")
  case (Inl e)
  then show ?thesis using ensure_fails [OF assms] by (auto simp: emits_def)
next
  case (Inr w')
  then show ?thesis
    using ensure_ok [OF assms Inr] assms
    by (auto simp: emits_def winv_def set_view_def w_shift_def w_toBytes_def)
qed

lemma emits_write8: "winv w \<Longrightarrow> emits w [word_of_int v] (write8 w v)"
  using emits_primitive [of w "[word_of_int v]"] by (simp add: write8_def)

lemma emits_write16: "winv w \<Longrightarrow> emits w (le_bytes 2 (nat (v mod 2 ^ 16))) (write16 w v)"
  using emits_primitive [of w "le_bytes 2 (nat (v mod 2 ^ 16))"] by (simp add: write16_def)

lemma emits_write32: "winv w \<Longrightarrow> emits w (le_bytes 4 (nat (v mod 2 ^ 32))) (write32 w v)"
  using emits_primitive [of w "le_bytes 4 (nat (v mod 2 ^ 32))"] by (simp add: write32_def)

subsection \<open>Byte sinks\<close>

text \<open>
  The interface \<open>write64\<close>, \<open>writeULEB\<close> and the serializers use: \<open>put\<close> one byte, which either appends
  it to \<open>content\<close> or fails because of a bound.
\<close>

locale byte_sink =
  fixes ok :: "'w \<Rightarrow> bool"
    and content :: "'w \<Rightarrow> byte list"
    and bound :: "'w \<Rightarrow> nat option"
    and put :: "'w \<Rightarrow> byte \<Rightarrow> 'w res"
  assumes put_ok: "ok w \<Longrightarrow> put w b = Inr w' \<Longrightarrow> ok w' \<and> content w' = content w @ [b] \<and> bound w' = bound w"
    and put_fails: "ok w \<Longrightarrow> put w b = Inl e \<Longrightarrow> \<exists>m. bound w = Some m \<and> m < Suc (length (content w))"
begin

lemma put_all_ok:
  "ok w \<Longrightarrow> rfold put w bs = Inr w' \<Longrightarrow> ok w' \<and> content w' = content w @ bs \<and> bound w' = bound w"
proof (induction bs arbitrary: w)
  case (Cons b bs)
  then obtain w1 where w1: "put w b = Inr w1" "rfold put w1 bs = Inr w'" by (auto simp: res_simps)
  with Cons.prems put_ok have "ok w1" "content w1 = content w @ [b]" "bound w1 = bound w" by auto
  with Cons.IH [of w1] w1 show ?case by simp
qed simp

lemma put_all_fails:
  "ok w \<Longrightarrow> rfold put w bs = Inl e \<Longrightarrow> \<exists>m. bound w = Some m \<and> m < length (content w) + length bs"
proof (induction bs arbitrary: w)
  case (Cons b bs)
  then consider "put w b = Inl e" | w1 where "put w b = Inr w1" "rfold put w1 bs = Inl e"
    by (auto simp: rbind_eq_Inl)
  then show ?case
  proof cases
    case 1
    with put_fails Cons.prems(1) show ?thesis by fastforce
  next
    case (2 w1)
    with put_ok Cons.prems(1) have "ok w1" "content w1 = content w @ [b]" "bound w1 = bound w" by auto
    with Cons.IH [of w1] 2 show ?thesis by auto
  qed
qed simp

end

lemma word_of_int_uint_byte [simp]: "(word_of_int (uint (b :: byte)) :: byte) = b"
  by simp

lemma write8_cases:
  assumes "winv w"
  shows "write8 w (uint b) = Inr w' \<Longrightarrow> winv w' \<and> w_toBytes w' = w_toBytes w @ [b] \<and> w_max w' = w_max w"
    and "write8 w (uint b) = Inl e \<Longrightarrow> \<exists>m. w_max w = Some m \<and> m < Suc (length (w_toBytes w))"
  using emits_write8 [OF assms, of "uint b"] length_w_toBytes [OF assms]
  by (auto simp: emits_def)

interpretation writer_sink: byte_sink winv w_toBytes w_max "\<lambda>w b. write8 w (uint b)"
  by unfold_locales (use write8_cases in auto)

lemma emits_write8_all: "winv w \<Longrightarrow> emits w bs (write8_all w bs)"
  using writer_sink.put_all_ok [of w bs] writer_sink.put_all_fails [of w bs] length_w_toBytes [of w]
  by (cases "write8_all w bs") (auto simp: emits_def write8_all_def)

lemma set_bytes_eq:
  "w_pos w + i + length bs \<le> length (w_buf w) \<Longrightarrow>
   set_bytes w i bs =
     Inr (w\<lparr>w_buf := take (w_pos w + i) (w_buf w) @ bs @ drop (w_pos w + i + length bs) (w_buf w)\<rparr>)"
proof (induction bs arbitrary: w i)
  case (Cons b bs)
  let ?w = "w\<lparr>w_buf := take (w_pos w + i) (w_buf w) @ [b] @ drop (w_pos w + i + 1) (w_buf w)\<rparr>"
  have "w_pos ?w + (i + 1) + length bs \<le> length (w_buf ?w)" using Cons.prems by simp
  from Cons.IH [OF this] Cons.prems show ?case
    by (simp add: set_view_def min_absorb2 add.commute add.left_commute)
qed simp

lemma emits_writeBytes:
  assumes "winv w"
  shows "emits w bs (writeBytes w bs)"
proof (cases "bs = []")
  case True
  then have "ensureSizeOrGrow w 0 = Inr w" using assms by (simp add: ensureSizeOrGrow_def winv_def)
  with True assms show ?thesis by (simp add: writeBytes_def emits_def w_shift_def)
next
  case False
  have "set_bytes w' 0 bs = set_view w' (w_pos w') bs" if "ensureSizeOrGrow w (length bs) = Inr w'" for w'
    using ensure_ok [OF assms that] False
    by (subst set_bytes_eq) (auto simp: winv_def set_view_def)
  then have "writeBytes w bs = rbind (ensureSizeOrGrow w (length bs)) (\<lambda>w.
           rbind (set_view w (w_pos w) bs) (\<lambda>w. Inr (w_shift w (length bs))))"
    by (cases "ensureSizeOrGrow w (length bs)") (auto simp: writeBytes_def)
  then show ?thesis using emits_primitive [OF assms, of bs] by simp
qed

lemma toLittleEndian_loop_eq:
  "i \<le> length result \<Longrightarrow> drop i result = replicate (length result - i) 0 \<Longrightarrow>
   toLittleEndian_loop (int v) i result = take i result @ le_bytes (length result - i) v"
proof (induction v arbitrary: i result rule: less_induct)
  case (less v)
  have zeros: "le_bytes n 0 = replicate n 0" for n by (induction n) auto
  show ?case
  proof (cases "v = 0")
    case True
    with less.prems show ?thesis
      by (simp add: toLittleEndian_loop.simps [of 0] zeros flip: less.prems(2))
  next
    case False
    then have lt: "v div 256 < v" by simp
    let ?b = "word_of_int (int v mod 256) :: byte"
    have b: "?b = word_of_nat v"
      by (metis byte_of_unat_mod of_int_of_nat_eq of_nat_mod of_nat_numeral)
    have step: "toLittleEndian_loop (int v) i result = toLittleEndian_loop (int (v div 256)) (i + 1) (result[i := ?b])"
      using False by (subst toLittleEndian_loop.simps) (simp add: zdiv_int)
    show ?thesis
    proof (cases "i < length result")
      case True
      then have "drop (i + 1) (result[i := ?b]) = replicate (length result - (i + 1)) 0"
      proof -
        have "drop (i + 1) (result[i := ?b]) = drop 1 (drop i result)" by (simp add: drop_update_cancel)
        also have "\<dots> = replicate (length result - (i + 1)) 0" by (simp add: less.prems(2))
        finally show ?thesis .
      qed
      then have "toLittleEndian_loop (int (v div 256)) (i + 1) (result[i := ?b])
                 = take (i + 1) (result[i := ?b]) @ le_bytes (length result - (i + 1)) (v div 256)"
        using less.IH [OF lt, of "i + 1" "result[i := ?b]"] True by simp
      moreover have "take (i + 1) (result[i := ?b]) = take i result @ [?b]"
        using True by (simp add: take_Suc_conv_app_nth)
      moreover have "length result - i = Suc (length result - (i + 1))" using True by simp
      ultimately show ?thesis using step b by simp
    next
      case False
      then have i: "i = length result" using less.prems by simp
      have "toLittleEndian_loop (int w) j result = result" if "length result \<le> j" for w j
        using that
      proof (induction w arbitrary: j rule: less_induct)
        case (less w)
        show ?case
        proof (cases "w = 0")
          case False
          then have "toLittleEndian_loop (int (w div 256)) (j + 1) result = result"
            using less by simp
          with less.prems False show ?thesis
            by (subst toLittleEndian_loop.simps) (simp add: zdiv_int list_update_beyond)
        qed (simp add: toLittleEndian_loop.simps)
      qed
      with i show ?thesis by simp
    qed
  qed
qed

lemma toLittleEndian_nat: "toLittleEndian (int v) n = le_bytes n v"
  using toLittleEndian_loop_eq [of 0 "replicate n 0" v] by (simp add: toLittleEndian_def)

lemma emits_write64: "winv w \<Longrightarrow> emits w (le_bytes 8 v) (write64 w (int v))"
  by (simp add: write64_def toLittleEndian_nat emits_write8_all)

lemma emits_write128: "winv w \<Longrightarrow> emits w (le_bytes 16 v) (write128 w (int v))"
  by (simp add: write128_def toLittleEndian_nat emits_write8_all)

lemma emits_write256: "winv w \<Longrightarrow> emits w (le_bytes 32 v) (write256 w (int v))"
  by (simp add: write256_def toLittleEndian_nat emits_write8_all)

lemma emits_writeULEB: "winv w \<Longrightarrow> emits w (ulebEncode v) (writeULEB w v)"
  by (simp add: writeULEB_def emits_write8_all)

lemmas emits_intros =
  emits_write8 emits_write16 emits_write32 emits_write64 emits_write128 emits_write256
  emits_writeULEB emits_writeBytes

lemma emits_writeVec:
  assumes "winv w" "\<And>w i el. winv w \<Longrightarrow> el \<in> set vector \<Longrightarrow> emits w (enc el) (cb w el i (length vector))"
  shows "emits w (ulebEncode (int (length vector)) @ concat (map enc vector)) (writeVec w vector cb)"
proof -
  have "emits w' (concat (map (\<lambda>(i, el). enc el) (enumerate 0 vector)))
          (rfold (\<lambda>w (i, el). cb w el i (length vector)) w' (enumerate 0 vector))" if "winv w'" for w'
  proof (rule emits_rfold [OF that])
    fix w x assume "winv w" "x \<in> set (enumerate 0 vector)"
    then show "emits w (case x of (i, el) \<Rightarrow> enc el) (case x of (i, el) \<Rightarrow> cb w el i (length vector))"
      using assms(2) by (cases x) (auto simp: in_set_enumerate_eq)
  qed
  moreover have "map (\<lambda>(i, el). enc el) (enumerate 0 vector) = map enc vector"
    by (simp add: case_prod_unfold flip: map_map [of enc snd, unfolded comp_def])
  ultimately show ?thesis
    unfolding writeVec_def by (intro emits_bind emits_writeULEB) (auto simp: assms(1))
qed

end
