(* ===== verification/Bcs_Reader.thy ===== *)
theory Bcs_Reader
  imports Uleb Js_Text
begin

text \<open>
  \<open>packages/bcs/src/reader.ts\<close>: \<open>BcsReader\<close>. The \<open>DataView\<close> is a window (\<open>r_offset\<close>,
  \<open>r_length\<close>) on an \<open>ArrayBuffer\<close> \<open>r_buffer\<close>, which may be longer than the window: \<open>readN\<close>
  checks the window, while \<open>readBytes\<close> and \<open>readULEB\<close> make a new \<open>Uint8Array\<close> on the whole buffer.
\<close>

record reader =
  r_buffer :: "byte list"
  r_offset :: nat
  r_length :: nat
  r_pos :: nat

text \<open>A \<open>Uint8Array\<close> as the caller passes it: a window on a buffer.\<close>

record uint8array =
  u_buffer :: "byte list"
  u_offset :: nat
  u_length :: nat

definition u_bytes :: "uint8array \<Rightarrow> byte list" where
  "u_bytes u = take (u_length u) (drop (u_offset u) (u_buffer u))"

definition uint8array_of :: "byte list \<Rightarrow> uint8array" where
  "uint8array_of bs = \<lparr>u_buffer = bs, u_offset = 0, u_length = length bs\<rparr>"

definition new_reader :: "uint8array \<Rightarrow> reader" where
  "new_reader u = \<lparr>r_buffer = u_buffer u, r_offset = u_offset u, r_length = u_length u, r_pos = 0\<rparr>"

definition r_shift :: "reader \<Rightarrow> nat \<Rightarrow> reader" where
  "r_shift r bytes = r\<lparr>r_pos := r_pos r + bytes\<rparr>"

definition get_view :: "reader \<Rightarrow> nat \<Rightarrow> byte list res" where
  "get_view r n =
     (if r_pos r + n > r_length r then Inl (RangeError ''Offset is outside the bounds of the DataView'')
      else Inr (take n (drop (r_offset r + r_pos r) (r_buffer r))))"

definition read8 :: "reader \<Rightarrow> (nat \<times> reader) res" where
  "read8 r = rmap (\<lambda>bs. (le_val bs, r_shift r 1)) (get_view r 1)"

definition read16 :: "reader \<Rightarrow> (nat \<times> reader) res" where
  "read16 r = rmap (\<lambda>bs. (le_val bs, r_shift r 2)) (get_view r 2)"

definition read32 :: "reader \<Rightarrow> (nat \<times> reader) res" where
  "read32 r = rmap (\<lambda>bs. (le_val bs, r_shift r 4)) (get_view r 4)"

text \<open>\<open>BigInt('0x' + hi.toString(16) + lo.toString(16).padStart(k, '0')).toString(10)\<close>.\<close>

definition hex_pair :: "nat \<Rightarrow> int \<Rightarrow> int \<Rightarrow> string res" where
  "hex_pair k value1 value2 =
     rmap show_int (bigint_of_string
       (''0x'' @ show_base 16 (nat value2) @ padStart k CHR ''0'' (show_base 16 (nat value1))))"

definition read64 :: "reader \<Rightarrow> (string \<times> reader) res" where
  "read64 r =
     rbind (read32 r) (\<lambda>(value1, r).
     rbind (read32 r) (\<lambda>(value2, r).
     rmap (\<lambda>s. (s, r)) (hex_pair 8 (int value1) (int value2))))"

definition read128 :: "reader \<Rightarrow> (string \<times> reader) res" where
  "read128 r =
     rbind (read64 r) (\<lambda>(s1, r). rbind (bigint_of_string s1) (\<lambda>value1.
     rbind (read64 r) (\<lambda>(s2, r). rbind (bigint_of_string s2) (\<lambda>value2.
     rmap (\<lambda>s. (s, r)) (hex_pair 16 value1 value2)))))"

definition read256 :: "reader \<Rightarrow> (string \<times> reader) res" where
  "read256 r =
     rbind (read128 r) (\<lambda>(s1, r). rbind (bigint_of_string s1) (\<lambda>value1.
     rbind (read128 r) (\<lambda>(s2, r). rbind (bigint_of_string s2) (\<lambda>value2.
     rmap (\<lambda>s. (s, r)) (hex_pair 32 value1 value2)))))"

definition readBytes :: "reader \<Rightarrow> nat \<Rightarrow> (byte list \<times> reader) res" where
  "readBytes r num =
     (let start = r_pos r + r_offset r in
      if start + num > length (r_buffer r) then Inl (RangeError ''Invalid typed array length'')
      else Inr (take num (drop start (r_buffer r)), r_shift r num))"

definition readULEB :: "reader \<Rightarrow> (nat \<times> reader) res" where
  "readULEB r =
     (let start = r_pos r + r_offset r in
      if start > length (r_buffer r) then Inl (RangeError ''Start offset is outside the bounds of the buffer'')
      else rmap (\<lambda>(v, l). (v, r_shift r l)) (ulebDecode (drop start (r_buffer r))))"

text \<open>The loop \<open>for (i = 0; i < length; i++) result.push(cb(this, i, length))\<close>.\<close>

fun read_loop :: "(reader \<Rightarrow> nat \<Rightarrow> ('a \<times> reader) res) \<Rightarrow> nat \<Rightarrow> nat \<Rightarrow> reader \<Rightarrow> ('a list \<times> reader) res" where
  "read_loop cb i 0 r = Inr ([], r)"
| "read_loop cb i (Suc n) r =
     rbind (cb r i) (\<lambda>(x, r). rmap (\<lambda>(xs, r). (x # xs, r)) (read_loop cb (i + 1) n r))"

definition readVec :: "reader \<Rightarrow> (reader \<Rightarrow> nat \<Rightarrow> nat \<Rightarrow> ('a \<times> reader) res) \<Rightarrow> ('a list \<times> reader) res" where
  "readVec r cb = rbind (readULEB r) (\<lambda>(len, r). read_loop (\<lambda>r i. cb r i len) 0 len r)"

subsection \<open>Reading bytes known to lie ahead\<close>

definition view_at :: "reader \<Rightarrow> byte list \<Rightarrow> bool" where
  "view_at r bs \<longleftrightarrow>
     r_offset r + r_length r \<le> length (r_buffer r) \<and> r_pos r + length bs \<le> r_length r \<and>
     take (length bs) (drop (r_offset r + r_pos r) (r_buffer r)) = bs"

definition reads :: "byte list \<Rightarrow> 'a \<Rightarrow> (reader \<Rightarrow> ('a \<times> reader) res) \<Rightarrow> bool" where
  "reads bs v f \<longleftrightarrow> (\<forall>r. view_at r bs \<longrightarrow> f r = Inr (v, r_shift r (length bs)))"

lemma readsI: "(\<And>r. view_at r bs \<Longrightarrow> f r = Inr (v, r_shift r (length bs))) \<Longrightarrow> reads bs v f"
  by (simp add: reads_def)

lemma readsD: "reads bs v f \<Longrightarrow> view_at r bs \<Longrightarrow> f r = Inr (v, r_shift r (length bs))"
  by (simp add: reads_def)

lemma r_shift_0 [simp]: "r_shift r 0 = r"
  by (simp add: r_shift_def)

lemma r_shift_r_shift [simp]: "r_shift (r_shift r a) b = r_shift r (a + b)"
  by (simp add: r_shift_def)

lemma view_at_append:
  assumes "view_at r (xs @ ys)"
  shows "view_at r xs" "view_at (r_shift r (length xs)) ys"
proof -
  let ?d = "drop (r_offset r + r_pos r) (r_buffer r)"
  have "take (length xs) (take (length xs + length ys) ?d) = take (length xs) (xs @ ys)"
    using assms by (simp add: view_at_def)
  then show "view_at r xs" using assms by (simp add: view_at_def min_absorb1)
  have "drop (length xs) (take (length xs + length ys) ?d) = drop (length xs) (xs @ ys)"
    using assms by (simp add: view_at_def)
  then show "view_at (r_shift r (length xs)) ys"
    using assms by (simp add: view_at_def r_shift_def drop_take add.commute add.left_commute)
qed

lemma reads_bind:
  assumes "reads xs a f" "reads ys b (g a)"
  shows "reads (xs @ ys) b (\<lambda>r. rbind (f r) (\<lambda>(v, r). g v r))"
proof (rule readsI)
  fix r assume r: "view_at r (xs @ ys)"
  with assms show "rbind (f r) (\<lambda>(v, r). g v r) = Inr (b, r_shift r (length (xs @ ys)))"
    using view_at_append [OF r] by (simp add: reads_def)
qed

lemma reads_pure: "reads [] v (\<lambda>r. Inr (v, r))"
  by (simp add: reads_def)

lemma reads_rmap: "reads xs a f \<Longrightarrow> h a = b \<Longrightarrow> reads xs b (\<lambda>r. rmap (\<lambda>(v, r). (h v, r)) (f r))"
  by (simp add: reads_def)

lemma get_view_ok: "view_at r bs \<Longrightarrow> get_view r (length bs) = Inr bs"
  by (auto simp: view_at_def get_view_def)

lemma reads_read8: "reads [b] (unat b) read8"
  using get_view_ok [of _ "[b]"] by (auto intro!: readsI simp: read8_def)

lemma reads_read16: "length bs = 2 \<Longrightarrow> reads bs (le_val bs) read16"
  using get_view_ok [of _ bs] by (auto intro!: readsI simp: read16_def)

lemma reads_read32: "length bs = 4 \<Longrightarrow> reads bs (le_val bs) read32"
  using get_view_ok [of _ bs] by (auto intro!: readsI simp: read32_def)

lemma hex_pair_eq:
  assumes "lo < 16 ^ k" "0 < k"
  shows "hex_pair k (int lo) (int hi) = Inr (show_base 10 (hi * 16 ^ k + lo))"
proof -
  have "\<not> is_space c" if "c \<in> set (show_base 16 hi @ padStart k CHR ''0'' (show_base 16 lo))" for c
  proof -
    have "\<not> is_space CHR ''0''" by code_simp
    moreover have "\<not> is_space c" if "c \<in> set (show_base 16 n)" for n
      using that show_base_chars [of 16 c n] digit_char_not_special by auto
    ultimately show ?thesis using that by (auto simp: padStart_def split: if_splits)
  qed
  then have "bigint_of_string (''0x'' @ show_base 16 hi @ padStart k CHR ''0'' (show_base 16 lo))
             = Inr (int (hi * 16 ^ k + lo))"
    using parse_hex_pair [OF assms] by (intro bigint_of_string_hex) auto
  then show ?thesis by (simp only: hex_pair_def nat_int rmap_simps show_int_of_nat)
qed

lemma split_half:
  assumes "length bs = 2 * n"
  obtains lo hi where "bs = lo @ hi" "length lo = n" "length hi = n"
    "le_val bs = le_val hi * 256 ^ n + le_val lo"
proof
  show "bs = take n bs @ drop n bs" "length (take n bs) = n" "length (drop n bs) = n"
    using assms by auto
  show "le_val bs = le_val (drop n bs) * 256 ^ n + le_val (take n bs)"
    using le_val_append [of "take n bs" "drop n bs"] assms by (simp add: min_absorb2)
qed

lemma reads_read64:
  assumes "length bs = 8"
  shows "reads bs (show_base 10 (le_val bs)) read64"
proof -
  obtain lo hi where h: "bs = lo @ hi" "length lo = 4" "length hi = 4"
    "le_val bs = le_val hi * 256 ^ 4 + le_val lo"
    using split_half [of bs 4] assms by auto
  have "le_val lo < 16 ^ 8" using le_val_bound [of lo] h by simp
  then have p: "hex_pair 8 (int (le_val lo)) (int (le_val hi)) = Inr (show_base 10 (le_val bs))"
    using h by (simp add: hex_pair_eq)
  have "reads (lo @ hi) (show_base 10 (le_val bs)) read64"
  proof (rule readsI)
    fix r assume r: "view_at r (lo @ hi)"
    show "read64 r = Inr (show_base 10 (le_val bs), r_shift r (length (lo @ hi)))"
      using view_at_append [OF r] h p readsD [OF reads_read32 [of lo]] readsD [OF reads_read32 [of hi]]
      by (simp add: read64_def)
  qed
  then show ?thesis using h by simp
qed

lemma reads_read128:
  assumes "length bs = 16"
  shows "reads bs (show_base 10 (le_val bs)) read128"
proof -
  obtain lo hi where h: "bs = lo @ hi" "length lo = 8" "length hi = 8"
    "le_val bs = le_val hi * 256 ^ 8 + le_val lo"
    using split_half [of bs 8] assms by auto
  have "le_val lo < 16 ^ 16" using le_val_bound [of lo] h by simp
  then have p: "hex_pair 16 (int (le_val lo)) (int (le_val hi)) = Inr (show_base 10 (le_val bs))"
    using h by (simp add: hex_pair_eq)
  have "reads (lo @ hi) (show_base 10 (le_val bs)) read128"
  proof (rule readsI)
    fix r assume r: "view_at r (lo @ hi)"
    show "read128 r = Inr (show_base 10 (le_val bs), r_shift r (length (lo @ hi)))"
      using view_at_append [OF r] h p readsD [OF reads_read64 [of lo]] readsD [OF reads_read64 [of hi]]
      by (simp add: read128_def)
  qed
  then show ?thesis using h by simp
qed

lemma reads_read256:
  assumes "length bs = 32"
  shows "reads bs (show_base 10 (le_val bs)) read256"
proof -
  obtain lo hi where h: "bs = lo @ hi" "length lo = 16" "length hi = 16"
    "le_val bs = le_val hi * 256 ^ 16 + le_val lo"
    using split_half [of bs 16] assms by auto
  have "le_val lo < 16 ^ 32" using le_val_bound [of lo] h by simp
  then have p: "hex_pair 32 (int (le_val lo)) (int (le_val hi)) = Inr (show_base 10 (le_val bs))"
    using h by (simp add: hex_pair_eq)
  have "reads (lo @ hi) (show_base 10 (le_val bs)) read256"
  proof (rule readsI)
    fix r assume r: "view_at r (lo @ hi)"
    show "read256 r = Inr (show_base 10 (le_val bs), r_shift r (length (lo @ hi)))"
      using view_at_append [OF r] h p readsD [OF reads_read128 [of lo]] readsD [OF reads_read128 [of hi]]
      by (simp add: read256_def)
  qed
  then show ?thesis using h by simp
qed

lemma reads_readBytes: "reads bs bs (\<lambda>r. readBytes r (length bs))"
proof (rule readsI)
  fix r assume r: "view_at r bs"
  then have e: "take (length bs) (drop (r_offset r + r_pos r) (r_buffer r)) = bs"
    by (simp only: view_at_def)
  have l: "\<not> r_pos r + r_offset r + length bs > length (r_buffer r)"
    using r by (simp add: view_at_def)
  show "readBytes r (length bs) = Inr (bs, r_shift r (length bs))"
    unfolding readBytes_def Let_def if_not_P [OF l] by (subst add.commute) (simp only: e)
qed

lemma reads_readULEB: "n \<le> MAX_SAFE_INTEGER \<Longrightarrow> reads (ulebEncode (int n)) n readULEB"
proof (rule readsI)
  fix r assume n: "n \<le> MAX_SAFE_INTEGER" and r: "view_at r (ulebEncode (int n))"
  let ?d = "drop (r_pos r + r_offset r) (r_buffer r)" and ?e = "ulebEncode (int n)"
  have "?d = ?e @ drop (length ?e) ?d"
    using r append_take_drop_id [of "length ?e" ?d] by (simp add: view_at_def add.commute)
  then have "ulebDecode ?d = Inr (n, length ?e)"
    using ulebDecode_ulebEncode [OF n, of "drop (length ?e) ?d"] by simp
  then show "readULEB r = Inr (n, r_shift r (length ?e))"
    using r by (simp add: readULEB_def view_at_def Let_def)
qed

lemma reads_read_loop:
  assumes "\<And>i x. x \<in> set xs \<Longrightarrow> reads (enc x) (out x) (\<lambda>r. cb r i)"
  shows "reads (concat (map enc xs)) (map out xs) (read_loop cb i (length xs))"
  using assms
proof (induction xs arbitrary: i)
  case (Cons x xs)
  have "reads (enc x @ concat (map enc xs)) (map out (x # xs))
    (\<lambda>r. rbind (cb r i) (\<lambda>(v, r). rmap (\<lambda>(vs, r). (v # vs, r)) (read_loop cb (i + 1) (length xs) r)))"
  proof (rule reads_bind [where a = "out x"])
    show "reads (enc x) (out x) (\<lambda>r. cb r i)" using Cons.prems by simp
    have "reads (concat (map enc xs)) (map out xs) (read_loop cb (i + 1) (length xs))"
      by (rule Cons.IH) (use Cons.prems in auto)
    from reads_rmap [OF this, of "\<lambda>vs. out x # vs"]
    show "reads (concat (map enc xs)) (map out (x # xs))
            (\<lambda>r. rmap (\<lambda>(vs, r). (out x # vs, r)) (read_loop cb (i + 1) (length xs) r))"
      by simp
  qed
  then show ?case by (simp add: reads_def)
qed (simp add: reads_def)

text \<open>Out of the window, the fixed-width reads throw.\<close>

lemma read_out_of_view:
  "r_pos r + 1 > r_length r \<Longrightarrow> \<not> is_ok (read8 r)"
  "r_pos r + 2 > r_length r \<Longrightarrow> \<not> is_ok (read16 r)"
  "r_pos r + 4 > r_length r \<Longrightarrow> \<not> is_ok (read32 r)"
  by (simp_all add: read8_def read16_def read32_def get_view_def)

lemma view_at_new_reader: "view_at (new_reader (uint8array_of (bs @ rest))) bs"
  by (simp add: view_at_def new_reader_def uint8array_of_def)

end
