(* ===== verification/Bcs_Type.thy ===== *)
theory Bcs_Type
  imports Bcs_Writer Bcs_Reader
begin

text \<open>
  \<open>packages/bcs/src/bcs-type.ts\<close> and \<open>bcs.ts\<close>: the class \<open>BcsType\<close> and the constructors of
  \<open>bcs\<close>. Types are erased at run time, so \<open>T\<close> and \<open>Input\<close> are the JavaScript values \<open>jsval\<close>; a
  \<open>BcsType\<close> is the record of its public methods and of \<open>#write\<close> and \<open>#serialize\<close>.

  Numbers are the integers among the JavaScript numbers (\<open>NaN\<close> appears as a conversion result
  only). An object is its list of own enumerable properties in order; property names that look
  like array indices, which JavaScript would move to the front, are not modelled.
\<close>

subsection \<open>JavaScript values\<close>

datatype jsval =
    JUndefined
  | JNull
  | JBool bool
  | JNum int
  | JBigInt int
  | JStr string
  | JArr "jsval list"
  | JBytes "byte list"
  | JObj "(string \<times> jsval) list"
  | JMap "(jsval \<times> jsval) list"

fun is_object :: "jsval \<Rightarrow> bool" where
  "is_object (JArr _) = True"
| "is_object (JBytes _) = True"
| "is_object (JObj _) = True"
| "is_object (JMap _) = True"
| "is_object _ = False"

text \<open>\<open>value == null\<close>.\<close>

fun is_nullish :: "jsval \<Rightarrow> bool" where
  "is_nullish JUndefined = True"
| "is_nullish JNull = True"
| "is_nullish _ = False"

fun truthy :: "jsval \<Rightarrow> bool" where
  "truthy JUndefined = False"
| "truthy JNull = False"
| "truthy (JBool b) = b"
| "truthy (JNum n) = (n \<noteq> 0)"
| "truthy (JBigInt n) = (n \<noteq> 0)"
| "truthy (JStr s) = (s \<noteq> [])"
| "truthy _ = True"

text \<open>\<open>Number(value)\<close>, \<open>None\<close> for \<open>NaN\<close>; objects, and strings that are no integer numeral, give \<open>NaN\<close>.\<close>

fun to_number :: "jsval \<Rightarrow> int option" where
  "to_number JNull = Some 0"
| "to_number (JBool b) = Some (if b then 1 else 0)"
| "to_number (JNum n) = Some n"
| "to_number (JBigInt n) = Some n"
| "to_number (JStr s) = (case bigint_of_string s of Inl _ \<Rightarrow> None | Inr n \<Rightarrow> Some n)"
| "to_number _ = None"

text \<open>\<open>BigInt(value)\<close>.\<close>

fun to_bigint :: "jsval \<Rightarrow> int res" where
  "to_bigint (JBool b) = Inr (if b then 1 else 0)"
| "to_bigint (JNum n) = Inr n"
| "to_bigint (JBigInt n) = Inr n"
| "to_bigint (JStr s) = bigint_of_string s"
| "to_bigint _ = Inl (TypeError ''Cannot convert to a BigInt'')"

text \<open>The elements an iteration visits, for arrays and byte arrays; \<open>None\<close> when not iterable.\<close>

fun iter :: "jsval \<Rightarrow> jsval list option" where
  "iter (JArr xs) = Some xs"
| "iter (JBytes bs) = Some (map (\<lambda>b. JNum (uint b)) bs)"
| "iter _ = None"

definition js_length :: "jsval \<Rightarrow> nat option" where
  "js_length v = map_option length (iter v)"

text \<open>\<open>new Uint8Array(value)\<close> on an iterable: every element modulo 256, \<open>NaN\<close> as 0.\<close>

definition to_byte :: "jsval \<Rightarrow> byte" where
  "to_byte v = word_of_int (case to_number v of None \<Rightarrow> 0 | Some n \<Rightarrow> n)"

fun new_Uint8Array :: "jsval \<Rightarrow> byte list res" where
  "new_Uint8Array (JBytes bs) = Inr bs"
| "new_Uint8Array (JArr xs) = Inr (map to_byte xs)"
| "new_Uint8Array _ = Inl (TypeError ''value is not iterable'')"

fun entries :: "jsval \<Rightarrow> (string \<times> jsval) list" where
  "entries (JObj ps) = ps"
| "entries _ = []"

text \<open>\<open>value[name]\<close>, which throws on \<open>null\<close> and \<open>undefined\<close>.\<close>

definition get_prop :: "jsval \<Rightarrow> string \<Rightarrow> jsval res" where
  "get_prop v name =
     (if is_nullish v then Inl (TypeError ''Cannot read properties of undefined'')
      else case map_of (entries v) name of None \<Rightarrow> Inr JUndefined | Some x \<Rightarrow> Inr x)"

subsection \<open>The class BcsType\<close>

record bcs_type =
  t_name :: string
  t_read :: "reader \<Rightarrow> (jsval \<times> reader) res"
  t_size :: "jsval \<Rightarrow> nat option res"
  t_write :: "jsval \<Rightarrow> writer \<Rightarrow> writer res"
  t_serialize :: "jsval \<Rightarrow> writer_options \<Rightarrow> byte list res"
  t_validate :: "jsval \<Rightarrow> unit res"

text \<open>The options of a constructor: another name, an extra check of the input.\<close>

record type_options =
  opt_name :: "string option"
  opt_validate :: "(jsval \<Rightarrow> unit res) option"

definition no_opts :: type_options where
  "no_opts = \<lparr>opt_name = None, opt_validate = None\<rparr>"

definition name_or :: "type_options \<Rightarrow> string \<Rightarrow> string" where
  "name_or opts d = (case opt_name opts of None \<Rightarrow> d | Some n \<Rightarrow> n)"

definition run_validate :: "type_options \<Rightarrow> jsval \<Rightarrow> unit res" where
  "run_validate opts v = (case opt_validate opts of None \<Rightarrow> Inr () | Some f \<Rightarrow> f v)"

definition check :: "bool \<Rightarrow> string \<Rightarrow> unit res" where
  "check c msg = (if c then Inr () else Inl (TypeError msg))"

text \<open>The default \<open>#serialize\<close>: a writer of the serialized size, overridden by the options given.\<close>

definition default_serialize ::
  "(jsval \<Rightarrow> nat option res) \<Rightarrow> (jsval \<Rightarrow> writer \<Rightarrow> writer res) \<Rightarrow> jsval \<Rightarrow> writer_options \<Rightarrow> byte list res" where
  "default_serialize sizef writef value opts =
     rbind (sizef value) (\<lambda>n.
       let writer = new_writer
             (opts\<lparr>o_initialSize := (case o_initialSize opts of None \<Rightarrow> n | Some k \<Rightarrow> Some k)\<rparr>)
       in rmap w_toBytes (writef value writer))"

definition BcsType_new ::
  "string \<Rightarrow> (reader \<Rightarrow> (jsval \<times> reader) res) \<Rightarrow> (jsval \<Rightarrow> nat option res)
   \<Rightarrow> (jsval \<Rightarrow> writer \<Rightarrow> writer res) \<Rightarrow> (jsval \<Rightarrow> unit res) \<Rightarrow> bcs_type" where
  "BcsType_new name readf sizef writef validatef =
     \<lparr>t_name = name, t_read = readf, t_size = sizef, t_write = writef,
      t_serialize = default_serialize sizef writef, t_validate = validatef\<rparr>"

definition no_size :: "jsval \<Rightarrow> nat option res" where
  "no_size v = Inr None"

text \<open>\<open>BcsType.write\<close>, \<open>serialize(...).toBytes()\<close> and \<open>parse\<close>.\<close>

definition type_write :: "bcs_type \<Rightarrow> jsval \<Rightarrow> writer \<Rightarrow> writer res" where
  "type_write t value w = rbind (t_validate t value) (\<lambda>_. t_write t value w)"

definition type_serialize :: "bcs_type \<Rightarrow> jsval \<Rightarrow> writer_options \<Rightarrow> byte list res" where
  "type_serialize t value opts = rbind (t_validate t value) (\<lambda>_. t_serialize t value opts)"

definition type_parse :: "bcs_type \<Rightarrow> uint8array \<Rightarrow> jsval res" where
  "type_parse t bytes = rmap fst (t_read t (new_reader bytes))"

definition type_fromHex :: "bcs_type \<Rightarrow> string \<Rightarrow> jsval res" where
  "type_fromHex t hex = rbind (fromHex hex) (\<lambda>bs. type_parse t (uint8array_of bs))"

definition type_fromBase64 :: "bcs_type \<Rightarrow> string \<Rightarrow> jsval res" where
  "type_fromBase64 t b64 = rbind (fromBase64 b64) (\<lambda>bs. type_parse t (uint8array_of bs))"

text \<open>\<open>transform\<close>: the identity where a function is not given.\<close>

definition type_transform ::
  "bcs_type \<Rightarrow> string option \<Rightarrow> (jsval \<Rightarrow> jsval res) option \<Rightarrow> (jsval \<Rightarrow> jsval res) option
   \<Rightarrow> (jsval \<Rightarrow> unit res) option \<Rightarrow> bcs_type" where
  "type_transform t name input output validatef =
     (let inp = (case input of None \<Rightarrow> Inr | Some f \<Rightarrow> f);
          outp = (case output of None \<Rightarrow> Inr | Some f \<Rightarrow> f)
      in \<lparr>t_name = (case name of None \<Rightarrow> t_name t | Some n \<Rightarrow> n),
          t_read = (\<lambda>r. rbind (t_read t r) (\<lambda>(v, r). rmap (\<lambda>v. (v, r)) (outp v))),
          t_size = (\<lambda>v. rbind (inp v) (t_size t)),
          t_write = (\<lambda>v w. rbind (inp v) (\<lambda>v. t_write t v w)),
          t_serialize = (\<lambda>v opts. rbind (inp v) (\<lambda>v. t_serialize t v opts)),
          t_validate = (\<lambda>v. rbind (case validatef of None \<Rightarrow> Inr () | Some f \<Rightarrow> f v)
                              (\<lambda>_. rbind (inp v) (t_validate t)))\<rparr>)"

subsection \<open>Numbers, booleans, bytes, strings\<close>

definition fixedSizeBcsType ::
  "nat \<Rightarrow> string \<Rightarrow> (reader \<Rightarrow> (jsval \<times> reader) res) \<Rightarrow> (jsval \<Rightarrow> writer \<Rightarrow> writer res)
   \<Rightarrow> (jsval \<Rightarrow> unit res) \<Rightarrow> bcs_type" where
  "fixedSizeBcsType n name readf writef validatef =
     BcsType_new name readf (\<lambda>_. Inr (Some n)) writef validatef"

definition uIntBcsType ::
  "string \<Rightarrow> nat \<Rightarrow> (reader \<Rightarrow> (nat \<times> reader) res) \<Rightarrow> (writer \<Rightarrow> int \<Rightarrow> writer res) \<Rightarrow> int
   \<Rightarrow> type_options \<Rightarrow> bcs_type" where
  "uIntBcsType name n readMethod writeMethod maxValue opts =
     fixedSizeBcsType n (name_or opts name)
       (\<lambda>r. rmap (\<lambda>(v, r). (JNum (int v), r)) (readMethod r))
       (\<lambda>v w. writeMethod w (case to_number v of None \<Rightarrow> 0 | Some i \<Rightarrow> i))
       (\<lambda>v. rbind (check (\<not> (case to_number v of None \<Rightarrow> False | Some i \<Rightarrow> i < 0 \<or> i > maxValue))
                     ''Invalid value. Expected value in range'')
              (\<lambda>_. run_validate opts v))"

definition bigUIntBcsType ::
  "string \<Rightarrow> nat \<Rightarrow> (reader \<Rightarrow> (string \<times> reader) res) \<Rightarrow> (writer \<Rightarrow> int \<Rightarrow> writer res) \<Rightarrow> int
   \<Rightarrow> type_options \<Rightarrow> bcs_type" where
  "bigUIntBcsType name n readMethod writeMethod maxValue opts =
     fixedSizeBcsType n (name_or opts name)
       (\<lambda>r. rmap (\<lambda>(s, r). (JStr s, r)) (readMethod r))
       (\<lambda>v w. rbind (to_bigint v) (writeMethod w))
       (\<lambda>v. rbind (to_bigint v) (\<lambda>i.
              rbind (check (\<not> (i < 0 \<or> i > maxValue)) ''Invalid value. Expected value in range'')
                (\<lambda>_. run_validate opts (JBigInt i))))"

definition bcs_u8 :: "type_options \<Rightarrow> bcs_type" where
  "bcs_u8 opts = uIntBcsType ''u8'' 1 read8 write8 (2 ^ 8 - 1) opts"

definition bcs_u16 :: "type_options \<Rightarrow> bcs_type" where
  "bcs_u16 opts = uIntBcsType ''u16'' 2 read16 write16 (2 ^ 16 - 1) opts"

definition bcs_u32 :: "type_options \<Rightarrow> bcs_type" where
  "bcs_u32 opts = uIntBcsType ''u32'' 4 read32 write32 (2 ^ 32 - 1) opts"

definition bcs_u64 :: "type_options \<Rightarrow> bcs_type" where
  "bcs_u64 opts = bigUIntBcsType ''u64'' 8 read64 write64 (2 ^ 64 - 1) opts"

definition bcs_u128 :: "type_options \<Rightarrow> bcs_type" where
  "bcs_u128 opts = bigUIntBcsType ''u128'' 16 read128 write128 (2 ^ 128 - 1) opts"

definition bcs_u256 :: "type_options \<Rightarrow> bcs_type" where
  "bcs_u256 opts = bigUIntBcsType ''u256'' 32 read256 write256 (2 ^ 256 - 1) opts"

definition bcs_bool :: "type_options \<Rightarrow> bcs_type" where
  "bcs_bool opts =
     fixedSizeBcsType 1 (name_or opts ''bool'')
       (\<lambda>r. rmap (\<lambda>(n, r). (JBool (n = 1), r)) (read8 r))
       (\<lambda>v w. write8 w (if truthy v then 1 else 0))
       (\<lambda>v. rbind (run_validate opts v)
              (\<lambda>_. check (case v of JBool _ \<Rightarrow> True | _ \<Rightarrow> False) ''Expected boolean''))"

text \<open>\<open>dynamicSizeBcsType\<close>: \<open>write\<close> goes through the type's own \<open>serialize\<close>, which validates again.\<close>

definition dynamicSizeBcsType ::
  "string \<Rightarrow> (reader \<Rightarrow> (jsval \<times> reader) res) \<Rightarrow> (jsval \<Rightarrow> writer_options \<Rightarrow> byte list res)
   \<Rightarrow> (jsval \<Rightarrow> unit res) \<Rightarrow> bcs_type" where
  "dynamicSizeBcsType name readf serializef validatef =
     \<lparr>t_name = name, t_read = readf, t_size = no_size,
      t_write = (\<lambda>v w. rbind (rbind (validatef v) (\<lambda>_. serializef v no_options)) (write8_all w)),
      t_serialize = serializef, t_validate = validatef\<rparr>"

definition bcs_uleb128 :: "type_options \<Rightarrow> bcs_type" where
  "bcs_uleb128 opts =
     dynamicSizeBcsType (name_or opts ''uleb128'')
       (\<lambda>r. rmap (\<lambda>(n, r). (JNum (int n), r)) (readULEB r))
       (\<lambda>v _. rmap ulebEncode (to_bigint v))
       (run_validate opts)"

definition check_length :: "nat \<Rightarrow> jsval \<Rightarrow> unit res" where
  "check_length n v =
     (case js_length v of
        None \<Rightarrow> Inl (TypeError ''Expected array'')
      | Some k \<Rightarrow> check (k = n) ''Expected array of another length'')"

definition check_array :: "jsval \<Rightarrow> unit res" where
  "check_array v = check (js_length v \<noteq> None) ''Expected array''"

definition bcs_bytes :: "nat \<Rightarrow> type_options \<Rightarrow> bcs_type" where
  "bcs_bytes n opts =
     fixedSizeBcsType n (name_or opts (''bytes['' @ show_base 10 n @ '']''))
       (\<lambda>r. rmap (\<lambda>(bs, r). (JBytes bs, r)) (readBytes r n))
       (\<lambda>v w. rbind (new_Uint8Array v) (writeBytes w))
       (\<lambda>v. rbind (run_validate opts v) (\<lambda>_. check_length n v))"

definition bcs_byteVector :: "type_options \<Rightarrow> bcs_type" where
  "bcs_byteVector opts =
     BcsType_new (name_or opts ''vector<u8>'')
       (\<lambda>r. rbind (readULEB r) (\<lambda>(len, r). rmap (\<lambda>(bs, r). (JBytes bs, r)) (readBytes r len)))
       (\<lambda>v. Inr (map_option (\<lambda>len. length (ulebEncode (int len)) + len) (js_length v)))
       (\<lambda>v w. rbind (new_Uint8Array v) (\<lambda>array.
                rbind (writeULEB w (int (length array))) (\<lambda>w. writeBytes w array)))
       (\<lambda>v. rbind (run_validate opts v) (\<lambda>_. check_array v))"

text \<open>
  \<open>stringLikeBcsType\<close>: \<open>toBytes\<close> and \<open>fromBytes\<close> are the caller's (for \<open>bcs.string\<close> the platform's
  \<open>TextEncoder\<close> and \<open>TextDecoder\<close>). \<open>serialize\<close> builds its own array and does not look at the options.
\<close>

definition stringLikeBcsType ::
  "(string \<Rightarrow> byte list) \<Rightarrow> (byte list \<Rightarrow> string) \<Rightarrow> string \<Rightarrow> type_options \<Rightarrow> bcs_type" where
  "stringLikeBcsType toBytes fromBytes name opts =
     (let bytes_of = (\<lambda>v. case v of JStr s \<Rightarrow> Inr (toBytes s) | _ \<Rightarrow> Inl (TypeError ''Expected string''))
      in \<lparr>t_name = name_or opts name,
          t_read = (\<lambda>r. rbind (readULEB r) (\<lambda>(len, r).
                          rmap (\<lambda>(bs, r). (JStr (fromBytes bs), r)) (readBytes r len))),
          t_size = no_size,
          t_write = (\<lambda>v w. rbind (bytes_of v) (\<lambda>bytes.
                       rbind (writeULEB w (int (length bytes))) (\<lambda>w. write8_all w bytes))),
          t_serialize = (\<lambda>v _. rmap (\<lambda>bytes. ulebEncode (int (length bytes)) @ bytes) (bytes_of v)),
          t_validate = (\<lambda>v. rbind (check (case v of JStr _ \<Rightarrow> True | _ \<Rightarrow> False) ''Expected string'')
                              (\<lambda>_. run_validate opts v))\<rparr>)"

end
