(* ===== verification/Bcs_Containers.thy ===== *)
theory Bcs_Containers
  imports Bcs_Type "HOL-Library.AList"
begin

text \<open>
  The composite types of \<open>packages/bcs/src/bcs-type.ts\<close> and \<open>bcs.ts\<close>: struct, enum, tuple, fixed
  array, vector, option, map and lazy, and \<open>compareBcsBytes\<close>, the order of map keys.
\<close>

subsection \<open>Structs and tuples\<close>

fun struct_size :: "(string \<times> bcs_type) list \<Rightarrow> nat \<Rightarrow> jsval \<Rightarrow> nat option res" where
  "struct_size [] tot v = Inr (Some tot)"
| "struct_size ((field, type) # fs) tot v =
     rbind (get_prop v field) (\<lambda>x. rbind (t_size type x) (\<lambda>sz.
       case sz of None \<Rightarrow> Inr None | Some n \<Rightarrow> struct_size fs (tot + n) v))"

fun struct_read :: "(string \<times> bcs_type) list \<Rightarrow> reader \<Rightarrow> ((string \<times> jsval) list \<times> reader) res" where
  "struct_read [] r = Inr ([], r)"
| "struct_read ((field, type) # fs) r =
     rbind (t_read type r) (\<lambda>(x, r). rmap (\<lambda>(ps, r). ((field, x) # ps, r)) (struct_read fs r))"

definition struct_write :: "(string \<times> bcs_type) list \<Rightarrow> jsval \<Rightarrow> writer \<Rightarrow> writer res" where
  "struct_write flds v w =
     rfold (\<lambda>w (field, type). rbind (get_prop v field) (\<lambda>x. type_write type x w)) w flds"

definition BcsStruct :: "string \<Rightarrow> (string \<times> bcs_type) list \<Rightarrow> type_options \<Rightarrow> bcs_type" where
  "BcsStruct name flds opts =
     BcsType_new name
       (\<lambda>r. rmap (\<lambda>(ps, r). (JObj ps, r)) (struct_read flds r))
       (struct_size flds 0)
       (struct_write flds)
       (\<lambda>v. rbind (run_validate opts v) (\<lambda>_. check (is_object v) ''Expected object''))"

text \<open>\<open>values[i]\<close> on an array, \<open>undefined\<close> past its end.\<close>

definition get_index :: "jsval \<Rightarrow> nat \<Rightarrow> jsval res" where
  "get_index v i =
     (if is_nullish v then Inl (TypeError ''Cannot read properties of undefined'')
      else case iter v of
             None \<Rightarrow> Inr JUndefined
           | Some xs \<Rightarrow> Inr (if i < length xs then xs ! i else JUndefined))"

fun tuple_size :: "bcs_type list \<Rightarrow> nat \<Rightarrow> nat \<Rightarrow> jsval \<Rightarrow> nat option res" where
  "tuple_size [] i tot v = Inr (Some tot)"
| "tuple_size (t # ts) i tot v =
     rbind (get_index v i) (\<lambda>x. rbind (t_size t x) (\<lambda>sz.
       case sz of None \<Rightarrow> Inr None | Some n \<Rightarrow> tuple_size ts (i + 1) (tot + n) v))"

fun tuple_read :: "bcs_type list \<Rightarrow> reader \<Rightarrow> (jsval list \<times> reader) res" where
  "tuple_read [] r = Inr ([], r)"
| "tuple_read (t # ts) r =
     rbind (t_read t r) (\<lambda>(x, r). rmap (\<lambda>(xs, r). (x # xs, r)) (tuple_read ts r))"

fun tuple_write :: "bcs_type list \<Rightarrow> nat \<Rightarrow> jsval \<Rightarrow> writer \<Rightarrow> writer res" where
  "tuple_write [] i v w = Inr w"
| "tuple_write (t # ts) i v w =
     rbind (get_index v i) (\<lambda>x. rbind (type_write t x w) (tuple_write ts (i + 1) v))"

definition BcsTuple :: "bcs_type list \<Rightarrow> type_options \<Rightarrow> bcs_type" where
  "BcsTuple flds opts =
     BcsType_new (name_or opts (''('' @ join '', '' (map t_name flds) @ '')''))
       (\<lambda>r. rmap (\<lambda>(xs, r). (JArr xs, r)) (tuple_read flds r))
       (tuple_size flds 0 0)
       (tuple_write flds 0)
       (\<lambda>v. rbind (run_validate opts v) (\<lambda>_.
              case v of JArr xs \<Rightarrow> check (length xs = length flds) ''Expected array of another length''
                      | _ \<Rightarrow> Inl (TypeError ''Expected array'')))"

subsection \<open>Enums\<close>

text \<open>\<open>Object.hasOwn(fields, name)\<close>.\<close>

definition has_own :: "(string \<times> bcs_type option) list \<Rightarrow> string \<Rightarrow> bool" where
  "has_own flds name \<longleftrightarrow> name \<in> set (map fst flds)"

text \<open>The loop over \<open>canonicalOrder\<close>: write the index of the variant, then its payload.\<close>

fun enum_write_loop :: "(string \<times> bcs_type option) list \<Rightarrow> nat \<Rightarrow> string \<Rightarrow> jsval \<Rightarrow> writer \<Rightarrow> writer res" where
  "enum_write_loop [] i name val w = Inr w"
| "enum_write_loop ((optionName, optionType) # rest) i name val w =
     (if optionName = name
      then rbind (writeULEB w (int i)) (\<lambda>w.
             case optionType of None \<Rightarrow> Inr w | Some t \<Rightarrow> type_write t val w)
      else enum_write_loop rest (i + 1) name val w)"

definition enum_write :: "(string \<times> bcs_type option) list \<Rightarrow> jsval \<Rightarrow> writer \<Rightarrow> writer res" where
  "enum_write flds v w =
     (case filter (\<lambda>(name, _). has_own flds name) (entries v) of
        [] \<Rightarrow> Inl (TypeError ''undefined is not iterable'')
      | (name, val) # _ \<Rightarrow> enum_write_loop flds 0 name val w)"

text \<open>\<open>{ [kind]: x, $kind: kind }\<close>: a later property of the same name replaces the earlier one.\<close>

definition variant_object :: "string \<Rightarrow> jsval \<Rightarrow> jsval" where
  "variant_object kind x =
     JObj (AList.update ''$kind'' (JStr kind) [(kind, if is_nullish x then JBool True else x)])"

definition enum_read :: "(string \<times> bcs_type option) list \<Rightarrow> reader \<Rightarrow> (jsval \<times> reader) res" where
  "enum_read flds r =
     rbind (readULEB r) (\<lambda>(index, r).
       if index < length flds then
         (case flds ! index of (kind, type) \<Rightarrow>
            rmap (\<lambda>(x, r). (variant_object kind x, r))
              (case type of None \<Rightarrow> Inr (JUndefined, r) | Some t \<Rightarrow> t_read t r))
       else Inl (TypeError ''Unknown value for enum''))"

definition BcsEnum :: "string \<Rightarrow> (string \<times> bcs_type option) list \<Rightarrow> type_options \<Rightarrow> bcs_type" where
  "BcsEnum name flds opts =
     BcsType_new (name_or opts name) (enum_read flds) no_size (enum_write flds)
       (\<lambda>v. rbind (run_validate opts v) (\<lambda>_.
            rbind (check (is_object v) ''Expected object'') (\<lambda>_.
              check (length (filter (\<lambda>(k, x). x \<noteq> JUndefined \<and> has_own flds k) (entries v)) = 1)
                ''Expected object with one key'')))"

subsection \<open>Arrays, vectors, options, maps\<close>

text \<open>\<open>new Array(length)\<close> throws past the maximal array length.\<close>

definition new_Array :: "nat \<Rightarrow> unit res" where
  "new_Array n = (if n < 2 ^ 32 then Inr () else Inl (RangeError ''Invalid array length''))"

definition iterate :: "jsval \<Rightarrow> jsval list res" where
  "iterate v = (case iter v of None \<Rightarrow> Inl (TypeError ''value is not iterable'') | Some xs \<Rightarrow> Inr xs)"

definition fixedArray :: "nat \<Rightarrow> bcs_type \<Rightarrow> type_options \<Rightarrow> bcs_type" where
  "fixedArray n t opts =
     BcsType_new (name_or opts (t_name t @ ''['' @ show_base 10 n @ '']''))
       (\<lambda>r. rbind (new_Array n) (\<lambda>_. rmap (\<lambda>(xs, r). (JArr xs, r)) (read_loop (\<lambda>r _. t_read t r) 0 n r)))
       no_size
       (\<lambda>v w. rbind (iterate v) (rfold (\<lambda>w x. type_write t x w) w))
       (\<lambda>v. rbind (run_validate opts v) (\<lambda>_. check_length n v))"

definition vector :: "bcs_type \<Rightarrow> type_options \<Rightarrow> bcs_type" where
  "vector t opts =
     BcsType_new (name_or opts (''vector<'' @ t_name t @ ''>''))
       (\<lambda>r. rbind (readULEB r) (\<lambda>(len, r). rbind (new_Array len) (\<lambda>_.
              rmap (\<lambda>(xs, r). (JArr xs, r)) (read_loop (\<lambda>r _. t_read t r) 0 len r))))
       no_size
       (\<lambda>v w. rbind (iterate v) (\<lambda>xs.
                rbind (writeULEB w (int (length xs))) (\<lambda>w. rfold (\<lambda>w x. type_write t x w) w xs)))
       (\<lambda>v. rbind (run_validate opts v) (\<lambda>_. check_array v))"

definition option_input :: "jsval \<Rightarrow> jsval res" where
  "option_input v = Inr (if is_nullish v then JObj [(''None'', JBool True)] else JObj [(''Some'', v)])"

definition option_output :: "jsval \<Rightarrow> jsval res" where
  "option_output v =
     rbind (get_prop v ''$kind'') (\<lambda>k. if k = JStr ''Some'' then get_prop v ''Some'' else Inr JNull)"

definition bcs_option :: "bcs_type \<Rightarrow> bcs_type" where
  "bcs_option t =
     type_transform
       (BcsEnum (''Option<'' @ t_name t @ ''>'') [(''None'', None), (''Some'', Some t)] no_opts)
       None (Some option_input) (Some option_output) None"

text \<open>\<open>compareBcsBytes\<close>: the first difference decides, then the lengths.\<close>

fun compareBcsBytes :: "byte list \<Rightarrow> byte list \<Rightarrow> int" where
  "compareBcsBytes (a # as) (b # bs) = (if a \<noteq> b then uint a - uint b else compareBcsBytes as bs)"
| "compareBcsBytes as bs = int (length as) - int (length bs)"

text \<open>
  \<open>entries.sort(cmp)\<close>: the stable sort by a comparison function, \<open>x\<close> before \<open>y\<close> unless
  \<open>cmp x y > 0\<close>.
\<close>

fun insert_cmp :: "('a \<Rightarrow> 'a \<Rightarrow> int) \<Rightarrow> 'a \<Rightarrow> 'a list \<Rightarrow> 'a list" where
  "insert_cmp cmp x [] = [x]"
| "insert_cmp cmp x (y # ys) = (if cmp x y > 0 then y # insert_cmp cmp x ys else x # y # ys)"

definition js_sort :: "('a \<Rightarrow> 'a \<Rightarrow> int) \<Rightarrow> 'a list \<Rightarrow> 'a list" where
  "js_sort cmp xs = foldr (insert_cmp cmp) xs []"

text \<open>
  \<open>Map.set\<close>: primitive keys are compared by value, a freshly read object key is a new key.
\<close>

definition map_set :: "(jsval \<times> jsval) list \<Rightarrow> jsval \<Rightarrow> jsval \<Rightarrow> (jsval \<times> jsval) list" where
  "map_set m k v =
     (if \<not> is_object k \<and> k \<in> set (map fst m)
      then map (\<lambda>(k', v'). if k' = k then (k', v) else (k', v')) m
      else m @ [(k, v)])"

fun map_read_loop :: "bcs_type \<Rightarrow> bcs_type \<Rightarrow> nat \<Rightarrow> (jsval \<times> jsval) list \<Rightarrow> reader
    \<Rightarrow> ((jsval \<times> jsval) list \<times> reader) res" where
  "map_read_loop kt vt 0 m r = Inr (m, r)"
| "map_read_loop kt vt (Suc n) m r =
     rbind (t_read kt r) (\<lambda>(k, r). rbind (t_read vt r) (\<lambda>(v, r). map_read_loop kt vt n (map_set m k v) r))"

definition map_entries :: "bcs_type \<Rightarrow> (jsval \<times> jsval) list \<Rightarrow> (byte list \<times> jsval) list res" where
  "map_entries kt m =
     rmap (js_sort (\<lambda>(a, _) (b, _). compareBcsBytes a b))
       (rmapM (\<lambda>(k, v). rmap (\<lambda>kb. (kb, v)) (type_serialize kt k no_options)) m)"

text \<open>\<open>value.entries()\<close>: maps, arrays and byte arrays have it.\<close>

fun js_entries :: "jsval \<Rightarrow> (jsval \<times> jsval) list res" where
  "js_entries (JMap m) = Inr m"
| "js_entries (JArr xs) = Inr (zip (map (JNum \<circ> int) [0..<length xs]) xs)"
| "js_entries (JBytes bs) = Inr (zip (map (JNum \<circ> int) [0..<length bs]) (map (\<lambda>b. JNum (uint b)) bs))"
| "js_entries _ = Inl (TypeError ''value.entries is not a function'')"

definition bcs_map :: "bcs_type \<Rightarrow> bcs_type \<Rightarrow> bcs_type" where
  "bcs_map kt vt =
     BcsType_new (''Map<'' @ t_name kt @ '', '' @ t_name vt @ ''>'')
       (\<lambda>r. rbind (readULEB r) (\<lambda>(len, r). rmap (\<lambda>(m, r). (JMap m, r)) (map_read_loop kt vt len [] r)))
       no_size
       (\<lambda>v w. rbind (js_entries v) (\<lambda>m. rbind (map_entries kt m) (\<lambda>es.
          rbind (writeULEB w (int (length es))) (\<lambda>w.
            rfold (\<lambda>w (kb, x). rbind (writeBytes w kb) (type_write vt x)) w es))))
       (\<lambda>_. Inr ())"

text \<open>\<open>lazyBcsType\<close>: every operation goes to the public operation of the type behind the callback.\<close>

definition lazyBcsType :: "bcs_type \<Rightarrow> bcs_type" where
  "lazyBcsType t =
     \<lparr>t_name = ''lazy'', t_read = t_read t, t_size = t_size t, t_write = type_write t,
      t_serialize = type_serialize t, t_validate = (\<lambda>_. Inr ())\<rparr>"

end
