(* ===== verification/Bcs_Codec.thy ===== *)
theory Bcs_Codec
  imports Bcs_Containers
begin

text \<open>
  What a BCS type promises, as a contract on one value (\<open>codec t v x bs\<close>: the input \<open>v\<close> is accepted,
  written as exactly \<open>bs\<close>, and \<open>bs\<close> is read back as \<open>x\<close>), as the locale \<open>bcs_codec\<close> over all
  values of a type, and the proof that every constructor of \<open>bcs\<close> meets it.
\<close>

subsection \<open>The contract\<close>

definition codec :: "bcs_type \<Rightarrow> jsval \<Rightarrow> jsval \<Rightarrow> byte list \<Rightarrow> bool" where
  "codec t v x bs \<longleftrightarrow>
     t_validate t v = Inr () \<and>
     (\<forall>w. winv w \<longrightarrow> emits w bs (t_write t v w)) \<and>
     (\<forall>opts. o_maxSize opts = None \<longrightarrow> t_serialize t v opts = Inr bs) \<and>
     reads bs x (t_read t) \<and>
     (\<exists>s. t_size t v = Inr s \<and> (\<forall>n. s = Some n \<longrightarrow> n = length bs))"

lemma codec_validate: "codec t v x bs \<Longrightarrow> t_validate t v = Inr ()"
  by (simp add: codec_def)

lemma codec_write: "codec t v x bs \<Longrightarrow> winv w \<Longrightarrow> emits w bs (t_write t v w)"
  by (simp add: codec_def)

lemma codec_type_write: "codec t v x bs \<Longrightarrow> winv w \<Longrightarrow> emits w bs (type_write t v w)"
  by (simp add: codec_def type_write_def)

lemma codec_serialize: "codec t v x bs \<Longrightarrow> o_maxSize opts = None \<Longrightarrow> t_serialize t v opts = Inr bs"
  by (simp add: codec_def)

lemma codec_type_serialize: "codec t v x bs \<Longrightarrow> o_maxSize opts = None \<Longrightarrow> type_serialize t v opts = Inr bs"
  by (simp add: codec_def type_serialize_def)

lemma codec_reads: "codec t v x bs \<Longrightarrow> reads bs x (t_read t)"
  by (simp add: codec_def)

lemma codec_size:
  assumes "codec t v x bs"
  obtains s where "t_size t v = Inr s" "\<And>n. s = Some n \<Longrightarrow> n = length bs"
  using assms by (auto simp: codec_def)

lemma codec_parse: "codec t v x bs \<Longrightarrow> type_parse t (uint8array_of (bs @ rest)) = Inr x"
  using readsD [OF codec_reads view_at_new_reader] by (simp add: type_parse_def)

locale bcs_codec =
  fixes t :: bcs_type
    and valid :: "'a \<Rightarrow> bool"
    and inp :: "'a \<Rightarrow> jsval"
    and outp :: "'a \<Rightarrow> jsval"
    and enc :: "'a \<Rightarrow> byte list"
  assumes codec: "valid a \<Longrightarrow> codec t (inp a) (outp a) (enc a)"
begin

lemma serialize: "valid a \<Longrightarrow> o_maxSize opts = None \<Longrightarrow> type_serialize t (inp a) opts = Inr (enc a)"
  using codec codec_type_serialize by blast

lemma parse: "valid a \<Longrightarrow> type_parse t (uint8array_of (enc a @ rest)) = Inr (outp a)"
  using codec codec_parse by blast

lemma roundtrip:
  assumes "valid a"
  shows "rbind (type_serialize t (inp a) no_options) (\<lambda>bs. type_parse t (uint8array_of bs)) = Inr (outp a)"
  using serialize [OF assms, of no_options] parse [OF assms, of "[]"] by (simp add: no_options_def)

end

text \<open>A type built by \<open>new BcsType\<close> without its own \<open>serialize\<close>.\<close>

lemma emits_new_writer:
  assumes "\<And>w. winv w \<Longrightarrow> emits w bs (f w)" "o_maxSize opts = None"
  shows "rmap w_toBytes (f (new_writer opts)) = Inr bs"
  using emits_unbounded [OF assms(1) [OF winv_new_writer [of opts]]] assms(2) by auto

lemma codec_BcsType_new:
  assumes "validatef v = Inr ()" "\<And>w. winv w \<Longrightarrow> emits w bs (writef v w)" "reads bs x readf"
    and "sizef v = Inr s" "\<And>n. s = Some n \<Longrightarrow> n = length bs"
  shows "codec (BcsType_new name readf sizef writef validatef) v x bs"
  unfolding codec_def BcsType_new_def default_serialize_def
  using assms emits_new_writer [of bs "writef v"] by (auto simp: Let_def)

lemma codec_fixedSize:
  assumes "validatef v = Inr ()" "\<And>w. winv w \<Longrightarrow> emits w bs (writef v w)" "reads bs x readf" "n = length bs"
  shows "codec (fixedSizeBcsType n name readf writef validatef) v x bs"
  unfolding fixedSizeBcsType_def by (rule codec_BcsType_new [of validatef v bs writef x readf]) (use assms in auto)

subsection \<open>Numbers\<close>

lemma word_of_int_byte_le: "[word_of_int (int n) :: byte] = le_bytes 1 n"
  by simp

lemma codec_uInt:
  assumes "to_number v = Some (int n)" "int n \<le> m" "opt_validate opts = None"
    and "\<And>w. winv w \<Longrightarrow> emits w (le_bytes k n) (wr w (int n))" "reads (le_bytes k n) n rd"
  shows "codec (uIntBcsType name k rd wr m opts) v (JNum (int n)) (le_bytes k n)"
  unfolding uIntBcsType_def
  by (rule codec_fixedSize)
    (use assms reads_rmap [OF assms(5), of "\<lambda>n. JNum (int n)"] in \<open>auto simp: check_def run_validate_def\<close>)

lemma codec_bigUInt:
  assumes "to_bigint v = Inr (int n)" "int n \<le> m" "opt_validate opts = None"
    and "\<And>w. winv w \<Longrightarrow> emits w (le_bytes k n) (wr w (int n))"
    and "reads (le_bytes k n) (show_base 10 n) rd"
  shows "codec (bigUIntBcsType name k rd wr m opts) v (JStr (show_base 10 n)) (le_bytes k n)"
  unfolding bigUIntBcsType_def
  by (rule codec_fixedSize)
    (use assms reads_rmap [OF assms(5), of JStr] in \<open>auto simp: check_def run_validate_def\<close>)

lemma le_val_le_bytes_small: "n < 256 ^ k \<Longrightarrow> le_val (le_bytes k n) = n"
  by (simp add: le_val_le_bytes)

lemma codec_u8: "to_number v = Some (int n) \<Longrightarrow> n < 2 ^ 8 \<Longrightarrow> codec (bcs_u8 no_opts) v (JNum (int n)) (le_bytes 1 n)"
  unfolding bcs_u8_def
  by (rule codec_uInt)
    (use reads_read8 [of "word_of_nat n"] emits_write8 [of _ "int n"] in \<open>auto simp: no_opts_def\<close>)

lemma codec_u16: "to_number v = Some (int n) \<Longrightarrow> n < 2 ^ 16 \<Longrightarrow> codec (bcs_u16 no_opts) v (JNum (int n)) (le_bytes 2 n)"
  unfolding bcs_u16_def
  by (rule codec_uInt)
    (use reads_read16 [of "le_bytes 2 n"] emits_write16 [of _ "int n"] in \<open>auto simp: no_opts_def le_val_le_bytes_small\<close>)

lemma codec_u32: "to_number v = Some (int n) \<Longrightarrow> n < 2 ^ 32 \<Longrightarrow> codec (bcs_u32 no_opts) v (JNum (int n)) (le_bytes 4 n)"
  unfolding bcs_u32_def
  by (rule codec_uInt)
    (use reads_read32 [of "le_bytes 4 n"] emits_write32 [of _ "int n"] in \<open>auto simp: no_opts_def le_val_le_bytes_small\<close>)

lemma codec_u64:
  "to_bigint v = Inr (int n) \<Longrightarrow> n < 2 ^ 64 \<Longrightarrow> codec (bcs_u64 no_opts) v (JStr (show_base 10 n)) (le_bytes 8 n)"
  unfolding bcs_u64_def
  by (rule codec_bigUInt)
    (use reads_read64 [of "le_bytes 8 n"] emits_write64 [of _ n] in \<open>auto simp: no_opts_def le_val_le_bytes_small\<close>)

lemma codec_u128:
  "to_bigint v = Inr (int n) \<Longrightarrow> n < 2 ^ 128 \<Longrightarrow> codec (bcs_u128 no_opts) v (JStr (show_base 10 n)) (le_bytes 16 n)"
  unfolding bcs_u128_def
  by (rule codec_bigUInt)
    (use reads_read128 [of "le_bytes 16 n"] emits_write128 [of _ n] in \<open>auto simp: no_opts_def le_val_le_bytes_small\<close>)

lemma codec_u256:
  "to_bigint v = Inr (int n) \<Longrightarrow> n < 2 ^ 256 \<Longrightarrow> codec (bcs_u256 no_opts) v (JStr (show_base 10 n)) (le_bytes 32 n)"
  unfolding bcs_u256_def
  by (rule codec_bigUInt)
    (use reads_read256 [of "le_bytes 32 n"] emits_write256 [of _ n] in \<open>auto simp: no_opts_def le_val_le_bytes_small\<close>)

lemma codec_bool: "codec (bcs_bool no_opts) (JBool b) (JBool b) [if b then 1 else 0]"
  unfolding bcs_bool_def
proof (rule codec_fixedSize)
  show "emits w [if b then 1 else 0] (write8 w (if truthy (JBool b) then 1 else 0))" if "winv w" for w
    using emits_write8 [OF that, of "if b then 1 else 0"] by auto
  show "reads [if b then 1 else 0] (JBool b) (\<lambda>r. rmap (\<lambda>(n, r). (JBool (n = 1), r)) (read8 r))"
    using reads_rmap [OF reads_read8 [of "if b then 1 else 0"], of "\<lambda>n. JBool (n = 1)" "JBool b"] by (cases b) auto
qed (auto simp: check_def run_validate_def no_opts_def)

lemma codec_uleb128:
  assumes "to_bigint v = Inr (int n)" "n \<le> MAX_SAFE_INTEGER"
  shows "codec (bcs_uleb128 no_opts) v (JNum (int n)) (ulebEncode (int n))"
  unfolding codec_def bcs_uleb128_def dynamicSizeBcsType_def
  using assms reads_rmap [OF reads_readULEB [OF assms(2)], of "\<lambda>n. JNum (int n)"]
  by (auto simp: run_validate_def no_opts_def emits_write8_all no_size_def)

subsection \<open>Bytes and strings\<close>

text \<open>The iterables of bytes a caller may pass: a byte array or an array of numbers.\<close>

lemma new_Uint8Array_ok:
  "new_Uint8Array v = Inr bs \<Longrightarrow> js_length v = Some (length bs)"
  by (cases v) (auto simp: js_length_def)

lemma codec_bytes:
  assumes "new_Uint8Array v = Inr bs" "length bs = n"
  shows "codec (bcs_bytes n no_opts) v (JBytes bs) bs"
  unfolding bcs_bytes_def
  by (rule codec_fixedSize)
    (use assms new_Uint8Array_ok [OF assms(1)] reads_rmap [OF reads_readBytes [of bs], of JBytes] in
     \<open>auto simp: check_length_def check_def run_validate_def no_opts_def emits_writeBytes\<close>)

text \<open>A length, then that many bytes.\<close>

lemma reads_prefixed:
  assumes "length bs \<le> MAX_SAFE_INTEGER"
  shows "reads (ulebEncode (int (length bs)) @ bs) (h bs)
          (\<lambda>r. rbind (readULEB r) (\<lambda>(len, r). rmap (\<lambda>(bs, r). (h bs, r)) (readBytes r len)))"
  by (rule reads_bind [OF reads_readULEB [OF assms]]) (rule reads_rmap [OF reads_readBytes], simp)

lemma codec_byteVector:
  assumes "new_Uint8Array v = Inr bs" "length bs \<le> MAX_SAFE_INTEGER"
  shows "codec (bcs_byteVector no_opts) v (JBytes bs) (ulebEncode (int (length bs)) @ bs)"
  unfolding bcs_byteVector_def
proof (rule codec_BcsType_new)
  show "emits w (ulebEncode (int (length bs)) @ bs)
      (rbind (new_Uint8Array v) (\<lambda>array. rbind (writeULEB w (int (length array))) (\<lambda>w. writeBytes w array)))"
    if "winv w" for w
    using assms that by (auto intro!: emits_bind emits_writeULEB emits_writeBytes)
  show "reads (ulebEncode (int (length bs)) @ bs) (JBytes bs)
     (\<lambda>r. rbind (readULEB r) (\<lambda>(len, r). rmap (\<lambda>(bs, r). (JBytes bs, r)) (readBytes r len)))"
    by (rule reads_prefixed [OF assms(2)])
qed (use new_Uint8Array_ok [OF assms(1)] in \<open>auto simp: check_array_def check_def run_validate_def no_opts_def\<close>)

lemma codec_string:
  assumes "fromBytes (toBytes s) = s" "length (toBytes s) \<le> MAX_SAFE_INTEGER"
  shows "codec (stringLikeBcsType toBytes fromBytes name no_opts) (JStr s) (JStr s)
           (ulebEncode (int (length (toBytes s))) @ toBytes s)"
  using assms(1) reads_prefixed [OF assms(2), of "\<lambda>bs. JStr (fromBytes bs)"]
  by (auto simp: codec_def stringLikeBcsType_def Let_def check_def run_validate_def no_opts_def no_size_def
      intro!: emits_bind emits_writeULEB emits_write8_all)

end
