(* ===== verification/Bcs_Schema.thy ===== *)
theory Bcs_Schema
  imports Bcs_Codec
begin

text \<open>
  The composite constructors meet the contract of \<open>Bcs_Codec\<close>, and the BCS format itself: a
  \<open>schema\<close> is an expression over the constructors of \<open>bcs\<close>, \<open>bcs_of\<close> the \<open>BcsType\<close> it builds, and
  \<open>encodes\<close> the specification of the encoding, independent of the code.
\<close>

subsection \<open>Sequences of items\<close>

text \<open>An item is an input, its output and its bytes.\<close>

type_synonym item = "jsval \<times> jsval \<times> byte list"

abbreviation i_in :: "item \<Rightarrow> jsval" where "i_in p \<equiv> fst p"
abbreviation i_out :: "item \<Rightarrow> jsval" where "i_out p \<equiv> fst (snd p)"
abbreviation i_bytes :: "item \<Rightarrow> byte list" where "i_bytes p \<equiv> snd (snd p)"

definition codec_item :: "bcs_type \<Rightarrow> item \<Rightarrow> bool" where
  "codec_item t p \<longleftrightarrow> codec t (i_in p) (i_out p) (i_bytes p)"

lemma item_write: "codec_item t p \<Longrightarrow> winv w \<Longrightarrow> emits w (i_bytes p) (type_write t (i_in p) w)"
  by (simp add: codec_item_def codec_type_write)

lemma item_reads: "codec_item t p \<Longrightarrow> reads (i_bytes p) (i_out p) (t_read t)"
  by (simp add: codec_item_def codec_reads)

lemma item_size:
  assumes "codec_item t p"
  obtains s where "t_size t (i_in p) = Inr s" "\<And>n. s = Some n \<Longrightarrow> n = length (i_bytes p)"
  using assms by (auto simp: codec_item_def elim: codec_size)

lemma emits_items:
  assumes "winv w" "\<And>p. p \<in> set ps \<Longrightarrow> codec_item t p"
  shows "emits w (concat (map i_bytes ps)) (rfold (\<lambda>w x. type_write t x w) w (map i_in ps))"
proof -
  have "emits w (concat (map i_bytes ps)) (rfold (\<lambda>w p. type_write t (i_in p) w) w ps)"
    by (rule emits_rfold) (simp_all only: assms item_write)
  moreover have "rfold (\<lambda>w p. type_write t (i_in p) w) v ps = rfold (\<lambda>w x. type_write t x w) v (map i_in ps)" for v
  proof (induction ps arbitrary: v)
    case (Cons p ps)
    then show ?case by (cases "type_write t (i_in p) v") auto
  qed simp
  ultimately show ?thesis by simp
qed

lemma reads_items:
  assumes "\<And>p. p \<in> set ps \<Longrightarrow> codec_item t p" "n = length ps"
  shows "reads (concat (map i_bytes ps)) (JArr (map i_out ps))
           (\<lambda>r. rmap (\<lambda>(xs, r). (JArr xs, r)) (read_loop (\<lambda>r _. t_read t r) 0 n r))"
proof -
  have "reads (concat (map i_bytes ps)) (map i_out ps) (read_loop (\<lambda>r _. t_read t r) 0 (length ps))"
    by (rule reads_read_loop) (simp only: assms item_reads)
  from reads_rmap [OF this, of JArr] assms(2) show ?thesis by simp
qed

lemma reads_guard: "c = Inr u \<Longrightarrow> reads bs v f \<Longrightarrow> reads bs v (\<lambda>r. rbind c (\<lambda>_. f r))"
  by (simp add: reads_def)

lemma codec_vector:
  assumes "\<And>p. p \<in> set ps \<Longrightarrow> codec_item t p" "length ps < 2 ^ 32"
  shows "codec (vector t no_opts) (JArr (map i_in ps)) (JArr (map i_out ps))
           (ulebEncode (int (length ps)) @ concat (map i_bytes ps))"
  unfolding vector_def
proof (rule codec_BcsType_new)
  have "length ps \<le> MAX_SAFE_INTEGER" using assms(2) by (simp add: MAX_SAFE_INTEGER_def)
  then show "reads (ulebEncode (int (length ps)) @ concat (map i_bytes ps)) (JArr (map i_out ps))
     (\<lambda>r. rbind (readULEB r) (\<lambda>(len, r). rbind (new_Array len) (\<lambda>_.
            rmap (\<lambda>(xs, r). (JArr xs, r)) (read_loop (\<lambda>r _. t_read t r) 0 len r))))"
    by (intro reads_bind [OF reads_readULEB] reads_guard [where u = "()"] reads_items)
      (use assms in \<open>auto simp: new_Array_def\<close>)
  show "emits w (ulebEncode (int (length ps)) @ concat (map i_bytes ps))
    (rbind (iterate (JArr (map i_in ps))) (\<lambda>xs. rbind (writeULEB w (int (length xs)))
       (\<lambda>w. rfold (\<lambda>w x. type_write t x w) w xs)))" if "winv w" for w
    using that assms(1) by (auto simp: iterate_def intro!: emits_bind emits_writeULEB emits_items)
qed (auto simp: check_array_def check_def run_validate_def no_opts_def js_length_def no_size_def)

lemma codec_fixedArray:
  assumes "\<And>p. p \<in> set ps \<Longrightarrow> codec_item t p" "length ps < 2 ^ 32" "n = length ps"
  shows "codec (fixedArray n t no_opts) (JArr (map i_in ps)) (JArr (map i_out ps)) (concat (map i_bytes ps))"
  unfolding fixedArray_def
proof (rule codec_BcsType_new)
  show "reads (concat (map i_bytes ps)) (JArr (map i_out ps))
     (\<lambda>r. rbind (new_Array n) (\<lambda>_. rmap (\<lambda>(xs, r). (JArr xs, r)) (read_loop (\<lambda>r _. t_read t r) 0 n r)))"
    by (intro reads_guard [where u = "()"] reads_items) (use assms in \<open>auto simp: new_Array_def\<close>)
qed (use assms in \<open>auto simp: check_length_def check_def run_validate_def no_opts_def js_length_def
       no_size_def iterate_def intro!: emits_items\<close>)

subsection \<open>Tuples\<close>

definition codec_pair :: "bcs_type \<times> item \<Rightarrow> bool" where
  "codec_pair q \<longleftrightarrow> codec_item (fst q) (snd q)"

lemma get_index_middle: "get_index (JArr (pre @ x # post)) (length pre) = Inr x"
  by (simp add: get_index_def)

lemma tuple_size_ok:
  assumes "\<And>q. q \<in> set qs \<Longrightarrow> codec_pair q"
  shows "\<exists>s. tuple_size (map fst qs) (length pre) tot (JArr (pre @ map (\<lambda>q. i_in (snd q)) qs)) = Inr s \<and>
             (\<forall>n. s = Some n \<longrightarrow> n = tot + length (concat (map (\<lambda>q. i_bytes (snd q)) qs)))"
  using assms
proof (induction qs arbitrary: pre tot)
  case (Cons q qs)
  have "codec_item (fst q) (snd q)" using Cons.prems by (simp add: codec_pair_def)
  then obtain s where s: "t_size (fst q) (i_in (snd q)) = Inr s" "\<And>n. s = Some n \<Longrightarrow> n = length (i_bytes (snd q))"
    by (rule item_size) blast
  show ?case
    using Cons.IH [of "pre @ [i_in (snd q)]" "tot + length (i_bytes (snd q))"] Cons.prems s
    by (cases s) (auto simp: get_index_middle add.assoc)
qed simp

lemma tuple_read_ok:
  "(\<And>q. q \<in> set qs \<Longrightarrow> codec_pair q) \<Longrightarrow>
   reads (concat (map (\<lambda>q. i_bytes (snd q)) qs)) (map (\<lambda>q. i_out (snd q)) qs) (tuple_read (map fst qs))"
proof (induction qs)
  case (Cons q qs)
  have "reads (i_bytes (snd q) @ concat (map (\<lambda>q. i_bytes (snd q)) qs)) (map (\<lambda>q. i_out (snd q)) (q # qs))
    (\<lambda>r. rbind (t_read (fst q) r) (\<lambda>(x, r). rmap (\<lambda>(xs, r). (x # xs, r)) (tuple_read (map fst qs) r)))"
    by (rule reads_bind [OF item_reads], use Cons.prems in \<open>simp add: codec_pair_def\<close>)
       (rule reads_rmap [OF Cons.IH]; use Cons.prems in simp)
  then show ?case by (simp add: reads_def)
qed (simp add: reads_def)

lemma tuple_write_ok:
  "winv w \<Longrightarrow> (\<And>q. q \<in> set qs \<Longrightarrow> codec_pair q) \<Longrightarrow>
   emits w (concat (map (\<lambda>q. i_bytes (snd q)) qs))
     (tuple_write (map fst qs) (length pre) (JArr (pre @ map (\<lambda>q. i_in (snd q)) qs)) w)"
proof (induction qs arbitrary: pre w)
  case (Cons q qs)
  have q: "codec_item (fst q) (snd q)" using Cons.prems by (simp add: codec_pair_def)
  have rest: "emits w' (concat (map (\<lambda>q. i_bytes (snd q)) qs))
      (tuple_write (map fst qs) (length pre + 1) (JArr (pre @ map (\<lambda>q. i_in (snd q)) (q # qs))) w')" if "winv w'" for w'
    using Cons.IH [of w' "pre @ [i_in (snd q)]"] that Cons.prems by simp
  show ?case
    using emits_bind [OF Cons.prems(1) item_write [OF q Cons.prems(1)] rest] by (simp add: get_index_middle)
qed simp

lemma codec_tuple:
  assumes "\<And>q. q \<in> set qs \<Longrightarrow> codec_pair q" "ts = map fst qs"
  shows "codec (BcsTuple ts no_opts) (JArr (map (\<lambda>q. i_in (snd q)) qs)) (JArr (map (\<lambda>q. i_out (snd q)) qs))
           (concat (map (\<lambda>q. i_bytes (snd q)) qs))"
proof -
  have qs: "\<And>q. q \<in> set qs \<Longrightarrow> codec_pair q" by (rule assms(1))
  obtain s where s: "tuple_size ts 0 0 (JArr (map (\<lambda>q. i_in (snd q)) qs)) = Inr s"
      "\<And>n. s = Some n \<Longrightarrow> n = length (concat (map (\<lambda>q. i_bytes (snd q)) qs))"
    using tuple_size_ok [OF qs, of qs "[]" 0] assms(2) by auto
  show ?thesis
    unfolding BcsTuple_def
  proof (rule codec_BcsType_new)
    show "reads (concat (map (\<lambda>q. i_bytes (snd q)) qs)) (JArr (map (\<lambda>q. i_out (snd q)) qs))
            (\<lambda>r. rmap (\<lambda>(xs, r). (JArr xs, r)) (tuple_read ts r))"
      using reads_rmap [OF tuple_read_ok [OF qs], of qs JArr] assms(2) by simp
    show "emits w (concat (map (\<lambda>q. i_bytes (snd q)) qs))
            (tuple_write ts 0 (JArr (map (\<lambda>q. i_in (snd q)) qs)) w)" if "winv w" for w
      using tuple_write_ok [OF that qs, of qs "[]"] assms(2) by simp
    show "tuple_size ts 0 0 (JArr (map (\<lambda>q. i_in (snd q)) qs)) = Inr s" by (rule s)
    show "n = length (concat (map (\<lambda>q. i_bytes (snd q)) qs))" if "s = Some n" for n
      using s that by blast
  qed (use assms(2) in \<open>auto simp: check_def run_validate_def no_opts_def\<close>)
qed

subsection \<open>Structs\<close>

text \<open>A field: its name, its type, its item.\<close>

type_synonym field_item = "string \<times> bcs_type \<times> item"

abbreviation f_item :: "field_item \<Rightarrow> item" where "f_item f \<equiv> snd (snd f)"

definition codec_field :: "field_item \<Rightarrow> bool" where
  "codec_field f \<longleftrightarrow> codec_item (fst (snd f)) (f_item f)"

definition f_type :: "field_item \<Rightarrow> string \<times> bcs_type" where
  "f_type f = (fst f, fst (snd f))"

text \<open>The input object has every field; its other properties are not looked at.\<close>

definition has_fields :: "jsval \<Rightarrow> field_item list \<Rightarrow> bool" where
  "has_fields v fs \<longleftrightarrow> (\<forall>f\<in>set fs. get_prop v (fst f) = Inr (i_in (f_item f)))"

lemma has_fields_Cons: "has_fields v (f # fs) \<longleftrightarrow> get_prop v (fst f) = Inr (i_in (f_item f)) \<and> has_fields v fs"
  by (simp add: has_fields_def)

lemma struct_Cons:
  "struct_size (f_type f # ts) tot v =
     rbind (get_prop v (fst f)) (\<lambda>x. rbind (t_size (fst (snd f)) x) (\<lambda>sz.
       case sz of None \<Rightarrow> Inr None | Some n \<Rightarrow> struct_size ts (tot + n) v))"
  "struct_read (f_type f # ts) r =
     rbind (t_read (fst (snd f)) r) (\<lambda>(x, r). rmap (\<lambda>(ps, r). ((fst f, x) # ps, r)) (struct_read ts r))"
  "struct_write (f_type f # ts) v w =
     rbind (rbind (get_prop v (fst f)) (\<lambda>x. type_write (fst (snd f)) x w)) (struct_write ts v)"
  by (simp_all add: f_type_def struct_write_def [abs_def])

lemma struct_size_ok:
  assumes "\<And>f. f \<in> set fs \<Longrightarrow> codec_field f" "has_fields v fs"
  shows "\<exists>s. struct_size (map f_type fs) tot v = Inr s \<and>
             (\<forall>n. s = Some n \<longrightarrow> n = tot + length (concat (map (\<lambda>f. i_bytes (f_item f)) fs)))"
  using assms
proof (induction fs arbitrary: tot)
  case (Cons f fs)
  have "codec_item (fst (snd f)) (f_item f)" using Cons.prems by (simp add: codec_field_def)
  then obtain s where s: "t_size (fst (snd f)) (i_in (f_item f)) = Inr s" "\<And>n. s = Some n \<Longrightarrow> n = length (i_bytes (f_item f))"
    by (rule item_size) blast
  show ?case
    using Cons.IH [of "tot + length (i_bytes (f_item f))"] Cons.prems s
    by (cases s) (auto simp: struct_Cons has_fields_Cons add.assoc)
qed simp

lemma struct_read_ok:
  "(\<And>f. f \<in> set fs \<Longrightarrow> codec_field f) \<Longrightarrow>
   reads (concat (map (\<lambda>f. i_bytes (f_item f)) fs)) (map (\<lambda>f. (fst f, i_out (f_item f))) fs)
     (struct_read (map f_type fs))"
proof (induction fs)
  case (Cons f fs)
  have "reads (i_bytes (f_item f) @ concat (map (\<lambda>f. i_bytes (f_item f)) fs))
      (map (\<lambda>f. (fst f, i_out (f_item f))) (f # fs))
    (\<lambda>r. rbind (t_read (fst (snd f)) r)
       (\<lambda>(x, r). rmap (\<lambda>(ps, r). ((fst f, x) # ps, r)) (struct_read (map f_type fs) r)))"
    by (rule reads_bind [OF item_reads], use Cons.prems in \<open>simp add: codec_field_def\<close>)
       (rule reads_rmap [OF Cons.IH]; use Cons.prems in simp)
  then show ?case by (simp add: struct_Cons reads_def)
qed (simp add: reads_def)

lemma struct_write_ok:
  "winv w \<Longrightarrow> (\<And>f. f \<in> set fs \<Longrightarrow> codec_field f) \<Longrightarrow> has_fields v fs \<Longrightarrow>
   emits w (concat (map (\<lambda>f. i_bytes (f_item f)) fs)) (struct_write (map f_type fs) v w)"
proof (induction fs arbitrary: w)
  case (Cons f fs)
  have f: "codec_item (fst (snd f)) (f_item f)" using Cons.prems by (simp add: codec_field_def)
  have rest: "emits w' (concat (map (\<lambda>f. i_bytes (f_item f)) fs)) (struct_write (map f_type fs) v w')"
    if "winv w'" for w'
    using Cons.IH [OF that] Cons.prems by (simp add: has_fields_Cons)
  show ?case
    using emits_bind [OF Cons.prems(1) item_write [OF f Cons.prems(1)] rest] Cons.prems(3)
    by (simp add: struct_Cons has_fields_Cons)
qed (simp add: struct_write_def)

lemma codec_struct:
  assumes "\<And>f. f \<in> set fs \<Longrightarrow> codec_field f" "has_fields v fs" "is_object v" "ts = map f_type fs"
  shows "codec (BcsStruct name ts no_opts) v (JObj (map (\<lambda>f. (fst f, i_out (f_item f))) fs))
           (concat (map (\<lambda>f. i_bytes (f_item f)) fs))"
proof -
  have fs: "\<And>f. f \<in> set fs \<Longrightarrow> codec_field f" by (rule assms(1))
  obtain s where s: "struct_size ts 0 v = Inr s"
      "\<And>n. s = Some n \<Longrightarrow> n = length (concat (map (\<lambda>f. i_bytes (f_item f)) fs))"
    using struct_size_ok [OF fs assms(2), of 0] assms(4) by auto
  show ?thesis
    unfolding BcsStruct_def
  proof (rule codec_BcsType_new)
    show "reads (concat (map (\<lambda>f. i_bytes (f_item f)) fs)) (JObj (map (\<lambda>f. (fst f, i_out (f_item f))) fs))
            (\<lambda>r. rmap (\<lambda>(ps, r). (JObj ps, r)) (struct_read ts r))"
      using reads_rmap [OF struct_read_ok [OF fs], of fs JObj] assms(4) by simp
    show "emits w (concat (map (\<lambda>f. i_bytes (f_item f)) fs)) (struct_write ts v w)" if "winv w" for w
      using struct_write_ok [OF that fs assms(2)] assms(4) by simp
    show "struct_size ts 0 v = Inr s" by (rule s)
    show "n = length (concat (map (\<lambda>f. i_bytes (f_item f)) fs))" if "s = Some n" for n
      using s that by blast
  qed (use assms(3) in \<open>auto simp: check_def run_validate_def no_opts_def\<close>)
qed

subsection \<open>Enums and options\<close>

lemma enum_write_loop_ok:
  assumes "distinct (map fst flds)" "i < length flds" "flds ! i = (name, type)"
  shows "enum_write_loop flds k name val w =
           rbind (writeULEB w (int (k + i))) (\<lambda>w. case type of None \<Rightarrow> Inr w | Some t \<Rightarrow> type_write t val w)"
  using assms
proof (induction flds arbitrary: i k)
  case (Cons f flds)
  show ?case
  proof (cases i)
    case (Suc j)
    then have j: "flds ! j = (name, type)" "j < length flds" using Cons.prems by auto
    then have "name \<in> set (map fst flds)" by (metis fst_conv image_eqI list.set_map nth_mem)
    then have "fst f \<noteq> name" using Cons.prems(1) by auto
    then show ?thesis using Cons.IH [of j "k + 1"] Cons.prems j Suc by (cases f) auto
  qed (use Cons.prems in auto)
qed simp

text \<open>The value of an enum: one own property of the enum's names, the variant, not undefined.\<close>

definition variant_input :: "(string \<times> bcs_type option) list \<Rightarrow> jsval \<Rightarrow> string \<Rightarrow> jsval \<Rightarrow> bool" where
  "variant_input flds v name x \<longleftrightarrow>
     is_object v \<and> filter (\<lambda>(k, _). has_own flds k) (entries v) = [(name, x)] \<and> x \<noteq> JUndefined"

lemma codec_enum:
  assumes "distinct (map fst flds)" "i < length flds" "flds ! i = (name, type)" "i \<le> MAX_SAFE_INTEGER"
    and "variant_input flds v name (i_in p)"
    and "case type of None \<Rightarrow> i_out p = JUndefined \<and> i_bytes p = [] | Some t \<Rightarrow> codec_item t p"
  shows "codec (BcsEnum ename flds no_opts) v (variant_object name (i_out p)) (ulebEncode (int i) @ i_bytes p)"
  unfolding BcsEnum_def
proof (rule codec_BcsType_new)
  show "emits w (ulebEncode (int i) @ i_bytes p) (enum_write flds v w)" if w: "winv w" for w
  proof -
    have "emits w' (i_bytes p) (case type of None \<Rightarrow> Inr w' | Some t \<Rightarrow> type_write t (i_in p) w')" if "winv w'" for w'
      using assms(6) that item_write by (cases type) auto
    from emits_bind [OF w emits_writeULEB [OF w] this, of "int i"] show ?thesis
      using enum_write_loop_ok [OF assms(1-3), of 0] assms(5) by (simp add: enum_write_def variant_input_def)
  qed
  show "reads (ulebEncode (int i) @ i_bytes p) (variant_object name (i_out p)) (enum_read flds)"
    unfolding enum_read_def
    by (rule reads_bind [OF reads_readULEB [OF assms(4)]])
      (use assms(2,3,6) reads_rmap [OF item_reads, of _ p "variant_object name"] in
       \<open>auto simp: reads_def split: option.splits\<close>)
  have one: "filter (\<lambda>(k, _). has_own flds k) (entries v) = [(name, i_in p)]"
    using assms(5) by (simp add: variant_input_def)
  have "filter (\<lambda>(k, x). x \<noteq> JUndefined \<and> has_own flds k) (entries v)
        = filter (\<lambda>(k, x). x \<noteq> JUndefined) (filter (\<lambda>(k, _). has_own flds k) (entries v))"
    by (simp add: case_prod_unfold conj_commute)
  also have "\<dots> = [(name, i_in p)]"
    unfolding one using assms(5) by (simp add: variant_input_def)
  finally show "rbind (run_validate no_opts v) (\<lambda>_. rbind (check (is_object v) ''Expected object'') (\<lambda>_.
      check (length (filter (\<lambda>(k, x). x \<noteq> JUndefined \<and> has_own flds k) (entries v)) = 1)
        ''Expected object with one key'')) = Inr ()"
    using assms(5) by (simp add: variant_input_def check_def run_validate_def no_opts_def)
qed (auto simp: no_size_def)

lemma codec_transform:
  assumes "inp v = Inr v'" "codec t v' x bs" "outp x = Inr y"
  shows "codec (type_transform t name (Some inp) (Some outp) None) v y bs"
  using assms by (auto simp: codec_def type_transform_def Let_def reads_def)

lemma codec_option_none:
  assumes "is_nullish v"
  shows "codec (bcs_option t) v JNull [0]"
  unfolding bcs_option_def
proof (rule codec_transform)
  show "option_input v = Inr (JObj [(''None'', JBool True)])" using assms by (simp add: option_input_def)
  have "codec (BcsEnum (''Option<'' @ t_name t @ ''>'') [(''None'', None), (''Some'', Some t)] no_opts)
          (JObj [(''None'', JBool True)]) (variant_object ''None'' (i_out (JBool True, JUndefined, [])))
          (ulebEncode (int 0) @ i_bytes (JBool True, JUndefined, []))"
    by (rule codec_enum) (auto simp: variant_input_def has_own_def)
  moreover have "ulebEncode 0 = [0]" by (simp add: ulebEncode_def)
  ultimately show "codec (BcsEnum (''Option<'' @ t_name t @ ''>'') [(''None'', None), (''Some'', Some t)] no_opts)
          (JObj [(''None'', JBool True)]) (JObj [(''None'', JBool True), (''$kind'', JStr ''None'')]) [0]"
    by (simp add: variant_object_def)
qed (simp add: option_output_def get_prop_def)

definition option_value :: "jsval \<Rightarrow> jsval" where
  "option_value x = (if is_nullish x then JBool True else x)"

lemma ulebEncode_1: "ulebEncode 1 = [1]"
  by code_simp

lemma codec_option_some:
  assumes "codec_item t p" "\<not> is_nullish (i_in p)"
  shows "codec (bcs_option t) (i_in p) (option_value (i_out p)) (1 # i_bytes p)"
  unfolding bcs_option_def
proof (rule codec_transform)
  show "option_input (i_in p) = Inr (JObj [(''Some'', i_in p)])" using assms by (simp add: option_input_def)
  have "i_in p \<noteq> JUndefined" using assms(2) by auto
  then have "codec (BcsEnum (''Option<'' @ t_name t @ ''>'') [(''None'', None), (''Some'', Some t)] no_opts)
          (JObj [(''Some'', i_in p)]) (variant_object ''Some'' (i_out p)) (ulebEncode (int 1) @ i_bytes p)"
    by (intro codec_enum) (use assms(1) in \<open>auto simp: variant_input_def has_own_def MAX_SAFE_INTEGER_def\<close>)
  then show "codec (BcsEnum (''Option<'' @ t_name t @ ''>'') [(''None'', None), (''Some'', Some t)] no_opts)
          (JObj [(''Some'', i_in p)])
          (JObj [(''Some'', option_value (i_out p)), (''$kind'', JStr ''Some'')]) (1 # i_bytes p)"
    by (simp add: variant_object_def option_value_def ulebEncode_1)
qed (simp add: option_output_def get_prop_def)

lemma codec_lazy: "codec t v x bs \<Longrightarrow> codec (lazyBcsType t) v x bs"
  by (auto simp: codec_def lazyBcsType_def type_write_def type_serialize_def)

end
