(* ===== verification/Bcs_Map.thy ===== *)
theory Bcs_Map
  imports Bcs_Schema "HOL-Library.Multiset" "HOL-Library.List_Lexorder"
begin

text \<open>
  Canonical maps: \<open>compareBcsBytes\<close> is the lexicographic order on bytes, \<open>entries.sort\<close> with it
  gives one result for every insertion order of the entries, and \<open>bcs.map\<close> meets the contract of
  \<open>Bcs_Codec\<close>. The locale \<open>comparison\<close> is what a sort needs of its comparison function.
\<close>

subsection \<open>Comparison functions and the sort\<close>

locale comparison =
  fixes cmp :: "'a \<Rightarrow> 'a \<Rightarrow> int"
  assumes flip: "cmp x y > 0 \<longleftrightarrow> cmp y x < 0"
    and trans: "cmp x y \<le> 0 \<Longrightarrow> cmp y z \<le> 0 \<Longrightarrow> cmp x z \<le> 0"
begin

lemma mset_insert_cmp: "mset (insert_cmp cmp x ys) = add_mset x (mset ys)"
  by (induction ys) auto

lemma mset_js_sort: "mset (js_sort cmp xs) = mset xs"
  by (induction xs) (auto simp: js_sort_def mset_insert_cmp)

lemma set_js_sort: "set (js_sort cmp xs) = set xs"
  by (metis mset_js_sort set_mset_mset)

lemma set_insert_cmp: "set (insert_cmp cmp x ys) = insert x (set ys)"
  by (metis mset_insert_cmp set_mset_add_mset_insert set_mset_mset)

lemma sorted_insert_cmp:
  "sorted_wrt (\<lambda>x y. cmp x y \<le> 0) ys \<Longrightarrow> sorted_wrt (\<lambda>x y. cmp x y \<le> 0) (insert_cmp cmp x ys)"
proof (induction ys)
  case (Cons y ys)
  show ?case
  proof (cases "cmp x y > 0")
    case True
    then have "cmp y x \<le> 0" using flip by force
    with True Cons show ?thesis by (auto simp: set_insert_cmp)
  next
    case False
    with Cons.prems show ?thesis by (auto intro: trans [of x y])
  qed
qed simp

lemma sorted_js_sort: "sorted_wrt (\<lambda>x y. cmp x y \<le> 0) (js_sort cmp xs)"
  by (induction xs) (auto simp: js_sort_def sorted_insert_cmp)

text \<open>Two sorted lists of the same elements are equal when no two different elements compare equal.\<close>

lemma sorted_unique:
  assumes "sorted_wrt (\<lambda>x y. cmp x y \<le> 0) xs" "sorted_wrt (\<lambda>x y. cmp x y \<le> 0) ys" "mset xs = mset ys"
    and "\<And>x y. x \<in> set xs \<Longrightarrow> y \<in> set xs \<Longrightarrow> cmp x y = 0 \<Longrightarrow> x = y"
  shows "xs = ys"
  using assms
proof (induction xs arbitrary: ys)
  case (Cons x xs)
  then obtain y ys' where ys: "ys = y # ys'" by (cases ys) auto
  have sets: "set (x # xs) = set ys" using Cons.prems(3) by (metis set_mset_mset)
  have "x = y"
  proof (rule ccontr)
    assume "x \<noteq> y"
    then have "y \<in> set xs" "x \<in> set ys'" using sets ys by auto
    then have "cmp x y \<le> 0" "cmp y x \<le> 0" using Cons.prems(1,2) ys by auto
    then have "cmp x y = 0" using flip [of y x] by auto
    with \<open>x \<noteq> y\<close> \<open>y \<in> set xs\<close> Cons.prems(4) show False by auto
  qed
  moreover have "xs = ys'"
    by (rule Cons.IH) (use Cons.prems ys \<open>x = y\<close> in auto)
  ultimately show ?case using ys by simp
qed simp

lemma js_sort_eq:
  assumes "mset xs = mset ys" "sorted_wrt (\<lambda>x y. cmp x y \<le> 0) ys"
    and "\<And>x y. x \<in> set ys \<Longrightarrow> y \<in> set ys \<Longrightarrow> cmp x y = 0 \<Longrightarrow> x = y"
  shows "js_sort cmp xs = ys"
proof -
  have "set xs = set ys" using assms(1) by (metis set_mset_mset)
  with assms show ?thesis
    by (intro sorted_unique sorted_js_sort) (auto simp: mset_js_sort set_js_sort)
qed

lemma js_sort_canonical:
  assumes "mset xs = mset ys" "\<And>x y. x \<in> set ys \<Longrightarrow> y \<in> set ys \<Longrightarrow> cmp x y = 0 \<Longrightarrow> x = y"
  shows "js_sort cmp xs = js_sort cmp ys"
proof (rule js_sort_eq)
  show "x = y" if "x \<in> set (js_sort cmp ys)" "y \<in> set (js_sort cmp ys)" "cmp x y = 0" for x y
    using assms(2) that by (auto simp: set_js_sort)
qed (simp_all add: assms mset_js_sort sorted_js_sort)

end

lemma byte_order: "uint (a :: byte) - uint b < 0 \<longleftrightarrow> a < b" "uint (a :: byte) - uint b = 0 \<longleftrightarrow> a = b"
  by (auto simp: word_less_def uint_word_of_int_eq word_uint_eq_iff)

lemma nil_less: "[] < bs \<longleftrightarrow> bs \<noteq> []" "\<not> as < []" for as bs :: "byte list"
  by (cases bs; simp) simp

lemma compareBcsBytes_less: "compareBcsBytes a b < 0 \<longleftrightarrow> a < b"
proof (induction a b rule: compareBcsBytes.induct)
  case (1 a as b bs)
  then show ?case using byte_order [of a b] by (auto simp: Cons_less_Cons)
qed (auto simp: nil_less)

lemma compareBcsBytes_eq: "compareBcsBytes a b = 0 \<longleftrightarrow> a = b"
  by (induction a b rule: compareBcsBytes.induct) (auto simp: word_uint_eq_iff)

lemma compareBcsBytes_greater: "compareBcsBytes a b > 0 \<longleftrightarrow> b < a"
  using compareBcsBytes_less [of a b] compareBcsBytes_eq [of a b] by (metis linorder_less_linear not_less_iff_gr_or_eq)

lemma compareBcsBytes_le: "compareBcsBytes a b \<le> 0 \<longleftrightarrow> a \<le> b"
  using compareBcsBytes_greater [of a b] by (meson linorder_not_less)

interpretation key_order: comparison "\<lambda>(a :: byte list, _ :: 'v) (b, _ :: 'v). compareBcsBytes a b"
  by unfold_locales
    (auto simp: compareBcsBytes_less compareBcsBytes_greater compareBcsBytes_le split: prod.splits)

subsection \<open>Maps\<close>

type_synonym entry_item = "item \<times> item"

abbreviation e_in :: "entry_item \<Rightarrow> jsval \<times> jsval" where "e_in e \<equiv> (i_in (fst e), i_in (snd e))"
abbreviation e_out :: "entry_item \<Rightarrow> jsval \<times> jsval" where "e_out e \<equiv> (i_out (fst e), i_out (snd e))"
abbreviation e_bytes :: "entry_item \<Rightarrow> byte list" where "e_bytes e \<equiv> i_bytes (fst e) @ i_bytes (snd e)"

definition codec_entry :: "bcs_type \<Rightarrow> bcs_type \<Rightarrow> entry_item \<Rightarrow> bool" where
  "codec_entry kt vt e \<longleftrightarrow> codec_item kt (fst e) \<and> codec_item vt (snd e)"

text \<open>The entries in the order of their key bytes, all keys different before and after the trip.\<close>

definition canonical_entries :: "entry_item list \<Rightarrow> bool" where
  "canonical_entries es \<longleftrightarrow>
     sorted_wrt (<) (map (\<lambda>e. i_bytes (fst e)) es) \<and> distinct (map (\<lambda>e. i_out (fst e)) es)"

lemma map_set_new: "k \<notin> set (map fst m) \<Longrightarrow> map_set m k v = m @ [(k, v)]"
  by (simp add: map_set_def)

lemma map_read_loop_ok:
  assumes "\<And>e. e \<in> set es \<Longrightarrow> codec_entry kt vt e" "distinct (map fst m @ map (\<lambda>e. i_out (fst e)) es)"
  shows "reads (concat (map e_bytes es)) (m @ map e_out es) (map_read_loop kt vt (length es) m)"
  using assms
proof (induction es arbitrary: m)
  case (Cons e es)
  have e: "codec_item kt (fst e)" "codec_item vt (snd e)" using Cons.prems(1) by (auto simp: codec_entry_def)
  have m: "map_set m (i_out (fst e)) (i_out (snd e)) = m @ [e_out e]"
    using Cons.prems(2) by (intro map_set_new) auto
  have rest: "reads (concat (map e_bytes es)) (m @ map e_out (e # es))
      (map_read_loop kt vt (length es) (m @ [e_out e]))"
    using Cons.IH [of "m @ [e_out e]"] Cons.prems by auto
  have "reads (i_bytes (fst e) @ i_bytes (snd e) @ concat (map e_bytes es)) (m @ map e_out (e # es))
    (\<lambda>r. rbind (t_read kt r) (\<lambda>(k, r). rbind (t_read vt r) (\<lambda>(v, r).
       map_read_loop kt vt (length es) (map_set m k v) r)))"
    by (rule reads_bind [OF item_reads [OF e(1)]], rule reads_bind [OF item_reads [OF e(2)]])
      (use rest m in simp)
  then show ?case by (simp add: reads_def)
qed (simp add: reads_def)

text \<open>What \<open>map_entries\<close> makes of an entry: the bytes of its key and its value.\<close>

definition e_key :: "entry_item \<Rightarrow> byte list \<times> jsval" where
  "e_key e = (i_bytes (fst e), i_in (snd e))"

lemma strict_sorted_keys:
  assumes "sorted_wrt (<) (map fst ps)"
  shows "sorted_wrt (\<lambda>x y. (case x of (a, _) \<Rightarrow> \<lambda>(b, _). compareBcsBytes a b) y \<le> 0) (ps :: (byte list \<times> 'v) list)"
    and "p \<in> set ps \<Longrightarrow> q \<in> set ps \<Longrightarrow> (case p of (a, _) \<Rightarrow> \<lambda>(b, _). compareBcsBytes a b) q = 0 \<Longrightarrow> p = q"
proof -
  have "sorted_wrt (\<lambda>x y. fst x < fst y) ps" using assms by (simp add: sorted_wrt_map)
  then show "sorted_wrt (\<lambda>x y. (case x of (a, _) \<Rightarrow> \<lambda>(b, _). compareBcsBytes a b) y \<le> 0) ps"
    by (rule sorted_wrt_mono_rel [rotated]) (auto simp: compareBcsBytes_le)
  have "distinct (map fst ps)" using assms strict_sorted_iff by blast
  then show "p \<in> set ps \<Longrightarrow> q \<in> set ps \<Longrightarrow> (case p of (a, _) \<Rightarrow> \<lambda>(b, _). compareBcsBytes a b) q = 0 \<Longrightarrow> p = q"
    by (cases p; cases q) (auto simp: compareBcsBytes_eq dest: eq_key_imp_eq_value)
qed

lemma rmapM_on_mset:
  assumes "mset m = mset (map f xs)" "\<And>x. x \<in> set xs \<Longrightarrow> g (f x) = Inr (h x)"
  shows "\<exists>ys. rmapM g m = Inr ys \<and> mset ys = mset (map h xs)"
proof -
  have set_m: "set m = f ` set xs" using assms(1) by (metis list.set_map set_mset_mset)
  have "rmapM g m = Inr (map (\<lambda>y. projr (g y)) m)"
    by (rule rmapM_Inr) (use assms(2) set_m in auto)
  moreover have "mset (map (\<lambda>y. projr (g y)) m) = image_mset (\<lambda>y. projr (g y)) (mset (map f xs))"
    by (metis assms(1) mset_map)
  moreover have "image_mset (\<lambda>y. projr (g y)) (mset (map f xs)) = mset (map h xs)"
  proof -
    have "image_mset (\<lambda>y. projr (g y)) (mset (map f xs)) = mset (map (\<lambda>y. projr (g y)) (map f xs))"
      by (simp only: mset_map)
    also have "map (\<lambda>y. projr (g y)) (map f xs) = map h xs" using assms(2) by simp
    finally show ?thesis .
  qed
  ultimately show ?thesis by metis
qed

lemma map_entries_ok:
  assumes "\<And>e. e \<in> set es \<Longrightarrow> codec_entry kt vt e" "canonical_entries es" "mset m = mset (map e_in es)"
  shows "map_entries kt m = Inr (map e_key es)"
proof -
  have "\<exists>ys. rmapM (\<lambda>(k, v). rmap (\<lambda>kb. (kb, v)) (type_serialize kt k no_options)) m = Inr ys \<and>
             mset ys = mset (map e_key es)"
  proof (rule rmapM_on_mset [OF assms(3)])
    fix e assume "e \<in> set es"
    then have "codec kt (i_in (fst e)) (i_out (fst e)) (i_bytes (fst e))"
      using assms(1) by (simp add: codec_entry_def codec_item_def)
    then have "type_serialize kt (i_in (fst e)) no_options = Inr (i_bytes (fst e))"
      by (rule codec_type_serialize) (simp add: no_options_def)
    then show "(case e_in e of (k, v) \<Rightarrow> rmap (\<lambda>kb. (kb, v)) (type_serialize kt k no_options)) = Inr (e_key e)"
      by (simp add: e_key_def)
  qed
  then obtain ys where ys: "rmapM (\<lambda>(k, v). rmap (\<lambda>kb. (kb, v)) (type_serialize kt k no_options)) m = Inr ys"
      "mset ys = mset (map e_key es)" by blast
  have "sorted_wrt (<) (map fst (map e_key es))"
    using assms(2) by (simp add: canonical_entries_def e_key_def comp_def)
  note keys = strict_sorted_keys [OF this]
  have "js_sort (\<lambda>(a, _) (b, _). compareBcsBytes a b) ys = map e_key es"
    by (rule key_order.js_sort_eq [OF ys(2) keys(1)]) (rule keys(2))
  then show ?thesis using ys(1) by (simp add: map_entries_def)
qed

lemma codec_map:
  assumes "\<And>e. e \<in> set es \<Longrightarrow> codec_entry kt vt e" "canonical_entries es" "mset m = mset (map e_in es)"
    and "length es \<le> MAX_SAFE_INTEGER"
  shows "codec (bcs_map kt vt) (JMap m) (JMap (map e_out es))
           (ulebEncode (int (length es)) @ concat (map e_bytes es))"
  unfolding bcs_map_def
proof (rule codec_BcsType_new)
  have "reads (concat (map e_bytes es)) (map e_out es) (map_read_loop kt vt (length es) [])"
    using map_read_loop_ok [of es kt vt "[]"] assms by (auto simp: canonical_entries_def)
  from reads_rmap [OF this, of JMap]
  have "reads (concat (map e_bytes es)) (JMap (map e_out es))
     (\<lambda>r. rmap (\<lambda>(m, r). (JMap m, r)) (map_read_loop kt vt (length es) [] r))" by simp
  from reads_bind [where g = "\<lambda>len r. rmap (\<lambda>(m, r). (JMap m, r)) (map_read_loop kt vt len [] r)",
      OF reads_readULEB [OF assms(4)] this]
  show "reads (ulebEncode (int (length es)) @ concat (map e_bytes es)) (JMap (map e_out es))
     (\<lambda>r. rbind (readULEB r) (\<lambda>(len, r). rmap (\<lambda>(m, r). (JMap m, r)) (map_read_loop kt vt len [] r)))"
    by simp
  fix w assume w: "winv w"
  have "emits w' (concat (map e_bytes es))
      (rfold (\<lambda>w (kb, x). rbind (writeBytes w kb) (type_write vt x)) w'
         (map e_key es))" if "winv w'" for w'
    using that assms(1)
  proof (induction es arbitrary: w')
    case (Cons e es)
    have "emits w' (e_bytes e) (rbind (writeBytes w' (i_bytes (fst e))) (type_write vt (i_in (snd e))))"
      by (intro emits_bind Cons.prems emits_writeBytes item_write) (use Cons.prems in \<open>auto simp: codec_entry_def\<close>)
    from emits_bind [OF Cons.prems(1) this Cons.IH] Cons.prems show ?case by (simp add: e_key_def)
  qed simp
  from emits_bind [OF w emits_writeULEB [OF w] this, of "int (length es)"]
  show "emits w (ulebEncode (int (length es)) @ concat (map e_bytes es))
     (rbind (js_entries (JMap m)) (\<lambda>m. rbind (map_entries kt m) (\<lambda>es. rbind (writeULEB w (int (length es))) (\<lambda>w.
         rfold (\<lambda>w (kb, x). rbind (writeBytes w kb) (type_write vt x)) w es))))"
    using map_entries_ok [OF assms(1-3)] by simp
qed (auto simp: no_size_def)

end
