(* ===== verification/Bcs_Format.thy ===== *)
theory Bcs_Format
  imports Bcs_Map
begin

text \<open>
  The BCS format: a \<open>schema\<close> is an expression over the constructors of \<open>bcs\<close>, \<open>bcs_of\<close> the
  \<open>BcsType\<close> it builds, and \<open>encodes\<close> the specification of the encoding, which does not mention the
  writer, the reader or the sort. The main theorems say that every type meets its specification.
\<close>

datatype schema =
    SU8 | SU16 | SU32 | SU64 | SU128 | SU256
  | SBool
  | SUleb
  | SBytes nat
  | SByteVector
  | SString
  | SArray nat schema
  | SVector schema
  | SOption schema
  | STuple "schema list"
  | SStruct string "(string \<times> schema) list"
  | SEnum string "(string \<times> schema option) list"
  | SMap schema schema
  | SLazy schema

text \<open>
  The \<open>BcsType\<close> an expression builds. \<open>tb\<close> and \<open>fb\<close> are the platform's \<open>TextEncoder\<close> and
  \<open>TextDecoder\<close>.
\<close>

primrec bcs_of :: "(string \<Rightarrow> byte list) \<Rightarrow> (byte list \<Rightarrow> string) \<Rightarrow> schema \<Rightarrow> bcs_type" where
  "bcs_of tb fb SU8 = bcs_u8 no_opts"
| "bcs_of tb fb SU16 = bcs_u16 no_opts"
| "bcs_of tb fb SU32 = bcs_u32 no_opts"
| "bcs_of tb fb SU64 = bcs_u64 no_opts"
| "bcs_of tb fb SU128 = bcs_u128 no_opts"
| "bcs_of tb fb SU256 = bcs_u256 no_opts"
| "bcs_of tb fb SBool = bcs_bool no_opts"
| "bcs_of tb fb SUleb = bcs_uleb128 no_opts"
| "bcs_of tb fb (SBytes n) = bcs_bytes n no_opts"
| "bcs_of tb fb SByteVector = bcs_byteVector no_opts"
| "bcs_of tb fb SString = stringLikeBcsType tb fb ''string'' no_opts"
| "bcs_of tb fb (SArray n s) = fixedArray n (bcs_of tb fb s) no_opts"
| "bcs_of tb fb (SVector s) = vector (bcs_of tb fb s) no_opts"
| "bcs_of tb fb (SOption s) = bcs_option (bcs_of tb fb s)"
| "bcs_of tb fb (STuple ss) = BcsTuple (map (bcs_of tb fb) ss) no_opts"
| "bcs_of tb fb (SStruct n fs) = BcsStruct n (map (map_prod id (bcs_of tb fb)) fs) no_opts"
| "bcs_of tb fb (SEnum n fs) = BcsEnum n (map (map_prod id (map_option (bcs_of tb fb))) fs) no_opts"
| "bcs_of tb fb (SMap k v) = bcs_map (bcs_of tb fb k) (bcs_of tb fb v)"
| "bcs_of tb fb (SLazy s) = lazyBcsType (bcs_of tb fb s)"

text \<open>
  The specification: \<open>encodes tb s v x bs\<close> when the value \<open>v\<close> of type \<open>s\<close> has the encoding \<open>bs\<close>,
  and is given back as \<open>x\<close>.
\<close>

inductive encodes :: "(string \<Rightarrow> byte list) \<Rightarrow> schema \<Rightarrow> jsval \<Rightarrow> jsval \<Rightarrow> byte list \<Rightarrow> bool" for tb where
  u8: "to_number v = Some (int n) \<Longrightarrow> n < 2 ^ 8 \<Longrightarrow> encodes tb SU8 v (JNum (int n)) (le_bytes 1 n)"
| u16: "to_number v = Some (int n) \<Longrightarrow> n < 2 ^ 16 \<Longrightarrow> encodes tb SU16 v (JNum (int n)) (le_bytes 2 n)"
| u32: "to_number v = Some (int n) \<Longrightarrow> n < 2 ^ 32 \<Longrightarrow> encodes tb SU32 v (JNum (int n)) (le_bytes 4 n)"
| u64: "to_bigint v = Inr (int n) \<Longrightarrow> n < 2 ^ 64 \<Longrightarrow> encodes tb SU64 v (JStr (show_base 10 n)) (le_bytes 8 n)"
| u128: "to_bigint v = Inr (int n) \<Longrightarrow> n < 2 ^ 128 \<Longrightarrow> encodes tb SU128 v (JStr (show_base 10 n)) (le_bytes 16 n)"
| u256: "to_bigint v = Inr (int n) \<Longrightarrow> n < 2 ^ 256 \<Longrightarrow> encodes tb SU256 v (JStr (show_base 10 n)) (le_bytes 32 n)"
| bool: "encodes tb SBool (JBool b) (JBool b) [if b then 1 else 0]"
| uleb: "to_bigint v = Inr (int n) \<Longrightarrow> n \<le> MAX_SAFE_INTEGER \<Longrightarrow>
    encodes tb SUleb v (JNum (int n)) (ulebEncode (int n))"
| bytes: "new_Uint8Array v = Inr bs \<Longrightarrow> length bs = n \<Longrightarrow> encodes tb (SBytes n) v (JBytes bs) bs"
| byteVector: "new_Uint8Array v = Inr bs \<Longrightarrow> length bs \<le> MAX_SAFE_INTEGER \<Longrightarrow>
    encodes tb SByteVector v (JBytes bs) (ulebEncode (int (length bs)) @ bs)"
| string: "length (tb s) \<le> MAX_SAFE_INTEGER \<Longrightarrow>
    encodes tb SString (JStr s) (JStr s) (ulebEncode (int (length (tb s))) @ tb s)"
| array: "(\<And>p. p \<in> set ps \<Longrightarrow> encodes tb s (i_in p) (i_out p) (i_bytes p)) \<Longrightarrow> length ps < 2 ^ 32 \<Longrightarrow>
    n = length ps \<Longrightarrow>
    encodes tb (SArray n s) (JArr (map i_in ps)) (JArr (map i_out ps)) (concat (map i_bytes ps))"
| vector: "(\<And>p. p \<in> set ps \<Longrightarrow> encodes tb s (i_in p) (i_out p) (i_bytes p)) \<Longrightarrow> length ps < 2 ^ 32 \<Longrightarrow>
    encodes tb (SVector s) (JArr (map i_in ps)) (JArr (map i_out ps))
      (ulebEncode (int (length ps)) @ concat (map i_bytes ps))"
| option_none: "is_nullish v \<Longrightarrow> encodes tb (SOption s) v JNull [0]"
| option_some: "encodes tb s (i_in p) (i_out p) (i_bytes p) \<Longrightarrow> \<not> is_nullish (i_in p) \<Longrightarrow>
    encodes tb (SOption s) (i_in p) (option_value (i_out p)) (1 # i_bytes p)"
| tuple: "(\<And>q. q \<in> set qs \<Longrightarrow> encodes tb (fst q) (i_in (snd q)) (i_out (snd q)) (i_bytes (snd q))) \<Longrightarrow>
    encodes tb (STuple (map fst qs)) (JArr (map (\<lambda>q. i_in (snd q)) qs)) (JArr (map (\<lambda>q. i_out (snd q)) qs))
      (concat (map (\<lambda>q. i_bytes (snd q)) qs))"
| struct: "(\<And>f. f \<in> set fs \<Longrightarrow>
      encodes tb (fst (snd f)) (i_in (snd (snd f))) (i_out (snd (snd f))) (i_bytes (snd (snd f)))) \<Longrightarrow>
    (\<And>f. f \<in> set fs \<Longrightarrow> get_prop v (fst f) = Inr (i_in (snd (snd f)))) \<Longrightarrow> is_object v \<Longrightarrow>
    encodes tb (SStruct name (map (\<lambda>f. (fst f, fst (snd f))) fs)) v
      (JObj (map (\<lambda>f. (fst f, i_out (snd (snd f)))) fs)) (concat (map (\<lambda>f. i_bytes (snd (snd f))) fs))"
| enum_unit: "distinct (map fst fs) \<Longrightarrow> i < length fs \<Longrightarrow> fs ! i = (name, None) \<Longrightarrow> i \<le> MAX_SAFE_INTEGER \<Longrightarrow>
    is_object v \<Longrightarrow> filter (\<lambda>(k, _). k \<in> set (map fst fs)) (entries v) = [(name, x)] \<Longrightarrow> x \<noteq> JUndefined \<Longrightarrow>
    encodes tb (SEnum ename fs) v (variant_object name JUndefined) (ulebEncode (int i))"
| enum_payload: "distinct (map fst fs) \<Longrightarrow> i < length fs \<Longrightarrow> fs ! i = (name, Some s) \<Longrightarrow> i \<le> MAX_SAFE_INTEGER \<Longrightarrow>
    is_object v \<Longrightarrow> filter (\<lambda>(k, _). k \<in> set (map fst fs)) (entries v) = [(name, i_in p)] \<Longrightarrow>
    i_in p \<noteq> JUndefined \<Longrightarrow> encodes tb s (i_in p) (i_out p) (i_bytes p) \<Longrightarrow>
    encodes tb (SEnum ename fs) v (variant_object name (i_out p)) (ulebEncode (int i) @ i_bytes p)"
| map: "(\<And>e. e \<in> set es \<Longrightarrow> encodes tb ks (i_in (fst e)) (i_out (fst e)) (i_bytes (fst e))) \<Longrightarrow>
    (\<And>e. e \<in> set es \<Longrightarrow> encodes tb vs (i_in (snd e)) (i_out (snd e)) (i_bytes (snd e))) \<Longrightarrow>
    canonical_entries es \<Longrightarrow> mset m = mset (map e_in es) \<Longrightarrow> length es \<le> MAX_SAFE_INTEGER \<Longrightarrow>
    encodes tb (SMap ks vs) (JMap m) (JMap (map e_out es)) (ulebEncode (int (length es)) @ concat (map e_bytes es))"
| lazy: "encodes tb s v x bs \<Longrightarrow> encodes tb (SLazy s) v x bs"

subsection \<open>Every type implements the format\<close>

lemma codec_enum_payload:
  assumes "distinct (map fst fs)" "i < length fs" "fs ! i = (name, type)" "i \<le> MAX_SAFE_INTEGER"
    and "is_object v" "filter (\<lambda>(k, _). k \<in> set (map fst fs)) (entries v) = [(name, i_in p)]" "i_in p \<noteq> JUndefined"
    and "case type of None \<Rightarrow> i_out p = JUndefined \<and> i_bytes p = [] | Some s \<Rightarrow> codec_item (g s) p"
  shows "codec (BcsEnum ename (map (map_prod id (map_option g)) fs) no_opts) v
           (variant_object name (i_out p)) (ulebEncode (int i) @ i_bytes p)"
proof (rule codec_enum)
  have names: "map fst (map (map_prod id (map_option g)) fs) = map fst fs" by simp
  then show "distinct (map fst (map (map_prod id (map_option g)) fs))" using assms(1) by simp
  show "variant_input (map (map_prod id (map_option g)) fs) v name (i_in p)"
    unfolding variant_input_def has_own_def names using assms(5-7) by blast
  show "map (map_prod id (map_option g)) fs ! i = (name, map_option g type)" using assms(2,3) by simp
qed (use assms(2,4,8) in \<open>auto split: option.splits\<close>)

theorem encodes_codec:
  assumes "encodes tb s v x bs" "\<And>s. fb (tb s) = s"
  shows "codec (bcs_of tb fb s) v x bs"
  using assms(1)
proof (induction rule: encodes.induct)
  case (array ps s n)
  then show ?case by (auto intro!: codec_fixedArray simp: codec_item_def)
next
  case (vector ps s)
  then show ?case by (auto intro!: codec_vector simp: codec_item_def)
next
  case (option_some s p)
  then show ?case by (simp add: codec_option_some codec_item_def)
next
  case (tuple qs)
  have "codec (BcsTuple (map fst (map (map_prod (bcs_of tb fb) id) qs)) no_opts)
      (JArr (map (\<lambda>q. i_in (snd q)) (map (map_prod (bcs_of tb fb) id) qs)))
      (JArr (map (\<lambda>q. i_out (snd q)) (map (map_prod (bcs_of tb fb) id) qs)))
      (concat (map (\<lambda>q. i_bytes (snd q)) (map (map_prod (bcs_of tb fb) id) qs)))"
    by (rule codec_tuple [OF _ refl]) (use tuple in \<open>auto simp: codec_pair_def codec_item_def\<close>)
  then show ?case by (simp add: comp_def)
next
  case (struct fs v name)
  let ?g = "map_prod id (map_prod (bcs_of tb fb) id) :: string \<times> schema \<times> item \<Rightarrow> field_item"
  have "codec (BcsStruct name (map f_type (map ?g fs)) no_opts) v
      (JObj (map (\<lambda>f. (fst f, i_out (f_item f))) (map ?g fs))) (concat (map (\<lambda>f. i_bytes (f_item f)) (map ?g fs)))"
    by (rule codec_struct [OF _ _ _ refl])
      (use struct in \<open>auto simp: codec_field_def codec_item_def has_fields_def\<close>)
  then show ?case by (simp add: comp_def f_type_def)
next
  case (enum_unit fs i name v x ename)
  have "codec (BcsEnum ename (map (map_prod id (map_option (bcs_of tb fb))) fs) no_opts) v
      (variant_object name (i_out (x, JUndefined, []))) (ulebEncode (int i) @ i_bytes (x, JUndefined, []))"
    by (rule codec_enum_payload) (use enum_unit in auto)
  then show ?case by simp
next
  case (enum_payload fs i name s v p ename)
  have "codec (BcsEnum ename (map (map_prod id (map_option (bcs_of tb fb))) fs) no_opts) v
      (variant_object name (i_out p)) (ulebEncode (int i) @ i_bytes p)"
    by (rule codec_enum_payload) (use enum_payload in \<open>auto simp: codec_item_def\<close>)
  then show ?case by simp
next
  case (map es ks vs m)
  then show ?case by (auto intro!: codec_map simp: codec_entry_def codec_item_def)
qed (simp_all add: assms(2) codec_u8 [simplified] codec_u16 codec_u32 codec_u64 codec_u128 codec_u256 codec_bool
      codec_uleb128 codec_bytes codec_byteVector codec_string codec_option_none codec_lazy)

text \<open>The contract as a locale, on the typed values of a schema.\<close>

interpretation bcs_format: bcs_codec "bcs_of tb fb s" "\<lambda>(v, x, bs). encodes tb s v x bs \<and> (\<forall>s. fb (tb s) = s)" fst
  "\<lambda>p. fst (snd p)" "\<lambda>p. snd (snd p)" for tb fb s
  by unfold_locales (auto simp: encodes_codec)

subsection \<open>Properties\<close>

text \<open>C1: Serializing a value of any type built from the constructors of bcs gives the bytes the BCS
  format prescribes for it, whatever initial and allocation size the caller chose, and parsing
  these bytes, also when more bytes follow, gives the value back.\<close>

theorem bcs_roundtrip:
  assumes "encodes tb s v x bs" "\<And>s. fb (tb s) = s" "o_maxSize opts = None"
  shows "type_serialize (bcs_of tb fb s) v opts = Inr bs \<and>
         type_parse (bcs_of tb fb s) (uint8array_of (bs @ rest)) = Inr x"
  using bcs_format.serialize [of tb s fb "(v, x, bs)" opts] bcs_format.parse [of tb s fb "(v, x, bs)" rest] assms
  by auto

text \<open>The text codec of a platform that knows single-byte characters only.\<close>

definition latin1 :: "string \<Rightarrow> byte list" where
  "latin1 s = map (\<lambda>c. word_of_nat (of_char c)) s"

definition unlatin1 :: "byte list \<Rightarrow> string" where
  "unlatin1 bs = map (\<lambda>b. char_of (unat b)) bs"

lemma unlatin1_latin1: "unlatin1 (latin1 s) = s"
proof (induction s)
  case (Cons c s)
  have "(of_char c :: nat) < 256" by (cases c) (simp only: of_char_Char, simp add: horner_sum_simps)
  with Cons show ?case by (simp add: latin1_def unlatin1_def)
qed (simp add: latin1_def unlatin1_def)

lemma example_encoding:
  "encodes latin1 (SVector (SOption SU8)) (JArr [JNum 7, JNull]) (JArr [JNum 7, JNull]) [2, 1, 7, 0]"
proof -
  have "encodes latin1 SU8 (JNum 7) (JNum (int 7)) (le_bytes 1 7)"
    by (rule encodes.u8) auto
  then have some: "encodes latin1 (SOption SU8) (JNum 7) (JNum 7) [1, 7]"
    using encodes.option_some [of latin1 SU8 "(JNum 7, JNum 7, [7])"] by (simp add: option_value_def)
  have none: "encodes latin1 (SOption SU8) JNull JNull [0]" by (rule encodes.option_none) simp
  have "encodes latin1 (SVector (SOption SU8))
      (JArr (map i_in [(JNum 7, JNum 7, [1, 7]), (JNull, JNull, [0])]))
      (JArr (map i_out [(JNum 7, JNum 7, [1, 7]), (JNull, JNull, [0])]))
      (ulebEncode (int (length [(JNum 7, JNum 7, [1, 7 :: byte]), (JNull, JNull, [0])])) @
       concat (map i_bytes [(JNum 7, JNum 7, [1, 7]), (JNull, JNull, [0])]))"
    by (rule encodes.vector) (use some none in auto)
  moreover have "ulebEncode 2 = [2]" by code_simp
  ultimately show ?thesis by simp
qed

lemma bcs_roundtrip_witness:
  "type_serialize (bcs_of latin1 unlatin1 (SVector (SOption SU8))) (JArr [JNum 7, JNull]) no_options = Inr [2, 1, 7, 0] \<and>
   type_parse (bcs_of latin1 unlatin1 (SVector (SOption SU8))) (uint8array_of ([2, 1, 7, 0] @ [9])) = Inr (JArr [JNum 7, JNull])"
  by (rule bcs_roundtrip [OF example_encoding unlatin1_latin1]) (simp add: no_options_def)

text \<open>Writing a value through a writer in any consistent state appends exactly its BCS bytes to
  what was written before, and fails only when the maximal size of the writer is too small for them.\<close>

theorem bcs_write_appends:
  assumes "encodes tb s v x bs" "\<And>s. fb (tb s) = s" "winv w"
  shows "case type_write (bcs_of tb fb s) v w of
           Inr w' \<Rightarrow> winv w' \<and> w_max w' = w_max w \<and> w_toBytes w' = w_toBytes w @ bs
         | Inl e \<Rightarrow> (\<exists>m. w_max w = Some m \<and> m < length (w_toBytes w @ bs))"
  using codec_type_write [OF encodes_codec [OF assms(1,2)] assms(3)] length_w_toBytes [OF assms(3)]
  by (cases "type_write (bcs_of tb fb s) v w") (simp_all add: emits_def)

lemma bcs_write_appends_witness:
  "case type_write (bcs_of latin1 unlatin1 (SVector (SOption SU8))) (JArr [JNum 7, JNull]) (new_writer no_options) of
     Inr w' \<Rightarrow> winv w' \<and> w_max w' = w_max (new_writer no_options) \<and>
               w_toBytes w' = w_toBytes (new_writer no_options) @ [2, 1, 7, 0]
   | Inl e \<Rightarrow> (\<exists>m. w_max (new_writer no_options) = Some m \<and>
                    m < length (w_toBytes (new_writer no_options) @ [2, 1, 7, 0]))"
  by (rule bcs_write_appends [OF example_encoding unlatin1_latin1]) simp

text \<open>A type that announces a serialized size for a value announces the length of its encoding.\<close>

theorem bcs_serializedSize:
  assumes "encodes tb s v x bs" "\<And>s. fb (tb s) = s" "t_size (bcs_of tb fb s) v = Inr (Some n)"
  shows "n = length bs"
  using encodes_codec [of tb s v x bs fb] assms by (auto simp: codec_def)

lemma bcs_serializedSize_witness: "(3 :: nat) = length [1, 2, 3 :: byte]"
proof (rule bcs_serializedSize)
  show "encodes latin1 (SBytes 3) (JBytes [1, 2, 3]) (JBytes [1, 2, 3]) [1, 2, 3]"
    by (rule encodes.bytes) auto
  show "unlatin1 (latin1 s) = s" for s by (rule unlatin1_latin1)
  show "t_size (bcs_of latin1 unlatin1 (SBytes 3)) (JBytes [1, 2, 3]) = Inr (Some 3)"
    by (simp add: bcs_bytes_def fixedSizeBcsType_def BcsType_new_def)
qed

text \<open>C33: The bytes of a map do not depend on the order in which its entries were inserted: whatever the
  key and value types do, two maps with the same entries and keys of different encodings are written alike.\<close>

theorem bcs_map_canonical:
  assumes "mset m = mset m'" "distinct (map (\<lambda>(k, v). type_serialize kt k no_options) m)"
    and "\<And>k v. (k, v) \<in> set m \<Longrightarrow> is_ok (type_serialize kt k no_options)"
  shows "type_write (bcs_map kt vt) (JMap m) w = type_write (bcs_map kt vt) (JMap m') w"
proof -
  let ?h = "\<lambda>(k, v). (projr (type_serialize kt k no_options), v :: jsval)"
  let ?g = "\<lambda>(k, v). rmap (\<lambda>kb. (kb, v)) (type_serialize kt k no_options)"
  have ok: "\<exists>bs. type_serialize kt k no_options = Inr bs" if "(k, v) \<in> set m" for k v
    using assms(3) [OF that] by (cases "type_serialize kt k no_options") auto
  have sets: "set m = set m'" using assms(1) by (metis set_mset_mset)
  have g: "?g p = Inr (?h p)" if "p \<in> set m" for p
    using ok [of "fst p" "snd p"] that by (cases p) auto
  then have m: "rmapM ?g m = Inr (map ?h m)" "rmapM ?g m' = Inr (map ?h m')"
    using sets by (auto intro!: rmapM_Inr)
  have same: "p = q" if "p \<in> set m" "q \<in> set m" "fst (?h p) = fst (?h q)" for p q
  proof -
    have "type_serialize kt (fst p) no_options = type_serialize kt (fst q) no_options"
      using ok [of "fst p" "snd p"] ok [of "fst q" "snd q"] that by (auto simp: case_prod_unfold)
    with that(1,2) assms(2) show ?thesis
      by (metis (mono_tags, lifting) case_prod_unfold distinct_map inj_onD)
  qed
  have "js_sort (\<lambda>(a, _) (b, _). compareBcsBytes a b) (map ?h m)
      = js_sort (\<lambda>(a, _) (b, _). compareBcsBytes a b) (map ?h m')"
  proof (rule key_order.js_sort_canonical)
    show "mset (map ?h m) = mset (map ?h m')" using assms(1) by (metis mset_map)
    show "x = y" if xy: "x \<in> set (map ?h m')" "y \<in> set (map ?h m')"
      "(case x of (a, _) \<Rightarrow> \<lambda>(b, _). compareBcsBytes a b) y = 0" for x y
    proof -
      obtain p q where pq: "p \<in> set m" "q \<in> set m" "x = ?h p" "y = ?h q" using xy(1,2) sets by auto
      moreover have "fst x = fst y" using xy(3) by (cases x; cases y) (auto simp: compareBcsBytes_eq)
      ultimately show ?thesis using same [of p q] by auto
    qed
  qed
  then have "map_entries kt m = map_entries kt m'" using m by (simp add: map_entries_def)
  then show ?thesis by (simp add: type_write_def bcs_map_def BcsType_new_def)
qed

lemma bcs_map_canonical_witness:
  "type_write (bcs_map (bcs_u8 no_opts) (bcs_bool no_opts)) (JMap [(JNum 2, JBool True), (JNum 1, JBool False)]) (new_writer no_options)
   = type_write (bcs_map (bcs_u8 no_opts) (bcs_bool no_opts)) (JMap [(JNum 1, JBool False), (JNum 2, JBool True)]) (new_writer no_options)"
proof (rule bcs_map_canonical)
  have s: "type_serialize (bcs_u8 no_opts) (JNum 1) no_options = Inr [1]"
    "type_serialize (bcs_u8 no_opts) (JNum 2) no_options = Inr [2]"
    using codec_type_serialize [OF codec_u8 [of "JNum 1" 1]] codec_type_serialize [OF codec_u8 [of "JNum 2" 2]]
    by (simp_all add: no_options_def)
  show "distinct (map (\<lambda>(k, v). type_serialize (bcs_u8 no_opts) k no_options) [(JNum 2, JBool True), (JNum 1, JBool False)])"
    by (simp add: s)
  show "is_ok (type_serialize (bcs_u8 no_opts) k no_options)"
    if "(k, v) \<in> set [(JNum 2, JBool True), (JNum 1, JBool False)]" for k v
    using that s by auto
qed simp

text \<open>The order of map keys is the lexicographic order of their bytes, a total order.\<close>

theorem compareBcsBytes_lexicographic:
  "(compareBcsBytes a b < 0 \<longleftrightarrow> a < b) \<and> (compareBcsBytes a b = 0 \<longleftrightarrow> a = b) \<and> (compareBcsBytes a b > 0 \<longleftrightarrow> b < a)"
  by (simp add: compareBcsBytes_less compareBcsBytes_eq compareBcsBytes_greater)

lemma reads_option_some:
  assumes "reads bs x (t_read t)"
  shows "reads (1 # bs) (option_value x) (t_read (bcs_option t))"
proof (rule readsI)
  fix r assume "view_at r (1 # bs)"
  then have r: "view_at r ([1] @ bs)" by simp
  have "readULEB r = Inr (1, r_shift r 1)"
    using readsD [OF reads_readULEB [of 1] ] view_at_append(1) [OF r] by (simp add: ulebEncode_1 MAX_SAFE_INTEGER_def)
  then show "t_read (bcs_option t) r = Inr (option_value x, r_shift r (length (1 # bs)))"
    using readsD [OF assms view_at_append(2) [OF r]]
    by (simp add: bcs_option_def type_transform_def BcsEnum_def BcsType_new_def enum_read_def
        variant_object_def option_output_def option_value_def get_prop_def)
qed

text \<open>An option inside an option does not come back: the inner null is read as true.\<close>

theorem nested_option_reads_true:
  "type_parse (bcs_option (bcs_option t)) (uint8array_of [1, 0]) = Inr (JBool True)"
proof -
  have "codec_item (bcs_option t) (JNull, JNull, [0])" by (simp add: codec_item_def codec_option_none)
  then have "reads [0] JNull (t_read (bcs_option t))" using item_reads by force
  from reads_option_some [OF this] have "reads [1, 0] (JBool True) (t_read (bcs_option (bcs_option t)))"
    by (simp add: option_value_def)
  from readsD [OF this view_at_new_reader [of _ "[]"]] show ?thesis by (simp add: type_parse_def)
qed

end
