(* ===== verification/Gf256.thy ===== *)
theory Gf256
  imports Prelude
begin

text \<open>
  \<open>packages/mydata/src/shamir.ts\<close>, the class \<open>GF256\<close>: the Rijndael field by logarithm tables. The
  tables are the source's; that they make a field is proved from three linear scans of them, by way
  of multiplication by the generator, which is linear over \<open>XOR\<close>.
\<close>

unbundle bit_operations_syntax

datatype gf256 = GF256 (gf_value: byte)

text \<open>\<open>new GF256(value)\<close>.\<close>

definition new_GF256 :: "int \<Rightarrow> gf256 res" where
  "new_GF256 v = (if v < 0 \<or> v \<ge> 256 then Inl (Error ''Invalid value for GF256'') else Inr (GF256 (word_of_int v)))"

definition EXP :: "byte list" where
  "EXP =
    [0x01, 0x03, 0x05, 0x0f, 0x11, 0x33, 0x55, 0xff, 0x1a, 0x2e, 0x72, 0x96, 0xa1, 0xf8, 0x13, 0x35,
     0x5f, 0xe1, 0x38, 0x48, 0xd8, 0x73, 0x95, 0xa4, 0xf7, 0x02, 0x06, 0x0a, 0x1e, 0x22, 0x66, 0xaa,
     0xe5, 0x34, 0x5c, 0xe4, 0x37, 0x59, 0xeb, 0x26, 0x6a, 0xbe, 0xd9, 0x70, 0x90, 0xab, 0xe6, 0x31,
     0x53, 0xf5, 0x04, 0x0c, 0x14, 0x3c, 0x44, 0xcc, 0x4f, 0xd1, 0x68, 0xb8, 0xd3, 0x6e, 0xb2, 0xcd,
     0x4c, 0xd4, 0x67, 0xa9, 0xe0, 0x3b, 0x4d, 0xd7, 0x62, 0xa6, 0xf1, 0x08, 0x18, 0x28, 0x78, 0x88,
     0x83, 0x9e, 0xb9, 0xd0, 0x6b, 0xbd, 0xdc, 0x7f, 0x81, 0x98, 0xb3, 0xce, 0x49, 0xdb, 0x76, 0x9a,
     0xb5, 0xc4, 0x57, 0xf9, 0x10, 0x30, 0x50, 0xf0, 0x0b, 0x1d, 0x27, 0x69, 0xbb, 0xd6, 0x61, 0xa3,
     0xfe, 0x19, 0x2b, 0x7d, 0x87, 0x92, 0xad, 0xec, 0x2f, 0x71, 0x93, 0xae, 0xe9, 0x20, 0x60, 0xa0,
     0xfb, 0x16, 0x3a, 0x4e, 0xd2, 0x6d, 0xb7, 0xc2, 0x5d, 0xe7, 0x32, 0x56, 0xfa, 0x15, 0x3f, 0x41,
     0xc3, 0x5e, 0xe2, 0x3d, 0x47, 0xc9, 0x40, 0xc0, 0x5b, 0xed, 0x2c, 0x74, 0x9c, 0xbf, 0xda, 0x75,
     0x9f, 0xba, 0xd5, 0x64, 0xac, 0xef, 0x2a, 0x7e, 0x82, 0x9d, 0xbc, 0xdf, 0x7a, 0x8e, 0x89, 0x80,
     0x9b, 0xb6, 0xc1, 0x58, 0xe8, 0x23, 0x65, 0xaf, 0xea, 0x25, 0x6f, 0xb1, 0xc8, 0x43, 0xc5, 0x54,
     0xfc, 0x1f, 0x21, 0x63, 0xa5, 0xf4, 0x07, 0x09, 0x1b, 0x2d, 0x77, 0x99, 0xb0, 0xcb, 0x46, 0xca,
     0x45, 0xcf, 0x4a, 0xde, 0x79, 0x8b, 0x86, 0x91, 0xa8, 0xe3, 0x3e, 0x42, 0xc6, 0x51, 0xf3, 0x0e,
     0x12, 0x36, 0x5a, 0xee, 0x29, 0x7b, 0x8d, 0x8c, 0x8f, 0x8a, 0x85, 0x94, 0xa7, 0xf2, 0x0d, 0x17,
     0x39, 0x4b, 0xdd, 0x7c, 0x84, 0x97, 0xa2, 0xfd, 0x1c, 0x24, 0x6c, 0xb4, 0xc7, 0x52, 0xf6]"

definition LOG :: "nat list" where
  "LOG =
    [0x00, 0x19, 0x01, 0x32, 0x02, 0x1a, 0xc6, 0x4b, 0xc7, 0x1b, 0x68, 0x33, 0xee, 0xdf, 0x03, 0x64,
     0x04, 0xe0, 0x0e, 0x34, 0x8d, 0x81, 0xef, 0x4c, 0x71, 0x08, 0xc8, 0xf8, 0x69, 0x1c, 0xc1, 0x7d,
     0xc2, 0x1d, 0xb5, 0xf9, 0xb9, 0x27, 0x6a, 0x4d, 0xe4, 0xa6, 0x72, 0x9a, 0xc9, 0x09, 0x78, 0x65,
     0x2f, 0x8a, 0x05, 0x21, 0x0f, 0xe1, 0x24, 0x12, 0xf0, 0x82, 0x45, 0x35, 0x93, 0xda, 0x8e, 0x96,
     0x8f, 0xdb, 0xbd, 0x36, 0xd0, 0xce, 0x94, 0x13, 0x5c, 0xd2, 0xf1, 0x40, 0x46, 0x83, 0x38, 0x66,
     0xdd, 0xfd, 0x30, 0xbf, 0x06, 0x8b, 0x62, 0xb3, 0x25, 0xe2, 0x98, 0x22, 0x88, 0x91, 0x10, 0x7e,
     0x6e, 0x48, 0xc3, 0xa3, 0xb6, 0x1e, 0x42, 0x3a, 0x6b, 0x28, 0x54, 0xfa, 0x85, 0x3d, 0xba, 0x2b,
     0x79, 0x0a, 0x15, 0x9b, 0x9f, 0x5e, 0xca, 0x4e, 0xd4, 0xac, 0xe5, 0xf3, 0x73, 0xa7, 0x57, 0xaf,
     0x58, 0xa8, 0x50, 0xf4, 0xea, 0xd6, 0x74, 0x4f, 0xae, 0xe9, 0xd5, 0xe7, 0xe6, 0xad, 0xe8, 0x2c,
     0xd7, 0x75, 0x7a, 0xeb, 0x16, 0x0b, 0xf5, 0x59, 0xcb, 0x5f, 0xb0, 0x9c, 0xa9, 0x51, 0xa0, 0x7f,
     0x0c, 0xf6, 0x6f, 0x17, 0xc4, 0x49, 0xec, 0xd8, 0x43, 0x1f, 0x2d, 0xa4, 0x76, 0x7b, 0xb7, 0xcc,
     0xbb, 0x3e, 0x5a, 0xfb, 0x60, 0xb1, 0x86, 0x3b, 0x52, 0xa1, 0x6c, 0xaa, 0x55, 0x29, 0x9d, 0x97,
     0xb2, 0x87, 0x90, 0x61, 0xbe, 0xdc, 0xfc, 0xbc, 0x95, 0xcf, 0xcd, 0x37, 0x3f, 0x5b, 0xd1, 0x53,
     0x39, 0x84, 0x3c, 0x41, 0xa2, 0x6d, 0x47, 0x14, 0x2a, 0x9e, 0x5d, 0x56, 0xf2, 0xd3, 0xab, 0x44,
     0x11, 0x92, 0xd9, 0x23, 0x20, 0x2e, 0x89, 0xb4, 0x7c, 0xb8, 0x26, 0x77, 0x99, 0xe3, 0xa5, 0x67,
     0x4a, 0xed, 0xde, 0xc5, 0x31, 0xfe, 0x18, 0x0d, 0x63, 0x8c, 0x80, 0xc0, 0xf7, 0x70, 0x07]"

definition gf_log :: "gf256 \<Rightarrow> nat res" where
  "gf_log a = (if gf_value a = 0 then Inl (Error ''Invalid value'') else Inr (LOG ! (unat (gf_value a) - 1)))"

definition gf_exp :: "nat \<Rightarrow> gf256" where
  "gf_exp x = GF256 (EXP ! (x mod 255))"

definition gf_add :: "gf256 \<Rightarrow> gf256 \<Rightarrow> gf256" where
  "gf_add a b = GF256 (gf_value a XOR gf_value b)"

definition gf_sub :: "gf256 \<Rightarrow> gf256 \<Rightarrow> gf256" where
  "gf_sub a b = gf_add a b"

definition gf_neg :: "gf256 \<Rightarrow> gf256" where
  "gf_neg a = a"

definition gf_mul :: "gf256 \<Rightarrow> gf256 \<Rightarrow> gf256" where
  "gf_mul a b =
     (case (gf_log a, gf_log b) of
        (Inr la, Inr lb) \<Rightarrow> gf_exp (la + lb)
      | _ \<Rightarrow> GF256 0)"

definition gf_div :: "gf256 \<Rightarrow> gf256 \<Rightarrow> gf256 res" where
  "gf_div a b = rmap (\<lambda>lb. gf_mul a (gf_exp (256 - lb - 1))) (gf_log b)"

definition gf_equals :: "gf256 \<Rightarrow> gf256 \<Rightarrow> bool" where
  "gf_equals a b \<longleftrightarrow> gf_value a = gf_value b"

subsection \<open>Scans of the tables\<close>

text \<open>Multiplication by the generator 3 modulo the Rijndael polynomial.\<close>

definition times3 :: "byte \<Rightarrow> byte" where
  "times3 a = a XOR push_bit 1 a XOR (if bit a 7 then 0x1b else 0)"

lemma length_tables: "length EXP = 255" "length LOG = 255"
  by (simp_all add: EXP_def LOG_def)

lemma EXP_step: "map times3 EXP = tl EXP @ [hd EXP]"
  by (simp add: EXP_def times3_def)

lemma EXP_LOG: "map (\<lambda>l. EXP ! l) LOG = map word_of_nat [1..<256]"
  by (simp add: EXP_def LOG_def upt_rec)

lemma LOG_range: "list_all (\<lambda>l. l < 255) LOG"
  by (simp add: LOG_def)

lemma EXP_nonzero: "list_all (\<lambda>e. e \<noteq> 0) EXP"
  by (simp add: EXP_def)

lemma EXP_0: "EXP ! 0 = 1"
  by (simp add: EXP_def)

lemma EXP_nth_LOG: "0 < n \<Longrightarrow> n < 256 \<Longrightarrow> EXP ! (LOG ! (n - 1)) = word_of_nat n"
  using arg_cong [OF EXP_LOG, of "\<lambda>xs. xs ! (n - 1)"] length_tables by (simp add: nth_upt del: upt_Suc)

lemma EXP_nth_Suc: "EXP ! (Suc k mod 255) = times3 (EXP ! (k mod 255))"
proof -
  let ?j = "k mod 255"
  have j: "?j < 255" by simp
  have ne: "EXP \<noteq> []" using length_tables by auto
  have step: "times3 (EXP ! ?j) = (tl EXP @ [hd EXP]) ! ?j"
    using arg_cong [OF EXP_step, of "\<lambda>xs. xs ! ?j"] length_tables j by (simp add: nth_map)
  show ?thesis
  proof (cases "?j = 254")
    case True
    then have "Suc k mod 255 = 0" by (simp add: mod_Suc)
    with True step ne length_tables show ?thesis by (simp add: nth_append hd_conv_nth)
  next
    case False
    then have "Suc k mod 255 = Suc ?j" "?j < 254" using j by (auto simp: mod_Suc)
    with step length_tables show ?thesis by (simp add: nth_append nth_tl)
  qed
qed

lemma LOG_bound: "i < 255 \<Longrightarrow> LOG ! i < 255"
  using LOG_range length_tables by (simp add: list_all_length)

lemma distinct_EXP: "distinct EXP"
proof (rule card_distinct)
  have "word_of_nat ` {1..<256} \<subseteq> set EXP"
  proof
    fix w :: byte assume "w \<in> word_of_nat ` {1..<256}"
    then obtain n where n: "1 \<le> n" "n < 256" "w = word_of_nat n" by auto
    then have "w = EXP ! (LOG ! (n - 1))" using EXP_nth_LOG [of n] by simp
    moreover have "LOG ! (n - 1) < length EXP" using LOG_bound [of "n - 1"] n length_tables by simp
    ultimately show "w \<in> set EXP" by simp
  qed
  moreover have "card ((word_of_nat :: nat \<Rightarrow> byte) ` {1..<256}) = 255"
  proof -
    have "inj_on (word_of_nat :: nat \<Rightarrow> byte) {1..<256}"
      by (rule inj_onI) (metis atLeastLessThan_iff mod_less unat_byte_of_nat)
    then show ?thesis by (simp add: card_image)
  qed
  ultimately have "255 \<le> card (set EXP)" by (metis List.finite_set card_mono)
  with length_tables show "card (set EXP) = length EXP" using card_length [of EXP] by simp
qed

subsection \<open>Logarithm and exponential\<close>

lemma gf_exp_mod [simp]: "gf_exp (k mod 255) = gf_exp k"
  by (simp add: gf_exp_def)

lemma gf_exp_nonzero: "gf_value (gf_exp k) \<noteq> 0"
  using EXP_nonzero length_tables by (simp add: gf_exp_def list_all_length)

lemma gf_exp_Suc: "gf_value (gf_exp (Suc k)) = times3 (gf_value (gf_exp k))"
  using EXP_nth_Suc by (simp add: gf_exp_def)

lemma gf_exp_log:
  assumes "gf_value a \<noteq> 0"
  obtains k where "k < 255" "gf_log a = Inr k" "a = gf_exp k"
proof
  let ?n = "unat (gf_value a)"
  have n: "0 < ?n" "?n < 256" using assms by (auto simp: unat_gt_0)
  then have "?n - 1 < 255" using unat_byte_bound [of "gf_value a"] by linarith
  then show "LOG ! (?n - 1) < 255" by (rule LOG_bound)
  then show "a = gf_exp (LOG ! (?n - 1))"
    using EXP_nth_LOG [OF n] by (cases a) (simp add: gf_exp_def)
  show "gf_log a = Inr (LOG ! (?n - 1))" using assms by (simp add: gf_log_def)
qed

lemma gf_exp_inj: "j < 255 \<Longrightarrow> k < 255 \<Longrightarrow> gf_exp j = gf_exp k \<Longrightarrow> j = k"
  using distinct_EXP length_tables by (simp add: gf_exp_def nth_eq_iff_index_eq)

lemma gf_log_exp: "gf_log (gf_exp k) = Inr (k mod 255)"
proof -
  obtain j where j: "j < 255" "gf_log (gf_exp k) = Inr j" "gf_exp k = gf_exp j"
    by (rule gf_exp_log [OF gf_exp_nonzero [of k]])
  have "gf_exp j = gf_exp (k mod 255)" by (simp only: j(3) gf_exp_mod)
  then have "j = k mod 255" using j(1) by (intro gf_exp_inj) simp_all
  with j(2) show ?thesis by simp
qed

lemma gf_log_zero: "gf_log (GF256 0) = Inl (Error ''Invalid value'')"
  by (simp add: gf_log_def)

lemma gf_zero_or_exp: obtains "a = GF256 0" | k where "k < 255" "a = gf_exp k"
  by (metis gf256.exhaust_sel gf_exp_log)

lemma gf_mul_exp: "gf_mul (gf_exp j) (gf_exp k) = gf_exp (j + k)"
  by (simp add: gf_mul_def gf_log_exp) (metis gf_exp_mod mod_add_eq)

lemma gf_mul_zero [simp]: "gf_mul (GF256 0) a = GF256 0" "gf_mul a (GF256 0) = GF256 0"
  by (auto simp: gf_mul_def gf_log_zero split: sum.splits)

lemma gf_mul_comm: "gf_mul a b = gf_mul b a"
  by (auto simp: gf_mul_def add.commute split: sum.splits)

lemma gf_mul_assoc: "gf_mul (gf_mul a b) c = gf_mul a (gf_mul b c)"
  by (rule gf_zero_or_exp [of a]; rule gf_zero_or_exp [of b]; rule gf_zero_or_exp [of c])
    (simp_all add: gf_mul_exp add.assoc)

lemma gf_exp_0: "gf_exp 0 = GF256 1"
  by (simp add: gf_exp_def EXP_0)

lemma gf_mul_one: "gf_mul (GF256 1) a = a"
  by (rule gf_zero_or_exp [of a]) (simp_all add: gf_mul_exp flip: gf_exp_0)

lemma times3_xor: "times3 (a XOR b) = times3 a XOR times3 b"
  by (rule bit_word_eqI) (auto simp: times3_def bit_simps)

lemma times3_0 [simp]: "times3 0 = 0"
  by (simp add: times3_def)

lemma gf_mul_exp_power: "gf_value (gf_mul (gf_exp k) a) = (times3 ^^ k) (gf_value a)"
proof (rule gf_zero_or_exp [of a])
  assume "a = GF256 0"
  moreover have "(times3 ^^ k) 0 = 0" by (induction k) auto
  ultimately show ?thesis by simp
next
  fix j assume "a = gf_exp j"
  moreover have "gf_value (gf_exp (k + j)) = (times3 ^^ k) (gf_value (gf_exp j))"
    by (induction k) (auto simp: gf_exp_Suc)
  ultimately show ?thesis by (simp add: gf_mul_exp)
qed

lemma gf_mul_add: "gf_mul a (gf_add b c) = gf_add (gf_mul a b) (gf_mul a c)"
proof (rule gf_zero_or_exp [of a])
  fix k assume a: "a = gf_exp k"
  have "(times3 ^^ k) (u XOR v) = (times3 ^^ k) u XOR (times3 ^^ k) v" for u v
    by (induction k) (auto simp: times3_xor)
  then show ?thesis
    by (intro gf256.expand) (simp add: a gf_mul_exp_power gf_add_def)
qed (simp add: gf_add_def)

subsection \<open>The field\<close>

definition gf_inverse :: "gf256 \<Rightarrow> gf256" where
  "gf_inverse a = (case gf_div (GF256 1) a of Inl _ \<Rightarrow> GF256 0 | Inr b \<Rightarrow> b)"

lemma gf_div_exp: "gf_div a (gf_exp k) = Inr (gf_mul a (gf_exp (255 - k mod 255)))"
  by (simp add: gf_div_def gf_log_exp)

lemma gf_div_zero: "gf_div a (GF256 0) = Inl (Error ''Invalid value'')"
  by (simp add: gf_div_def gf_log_zero)

lemma gf_inverse_exp: "gf_inverse (gf_exp k) = gf_exp (255 - k mod 255)"
  by (simp add: gf_inverse_def gf_div_exp gf_mul_one)

lemma gf_mul_inverse: "gf_mul (gf_exp (255 - k mod 255)) (gf_exp k) = GF256 1"
proof -
  have "gf_mul (gf_exp (255 - k mod 255)) (gf_exp (k mod 255)) = gf_exp (255 - k mod 255 + k mod 255)"
    by (rule gf_mul_exp)
  also have "255 - k mod 255 + k mod 255 = 255" by (simp add: less_imp_le_nat)
  finally show ?thesis using gf_exp_mod [of 255] by (simp add: gf_exp_0)
qed

instantiation gf256 :: field
begin

definition zero_gf256 :: gf256 where "0 = GF256 0"
definition one_gf256 :: gf256 where "1 = GF256 1"
definition plus_gf256 :: "gf256 \<Rightarrow> gf256 \<Rightarrow> gf256" where "a + b = gf_add a b"
definition minus_gf256 :: "gf256 \<Rightarrow> gf256 \<Rightarrow> gf256" where "a - b = gf_sub a b"
definition uminus_gf256 :: "gf256 \<Rightarrow> gf256" where "- a = gf_neg a"
definition times_gf256 :: "gf256 \<Rightarrow> gf256 \<Rightarrow> gf256" where "a * b = gf_mul a b"
definition inverse_gf256 :: "gf256 \<Rightarrow> gf256" where "inverse a = gf_inverse a"
definition divide_gf256 :: "gf256 \<Rightarrow> gf256 \<Rightarrow> gf256" where "a div b = gf_mul a (gf_inverse b)"

instance
proof
  fix a b c :: gf256
  show "a + b + c = a + (b + c)" "a + b = b + a" "0 + a = a" "- a + a = 0" "a - b = a + - b"
    by (simp_all add: plus_gf256_def zero_gf256_def minus_gf256_def uminus_gf256_def gf_add_def gf_sub_def gf_neg_def
        xor.assoc xor.commute xor.left_commute)
  show "a * b * c = a * (b * c)" by (simp add: times_gf256_def gf_mul_assoc)
  show "a * b = b * a" by (simp add: times_gf256_def gf_mul_comm)
  show "1 * a = a" by (simp add: times_gf256_def one_gf256_def gf_mul_one)
  show "(a + b) * c = a * c + b * c"
    by (simp add: times_gf256_def plus_gf256_def gf_mul_add gf_mul_comm [of _ c])
  show "(0::gf256) \<noteq> 1" by (simp add: zero_gf256_def one_gf256_def)
  show "a div b = a * inverse b" by (simp add: divide_gf256_def times_gf256_def inverse_gf256_def)
  show "inverse (0::gf256) = 0"
    by (simp add: inverse_gf256_def zero_gf256_def gf_inverse_def gf_div_zero)
  show "inverse a * a = 1" if "a \<noteq> 0"
  proof (rule gf_zero_or_exp [of a])
    fix k assume "a = gf_exp k"
    then show ?thesis by (simp add: inverse_gf256_def times_gf256_def one_gf256_def gf_inverse_exp gf_mul_inverse)
  qed (use that in \<open>simp add: zero_gf256_def\<close>)
qed

end

named_theorems gf_simps "the operations of the class as the field's"

lemma gf_ops [gf_simps]:
  "gf_add a b = a + b" "gf_sub a b = a - b" "gf_neg a = - a" "gf_mul a b = a * b"
  "GF256 0 = 0" "GF256 1 = 1"
  by (simp_all add: plus_gf256_def minus_gf256_def uminus_gf256_def times_gf256_def zero_gf256_def one_gf256_def)

lemma gf_div_field [gf_simps]: "gf_div a b = (if b = 0 then Inl (Error ''Invalid value'') else Inr (a / b))"
proof (rule gf_zero_or_exp [of b])
  fix k assume b: "b = gf_exp k"
  then have "b \<noteq> 0" using gf_exp_nonzero [of k] by (auto simp: zero_gf256_def)
  with b show ?thesis by (simp add: gf_div_exp divide_gf256_def gf_inverse_exp)
qed (simp add: gf_div_zero zero_gf256_def)

lemma gf_char2: "a + a = (0 :: gf256)" "a - b = a + (b :: gf256)" "- a = (a :: gf256)"
  by (simp_all add: plus_gf256_def zero_gf256_def minus_gf256_def uminus_gf256_def gf_add_def gf_sub_def gf_neg_def)

end
