(* ===== verification/Field_Poly.thy ===== *)
theory Field_Poly
  imports Main
begin

text \<open>
  Polynomial functions over a field: a polynomial with as many coefficients as it has roots is zero,
  and Lagrange's formula is the polynomial function through given points. Nothing here is about the
  code; \<open>Shamir\<close> uses it for the field of \<open>Gf256\<close>.
\<close>

fun peval :: "'a::field list \<Rightarrow> 'a \<Rightarrow> 'a" where
  "peval [] x = 0"
| "peval (c # cs) x = c + x * peval cs x"

lemma peval_sum: "peval cs x = (\<Sum>i<length cs. cs ! i * x ^ i)"
proof (induction cs)
  case (Cons c cs)
  have "(\<Sum>i<length (c # cs). (c # cs) ! i * x ^ i) = c + (\<Sum>i<length cs. x * (cs ! i * x ^ i))"
    by (simp only: list.size(4) sum.lessThan_Suc_shift add_Suc_right add_0_right)
      (simp add: mult.left_commute)
  then show ?case by (simp add: Cons sum_distrib_left)
qed simp

lemma peval_divide:
  "\<exists>ds. length ds = length cs - 1 \<and> (\<forall>x. peval cs x = peval cs r + (x - r) * peval ds x)"
proof (induction cs)
  case (Cons c cs)
  then obtain ds where ds: "length ds = length cs - 1" "\<And>x. peval cs x = peval cs r + (x - r) * peval ds x" by auto
  show ?case
  proof (cases "cs = []")
    case False
    have "peval (c # cs) x = peval (c # cs) r + (x - r) * peval (peval cs r # ds) x" for x
      by (simp add: ds(2) [of x] algebra_simps)
    moreover have "length (peval cs r # ds) = length (c # cs) - 1" using ds(1) False by (cases cs) auto
    ultimately show ?thesis by blast
  qed (auto intro!: exI [of _ "[]"])
qed auto

lemma peval_few_roots:
  "distinct xs \<Longrightarrow> length cs \<le> length xs \<Longrightarrow> (\<And>x. x \<in> set xs \<Longrightarrow> peval cs x = 0) \<Longrightarrow> peval cs y = 0"
proof (induction xs arbitrary: cs y)
  case (Cons r xs)
  obtain ds where ds: "length ds = length cs - 1" "\<And>x. peval cs x = peval cs r + (x - r) * peval ds x"
    using peval_divide by metis
  have "peval cs r = 0" using Cons.prems(3) by simp
  then have d: "peval cs x = (x - r) * peval ds x" for x using ds(2) [of x] by simp
  have "peval ds y = 0" for y
  proof (rule Cons.IH)
    show "distinct xs" "length ds \<le> length xs" using Cons.prems ds(1) by auto
    fix x assume x: "x \<in> set xs"
    then have "x \<noteq> r" using Cons.prems(1) by auto
    with d [of x] Cons.prems(3) [of x] x show "peval ds x = 0" by simp
  qed
  with d show ?case by simp
qed simp

text \<open>Such a polynomial has no coefficient but zero.\<close>

lemma peval_zero_coeffs:
  "finite X \<Longrightarrow> length cs \<le> card X \<Longrightarrow> (\<And>x. x \<in> X \<Longrightarrow> peval cs x = 0) \<Longrightarrow> c \<in> set cs \<Longrightarrow> c = 0"
proof (induction cs arbitrary: X)
  case (Cons d cs)
  obtain xs where xs: "set xs = X" "distinct xs" using Cons.prems(1) finite_distinct_list by blast
  have zero: "peval (d # cs) y = 0" for y
    by (rule peval_few_roots [OF xs(2)]) (use Cons.prems xs distinct_card [OF xs(2)] in auto)
  then have d: "d = 0" using zero [of 0] by simp
  have "length cs \<le> card (X - {0})"
    using Cons.prems(1,2) by (cases "0 \<in> X") (auto simp: card_Diff_singleton)
  moreover have "x \<in> X - {0} \<Longrightarrow> peval cs x = 0" for x using zero [of x] d by simp
  moreover have "finite (X - {0})" using Cons.prems(1) by simp
  ultimately have "c \<in> set cs \<Longrightarrow> c = 0" by (intro Cons.IH [of "X - {0}"])
  with d Cons.prems(4) show ?case by auto
qed simp

lemma peval_diff: "length cs = length ds \<Longrightarrow> peval (map2 (-) cs ds) x = peval cs x - peval ds x"
  by (induction cs ds rule: list_induct2) (simp_all add: right_diff_distrib)

lemma peval_inj:
  assumes "length cs = length ds" "finite X" "length cs \<le> card X" "\<And>x. x \<in> X \<Longrightarrow> peval cs x = peval ds x"
  shows "cs = ds"
proof (rule nth_equalityI)
  fix i assume i: "i < length cs"
  have "cs ! i - ds ! i \<in> set (map2 (-) cs ds)" using i assms(1) by (force simp: in_set_conv_nth)
  moreover have "c = 0" if "c \<in> set (map2 (-) cs ds)" for c
    by (rule peval_zero_coeffs [OF assms(2) _ _ that]) (use assms in \<open>auto simp: peval_diff\<close>)
  ultimately show "cs ! i = ds ! i" by fastforce
qed (fact assms(1))

subsection \<open>Polynomial functions with at most \<open>n\<close> coefficients\<close>

definition pfun :: "nat \<Rightarrow> ('a::field \<Rightarrow> 'a) \<Rightarrow> bool" where
  "pfun n f \<longleftrightarrow> (\<exists>c. \<forall>x. f x = (\<Sum>i<n. c i * x ^ i))"

lemma pfun_list: "pfun n f \<longleftrightarrow> (\<exists>cs. length cs = n \<and> (\<forall>x. f x = peval cs x))"
proof
  assume "pfun n f"
  then obtain c where c: "\<And>x. f x = (\<Sum>i<n. c i * x ^ i)" by (auto simp: pfun_def)
  then have "f x = peval (map c [0..<n]) x" for x by (simp add: peval_sum)
  then show "\<exists>cs. length cs = n \<and> (\<forall>x. f x = peval cs x)" by (intro exI [of _ "map c [0..<n]"]) simp
qed (auto simp: pfun_def peval_sum)

lemma pfun_peval: "pfun (length cs) (peval cs)"
  by (auto simp: pfun_list)

lemma pfun_mono: "pfun m f \<Longrightarrow> m \<le> n \<Longrightarrow> pfun n f"
proof -
  assume "pfun m f" and mn: "m \<le> n"
  then obtain c where c: "\<And>x. f x = (\<Sum>i<m. c i * x ^ i)" by (auto simp: pfun_def)
  have "f x = (\<Sum>i<n. (if i < m then c i else 0) * x ^ i)" for x
    unfolding c using mn by (intro sum.mono_neutral_cong_left) auto
  then show ?thesis unfolding pfun_def by (intro exI [of _ "\<lambda>i. if i < m then c i else 0"]) simp
qed

lemma pfun_add: "pfun n f \<Longrightarrow> pfun n g \<Longrightarrow> pfun n (\<lambda>x. f x + g x)"
proof -
  assume "pfun n f" "pfun n g"
  then obtain c d where "\<And>x. f x = (\<Sum>i<n. c i * x ^ i)" "\<And>x. g x = (\<Sum>i<n. d i * x ^ i)"
    by (auto simp: pfun_def)
  then show ?thesis
    unfolding pfun_def by (intro exI [of _ "\<lambda>i. c i + d i"]) (simp add: sum.distrib distrib_right)
qed

lemma pfun_scale: "pfun n f \<Longrightarrow> pfun n (\<lambda>x. a * f x)"
proof -
  assume "pfun n f"
  then obtain c where "\<And>x. f x = (\<Sum>i<n. c i * x ^ i)" by (auto simp: pfun_def)
  then show ?thesis
    unfolding pfun_def by (intro exI [of _ "\<lambda>i. a * c i"]) (simp add: sum_distrib_left mult.assoc)
qed

lemma pfun_shift: "pfun n f \<Longrightarrow> pfun (Suc n) (\<lambda>x. x * f x)"
proof -
  assume "pfun n f"
  then obtain cs where "length cs = n" "\<And>x. f x = peval cs x" by (auto simp: pfun_list)
  then show ?thesis unfolding pfun_list by (intro exI [of _ "0 # cs"]) simp
qed

lemma pfun_zero: "pfun n (\<lambda>x. 0)"
  unfolding pfun_def by (rule exI [of _ "\<lambda>i. 0"]) simp

lemma pfun_const: "0 < n \<Longrightarrow> pfun n (\<lambda>x. a)"
  using pfun_mono [of 1 "\<lambda>x. a" n] by (auto simp: pfun_def intro: exI [of _ "\<lambda>i. a"])

lemma pfun_linear: "pfun n f \<Longrightarrow> pfun (Suc n) (\<lambda>x. (b * x + a) * f x)"
proof -
  assume f: "pfun n f"
  have "pfun (Suc n) (\<lambda>x. b * (x * f x) + a * f x)"
    by (intro pfun_add pfun_scale pfun_shift f pfun_mono [OF f]) simp
  then show ?thesis by (simp add: algebra_simps)
qed

lemma pfun_sum: "(\<And>a. a \<in> A \<Longrightarrow> pfun n (f a)) \<Longrightarrow> pfun n (\<lambda>x. \<Sum>a\<in>A. f a x)"
  by (induction A rule: infinite_finite_induct) (auto intro: pfun_zero pfun_add)

lemma pfun_prod:
  assumes "finite A"
  shows "pfun (Suc (card A)) (\<lambda>x. \<Prod>a\<in>A. (b a * x + c a))"
  using assms
proof (induction A rule: finite_induct)
  case (insert a A)
  then show ?case using pfun_linear [OF insert.IH, of "b a" "c a"] by simp
qed (simp add: pfun_const)

text \<open>Two polynomial functions with \<open>n\<close> coefficients that agree on \<open>n\<close> points are equal.\<close>

lemma pfun_unique:
  assumes "pfun n f" "pfun n g" "finite X" "n \<le> card X" "\<And>x. x \<in> X \<Longrightarrow> f x = g x"
  shows "f y = g y"
proof -
  have "pfun n (\<lambda>x. f x + (- 1) * g x)" by (rule pfun_add [OF assms(1) pfun_scale [OF assms(2)]])
  then obtain cs where cs: "length cs = n" "\<And>x. f x + (- 1) * g x = peval cs x" by (auto simp: pfun_list)
  obtain xs where xs: "set xs = X" "distinct xs" using assms(3) finite_distinct_list by blast
  have "peval cs y = 0"
  proof (rule peval_few_roots [OF xs(2)])
    show "length cs \<le> length xs" using assms(4) cs(1) distinct_card [OF xs(2)] xs(1) by simp
    show "peval cs x = 0" if "x \<in> set xs" for x using assms(5) [of x] that xs(1) by (simp flip: cs(2))
  qed
  with cs(2) [of y] show ?thesis by simp
qed

subsection \<open>Lagrange's formula\<close>

definition lagrange :: "'a::field set \<Rightarrow> ('a \<Rightarrow> 'a) \<Rightarrow> 'a \<Rightarrow> 'a" where
  "lagrange X y x = (\<Sum>j\<in>X. y j * (\<Prod>i\<in>X - {j}. (x - i) / (j - i)))"

lemma pfun_lagrange:
  assumes "finite X"
  shows "pfun (card X) (lagrange X y)"
proof -
  let ?L = "\<lambda>j x. y j * (\<Prod>i\<in>X - {j}. inverse (j - i) * x + (- i) * inverse (j - i))"
  have L: "pfun (card X) (?L j)" if "j \<in> X" for j
  proof -
    have "Suc (card (X - {j})) = card X" by (rule card.remove [symmetric]) (use assms that in auto)
    moreover have "pfun (Suc (card (X - {j}))) (?L j)"
      by (rule pfun_scale [OF pfun_prod]) (use assms in simp)
    ultimately show ?thesis by simp
  qed
  have "pfun (card X) (\<lambda>x. \<Sum>j\<in>X. ?L j x)"
    by (rule pfun_sum) (rule L)
  moreover have "(x - i) / (j - i) = inverse (j - i) * x + (- i) * inverse (j - i)" for x i j :: 'a
    by (simp add: divide_inverse algebra_simps)
  then have "lagrange X y = (\<lambda>x. \<Sum>j\<in>X. ?L j x)"
    by (intro ext) (simp only: lagrange_def)
  ultimately show ?thesis by simp
qed

lemma lagrange_at:
  assumes "finite X" "k \<in> X"
  shows "lagrange X y k = y k"
proof -
  have "(\<Prod>i\<in>X - {j}. (k - i) / (j - i)) = (if j = k then 1 else 0)" if "j \<in> X" for j
  proof (cases "j = k")
    case True
    have "(\<Prod>i\<in>X - {k}. (k - i) / (k - i)) = 1" by (rule prod.neutral) auto
    with True show ?thesis by simp
  next
    case False
    then have "k \<in> X - {j}" using assms(2) by auto
    with assms(1) False show ?thesis by (auto simp: prod_zero_iff intro!: bexI [of _ k])
  qed
  then have "lagrange X y k = (\<Sum>j\<in>X. y j * (if j = k then 1 else 0))"
    unfolding lagrange_def by (intro sum.cong) auto
  also have "\<dots> = (\<Sum>j\<in>X. if j = k then y j else 0)" by (intro sum.cong) auto
  finally show ?thesis using assms by simp
qed

lemma lagrange_unique:
  assumes "finite X" "pfun n f" "n \<le> card X" "\<And>x. x \<in> X \<Longrightarrow> f x = y x"
  shows "lagrange X y x = f x"
  by (rule pfun_unique [OF pfun_lagrange [OF assms(1)] pfun_mono [OF assms(2,3)] assms(1)])
    (use assms lagrange_at in auto)

text \<open>There is a polynomial with given values on a set.\<close>

lemma interpolation_exists:
  assumes "finite X"
  obtains cs where "length cs = card X" "\<And>x. x \<in> X \<Longrightarrow> peval cs x = y x"
proof -
  obtain cs where "length cs = card X" "\<And>x. lagrange X y x = peval cs x"
    using pfun_lagrange [OF assms, of y] by (auto simp: pfun_list)
  moreover have "peval cs x = y x" if "x \<in> X" for x
    using lagrange_at [OF assms that, of y] by (simp add: calculation(2))
  ultimately show ?thesis by (intro that)
qed

end
