(* ===== verification/Shamir.thy ===== *)
theory Shamir
  imports Gf256 Field_Poly
begin

text \<open>
  \<open>packages/mydata/src/shamir.ts\<close>: polynomials over \<open>GF256\<close>, and the splitting and combining of
  secrets, with the array helpers of \<open>packages/mydata/src/utils.ts\<close> they use. Random bytes are an
  argument of \<open>split\<close>: \<open>rnd i k\<close> is the byte \<open>k\<close> that \<open>crypto.getRandomValues\<close> drew for the
  secret's byte \<open>i\<close>.
\<close>

subsection \<open>Array helpers\<close>

definition hasDuplicates :: "'a list \<Rightarrow> bool" where
  "hasDuplicates array \<longleftrightarrow> card (set array) \<noteq> length array"

definition allEqual :: "'a list \<Rightarrow> bool" where
  "allEqual array \<longleftrightarrow> (if length array = 0 then True else list_all (\<lambda>item. item = array ! 0) array)"

lemma hasDuplicates_distinct: "hasDuplicates xs \<longleftrightarrow> \<not> distinct xs"
  by (auto simp: hasDuplicates_def distinct_card card_distinct)

text \<open>\<open>array.filter((_, i) => i !== j)\<close>.\<close>

definition omit :: "nat \<Rightarrow> 'a list \<Rightarrow> 'a list" where
  "omit j xs = map snd (filter (\<lambda>(i, _). i \<noteq> j) (enumerate 0 xs))"

subsection \<open>The class Polynomial\<close>

type_synonym polynomial = "gf256 list"

text \<open>The constructor pops zero coefficients off the end.\<close>

definition new_Polynomial :: "gf256 list \<Rightarrow> polynomial" where
  "new_Polynomial coefficients = rev (dropWhile (\<lambda>c. gf_value c = 0) (rev coefficients))"

definition poly_fromBytes :: "byte list \<Rightarrow> polynomial" where
  "poly_fromBytes bytes = new_Polynomial (map GF256 bytes)"

definition poly_degree :: "polynomial \<Rightarrow> nat" where
  "poly_degree p = (if length p = 0 then 0 else length p - 1)"

definition getCoefficient :: "polynomial \<Rightarrow> nat \<Rightarrow> gf256" where
  "getCoefficient p index = (if index \<ge> length p then GF256 0 else p ! index)"

definition poly_add :: "polynomial \<Rightarrow> polynomial \<Rightarrow> polynomial" where
  "poly_add p q =
     (let degree = max (poly_degree p) (poly_degree q)
      in new_Polynomial (map (\<lambda>i. gf_add (getCoefficient p i) (getCoefficient q i)) [0..<degree + 1]))"

definition mul_coefficient :: "polynomial \<Rightarrow> polynomial \<Rightarrow> nat \<Rightarrow> gf256" where
  "mul_coefficient p q i =
     foldl (\<lambda>acc j. if j \<le> poly_degree p \<and> i - j \<le> poly_degree q
                    then gf_add acc (gf_mul (getCoefficient p j) (getCoefficient q (i - j))) else acc)
       (GF256 0) [0..<i + 1]"

definition poly_mul :: "polynomial \<Rightarrow> polynomial \<Rightarrow> polynomial" where
  "poly_mul p q =
     (let degree = poly_degree p + poly_degree q
      in new_Polynomial (map (mul_coefficient p q) [0..<degree + 1]))"

definition poly_scale :: "polynomial \<Rightarrow> gf256 \<Rightarrow> polynomial" where
  "poly_scale p s = new_Polynomial (map (\<lambda>c. gf_mul c s) p)"

definition poly_div :: "polynomial \<Rightarrow> gf256 \<Rightarrow> polynomial res" where
  "poly_div p s = rmap (poly_scale p) (gf_div (GF256 1) s)"

definition monic_linear :: "gf256 \<Rightarrow> polynomial" where
  "monic_linear c = new_Polynomial [c, GF256 1]"

definition poly_zero :: polynomial where
  "poly_zero = new_Polynomial []"

definition poly_one :: polynomial where
  "poly_one = new_Polynomial [GF256 1]"

definition poly_evaluate :: "polynomial \<Rightarrow> gf256 \<Rightarrow> gf256" where
  "poly_evaluate p x = foldl (\<lambda>acc c. gf_add (gf_mul acc x) c) (GF256 0) (rev p)"

definition check_coordinates :: "(gf256 \<times> gf256) list \<Rightarrow> unit res" where
  "check_coordinates coordinates =
     (if length coordinates < 1 then Inl (Error ''At least one coefficient is required'')
      else if hasDuplicates (map (\<lambda>(x, _). gf_value x) coordinates)
      then Inl (Error ''Coefficients must have unique x values'') else Inr ())"

text \<open>The inner \<open>reduce\<close> of \<open>interpolate\<close>, the product over the other points.\<close>

definition basis_polynomial :: "(gf256 \<times> gf256) list \<Rightarrow> nat \<Rightarrow> gf256 \<Rightarrow> polynomial res" where
  "basis_polynomial coordinates j x_j =
     rfold (\<lambda>product (x_i, _).
         rmap (poly_mul product) (poly_div (monic_linear (gf_neg x_i)) (gf_sub x_j x_i)))
       poly_one (omit j coordinates)"

definition poly_interpolate :: "(gf256 \<times> gf256) list \<Rightarrow> polynomial res" where
  "poly_interpolate coordinates =
     rbind (check_coordinates coordinates) (\<lambda>_.
       rfold (\<lambda>acc (j, x_j, y_j).
           rmap (\<lambda>product. poly_add acc (poly_scale product y_j)) (basis_polynomial coordinates j x_j))
         poly_zero (enumerate 0 coordinates))"

text \<open>\<open>denominator\<close> in \<open>combine\<close>.\<close>

definition combine_denominator :: "(gf256 \<times> gf256) list \<Rightarrow> nat \<Rightarrow> gf256 \<Rightarrow> gf256" where
  "combine_denominator coordinates j x_j =
     gf_mul x_j (foldl (\<lambda>product (x_i, _). gf_mul product (gf_sub x_i x_j)) (GF256 1) (omit j coordinates))"

definition poly_combine :: "(gf256 \<times> gf256) list \<Rightarrow> gf256 res" where
  "poly_combine coordinates =
     rbind (check_coordinates coordinates) (\<lambda>_.
       rbind (rfold (\<lambda>acc (j, x_j, y_j). rmap (gf_add acc) (gf_div y_j (combine_denominator coordinates j x_j)))
               (GF256 0) (enumerate 0 coordinates)) (\<lambda>quotient.
         let xProduct = foldl (\<lambda>product (x, _). gf_mul product x) (GF256 1) coordinates
         in Inr (gf_mul xProduct quotient)))"

subsection \<open>Shares\<close>

record share =
  s_index :: int
  s_share :: "byte list"

definition toInternalShare :: "share \<Rightarrow> (gf256 \<times> gf256 list) res" where
  "toInternalShare s = rmap (\<lambda>index. (index, map GF256 (s_share s))) (new_GF256 (s_index s))"

definition toShare :: "gf256 \<times> gf256 list \<Rightarrow> share" where
  "toShare s = \<lparr>s_index = uint (gf_value (fst s)), s_share = map gf_value (snd s)\<rparr>"

definition samplePolynomial :: "(nat \<Rightarrow> byte) \<Rightarrow> gf256 \<Rightarrow> nat \<Rightarrow> polynomial" where
  "samplePolynomial rnd constant degree = poly_fromBytes (gf_value constant # map rnd [0..<degree])"

definition split :: "(nat \<Rightarrow> nat \<Rightarrow> byte) \<Rightarrow> byte list \<Rightarrow> int \<Rightarrow> int \<Rightarrow> share list res" where
  "split rnd secret threshold tot =
     (if threshold > tot \<or> threshold < 1 \<or> tot \<ge> 256 then Inl (Error ''Invalid threshold or total'')
      else let polynomials = map (\<lambda>(i, s). samplePolynomial (rnd i) (GF256 s) (nat threshold - 1)) (enumerate 0 secret)
           in rmapM (\<lambda>i. rmap (\<lambda>index. toShare (index, map (\<lambda>p. poly_evaluate p index) polynomials))
                          (new_GF256 (int i + 1)))
                [0..<nat tot])"

definition validateShares :: "share list \<Rightarrow> ((gf256 \<times> gf256 list) list \<times> nat) res" where
  "validateShares shares =
     (if length shares < 1 then Inl (Error ''At least one share is required'')
      else if \<not> allEqual (map (\<lambda>s. length (s_share s)) shares)
      then Inl (Error ''All shares must have the same length'')
      else if hasDuplicates (map s_index shares) then Inl (Error ''Shares must have unique indices'')
      else rmap (\<lambda>internalShares. (internalShares, length (snd (internalShares ! 0))))
             (rmapM toInternalShare shares))"

definition coordinates_at :: "(gf256 \<times> gf256 list) list \<Rightarrow> nat \<Rightarrow> (gf256 \<times> gf256) list" where
  "coordinates_at internalShares i = map (\<lambda>(index, share). (index, share ! i)) internalShares"

definition combine :: "share list \<Rightarrow> byte list res" where
  "combine shares =
     rbind (validateShares shares) (\<lambda>(internalShares, len).
       rmapM (\<lambda>i. rmap gf_value (poly_combine (coordinates_at internalShares i))) [0..<len])"

text \<open>\<open>interpolate(shares)(x)\<close>: the polynomials first, then their values at \<open>x\<close>.\<close>

definition interpolate :: "share list \<Rightarrow> (int \<Rightarrow> byte list res) res" where
  "interpolate shares =
     rbind (validateShares shares) (\<lambda>(internalShares, len).
       rmap (\<lambda>polynomials x. rmapM (\<lambda>p. rmap (\<lambda>x. gf_value (poly_evaluate p x)) (new_GF256 x)) polynomials)
         (rmapM (\<lambda>i. poly_interpolate (coordinates_at internalShares i)) [0..<len]))"

subsection \<open>Polynomials as functions\<close>

lemma poly_evaluate_peval: "poly_evaluate p x = peval p x"
proof -
  have "foldl (\<lambda>acc c. acc * x + c) 0 (rev p) = peval p x" for p :: polynomial
    by (induction p) (simp_all add: algebra_simps)
  then show ?thesis by (simp add: poly_evaluate_def gf_simps)
qed

lemma gf_value_0: "gf_value c = 0 \<longleftrightarrow> c = 0"
  by (cases c) (simp add: zero_gf256_def)

lemma peval_append: "peval (xs @ ys) x = peval xs x + x ^ length xs * peval ys x"
  by (induction xs) (simp_all add: algebra_simps)

lemma peval_new_Polynomial [simp]: "peval (new_Polynomial cs) x = peval cs x"
proof (induction cs rule: rev_induct)
  case (snoc c cs)
  then show ?case by (simp add: new_Polynomial_def peval_append gf_value_0)
qed (simp add: new_Polynomial_def)

lemma length_new_Polynomial: "length (new_Polynomial cs) \<le> length cs"
  using length_dropWhile_le [of _ "rev cs"] by (simp add: new_Polynomial_def)

lemma getCoefficient_0: "length p \<le> i \<Longrightarrow> getCoefficient p i = 0"
  by (simp add: getCoefficient_def gf_simps)

lemma peval_getCoefficient:
  assumes "length p \<le> n"
  shows "peval p x = (\<Sum>i<n. getCoefficient p i * x ^ i)"
proof -
  have "peval p x = (\<Sum>i<length p. getCoefficient p i * x ^ i)"
    unfolding peval_sum by (intro sum.cong) (auto simp: getCoefficient_def)
  also have "\<dots> = (\<Sum>i<n. getCoefficient p i * x ^ i)"
    using assms by (intro sum.mono_neutral_left) (auto simp: getCoefficient_0)
  finally show ?thesis .
qed

lemma length_le_degree: "length p \<le> Suc (poly_degree p)"
  by (simp add: poly_degree_def)

lemma getCoefficient_degree: "poly_degree p < i \<Longrightarrow> getCoefficient p i = 0"
  using length_le_degree [of p] by (intro getCoefficient_0) simp

lemma peval_map_upt: "peval (map f [0..<n]) x = (\<Sum>i<n. f i * x ^ i)"
  by (simp add: peval_sum)

lemma peval_add [simp]: "peval (poly_add p q) x = peval p x + peval q x"
proof -
  let ?n = "max (poly_degree p) (poly_degree q) + 1"
  have "length p \<le> ?n" "length q \<le> ?n" using length_le_degree [of p] length_le_degree [of q] by auto
  then have "peval p x + peval q x = (\<Sum>i<?n. (getCoefficient p i + getCoefficient q i) * x ^ i)"
    by (simp only: peval_getCoefficient [of p ?n] peval_getCoefficient [of q ?n] sum.distrib distrib_right)
  then show ?thesis by (simp only: poly_add_def Let_def peval_new_Polynomial peval_map_upt gf_simps)
qed

lemma peval_scale [simp]: "peval (poly_scale p s) x = peval p x * s"
proof -
  have "peval (map (\<lambda>c. c * s) p) x = peval p x * s" by (induction p) (simp_all add: algebra_simps)
  then show ?thesis by (simp add: poly_scale_def gf_simps)
qed

lemma peval_monic_linear [simp]: "peval (monic_linear c) x = x + c"
  by (simp add: monic_linear_def gf_simps add.commute)

lemma peval_zero_one [simp]: "peval poly_zero x = 0" "peval poly_one x = 1"
  by (simp_all add: poly_zero_def poly_one_def gf_simps)

lemma foldl_if_sum:
  "foldl (\<lambda>acc j. if P j then acc + f j else acc) a xs = a + sum_list (map (\<lambda>j. if P j then f j else 0) xs)"
  for a :: gf256
  by (induction xs arbitrary: a) (auto simp: add.assoc)

lemma mul_coefficient_sum:
  "mul_coefficient p q i = (\<Sum>j\<le>i. getCoefficient p j * getCoefficient q (i - j))"
proof -
  have "mul_coefficient p q i = (\<Sum>j\<leftarrow>[0..<i + 1]. if j \<le> poly_degree p \<and> i - j \<le> poly_degree q
      then getCoefficient p j * getCoefficient q (i - j) else 0)"
    by (simp only: mul_coefficient_def gf_simps foldl_if_sum add_0_left)
  also have "\<dots> = (\<Sum>j\<leftarrow>[0..<i + 1]. getCoefficient p j * getCoefficient q (i - j))"
    by (intro arg_cong [where f = sum_list] map_cong)
      (auto simp: getCoefficient_degree not_le)
  also have "\<dots> = (\<Sum>j\<le>i. getCoefficient p j * getCoefficient q (i - j))"
    by (simp add: sum_list_distinct_conv_sum_set atLeast0LessThan lessThan_Suc_atMost del: upt_Suc)
  finally show ?thesis .
qed

lemma peval_mul [simp]: "peval (poly_mul p q) x = peval p x * peval q x"
proof -
  have "peval p x * peval q x
      = (\<Sum>i\<le>poly_degree p. getCoefficient p i * x ^ i) * (\<Sum>j\<le>poly_degree q. getCoefficient q j * x ^ j)"
    using peval_getCoefficient [OF length_le_degree] by (simp add: lessThan_Suc_atMost)
  also have "\<dots> = (\<Sum>r\<le>poly_degree p + poly_degree q.
      (\<Sum>k\<le>r. getCoefficient p k * getCoefficient q (r - k)) * x ^ r)"
    by (rule polynomial_product) (auto intro: getCoefficient_degree)
  finally show ?thesis
    by (simp add: poly_mul_def Let_def peval_map_upt mul_coefficient_sum lessThan_Suc_atMost del: upt_Suc)
qed

subsection \<open>Interpolation and combination are Lagrange's formula\<close>

lemma omit_eq: "omit j xs = take j xs @ drop (Suc j) xs"
proof -
  have "map snd (filter (\<lambda>(i, _). i \<noteq> j + k) (enumerate k xs)) = take j xs @ drop (Suc j) xs" for k
  proof (induction xs arbitrary: j k)
    case (Cons x xs)
    show ?case
    proof (cases j)
      case 0
      have "filter (\<lambda>(i, _). i \<noteq> k) (enumerate (Suc k) xs) = enumerate (Suc k) xs"
        by (auto simp: filter_id_conv in_set_enumerate_eq)
      with 0 show ?thesis by simp
    next
      case (Suc m)
      with Cons.IH [of m "Suc k"] show ?thesis by simp
    qed
  qed simp
  from this [of 0] show ?thesis by (simp add: omit_def)
qed

lemma set_omit:
  assumes "distinct xs" "j < length xs"
  shows "set (omit j xs) = set xs - {xs ! j}" "distinct (omit j xs)"
proof -
  have xs: "xs = take j xs @ xs ! j # drop (Suc j) xs" using assms(2) by (rule id_take_nth_drop)
  then have "distinct (take j xs @ xs ! j # drop (Suc j) xs)" using assms(1) by simp
  then show "distinct (omit j xs)" "set (omit j xs) = set xs - {xs ! j}"
    using arg_cong [OF xs, of set] by (auto simp: omit_eq)
qed

lemma map_omit: "map f (omit j xs) = omit j (map f xs)"
  by (simp add: omit_eq take_map drop_map)

text \<open>The points of a list of coordinates with different abscissas.\<close>

definition points :: "(gf256 \<times> gf256) list \<Rightarrow> gf256 set" where
  "points coords = set (map fst coords)"

definition value_at :: "(gf256 \<times> gf256) list \<Rightarrow> gf256 \<Rightarrow> gf256" where
  "value_at coords x = (case map_of coords x of None \<Rightarrow> 0 | Some y \<Rightarrow> y)"

lemma points_omit:
  assumes "distinct (map fst coords)" "j < length coords"
  shows "set (map fst (omit j coords)) = points coords - {fst (coords ! j)}"
    "distinct (map fst (omit j coords))"
  using set_omit [OF assms(1), of j] assms(2) by (simp_all add: map_omit points_def)

lemma value_at_nth:
  "distinct (map fst coords) \<Longrightarrow> j < length coords \<Longrightarrow> value_at coords (fst (coords ! j)) = snd (coords ! j)"
proof -
  assume "distinct (map fst coords)" "j < length coords"
  then have "map_of coords (fst (coords ! j)) = Some (snd (coords ! j))" by (intro map_of_is_SomeI) simp_all
  then show ?thesis by (simp add: value_at_def)
qed

lemma foldl_prod:
  "distinct (map fst ys) \<Longrightarrow> foldl (\<lambda>product (x, _). product * g x) a ys = a * (\<Prod>x\<in>set (map fst ys). g x)"
  for g :: "gf256 \<Rightarrow> gf256"
  by (induction ys arbitrary: a) (auto simp: mult.assoc)

lemma rfold_sum:
  fixes g :: "'b \<Rightarrow> gf256"
  assumes "\<And>e acc. e \<in> set es \<Longrightarrow> f acc e = Inr (acc + g e)"
  shows "rfold f a es = Inr (a + sum_list (map g es))"
  using assms by (induction es arbitrary: a) (auto simp: add.assoc)

lemma in_enumerateE:
  assumes "e \<in> set (enumerate 0 coords)"
  obtains j x y where "e = (j, x, y)" "j < length coords" "coords ! j = (x, y)"
proof
  show "e = (fst e, fst (snd e), snd (snd e))" by simp
  show "fst e < length coords" "coords ! fst e = (fst (snd e), snd (snd e))"
    using assms by (simp_all add: in_set_enumerate_eq)
qed

lemma sum_list_coords:
  fixes h :: "gf256 \<Rightarrow> gf256 \<Rightarrow> gf256"
  assumes "distinct (map fst coords)"
  shows "sum_list (map (\<lambda>(j, x, y). h x y) (enumerate 0 coords)) = (\<Sum>x\<in>points coords. h x (value_at coords x))"
proof -
  have "map (\<lambda>(j, x, y). h x y) (enumerate 0 coords) = map (\<lambda>p. h (fst p) (snd p)) coords"
    by (simp add: case_prod_unfold flip: map_map [of "\<lambda>p. h (fst p) (snd p)" snd, unfolded comp_def])
  also have "\<dots> = map (\<lambda>x. h x (value_at coords x)) (map fst coords)"
    using assms by (auto simp: value_at_def)
  finally show ?thesis
    using sum_list_distinct_conv_sum_set [OF assms, of "\<lambda>x. h x (value_at coords x)"] by (simp only: points_def)
qed

lemma check_coordinates_ok: "check_coordinates coords = Inr () \<longleftrightarrow> coords \<noteq> [] \<and> distinct (map fst coords)"
proof -
  have "map (\<lambda>(x, _). gf_value x) coords = map gf_value (map fst coords)" by (simp add: case_prod_unfold)
  moreover have "distinct (map gf_value (map fst coords)) \<longleftrightarrow> distinct (map fst coords)"
    by (simp only: distinct_map) (auto simp: inj_on_def gf256.expand)
  ultimately show ?thesis by (cases coords) (simp_all only: check_coordinates_def hasDuplicates_distinct, simp_all)
qed

lemma combine_denominator_eq:
  assumes "distinct (map fst coords)" "j < length coords" "coords ! j = (x, y)"
  shows "combine_denominator coords j x = x * (\<Prod>i\<in>points coords - {x}. i - x)"
  using foldl_prod [OF points_omit(2) [OF assms(1,2)], of "\<lambda>i. i - x" 1]
  by (simp only: combine_denominator_def gf_simps points_omit(1) [OF assms(1,2)] assms(3) fst_conv mult_1_left)

lemma poly_combine_eq:
  assumes "coords \<noteq> []" "distinct (map fst coords)" "0 \<notin> points coords"
  shows "poly_combine coords = Inr (lagrange (points coords) (value_at coords) 0)"
proof -
  let ?X = "points coords"
  have fin: "finite ?X" by (simp add: points_def)
  define d where "d x = x * (\<Prod>i\<in>?X - {x}. i - x)" for x
  have d0: "d x \<noteq> 0" if "x \<in> ?X" for x
    using that assms(3) fin by (auto simp: d_def)
  have "rfold (\<lambda>acc (j, x_j, y_j). rmap (gf_add acc) (gf_div y_j (combine_denominator coords j x_j)))
          (GF256 0) (enumerate 0 coords)
        = Inr (GF256 0 + sum_list (map (\<lambda>(j, x, y). y / d x) (enumerate 0 coords)))"
  proof (rule rfold_sum)
    fix e acc assume "e \<in> set (enumerate 0 coords)"
    then obtain j x y where e: "e = (j, x, y)" "j < length coords" "coords ! j = (x, y)"
      by (rule in_enumerateE)
    then have x: "x \<in> ?X" by (auto simp: points_def in_set_conv_nth intro!: image_eqI [of _ fst "(x, y)"])
    have den: "combine_denominator coords j x = d x"
      using combine_denominator_eq [OF assms(2) e(2,3)] by (simp only: d_def)
    show "(case e of (j, x_j, y_j) \<Rightarrow> rmap (gf_add acc) (gf_div y_j (combine_denominator coords j x_j)))
        = Inr (acc + (case e of (j, x, y) \<Rightarrow> y / d x))"
      using d0 [OF x] by (simp add: e(1) den gf_div_field gf_ops)
  qed
  also have "GF256 0 + sum_list (map (\<lambda>(j, x, y). y / d x) (enumerate 0 coords))
      = (\<Sum>x\<in>?X. value_at coords x / d x)"
    using sum_list_coords [OF assms(2), of "\<lambda>x y. y / d x"] by (simp add: gf_simps)
  finally have quotient: "rfold (\<lambda>acc (j, x_j, y_j). rmap (gf_add acc) (gf_div y_j (combine_denominator coords j x_j)))
          (GF256 0) (enumerate 0 coords) = Inr (\<Sum>x\<in>?X. value_at coords x / d x)" .
  have xprod: "foldl (\<lambda>product (x, _). gf_mul product x) (GF256 1) coords = \<Prod>?X"
    using foldl_prod [OF assms(2), of "\<lambda>x. x" 1] by (simp add: gf_simps points_def)
  have "\<Prod>?X * (\<Sum>x\<in>?X. value_at coords x / d x) = lagrange ?X (value_at coords) 0"
    unfolding lagrange_def sum_distrib_left
  proof (rule sum.cong [OF refl])
    fix x assume x: "x \<in> ?X"
    then have "x \<noteq> 0" using assms(3) by auto
    have "(\<Prod>i\<in>?X - {x}. (0 - i) / (x - i)) = (\<Prod>i\<in>?X - {x}. i / (i - x))"
    proof (rule prod.cong [OF refl])
      show "(0 - i) / (x - i) = i / (i - x)" for i using minus_divide_divide [of i "i - x"] by simp
    qed
    also have "\<dots> = \<Prod>(?X - {x}) / (\<Prod>i\<in>?X - {x}. i - x)" by (simp add: prod_dividef)
    finally show "\<Prod>?X * (value_at coords x / d x) = value_at coords x * (\<Prod>i\<in>?X - {x}. (0 - i) / (x - i))"
      using \<open>x \<noteq> 0\<close> by (simp add: d_def prod.remove [OF fin x])
  qed
  with quotient xprod assms check_coordinates_ok [of coords] show ?thesis
    by (simp add: poly_combine_def gf_simps)
qed

text \<open>A point at zero makes a denominator zero, and the inversion throws.\<close>

lemma rfold_fails:
  assumes "es = as @ e # bs" "\<And>s. f s e = Inl err" "\<And>e s err'. f s e = Inl err' \<Longrightarrow> err' = err"
  shows "rfold f s es = Inl err"
  unfolding assms(1)
proof (induction as arbitrary: s)
  case (Cons a as)
  then show ?case using assms(3) by (cases "f s a") auto
qed (simp add: assms(2))

lemma poly_combine_zero:
  assumes "distinct (map fst coords)" "0 \<in> points coords"
  shows "poly_combine coords = Inl (Error ''Invalid value'')"
proof -
  obtain j y where j: "j < length coords" "coords ! j = (0, y)"
    using assms(2) by (fastforce simp: points_def in_set_conv_nth)
  then have "coords \<noteq> []" by auto
  have "enumerate 0 coords = take j (enumerate 0 coords) @ (j, 0, y) # drop (Suc j) (enumerate 0 coords)"
    using id_take_nth_drop [of j "enumerate 0 coords"] j by (simp add: nth_enumerate_eq)
  then have "rfold (\<lambda>acc (j, x_j, y_j). rmap (gf_add acc) (gf_div y_j (combine_denominator coords j x_j)))
      (GF256 0) (enumerate 0 coords) = Inl (Error ''Invalid value'')"
    by (rule rfold_fails)
      (auto simp: combine_denominator_eq [OF assms(1) j] gf_div_field split: if_splits)
  then show ?thesis
    using check_coordinates_ok [of coords] assms(1) \<open>coords \<noteq> []\<close> by (simp add: poly_combine_def)
qed

lemma rfold_product:
  assumes "distinct (map fst ys)" "\<And>x. x \<in> set (map fst ys) \<Longrightarrow> x \<noteq> xj"
  shows "\<exists>p. rfold (\<lambda>product (x_i, _).
           rmap (poly_mul product) (poly_div (monic_linear (gf_neg x_i)) (gf_sub xj x_i))) a ys = Inr p \<and>
         (\<forall>x. peval p x = peval a x * (\<Prod>i\<in>set (map fst ys). (x - i) / (xj - i)))"
  using assms
proof (induction ys arbitrary: a)
  case (Cons p ys)
  obtain xi y where p: "p = (xi, y)" by (cases p)
  let ?a = "poly_mul a (poly_scale (monic_linear (- xi)) (1 / (xj - xi)))"
  have ne: "xj \<noteq> xi" using Cons.prems(2) p by auto
  obtain q where q: "rfold (\<lambda>product (x_i, _).
           rmap (poly_mul product) (poly_div (monic_linear (gf_neg x_i)) (gf_sub xj x_i))) ?a ys = Inr q"
         "\<And>x. peval q x = peval ?a x * (\<Prod>i\<in>set (map fst ys). (x - i) / (xj - i))"
    using Cons.IH [of ?a] Cons.prems by auto
  have "peval q x = peval a x * (\<Prod>i\<in>set (map fst (p # ys)). (x - i) / (xj - i))" for x
    using Cons.prems(1) p by (simp add: q(2) divide_inverse mult.assoc)
  with q(1) ne show ?case by (simp add: p poly_div_def gf_simps)
qed simp

lemma basis_polynomial_eq:
  assumes "distinct (map fst coords)" "j < length coords" "coords ! j = (xj, yj)"
  shows "\<exists>q. basis_polynomial coords j xj = Inr q \<and>
             (\<forall>x. peval q x = (\<Prod>i\<in>points coords - {xj}. (x - i) / (xj - i)))"
proof -
  note om = points_omit [OF assms(1,2)]
  have "xi \<noteq> xj" if "xi \<in> set (map fst (omit j coords))" for xi
    using that assms(3) unfolding om(1) by auto
  from rfold_product [OF om(2) this, of poly_one] show ?thesis
    unfolding basis_polynomial_def om(1) assms(3) by simp
qed

lemma poly_interpolate_eq:
  assumes "coords \<noteq> []" "distinct (map fst coords)"
  shows "\<exists>p. poly_interpolate coords = Inr p \<and> (\<forall>x. poly_evaluate p x = lagrange (points coords) (value_at coords) x)"
proof -
  let ?X = "points coords"
  let ?f = "\<lambda>acc (j, x_j, y_j). rmap (\<lambda>product. poly_add acc (poly_scale product y_j)) (basis_polynomial coords j x_j)"
  let ?g = "\<lambda>x j y. y * (\<Prod>i\<in>?X - {j}. (x - i) / (j - i))"
  have step: "\<exists>p. ?f acc e = Inr p \<and> (\<forall>x. peval p x = peval acc x + (case e of (_, xj, yj) \<Rightarrow> ?g x xj yj))"
    if mem: "e \<in> set (enumerate 0 coords)" for e acc
  proof -
    obtain j xj yj where e: "e = (j, xj, yj)" "j < length coords" "coords ! j = (xj, yj)"
      using mem by (rule in_enumerateE)
    from basis_polynomial_eq [OF assms(2) e(2,3)] obtain q where
      "basis_polynomial coords j xj = Inr q" "\<And>x. peval q x = (\<Prod>i\<in>?X - {xj}. (x - i) / (xj - i))" by blast
    then show ?thesis by (simp add: e(1) mult.commute)
  qed
  have fold: "set es \<subseteq> set (enumerate 0 coords) \<Longrightarrow> \<exists>p. rfold ?f acc es = Inr p \<and>
      (\<forall>x. peval p x = peval acc x + sum_list (map (\<lambda>(j, xj, yj). ?g x xj yj) es))" for es acc
  proof (induction es arbitrary: acc)
    case (Cons e es)
    then obtain p where p: "?f acc e = Inr p"
      "\<And>x. peval p x = peval acc x + (case e of (_, xj, yj) \<Rightarrow> ?g x xj yj)"
      using step [of e acc] by auto
    have "set es \<subseteq> set (enumerate 0 coords)" using Cons.prems by simp
    from Cons.IH [OF this, of p] obtain q where q: "rfold ?f p es = Inr q"
      "\<And>x. peval q x = peval p x + sum_list (map (\<lambda>(j, xj, yj). ?g x xj yj) es)" by blast
    have "rfold ?f acc (e # es) = Inr q" by (simp only: rfold.simps p(1) rbind.simps q(1))
    moreover have "peval q x = peval acc x + sum_list (map (\<lambda>(j, xj, yj). ?g x xj yj) (e # es))" for x
      by (simp only: q(2) p(2) list.map sum_list.Cons add.assoc)
    ultimately show ?case by blast
  qed simp
  from fold [OF subset_refl, of poly_zero] obtain p where p: "rfold ?f poly_zero (enumerate 0 coords) = Inr p"
    "\<And>x. peval p x = sum_list (map (\<lambda>(j, xj, yj). ?g x xj yj) (enumerate 0 coords))" by auto
  have "poly_evaluate p x = lagrange ?X (value_at coords) x" for x
    using sum_list_coords [OF assms(2), of "?g x"] by (simp add: poly_evaluate_peval p(2) lagrange_def)
  moreover have "poly_interpolate coords = Inr p"
    using p(1) check_coordinates_ok [of coords] assms by (simp add: poly_interpolate_def)
  ultimately show ?thesis by blast
qed

subsection \<open>Splitting and combining\<close>

lemma gf_nat_inj: "m < 256 \<Longrightarrow> n < 256 \<Longrightarrow> GF256 (word_of_nat m) = GF256 (word_of_nat n) \<longleftrightarrow> m = n"
  by (metis gf256.inject mod_less unat_byte_of_nat)

lemma new_GF256_nat: "n < 256 \<Longrightarrow> new_GF256 (int n) = Inr (GF256 (word_of_nat n))"
  by (simp add: new_GF256_def)

text \<open>The share number \<open>k\<close> (its index is \<open>k + 1\<close>) of the polynomials \<open>p i\<close> of \<open>m\<close> secret bytes.\<close>

definition share_of :: "(nat \<Rightarrow> polynomial) \<Rightarrow> nat \<Rightarrow> nat \<Rightarrow> share" where
  "share_of p m k = \<lparr>s_index = int k + 1,
     s_share = map (\<lambda>i. gf_value (poly_evaluate (p i) (GF256 (word_of_nat (k + 1))))) [0..<m]\<rparr>"

definition secret_polynomial :: "(nat \<Rightarrow> nat \<Rightarrow> byte) \<Rightarrow> byte list \<Rightarrow> int \<Rightarrow> nat \<Rightarrow> polynomial" where
  "secret_polynomial rnd secret threshold i = samplePolynomial (rnd i) (GF256 (secret ! i)) (nat threshold - 1)"

lemma split_eq:
  assumes "1 \<le> threshold" "threshold \<le> tot" "tot < 256"
  shows "split rnd secret threshold tot
       = Inr (map (share_of (secret_polynomial rnd secret threshold) (length secret)) [0..<nat tot])"
proof -
  have polys: "map (\<lambda>(i, s). samplePolynomial (rnd i) (GF256 s) (nat threshold - 1)) (enumerate 0 secret)
      = map (secret_polynomial rnd secret threshold) [0..<length secret]"
    by (rule nth_equalityI) (auto simp: nth_enumerate_eq secret_polynomial_def)
  have "rmap (\<lambda>index. toShare (index, map (\<lambda>p. poly_evaluate p index)
            (map (secret_polynomial rnd secret threshold) [0..<length secret]))) (new_GF256 (int k + 1))
      = Inr (share_of (secret_polynomial rnd secret threshold) (length secret) k)" if "k < nat tot" for k
  proof -
    have k: "k + 1 < 256" using that assms by linarith
    have "uint (word_of_nat n :: byte) = int n" if "n < 256" for n
      using that by (simp only: uint_nat unat_byte_of_nat mod_less)
    from this [OF k] have "uint (word_of_nat (k + 1) :: byte) = int k + 1" by simp
    with new_GF256_nat [OF k] show ?thesis
      by (simp add: toShare_def share_of_def add.commute)
  qed
  then have "rmapM (\<lambda>i. rmap (\<lambda>index. toShare (index, map (\<lambda>p. poly_evaluate p index)
            (map (secret_polynomial rnd secret threshold) [0..<length secret]))) (new_GF256 (int i + 1))) [0..<nat tot]
      = Inr (map (share_of (secret_polynomial rnd secret threshold) (length secret)) [0..<nat tot])"
    by (intro rmapM_Inr) auto
  then show ?thesis using assms unfolding split_def polys Let_def by simp
qed

lemma split_inputs: "split rnd secret threshold tot = Inr shares \<Longrightarrow> 1 \<le> threshold \<and> threshold \<le> tot \<and> tot < 256"
  by (auto simp: split_def split: if_splits)

lemma secret_polynomial_props:
  "secret_polynomial rnd secret t i = new_Polynomial (map GF256 (secret ! i # map (rnd i) [0..<nat t - 1]))"
  "poly_evaluate (secret_polynomial rnd secret t i) 0 = GF256 (secret ! i)"
  "1 \<le> t \<Longrightarrow> pfun (nat t) (poly_evaluate (secret_polynomial rnd secret t i))"
proof -
  let ?cs = "map GF256 (secret ! i # map (rnd i) [0..<nat t - 1])"
  show p: "secret_polynomial rnd secret t i = new_Polynomial ?cs"
    by (simp add: secret_polynomial_def samplePolynomial_def poly_fromBytes_def)
  show "poly_evaluate (secret_polynomial rnd secret t i) 0 = GF256 (secret ! i)"
    unfolding p by (simp add: poly_evaluate_peval)
  assume "1 \<le> t"
  then have "length ?cs = nat t" by simp
  moreover have "poly_evaluate (secret_polynomial rnd secret t i) = peval ?cs"
    unfolding p by (simp add: poly_evaluate_peval fun_eq_iff)
  ultimately show "pfun (nat t) (poly_evaluate (secret_polynomial rnd secret t i))"
    using pfun_peval [of ?cs] by simp
qed

text \<open>What \<open>combine\<close> and \<open>interpolate\<close> see of some of these shares.\<close>

definition internal_of :: "(nat \<Rightarrow> polynomial) \<Rightarrow> nat \<Rightarrow> nat \<Rightarrow> gf256 \<times> gf256 list" where
  "internal_of p m k = (GF256 (word_of_nat (k + 1)),
     map (\<lambda>i. poly_evaluate (p i) (GF256 (word_of_nat (k + 1)))) [0..<m])"

lemma validateShares_share_of:
  assumes "ks \<noteq> []" "distinct ks" "\<And>k. k \<in> set ks \<Longrightarrow> k < 255"
  shows "validateShares (map (share_of p m) ks) = Inr (map (internal_of p m) ks, m)"
proof -
  have "toInternalShare (share_of p m k) = Inr (internal_of p m k)" if "k \<in> set ks" for k
    using new_GF256_nat [of "k + 1"] assms(3) [OF that]
    by (simp add: toInternalShare_def share_of_def internal_of_def add.commute comp_def)
  then have "rmapM toInternalShare (map (share_of p m) ks) = Inr (map (internal_of p m) ks)"
  proof (induction ks)
    case (Cons k ks)
    then show ?case by simp
  qed simp
  moreover have "distinct (map s_index (map (share_of p m) ks))"
    using assms(2) by (simp add: share_of_def distinct_map inj_on_def)
  moreover have "allEqual (map (\<lambda>s. length (s_share s)) (map (share_of p m) ks))"
    using assms(1) by (auto simp: allEqual_def share_of_def list_all_iff nth_map)
  moreover have "length (snd (map (internal_of p m) ks ! 0)) = m" using assms(1) by (simp add: internal_of_def)
  ultimately show ?thesis using assms(1) by (cases ks) (auto simp: validateShares_def hasDuplicates_distinct)
qed

lemma coordinates_internal_of:
  "i < m \<Longrightarrow> coordinates_at (map (internal_of p m) ks) i
     = map (\<lambda>k. (GF256 (word_of_nat (k + 1)), poly_evaluate (p i) (GF256 (word_of_nat (k + 1))))) ks"
  by (simp add: coordinates_at_def internal_of_def)

lemma coordinates_points:
  assumes "distinct ks" "\<And>k. k \<in> set ks \<Longrightarrow> k < 255"
    and "coords = map (\<lambda>k. (GF256 (word_of_nat (k + 1)), f (GF256 (word_of_nat (k + 1))))) ks"
  shows "distinct (map fst coords)" "card (points coords) = length ks" "0 \<notin> points coords"
    "x \<in> points coords \<Longrightarrow> value_at coords x = f x"
proof -
  have fst: "map fst coords = map (\<lambda>k. GF256 (word_of_nat (k + 1))) ks" by (simp add: assms(3))
  have "k = l" if "k \<in> set ks" "l \<in> set ks" "GF256 (word_of_nat (k + 1)) = GF256 (word_of_nat (l + 1))" for k l
    using gf_nat_inj [of "k + 1" "l + 1"] assms(2) [OF that(1)] assms(2) [OF that(2)] that(3) by simp
  then show dist: "distinct (map fst coords)" unfolding fst distinct_map using assms(1) by (auto simp: inj_on_def)
  then show "card (points coords) = length ks" using distinct_card [OF dist] by (simp add: points_def assms(3))
  show "0 \<notin> points coords"
  proof
    assume "0 \<in> points coords"
    then obtain k where "k \<in> set ks" "GF256 (word_of_nat (k + 1)) = GF256 (word_of_nat 0)"
      unfolding points_def fst by (auto simp: gf_ops)
    then show False using gf_nat_inj [of "k + 1" 0] assms(2) [of k] by simp
  qed
  show "value_at coords x = f x" if "x \<in> points coords"
  proof -
    have "x \<in> set (map fst coords)" using that by (simp only: points_def)
    then obtain j where j: "j < length (map fst coords)" "map fst coords ! j = x"
      by (auto simp only: in_set_conv_nth)
    then have jk: "j < length ks" by (simp add: assms(3))
    have "value_at coords (fst (coords ! j)) = snd (coords ! j)"
      by (rule value_at_nth [OF dist]) (use j in simp)
    moreover have "x = fst (coords ! j)" using j by simp
    moreover have "snd (coords ! j) = f (fst (coords ! j))" using jk by (simp add: assms(3))
    ultimately show ?thesis by simp
  qed
qed

lemma lagrange_shares:
  assumes "ks \<noteq> []" "distinct ks" "\<And>k. k \<in> set ks \<Longrightarrow> k < 255" "pfun n (poly_evaluate p)" "n \<le> length ks"
    and "coords = map (\<lambda>k. (GF256 (word_of_nat (k + 1)), poly_evaluate p (GF256 (word_of_nat (k + 1))))) ks"
  shows "lagrange (points coords) (value_at coords) x = poly_evaluate p x"
  by (rule lagrange_unique [OF _ assms(4)])
    (use coordinates_points [OF assms(2,3,6)] assms(5) in \<open>auto simp: points_def\<close>)

lemma combine_share_of:
  assumes "ks \<noteq> []" "distinct ks" "\<And>k. k \<in> set ks \<Longrightarrow> k < 255"
    and "\<And>i. i < m \<Longrightarrow> pfun n (poly_evaluate (p i))" "n \<le> length ks"
  shows "combine (map (share_of p m) ks) = Inr (map (\<lambda>i. gf_value (poly_evaluate (p i) 0)) [0..<m])"
proof -
  have "rmap gf_value (poly_combine (coordinates_at (map (internal_of p m) ks) i))
      = Inr (gf_value (poly_evaluate (p i) 0))" if "i < m" for i
  proof -
    note coords = coordinates_internal_of [OF that, of p ks]
    note pts = coordinates_points [OF assms(2,3) coords]
    have "coordinates_at (map (internal_of p m) ks) i \<noteq> []" using coords assms(1) by simp
    from poly_combine_eq [OF this pts(1,3)] lagrange_shares [OF assms(1-3) assms(4) [OF that] assms(5) coords]
    show ?thesis by simp
  qed
  then show ?thesis using validateShares_share_of [OF assms(1-3)] by (simp add: combine_def)
      (rule rmapM_Inr, simp)
qed

lemma share_of_index:
  assumes "s \<in> set (map (share_of p m) [0..<n])"
  shows "share_of p m (nat (s_index s - 1)) = s" "nat (s_index s - 1) < n"
proof -
  obtain k where "k < n" "s = share_of p m k" using assms by auto
  moreover have "s_index (share_of p m k) = int k + 1" by (simp add: share_of_def)
  ultimately show "share_of p m (nat (s_index s - 1)) = s" "nat (s_index s - 1) < n" by simp_all
qed

lemma sublist_shares:
  assumes "set shs \<subseteq> set (map (share_of p m) [0..<n])" "distinct shs"
  obtains ks where "shs = map (share_of p m) ks" "distinct ks" "\<And>k. k \<in> set ks \<Longrightarrow> k < n"
proof
  let ?ks = "map (\<lambda>s. nat (s_index s - 1)) shs"
  show eq: "shs = map (share_of p m) ?ks"
  proof (rule nth_equalityI)
    fix i assume "i < length shs"
    then have "shs ! i \<in> set (map (share_of p m) [0..<n])" using assms(1) nth_mem by blast
    from share_of_index(1) [OF this] show "shs ! i = map (share_of p m) ?ks ! i" using \<open>i < length shs\<close> by simp
  qed simp
  show "distinct ?ks" using assms(2) by (subst (asm) eq) (metis distinct_map)
  fix k assume "k \<in> set ?ks"
  then obtain s where "s \<in> set shs" "k = nat (s_index s - 1)" by auto
  then show "k < n" using share_of_index(2) subsetD [OF assms(1)] by blast
qed

subsection \<open>Properties\<close>

text \<open>C3: Any selection of at least threshold different shares of a secret combines to the secret.\<close>

theorem split_combine:
  assumes "split rnd secret threshold tot = Inr shares" "set shs \<subseteq> set shares" "distinct shs"
    and "threshold \<le> int (length shs)"
  shows "combine shs = Inr secret"
proof -
  note inputs = split_inputs [OF assms(1)]
  let ?p = "secret_polynomial rnd secret threshold" and ?m = "length secret"
  have "shares = map (share_of ?p ?m) [0..<nat tot]" using split_eq inputs assms(1) by simp
  with assms(2) have sub: "set shs \<subseteq> set (map (share_of ?p ?m) [0..<nat tot])" by (simp only:)
  obtain ks where ks: "shs = map (share_of ?p ?m) ks" "distinct ks" "\<And>k. k \<in> set ks \<Longrightarrow> k < nat tot"
    using sublist_shares [OF sub assms(3)] by blast
  have "combine (map (share_of ?p ?m) ks) = Inr (map (\<lambda>i. gf_value (poly_evaluate (?p i) 0)) [0..<?m])"
  proof (rule combine_share_of [where n = "nat threshold"])
    show "ks \<noteq> []" using assms(4) inputs ks(1) by auto
    show "k < 255" if "k \<in> set ks" for k using ks(3) [OF that] inputs by linarith
    show "nat threshold \<le> length ks" using assms(4) ks(1) by simp
    show "pfun (nat threshold) (poly_evaluate (?p i))" for i using secret_polynomial_props(3) inputs by blast
  qed (rule ks(2))
  also have "map (\<lambda>i. gf_value (poly_evaluate (?p i) 0)) [0..<?m] = secret"
    by (simp add: secret_polynomial_props(2) map_nth)
  finally show ?thesis using ks(1) by simp
qed

text \<open>Shares of a two-byte secret, threshold two of three.\<close>

lemma split_combine_witness:
  "combine [share_of (secret_polynomial (\<lambda>i k. 7) [1, 2] 2) 2 2, share_of (secret_polynomial (\<lambda>i k. 7) [1, 2] 2) 2 0]
   = Inr [1, 2]"
proof (rule split_combine)
  show "split (\<lambda>i k. 7) [1, 2] 2 3 = Inr (map (share_of (secret_polynomial (\<lambda>i k. 7) [1, 2] 2) 2) [0..<3])"
    by (subst split_eq) (simp_all add: numeral_3_eq_3 numeral_2_eq_2)
qed (auto simp: share_of_def)

text \<open>The coefficients of the polynomial of one secret byte, and the shares as its values.\<close>

definition coefficients :: "(nat \<Rightarrow> nat \<Rightarrow> byte) \<Rightarrow> byte list \<Rightarrow> int \<Rightarrow> nat \<Rightarrow> gf256 list" where
  "coefficients rnd secret t i = GF256 (secret ! i) # map (\<lambda>k. GF256 (rnd i k)) [0..<nat t - 1]"

lemma evaluate_coefficients:
  "poly_evaluate (secret_polynomial rnd secret t i) x = peval (coefficients rnd secret t i) x"
  by (simp only: secret_polynomial_props(1) poly_evaluate_peval peval_new_Polynomial)
    (simp add: coefficients_def comp_def)

definition index_point :: "nat \<Rightarrow> gf256" where
  "index_point k = GF256 (word_of_nat (k + 1))"

lemma index_point_nonzero: "k < 255 \<Longrightarrow> index_point k \<noteq> 0"
  using gf_nat_inj [of "k + 1" 0] by (simp add: index_point_def gf_ops)

lemma share_of_eq_iff:
  "share_of p m k = share_of q m k \<longleftrightarrow> (\<forall>i<m. poly_evaluate (p i) (index_point k) = poly_evaluate (q i) (index_point k))"
  by (auto simp: share_of_def index_point_def gf256.expand intro!: gf256.expand)

lemma filter_shares_eq_iff:
  "filter (\<lambda>s. s_index s \<in> I) (map (share_of p m) [0..<n]) = filter (\<lambda>s. s_index s \<in> I) (map (share_of q m) [0..<n])
   \<longleftrightarrow> (\<forall>i<m. \<forall>k. k < n \<and> int k + 1 \<in> I \<longrightarrow> poly_evaluate (p i) (index_point k) = poly_evaluate (q i) (index_point k))"
proof -
  have "filter (\<lambda>s. s_index s \<in> I) (map (share_of p m) [0..<n]) = map (share_of p m) (filter (\<lambda>k. int k + 1 \<in> I) [0..<n])" for p
    by (simp add: filter_map comp_def share_of_def)
  then show ?thesis by (auto simp: map_eq_conv share_of_eq_iff)
qed

text \<open>The points that threshold - 1 shares and the secret fix.\<close>

definition fixed_points :: "int set \<Rightarrow> nat \<Rightarrow> gf256 set" where
  "fixed_points I n = insert 0 (index_point ` {k. k < n \<and> int k + 1 \<in> I})"

lemma card_fixed_points:
  assumes "I \<subseteq> {1..int n}" "n < 256"
  shows "finite (fixed_points I n)" "card (fixed_points I n) = Suc (card I)"
proof -
  let ?K = "{k. k < n \<and> int k + 1 \<in> I}"
  show "finite (fixed_points I n)" by (simp add: fixed_points_def)
  have "bij_betw (\<lambda>k. int k + 1) ?K I"
  proof (rule bij_betwI')
    show "\<exists>k\<in>?K. i = int k + 1" if "i \<in> I" for i
      using that assms(1) by (intro bexI [of _ "nat (i - 1)"]) auto
  qed auto
  then have "card ?K = card I" by (rule bij_betw_same_card)
  moreover have "inj_on index_point ?K"
    by (rule inj_onI) (use assms(2) gf_nat_inj in \<open>auto simp: index_point_def\<close>)
  moreover have "0 \<notin> index_point ` ?K" using index_point_nonzero assms(2) by fastforce
  ultimately show "card (fixed_points I n) = Suc (card I)"
    by (simp add: fixed_points_def card_image)
qed

lemma coefficients_exist:
  assumes "1 \<le> t" "finite X" "card X = nat t" "0 \<in> X"
  shows "\<exists>r. \<forall>x\<in>X - {0}. peval (coefficients (\<lambda>i. r) [b] t 0) x = y x"
proof -
  obtain cs where cs: "length cs = nat t" "\<And>x. x \<in> X \<Longrightarrow> peval cs x = (y(0 := GF256 b)) x"
    using interpolation_exists [OF assms(2), of "y(0 := GF256 b)"] assms(3) by metis
  then obtain c cs' where c: "cs = c # cs'" using assms(1) by (cases cs) auto
  have "c = GF256 b" using cs(2) [OF assms(4)] c by simp
  moreover have "cs' = map (\<lambda>k. GF256 (gf_value (cs' ! k))) [0..<nat t - 1]"
    by (rule nth_equalityI) (use cs(1) c in auto)
  ultimately have "coefficients (\<lambda>i k. gf_value (cs' ! k)) [b] t 0 = cs"
    using c by (simp add: coefficients_def)
  then show ?thesis using cs(2) by (intro exI [of _ "\<lambda>k. gf_value (cs' ! k)"]) auto
qed

text \<open>Two secrets give the same shares at the indices \<open>I\<close> when their polynomials agree on the points of \<open>I\<close>.\<close>

lemma same_shares_iff:
  assumes "n < 256"
  shows "filter (\<lambda>s. s_index s \<in> I) (map (share_of (secret_polynomial r a t) m) [0..<n])
      = filter (\<lambda>s. s_index s \<in> I) (map (share_of (secret_polynomial r' b t) m) [0..<n]) \<longleftrightarrow>
      (\<forall>i<m. \<forall>x\<in>fixed_points I n - {0}. peval (coefficients r a t i) x = peval (coefficients r' b t i) x)"
proof -
  have "fixed_points I n - {0} = index_point ` {k. k < n \<and> int k + 1 \<in> I}"
    using index_point_nonzero assms by (fastforce simp: fixed_points_def)
  then show ?thesis unfolding filter_shares_eq_iff evaluate_coefficients by auto
qed

lemma random_bytes_exist:
  assumes "1 \<le> t" "finite X" "card X = nat t" "0 \<in> X"
  shows "\<exists>rnd'. \<forall>i. \<forall>x\<in>X - {0}. peval (coefficients rnd' secret' t i) x = peval (coefficients rnd secret t i) x"
proof -
  have "\<exists>r. \<forall>x\<in>X - {0}. peval (coefficients (\<lambda>i. r) [secret' ! i] t 0) x = peval (coefficients rnd secret t i) x" for i
    by (rule coefficients_exist [OF assms])
  then obtain rnd' where "\<And>i x. x \<in> X - {0} \<Longrightarrow> peval (coefficients (\<lambda>_. rnd' i) [secret' ! i] t 0) x
      = peval (coefficients rnd secret t i) x" by metis
  then show ?thesis by (intro exI [of _ rnd']) (simp add: coefficients_def)
qed

lemma random_bytes_unique:
  assumes "1 \<le> t" "finite X" "card X = nat t"
    and "\<forall>x\<in>X - {0}. peval (coefficients r a t i) x = peval (coefficients r' a t i) x" "k < nat t - 1"
  shows "r i k = r' i k"
proof -
  have "coefficients r a t i = coefficients r' a t i"
  proof (rule peval_inj [OF _ assms(2)])
    show "peval (coefficients r a t i) x = peval (coefficients r' a t i) x" if "x \<in> X" for x
      using assms(4) that by (cases "x = 0") (simp_all add: coefficients_def)
  qed (use assms in \<open>simp_all add: coefficients_def\<close>)
  then have "map (\<lambda>k. GF256 (r i k)) [0..<nat t - 1] = map (\<lambda>k. GF256 (r' i k)) [0..<nat t - 1]"
    by (simp add: coefficients_def)
  with assms(5) show ?thesis by (simp add: map_eq_conv)
qed

text \<open>C16: Fewer shares than the threshold say nothing about the secret: for every other secret of the same
  length there are random bytes that give the same shares at threshold - 1 chosen indices, and they are
  determined, so that every secret is equally likely.\<close>

theorem split_secrecy:
  assumes "split rnd secret threshold tot = Inr shares" "length secret' = length secret"
    and "I \<subseteq> {1..tot}" "int (card I) = threshold - 1"
  shows "\<exists>rnd' shares'. split rnd' secret' threshold tot = Inr shares' \<and>
           filter (\<lambda>s. s_index s \<in> I) shares' = filter (\<lambda>s. s_index s \<in> I) shares \<and>
           (\<forall>rnd'' shares''. split rnd'' secret' threshold tot = Inr shares'' \<and>
              filter (\<lambda>s. s_index s \<in> I) shares'' = filter (\<lambda>s. s_index s \<in> I) shares \<longrightarrow>
              (\<forall>i < length secret. \<forall>k < nat threshold - 1. rnd'' i k = rnd' i k))"
proof -
  note inputs = split_inputs [OF assms(1)]
  let ?m = "length secret" and ?n = "nat tot"
  let ?p = "\<lambda>rnd secret. secret_polynomial rnd secret threshold"
  let ?X = "fixed_points I ?n"
  have X: "finite ?X" "card ?X = nat threshold" "0 \<in> ?X"
    using card_fixed_points [of I ?n] inputs assms(3,4) by (auto simp: fixed_points_def)
  have split: "split r s threshold tot = Inr (map (share_of (?p r s) (length s)) [0..<?n])" for r s
    using split_eq inputs by blast
  have n: "?n < 256" using inputs by linarith
  note same = same_shares_iff [OF n]
  obtain rnd' where rnd': "\<forall>i. \<forall>x\<in>?X - {0}. peval (coefficients rnd' secret' threshold i) x
      = peval (coefficients rnd secret threshold i) x"
    using random_bytes_exist [OF _ X, of secret' rnd secret] inputs by auto
  have unique: "r i k = rnd' i k"
    if "filter (\<lambda>s. s_index s \<in> I) (map (share_of (?p r secret') ?m) [0..<?n])
          = filter (\<lambda>s. s_index s \<in> I) (map (share_of (?p rnd secret) ?m) [0..<?n])"
      and "i < ?m" "k < nat threshold - 1" for r i k
    using that(1,2) rnd' unfolding same
    by (intro random_bytes_unique [where a = secret', OF _ X(1,2) _ that(3)]) (use inputs in simp_all)
  have shares: "shares = map (share_of (?p rnd secret) ?m) [0..<?n]" using split assms(1) by simp
  have "filter (\<lambda>s. s_index s \<in> I) (map (share_of (?p rnd' secret') ?m) [0..<?n]) = filter (\<lambda>s. s_index s \<in> I) shares"
    unfolding shares same using rnd' by blast
  moreover have "\<forall>i < ?m. \<forall>k < nat threshold - 1. r i k = rnd' i k"
    if "split r secret' threshold tot = Inr shares''"
      "filter (\<lambda>s. s_index s \<in> I) shares'' = filter (\<lambda>s. s_index s \<in> I) shares" for r shares''
  proof -
    have "shares'' = map (share_of (?p r secret') ?m) [0..<?n]" using that(1) split [of r secret'] assms(2) by simp
    then show ?thesis using unique that(2) unfolding shares by blast
  qed
  ultimately show ?thesis
    using split [of rnd' secret', unfolded assms(2)] by blast
qed

lemma split_secrecy_witness:
  "\<exists>rnd' shares'. split rnd' [9, 200] 2 3 = Inr shares' \<and>
     filter (\<lambda>s. s_index s \<in> {2}) shares'
       = filter (\<lambda>s. s_index s \<in> {2}) (map (share_of (secret_polynomial (\<lambda>i k. 7) [1, 2] 2) 2) [0..<3]) \<and>
     (\<forall>rnd'' shares''. split rnd'' [9, 200] 2 3 = Inr shares'' \<and>
        filter (\<lambda>s. s_index s \<in> {2}) shares''
          = filter (\<lambda>s. s_index s \<in> {2}) (map (share_of (secret_polynomial (\<lambda>i k. 7) [1, 2] 2) 2) [0..<3]) \<longrightarrow>
        (\<forall>i < length [1 :: byte, 2]. \<forall>k < nat 2 - 1. rnd'' i k = rnd' i k))"
proof (rule split_secrecy)
  show "split (\<lambda>i k. 7) [1, 2] 2 3 = Inr (map (share_of (secret_polynomial (\<lambda>i k. 7) [1, 2] 2) 2) [0..<3])"
    by (subst split_eq) (simp_all add: numeral_3_eq_3 numeral_2_eq_2)
qed auto

lemma interpolate_share_of:
  assumes "ks \<noteq> []" "distinct ks" "\<And>k. k \<in> set ks \<Longrightarrow> k < 255"
    and "\<And>i. i < m \<Longrightarrow> pfun n (poly_evaluate (p i))" "n \<le> length ks"
  shows "\<exists>f. interpolate (map (share_of p m) ks) = Inr f \<and>
     (\<forall>x. 0 \<le> x \<and> x < 256 \<longrightarrow>
        f x = Inr (map (\<lambda>i. gf_value (poly_evaluate (p i) (GF256 (word_of_nat (nat x))))) [0..<m]))"
proof -
  let ?c = "coordinates_at (map (internal_of p m) ks)"
  have "\<exists>q. poly_interpolate (?c i) = Inr q \<and> (\<forall>x. poly_evaluate q x = poly_evaluate (p i) x)" if "i < m" for i
  proof -
    note coords = coordinates_internal_of [OF that, of p ks]
    have "?c i \<noteq> []" using coords assms(1) by simp
    from poly_interpolate_eq [OF this coordinates_points(1) [OF assms(2,3) coords]]
      lagrange_shares [OF assms(1-3) assms(4) [OF that] assms(5) coords]
    show ?thesis by simp
  qed
  then obtain q where q: "\<And>i. i < m \<Longrightarrow> poly_interpolate (?c i) = Inr (q i)"
    "\<And>i x. i < m \<Longrightarrow> poly_evaluate (q i) x = poly_evaluate (p i) x" by metis
  then have polys: "rmapM (\<lambda>i. poly_interpolate (?c i)) [0..<m] = Inr (map q [0..<m])"
    by (intro rmapM_Inr) simp
  have eval: "rmapM (\<lambda>p. rmap (\<lambda>x. gf_value (poly_evaluate p x)) (new_GF256 x)) (map q [0..<m])
      = Inr (map (\<lambda>i. gf_value (poly_evaluate (p i) (GF256 (word_of_nat (nat x))))) [0..<m])"
    if x: "0 \<le> x \<and> x < 256" for x
  proof -
    have "new_GF256 x = Inr (GF256 (word_of_nat (nat x)))" using new_GF256_nat [of "nat x"] x by auto
    then have "rmapM (\<lambda>p. rmap (\<lambda>x. gf_value (poly_evaluate p x)) (new_GF256 x)) (map q [0..<m])
      = Inr (map (\<lambda>p. gf_value (poly_evaluate p (GF256 (word_of_nat (nat x))))) (map q [0..<m]))"
      by (intro rmapM_Inr) simp
    with q(2) show ?thesis by simp
  qed
  show ?thesis
    using validateShares_share_of [OF assms(1-3)] polys eval by (simp add: interpolate_def)
qed

text \<open>The polynomials interpolated from any threshold shares give the secret at zero and every other
  share, also the ones not used, at its index.\<close>

theorem split_interpolate:
  assumes "split rnd secret threshold tot = Inr shares" "set shs \<subseteq> set shares" "distinct shs"
    and "threshold \<le> int (length shs)"
  shows "\<exists>f. interpolate shs = Inr f \<and> f 0 = Inr secret \<and> (\<forall>s\<in>set shares. f (s_index s) = Inr (s_share s))"
proof -
  note inputs = split_inputs [OF assms(1)]
  let ?p = "secret_polynomial rnd secret threshold" and ?m = "length secret"
  have shares: "shares = map (share_of ?p ?m) [0..<nat tot]" using split_eq inputs assms(1) by simp
  with assms(2) have sub: "set shs \<subseteq> set (map (share_of ?p ?m) [0..<nat tot])" by (simp only:)
  obtain ks where ks: "shs = map (share_of ?p ?m) ks" "distinct ks" "\<And>k. k \<in> set ks \<Longrightarrow> k < nat tot"
    using sublist_shares [OF sub assms(3)] by blast
  have "\<exists>f. interpolate (map (share_of ?p ?m) ks) = Inr f \<and>
     (\<forall>x. 0 \<le> x \<and> x < 256 \<longrightarrow>
        f x = Inr (map (\<lambda>i. gf_value (poly_evaluate (?p i) (GF256 (word_of_nat (nat x))))) [0..<?m]))"
  proof (rule interpolate_share_of [where n = "nat threshold"])
    show "ks \<noteq> []" using assms(4) inputs ks(1) by auto
    show "k < 255" if "k \<in> set ks" for k using ks(3) [OF that] inputs by linarith
    show "nat threshold \<le> length ks" using assms(4) ks(1) by simp
    show "pfun (nat threshold) (poly_evaluate (?p i))" for i using secret_polynomial_props(3) inputs by blast
  qed (rule ks(2))
  then obtain f where f: "interpolate shs = Inr f" "\<And>x. 0 \<le> x \<Longrightarrow> x < 256 \<Longrightarrow>
      f x = Inr (map (\<lambda>i. gf_value (poly_evaluate (?p i) (GF256 (word_of_nat (nat x))))) [0..<?m])"
    using ks(1) by auto
  have "f 0 = Inr secret" by (simp add: f(2) gf_ops secret_polynomial_props(2) map_nth)
  moreover have "f (s_index s) = Inr (s_share s)" if "s \<in> set shares" for s
  proof -
    obtain k where k: "k < nat tot" "s = share_of ?p ?m k" using \<open>s \<in> set shares\<close> shares by auto
    then have "s_index s = int (k + 1)" "k + 1 < 256" using inputs by (auto simp: share_of_def)
    then show ?thesis using f(2) [of "s_index s"] k(2) by (simp add: share_of_def add.commute)
  qed
  ultimately show ?thesis using f(1) by blast
qed

lemma split_interpolate_witness:
  "\<exists>f. interpolate [share_of (secret_polynomial (\<lambda>i k. 7) [1, 2] 2) 2 2, share_of (secret_polynomial (\<lambda>i k. 7) [1, 2] 2) 2 0] = Inr f \<and>
     f 0 = Inr [1, 2] \<and>
     (\<forall>s\<in>set (map (share_of (secret_polynomial (\<lambda>i k. 7) [1, 2] 2) 2) [0..<3]). f (s_index s) = Inr (s_share s))"
proof (rule split_interpolate)
  show "split (\<lambda>i k. 7) [1, 2] 2 3 = Inr (map (share_of (secret_polynomial (\<lambda>i k. 7) [1, 2] 2) 2) [0..<3])"
    by (subst split_eq) (simp_all add: numeral_3_eq_3 numeral_2_eq_2)
qed (auto simp: share_of_def)

lemma toInternalShare_ok:
  "toInternalShare s = Inr p \<Longrightarrow> fst p = GF256 (word_of_int (s_index s)) \<and> length (snd p) = length (s_share s) \<and>
     0 \<le> s_index s \<and> s_index s < 256"
  by (cases p) (auto simp: toInternalShare_def new_GF256_def res_simps split: if_splits)

lemma validateShares_ok:
  assumes "validateShares shares = Inr (ishares, len)"
  shows "shares \<noteq> []" "distinct (map s_index shares)" "rmapM toInternalShare shares = Inr ishares"
    "len = length (s_share (shares ! 0))" "\<forall>s\<in>set shares. 0 \<le> s_index s \<and> s_index s < 256"
proof -
  show ne: "shares \<noteq> []" and "distinct (map s_index shares)" and m: "rmapM toInternalShare shares = Inr ishares"
    using assms by (auto simp: validateShares_def hasDuplicates_distinct res_simps split: if_splits)
  have each: "\<forall>s\<in>set shares. 0 \<le> s_index s \<and> s_index s < 256"
  proof
    fix s assume "s \<in> set shares"
    then obtain i where "i < length shares" "shares ! i = s" by (auto simp: in_set_conv_nth)
    with rmapM_nth [OF m, of i] show "0 \<le> s_index s \<and> s_index s < 256"
      by (auto simp: toInternalShare_def new_GF256_def res_simps split: if_splits)
  qed
  then show "\<forall>s\<in>set shares. 0 \<le> s_index s \<and> s_index s < 256" .
  have "len = length (snd (ishares ! 0))"
    using assms m by (auto simp: validateShares_def split: if_splits)
  moreover have "toInternalShare (shares ! 0) = Inr (ishares ! 0)" using rmapM_nth [OF m] ne by simp
  ultimately show "len = length (s_share (shares ! 0))" using toInternalShare_ok by auto
qed

text \<open>combine succeeds only on a non-empty list of shares with different indices, all between 0 and
  255, and the index 0, where the secret itself would be, is refused.\<close>

theorem combine_inputs:
  assumes "combine shares = Inr secret" "secret \<noteq> []"
  shows "shares \<noteq> [] \<and> distinct (map s_index shares) \<and> (\<forall>s\<in>set shares. 1 \<le> s_index s \<and> s_index s < 256)"
proof -
  obtain ishares len where v: "validateShares shares = Inr (ishares, len)"
    and r: "rmapM (\<lambda>i. rmap gf_value (poly_combine (coordinates_at ishares i))) [0..<len] = Inr secret"
    using assms(1) by (auto simp: combine_def res_simps)
  note ok = validateShares_ok [OF v]
  have len: "0 < len" using rmapM_length [OF r] assms(2) by (cases secret) auto
  let ?c = "coordinates_at ishares 0"
  have c: "is_ok (poly_combine ?c)" using rmapM_nth [OF r, of 0] len by (auto simp: res_simps)
  have idx: "fst (ishares ! i) = GF256 (word_of_int (s_index (shares ! i)))" if "i < length shares" for i
    using toInternalShare_ok [OF rmapM_nth [OF ok(3) that]] by blast
  have fsts: "map fst ?c = map (\<lambda>s. GF256 (word_of_int (s_index s))) shares"
    by (rule nth_equalityI) (use rmapM_length [OF ok(3)] idx in \<open>auto simp: coordinates_at_def case_prod_unfold\<close>)
  have inj: "s_index s = s_index s'"
    if "s \<in> set shares" "s' \<in> set shares" "GF256 (word_of_int (s_index s)) = GF256 (word_of_int (s_index s'))" for s s'
  proof -
    have "0 \<le> s_index s" "s_index s < 256" "0 \<le> s_index s'" "s_index s' < 256" using ok(5) that by auto
    moreover have "nat (s_index s) < 256" "nat (s_index s') < 256" using calculation by linarith+
    ultimately have "nat (s_index s) = nat (s_index s')"
      using gf_nat_inj [of "nat (s_index s)" "nat (s_index s')"] that(3) by simp
    then show ?thesis using \<open>0 \<le> s_index s\<close> \<open>0 \<le> s_index s'\<close> by simp
  qed
  have "distinct (map fst ?c)"
    unfolding fsts using ok(2) inj by (auto simp: distinct_map inj_on_def)
  with c poly_combine_zero [of ?c] have "0 \<notin> points ?c" by auto
  then have "s_index s \<noteq> 0" if "s \<in> set shares" for s
    using that unfolding points_def fsts by (auto simp: gf_ops image_iff)
  with ok show ?thesis by force
qed

lemma combine_inputs_witness:
  "distinct (map s_index [share_of (secret_polynomial (\<lambda>i k. 7) [1, 2] 2) 2 2, share_of (secret_polynomial (\<lambda>i k. 7) [1, 2] 2) 2 0]) \<and>
   1 \<le> s_index (share_of (secret_polynomial (\<lambda>i k. 7) [1, 2] 2) 2 2)"
proof -
  have "combine (map (share_of (secret_polynomial (\<lambda>i k. 7) [1, 2] 2) 2) [2, 0])
      = Inr (map (\<lambda>i. gf_value (poly_evaluate (secret_polynomial (\<lambda>i k. 7) [1, 2] 2 i) 0)) [0..<2])"
    by (rule combine_share_of [where n = "nat 2"]) (auto simp only: secret_polynomial_props(3), auto)
  then have "combine [share_of (secret_polynomial (\<lambda>i k. 7) [1, 2] 2) 2 2, share_of (secret_polynomial (\<lambda>i k. 7) [1, 2] 2) 2 0]
      = Inr [1 :: byte, 2]"
    by (simp add: secret_polynomial_props(2) upt_rec)
  from combine_inputs [OF this] show ?thesis by simp
qed

end
