(* ===== verification/Myso_Types.thy ===== *)
theory Myso_Types
  imports Js_Text
begin

text \<open>
  \<open>packages/myso/src/utils/myso-types.ts\<close>, \<open>mysons.ts\<close>, \<open>move-registry.ts\<close> and \<open>format.ts\<close>, and
  \<open>splitGenericParameters\<close> of \<open>packages/bcs/src/utils.ts\<close>: addresses, names and struct tags as
  text. Regular expressions are written out as the functions they denote.
\<close>

subsection \<open>Splitting generic parameters\<close>

text \<open>The loop over the characters; \<open>depth\<close> is \<open>nestedAngleBrackets\<close>, \<open>tok\<close> is pushed in order.\<close>

fun split_generic_loop :: "char \<Rightarrow> char \<Rightarrow> int \<Rightarrow> string \<Rightarrow> string \<Rightarrow> string list" where
  "split_generic_loop left right depth word [] = [trim word]"
| "split_generic_loop left right depth word (c # cs) =
     (let depth = (if c = left then depth + 1 else depth);
          depth = (if c = right then depth - 1 else depth)
      in if depth = 0 \<and> c = CHR '','' then trim word # split_generic_loop left right depth [] cs
         else split_generic_loop left right depth (word @ [c]) cs)"

definition splitGenericParameters :: "string \<Rightarrow> string list" where
  "splitGenericParameters str = split_generic_loop CHR ''<'' CHR ''>'' 0 [] str"

lemma length_trim: "length (trim s) \<le> length s"
  unfolding trim_def by (metis length_dropWhile_le length_rev le_trans)

lemma split_generic_loop_length:
  "t \<in> set (split_generic_loop l r d word cs) \<Longrightarrow> length t \<le> length word + length cs"
proof (induction l r d word cs rule: split_generic_loop.induct)
  case (1 left right depth word)
  then show ?case using length_trim by simp
next
  case (2 left right depth word c cs)
  then show ?case using length_trim [of word] by (auto simp: Let_def split: if_splits)
qed

lemma splitGenericParameters_length: "t \<in> set (splitGenericParameters s) \<Longrightarrow> length t \<le> length s"
  using split_generic_loop_length [of t "CHR ''<''" "CHR ''>''" 0 "[]" s] by (simp add: splitGenericParameters_def)

subsection \<open>Addresses\<close>

definition MYSO_ADDRESS_LENGTH :: nat where
  "MYSO_ADDRESS_LENGTH = 32"

definition has_0x :: "string \<Rightarrow> bool" where
  "has_0x s \<longleftrightarrow> startsWith s ''0x'' \<or> startsWith s ''0X''"

text \<open>\<open>/^(0x|0X)?[a-fA-F0-9]+$/.test(value) && value.length % 2 === 0\<close>.\<close>

definition isHex :: "string \<Rightarrow> bool" where
  "isHex s \<longleftrightarrow> (let body = (if has_0x s then drop 2 s else s) in body \<noteq> [] \<and> list_all is_hex_char body) \<and> even (length s)"

text \<open>\<open>None\<close> stands for a length that is no integer.\<close>

definition getHexByteLength :: "string \<Rightarrow> nat option" where
  "getHexByteLength s =
     (let n = (if has_0x s then length s - 2 else length s) in if even n then Some (n div 2) else None)"

definition isValidMySoAddress :: "string \<Rightarrow> bool" where
  "isValidMySoAddress s \<longleftrightarrow> isHex s \<and> getHexByteLength s = Some MYSO_ADDRESS_LENGTH"

definition isValidMySoObjectId :: "string \<Rightarrow> bool" where
  "isValidMySoObjectId s = isValidMySoAddress s"

text \<open>\<open>fromBase58\<close> is the package's: the digest check is stated over it.\<close>

definition isValidTransactionDigest :: "(string \<Rightarrow> 'b list res) \<Rightarrow> string \<Rightarrow> bool" where
  "isValidTransactionDigest fromBase58 s = (case fromBase58 s of Inl _ \<Rightarrow> False | Inr buffer \<Rightarrow> length buffer = 32)"

definition normalizeMySoAddress :: "string \<Rightarrow> bool \<Rightarrow> string" where
  "normalizeMySoAddress s forceAdd0x =
     (let address = toLowerCase s;
          address = (if \<not> forceAdd0x \<and> startsWith address ''0x'' then drop 2 address else address)
      in ''0x'' @ padStart (MYSO_ADDRESS_LENGTH * 2) CHR ''0'' address)"

definition normalizeMySoObjectId :: "string \<Rightarrow> bool \<Rightarrow> string" where
  "normalizeMySoObjectId s forceAdd0x = normalizeMySoAddress s forceAdd0x"

subsection \<open>Names\<close>

definition lower_digit_dash :: "char \<Rightarrow> bool" where
  "lower_digit_dash c \<longleftrightarrow>
     (let n = (of_char c :: nat) in (97 \<le> n \<and> n \<le> 122) \<or> (48 \<le> n \<and> n \<le> 57) \<or> n = 45)"

text \<open>\<open>[a-z0-9-]{0,63}\<close> with the flag \<open>i\<close>.\<close>

definition is_label :: "string \<Rightarrow> bool" where
  "is_label s \<longleftrightarrow> length s \<le> 63 \<and> list_all (\<lambda>c. lower_digit_dash (lower_char c)) s"

text \<open>Some separator is followed by the end or by another separator.\<close>

fun bad_pair :: "char set \<Rightarrow> string \<Rightarrow> bool" where
  "bad_pair seps [] = False"
| "bad_pair seps [c] = (c \<in> seps)"
| "bad_pair seps (c # d # cs) = ((c \<in> seps \<and> d \<in> seps) \<or> bad_pair seps (d # cs))"

definition name_regex :: "string \<Rightarrow> bool" where
  "name_regex s \<longleftrightarrow>
     s \<noteq> [] \<and> \<not> (hd s \<noteq> CHR ''@'' \<and> hd s \<in> {CHR ''-'', CHR ''.''}) \<and> \<not> bad_pair {CHR ''-'', CHR ''.'', CHR ''@''} s \<and>
     (case split_char CHR ''@'' s of
        [labels, domain] \<Rightarrow> list_all is_label (split_char CHR ''.'' labels) \<and> is_label domain
      | _ \<Rightarrow> False)"

definition domain_regex :: "string \<Rightarrow> bool" where
  "domain_regex s \<longleftrightarrow>
     s \<noteq> [] \<and> hd s \<notin> {CHR ''-'', CHR ''.''} \<and> \<not> bad_pair {CHR ''-'', CHR ''.''} s \<and>
     (let parts = split_char CHR ''.'' s
      in length parts \<ge> 2 \<and> toLowerCase (last parts) = ''myso'' \<and> list_all is_label (butlast parts))"

definition isValidMySoNSName :: "string \<Rightarrow> bool" where
  "isValidMySoNSName name =
     (if length name > 235 then False
      else if CHR ''@'' \<in> set name then name_regex name else domain_regex name)"

datatype ns_format = At | Dot

definition normalizeMySoNSName :: "string \<Rightarrow> ns_format \<Rightarrow> string res" where
  "normalizeMySoNSName name format =
     (let lowerCase = toLowerCase name;
          parts = (if CHR ''@'' \<in> set lowerCase
                   then (if \<not> name_regex lowerCase then Inl (Error ''Invalid MySoNS name'')
                         else let ld = split_char CHR ''@'' lowerCase; labels = ld ! 0; domain = ld ! 1
                              in Inr ((if labels \<noteq> [] then split_char CHR ''.'' labels else []) @ [domain]))
                   else (if \<not> domain_regex lowerCase then Inl (Error ''Invalid MySoNS name'')
                         else Inr (butlast (split_char CHR ''.'' lowerCase))))
      in rmap (\<lambda>parts. case format of
            Dot \<Rightarrow> join ''.'' parts @ ''.myso''
          | At \<Rightarrow> join ''.'' (butlast parts) @ ''@'' @ last parts) parts)"

definition is_digit :: "char \<Rightarrow> bool" where
  "is_digit c \<longleftrightarrow> (let n = (of_char c :: nat) in 48 \<le> n \<and> n \<le> 57)"

definition lower_digit :: "char \<Rightarrow> bool" where
  "lower_digit c \<longleftrightarrow> (let n = (of_char c :: nat) in (97 \<le> n \<and> n \<le> 122) \<or> (48 \<le> n \<and> n \<le> 57))"

text \<open>\<open>/^([a-z0-9]+(?:-[a-z0-9]+)*)$/\<close>.\<close>

definition name_pattern :: "string \<Rightarrow> bool" where
  "name_pattern s = list_all (\<lambda>p. p \<noteq> [] \<and> list_all lower_digit p) (split_char CHR ''-'' s)"

definition isValidNamedPackage :: "string \<Rightarrow> bool" where
  "isValidNamedPackage name =
     (let parts = split_char CHR ''/'' name in
      if length parts < 2 \<or> length parts > 3 then False
      else if length parts = 3 \<and> \<not> (parts ! 2 \<noteq> [] \<and> list_all is_digit (parts ! 2)) then False
      else if \<not> isValidMySoNSName (parts ! 0) then False
      else name_pattern (parts ! 1) \<and> length (parts ! 1) < 64)"

text \<open>\<open>type.split(/::|<|>|,/)\<close>.\<close>

fun split_type :: "string \<Rightarrow> string list" where
  "split_type [] = [[]]"
| "split_type (c # cs) =
     (if c = CHR '':'' \<and> cs \<noteq> [] \<and> hd cs = CHR '':'' then [] # split_type (tl cs)
      else if c \<in> {CHR ''<'', CHR ''>'', CHR '',''} then [] # split_type cs
      else case split_type cs of [] \<Rightarrow> [[c]] | p # ps \<Rightarrow> (c # p) # ps)"

definition isValidNamedType :: "string \<Rightarrow> bool" where
  "isValidNamedType type = list_all (\<lambda>t. \<not> (CHR ''/'' \<in> set t \<and> \<not> isValidNamedPackage t)) (split_type type)"

subsection \<open>Struct tags\<close>

text \<open>\<open>typeParams: (string | StructTag)[]\<close>.\<close>

datatype type_param = PStr string | PStruct struct_tag
and struct_tag = StructTag (st_address: string) (st_module: string) (st_name: string) (st_params: "type_param list")

text \<open>\<open>type.split('::')\<close>.\<close>

fun split_colons :: "string \<Rightarrow> string list" where
  "split_colons [] = [[]]"
| "split_colons (c # cs) =
     (if c = CHR '':'' \<and> cs \<noteq> [] \<and> hd cs = CHR '':'' then [] # split_colons (tl cs)
      else case split_colons cs of [] \<Rightarrow> [[c]] | p # ps \<Rightarrow> (c # p) # ps)"

text \<open>\<open>rest.slice(rest.indexOf('<') + 1, rest.lastIndexOf('>'))\<close>, where an index of -1 cuts one character.\<close>

definition generic_args :: "string \<Rightarrow> string" where
  "generic_args rest =
     (let after = tl (dropWhile (\<lambda>c. c \<noteq> CHR ''<'') rest);
          i = length rest - length after;
          j = (if CHR ''>'' \<in> set rest then length rest - 1 - length (takeWhile (\<lambda>c. c \<noteq> CHR ''>'') (rev rest))
               else length rest - 1)
      in take (j - i) after)"

text \<open>\<open>type.includes('::')\<close>.\<close>

definition has_colons :: "string \<Rightarrow> bool" where
  "has_colons s \<longleftrightarrow> length (split_colons s) \<ge> 2"

lemma rmapM_cong [fundef_cong]:
  "xs = ys \<Longrightarrow> (\<And>x. x \<in> set ys \<Longrightarrow> f x = g x) \<Longrightarrow> rmapM f xs = rmapM g ys"
proof (induction xs arbitrary: ys)
  case (Cons x xs)
  then show ?case by (cases ys) auto
qed simp

lemma generic_args_length: "length (generic_args rest) \<le> length rest"
proof -
  have "length (generic_args rest) \<le> length (tl (dropWhile (\<lambda>c. c \<noteq> CHR ''<'') rest))"
    unfolding generic_args_def Let_def length_take by simp
  also have "\<dots> \<le> length rest"
    using length_dropWhile_le [of "\<lambda>c. c \<noteq> CHR ''<''" rest] by simp
  finally show ?thesis .
qed

lemma split_colons_nonempty [simp]: "split_colons s \<noteq> []"
  by (induction s rule: split_colons.induct) (auto split: list.splits)

text \<open>The tag of a text that contains \<open>::\<close>, by recursion on its length.\<close>

function parseStructTag :: "string \<Rightarrow> struct_tag res" where
  "parseStructTag type =
     (let parts = split_colons type in
      if length parts < 3 then Inl (Error ''Invalid struct tag'')
      else let address = parts ! 0; module = parts ! 1;
               isMvrPackage = isValidNamedPackage address;
               rest = drop (length address + length module + 4) type;
               name = (if CHR ''<'' \<in> set rest then takeWhile (\<lambda>c. c \<noteq> CHR ''<'') rest else rest)
           in rmap (StructTag (if isMvrPackage then address else normalizeMySoAddress address False) module name)
                (if CHR ''<'' \<in> set rest
                 then rmapM (\<lambda>p. let t = trim p in
                        if \<not> has_colons t then Inr (PStr t) else rmap PStruct (parseStructTag t))
                      (splitGenericParameters (generic_args rest))
                 else Inr []))"
  by pat_completeness auto
termination
proof (relation "measure length", goal_cases)
  case (2 type parts address module isMvrPackage rest name p t)
  have "length t \<le> length p" using 2 length_trim by simp
  also have "\<dots> \<le> length (generic_args rest)" using 2 splitGenericParameters_length by blast
  also have "\<dots> \<le> length rest" by (rule generic_args_length)
  also have "\<dots> < length type"
  proof -
    have "rest \<noteq> []" using 2 by auto
    then show ?thesis using 2(6) by simp
  qed
  finally show ?case by simp
qed simp

declare parseStructTag.simps [simp del]

fun normalizeStructTag :: "struct_tag \<Rightarrow> string" and format_param :: "type_param \<Rightarrow> string" where
  "normalizeStructTag (StructTag address module name typeParams) =
     (let formatted = (if length typeParams > 0 then ''<'' @ join '','' (map format_param typeParams) @ ''>'' else [])
      in address @ ''::'' @ module @ ''::'' @ name @ formatted)"
| "format_param (PStr s) = s"
| "format_param (PStruct t) = normalizeStructTag t"

definition normalizeStructTag_str :: "string \<Rightarrow> string res" where
  "normalizeStructTag_str type = rmap normalizeStructTag (parseStructTag type)"

text \<open>The ellipsis character is the argument \<open>ELLIPSIS\<close>: it is outside the characters modelled.\<close>

definition formatAddress :: "string \<Rightarrow> string \<Rightarrow> string" where
  "formatAddress ELLIPSIS address =
     (if length address \<le> 6 then address
      else let offset = (if startsWith address ''0x'' then 2 else 0)
           in ''0x'' @ take 4 (drop offset address) @ ELLIPSIS @ drop (length address - 4) address)"

definition formatDigest :: "string \<Rightarrow> string \<Rightarrow> string" where
  "formatDigest ELLIPSIS digest = take 10 digest @ ELLIPSIS"

subsection \<open>Normalized addresses\<close>

lemma lower_char_idem [simp]: "lower_char (lower_char c) = lower_char c"
proof -
  have "(of_char c :: nat) < 256" by (rule nat_of_char_less_256)
  then show ?thesis by (auto simp: lower_char_def Let_def)
qed

lemma toLowerCase_idem [simp]: "toLowerCase (toLowerCase s) = toLowerCase s"
  by (simp add: toLowerCase_def)

lemma length_toLowerCase [simp]: "length (toLowerCase s) = length s"
  by (simp add: toLowerCase_def)

lemma toLowerCase_append: "toLowerCase (a @ b) = toLowerCase a @ toLowerCase b"
  by (simp add: toLowerCase_def)

lemma lower_char_0: "lower_char CHR ''0'' = CHR ''0''" and lower_char_x: "lower_char CHR ''x'' = CHR ''x''"
  by (simp_all add: lower_char_def)

lemma digit_val_lower: "digit_val (lower_char c) = digit_val c"
proof -
  have "(of_char c :: nat) < 256" by (rule nat_of_char_less_256)
  then show ?thesis by (auto simp: lower_char_def digit_val_def Let_def)
qed

lemma is_hex_lower [simp]: "is_hex_char (lower_char c) = is_hex_char c"
  by (simp add: is_hex_char_def digit_val_lower)

lemma startsWith_append [simp]: "startsWith (p @ s) p"
  by (simp add: startsWith_iff)

lemma normalize_body:
  "normalizeMySoAddress s False
   = ''0x'' @ padStart 64 CHR ''0'' (if startsWith (toLowerCase s) ''0x'' then drop 2 (toLowerCase s) else toLowerCase s)"
  by (simp add: normalizeMySoAddress_def Let_def MYSO_ADDRESS_LENGTH_def)

lemma toLowerCase_normalize: "toLowerCase (normalizeMySoAddress s False) = normalizeMySoAddress s False"
  by (simp add: normalize_body toLowerCase_def padStart_def lower_char_0 lower_char_x drop_map)

text \<open>Normalizing an address twice changes nothing, and every normalized address starts with 0x and
  has at least 64 characters after it.\<close>

theorem normalizeMySoAddress_idem:
  "normalizeMySoAddress (normalizeMySoAddress s False) False = normalizeMySoAddress s False \<and>
   startsWith (normalizeMySoAddress s False) ''0x'' \<and> length (normalizeMySoAddress s False) \<ge> 66"
proof -
  let ?n = "normalizeMySoAddress s False"
  have start: "startsWith ?n ''0x''" by (simp add: normalize_body)
  have len: "length ?n \<ge> 66" by (simp add: normalize_body padStart_def)
  have "normalizeMySoAddress ?n False = ''0x'' @ padStart 64 CHR ''0'' (drop 2 ?n)"
    using start by (subst normalize_body) (simp only: toLowerCase_normalize if_True)
  also have "padStart 64 CHR ''0'' (drop 2 ?n) = drop 2 ?n" using len by (simp add: padStart_def)
  also have "''0x'' @ drop 2 ?n = ?n" by (simp add: normalize_body)
  finally show ?thesis using start len by simp
qed

text \<open>An address of at most 64 hexadecimal digits, with or without 0x, normalizes to a valid address.\<close>

theorem normalizeMySoAddress_valid:
  assumes "list_all is_hex_char digits" "length digits \<le> 64" "p = [] \<and> \<not> has_0x digits \<or> p = ''0x''"
  shows "isValidMySoAddress (normalizeMySoAddress (p @ digits) False)"
proof -
  have x: "\<not> is_hex_char CHR ''x''" "is_hex_char CHR ''0''" by code_simp+
  have "\<not> startsWith (toLowerCase digits) ''0x''"
  proof
    assume "startsWith (toLowerCase digits) ''0x''"
    then have "CHR ''x'' \<in> set (toLowerCase digits)" using startsWith_chars by fastforce
    then obtain c where "c \<in> set digits" "lower_char c = CHR ''x''" by (auto simp: toLowerCase_def)
    then show False using assms(1) x(1) is_hex_lower [of c] by (auto simp: list_all_iff)
  qed
  then have n: "normalizeMySoAddress (p @ digits) False = ''0x'' @ padStart 64 CHR ''0'' (toLowerCase digits)"
    using assms(3) by (auto simp: normalize_body toLowerCase_append) (simp_all add: toLowerCase_def lower_char_0 lower_char_x)
  have hex: "list_all is_hex_char (padStart 64 CHR ''0'' (toLowerCase digits))"
    using assms(1) x(2) by (auto simp: padStart_def toLowerCase_def list_all_iff)
  have len: "length (padStart 64 CHR ''0'' (toLowerCase digits)) = 64" using assms(2) by (simp add: padStart_def)
  have pre: "has_0x (''0x'' @ t)" for t unfolding has_0x_def by simp
  have "padStart 64 CHR ''0'' (toLowerCase digits) \<noteq> []" using len by force
  then show ?thesis
    using hex len pre
    by (simp add: n isValidMySoAddress_def isHex_def getHexByteLength_def Let_def MYSO_ADDRESS_LENGTH_def)
qed

lemma normalizeMySoAddress_valid_witness: "isValidMySoAddress (normalizeMySoAddress ([] @ ''2'') False)"
  by (rule normalizeMySoAddress_valid) (simp_all add: has_0x_def is_hex_char_def digit_val_def)

end
