(* ===== verification/Type_Tag.thy ===== *)
theory Type_Tag
  imports Myso_Types
begin

text \<open>
  \<open>packages/myso/src/bcs/type-tag-serializer.ts\<close>: \<open>TypeTagSerializer\<close>. The two regular expressions
  are the functions \<open>match_vector\<close> and \<open>match_struct\<close>; the parser recurses on the length of the text.
\<close>

datatype type_tag =
    TAddress | TBool | TU8 | TU16 | TU32 | TU64 | TU128 | TU256 | TSigner
  | TVector type_tag
  | TStruct (tt_address: string) (tt_module: string) (tt_name: string) (tt_params: "type_tag list")

text \<open>What the dot of a regular expression does not match.\<close>

definition is_newline :: "char \<Rightarrow> bool" where
  "is_newline c \<longleftrightarrow> c = CHR 10 \<or> c = CHR 13"

text \<open>\<open>/^vector<(.+)>$/\<close>: the first group.\<close>

definition match_vector :: "string \<Rightarrow> string option" where
  "match_vector s =
     (let inner = butlast (drop 7 s) in
      if startsWith s ''vector<'' \<and> drop 7 s \<noteq> [] \<and> last s = CHR ''>'' \<and> inner \<noteq> [] \<and> \<not> list_ex is_newline inner
      then Some inner else None)"

text \<open>The text before the last \<open>c\<close> of \<open>s\<close>.\<close>

fun before_last :: "char \<Rightarrow> string \<Rightarrow> string option" where
  "before_last c [] = None"
| "before_last c (x # xs) =
     (case before_last c xs of
        Some p \<Rightarrow> Some (x # p)
      | None \<Rightarrow> if x = c then Some [] else None)"

text \<open>\<open>(<(.+)>)?\<close> on what follows the name: \<open>.+\<close> is greedy within the line.\<close>

definition match_generics :: "string \<Rightarrow> string option" where
  "match_generics s =
     (case s of
        [] \<Rightarrow> None
      | c # cs \<Rightarrow> if c \<noteq> CHR ''<'' then None
                  else (case before_last CHR ''>'' (takeWhile (\<lambda>c. \<not> is_newline c) cs) of
                          None \<Rightarrow> None
                        | Some p \<Rightarrow> if p = [] then None else Some p))"

text \<open>\<open>/^([^:]+)::([^:]+)::([^<]+)(<(.+)>)?/\<close>: the groups 1, 2, 3 and 5.\<close>

definition match_struct :: "string \<Rightarrow> (string \<times> string \<times> string \<times> string option) option" where
  "match_struct s =
     (let address = takeWhile (\<lambda>c. c \<noteq> CHR '':'') s; s1 = drop (length address) s;
          module = takeWhile (\<lambda>c. c \<noteq> CHR '':'') (drop 2 s1); s2 = drop (length module) (drop 2 s1);
          name = takeWhile (\<lambda>c. c \<noteq> CHR ''<'') (drop 2 s2); s3 = drop (length name) (drop 2 s2)
      in if address \<noteq> [] \<and> startsWith s1 ''::'' \<and> module \<noteq> [] \<and> startsWith s2 ''::'' \<and> name \<noteq> []
         then Some (address, module, name, match_generics s3) else None)"

lemma match_vector_length: "match_vector s = Some inner \<Longrightarrow> length inner < length s"
  by (auto simp: match_vector_def Let_def split: if_splits)

lemma before_last_length: "before_last c s = Some p \<Longrightarrow> length p < length s"
  by (induction s arbitrary: p) (auto split: option.splits if_splits)

lemma match_generics_length: "match_generics s = Some p \<Longrightarrow> length p < length s"
proof (cases s)
  case (Cons c cs)
  assume "match_generics s = Some p"
  then have "length p < length (takeWhile (\<lambda>c. \<not> is_newline c) cs)"
    using Cons before_last_length by (auto simp: match_generics_def split: if_splits option.splits)
  also have "\<dots> \<le> length cs" by (rule length_takeWhile_le)
  finally show ?thesis using Cons by simp
qed (simp add: match_generics_def)

lemma match_struct_length: "match_struct s = Some (a, m, n, Some g) \<Longrightarrow> length g < length s"
  using match_generics_length by (fastforce simp: match_struct_def Let_def split: if_splits)

definition primitive_tag :: "string \<Rightarrow> type_tag option" where
  "primitive_tag s =
     (if s = ''address'' then Some TAddress
      else if s = ''bool'' then Some TBool
      else if s = ''u8'' then Some TU8
      else if s = ''u16'' then Some TU16
      else if s = ''u32'' then Some TU32
      else if s = ''u64'' then Some TU64
      else if s = ''u128'' then Some TU128
      else if s = ''u256'' then Some TU256
      else if s = ''signer'' then Some TSigner else None)"

function parseFromStr :: "string \<Rightarrow> bool \<Rightarrow> type_tag res" where
  "parseFromStr str normalizeAddress =
     (case primitive_tag str of
        Some t \<Rightarrow> Inr t
      | None \<Rightarrow>
        (case match_vector str of
           Some inner \<Rightarrow> rmap TVector (parseFromStr inner normalizeAddress)
         | None \<Rightarrow>
           (case match_struct str of
              Some (address, module, name, params) \<Rightarrow>
                rmap (TStruct (if normalizeAddress then normalizeMySoAddress address False else address) module name)
                  (case params of
                     None \<Rightarrow> Inr []
                   | Some p \<Rightarrow> rmapM (\<lambda>tok. parseFromStr tok normalizeAddress) (splitGenericParameters p))
            | None \<Rightarrow> Inl (Error ''Encountered unexpected token when parsing type args''))))"
  by pat_completeness auto
termination
proof (relation "measure (\<lambda>(s, _). length s)", goal_cases)
  case 1
  then show ?case by simp
next
  case (2 str b x xa y xb ya xc yb p tok)
  then have "length tok \<le> length p" "length p < length str"
    using splitGenericParameters_length match_struct_length by auto
  then show ?case by simp
next
  case (3 str)
  then show ?case using match_vector_length by simp
qed

declare parseFromStr.simps [simp del]

definition parseStructTypeArgs :: "string \<Rightarrow> bool \<Rightarrow> type_tag list res" where
  "parseStructTypeArgs str normalizeAddress =
     rmapM (\<lambda>tok. parseFromStr tok normalizeAddress) (splitGenericParameters str)"

fun tagToString :: "type_tag \<Rightarrow> string" where
  "tagToString TBool = ''bool''"
| "tagToString TU8 = ''u8''"
| "tagToString TU16 = ''u16''"
| "tagToString TU32 = ''u32''"
| "tagToString TU64 = ''u64''"
| "tagToString TU128 = ''u128''"
| "tagToString TU256 = ''u256''"
| "tagToString TAddress = ''address''"
| "tagToString TSigner = ''signer''"
| "tagToString (TVector t) = ''vector<'' @ tagToString t @ ''>''"
| "tagToString (TStruct address module name params) =
     (let typeParams = join '', '' (map tagToString params)
      in address @ ''::'' @ module @ ''::'' @ name @ (if typeParams \<noteq> [] then ''<'' @ typeParams @ ''>'' else []))"

definition normalizeTypeTag :: "string \<Rightarrow> string res" where
  "normalizeTypeTag type = rmap tagToString (parseFromStr type False)"

subsection \<open>Well-formed tags\<close>

text \<open>Characters of addresses, modules and names: no delimiter and no white space.\<close>

definition tag_char :: "char \<Rightarrow> bool" where
  "tag_char c \<longleftrightarrow> c \<notin> {CHR '':'', CHR ''<'', CHR ''>'', CHR '',''} \<and> \<not> is_space c"

definition tag_word :: "string \<Rightarrow> bool" where
  "tag_word s \<longleftrightarrow> s \<noteq> [] \<and> list_all tag_char s"

fun wf_tag :: "type_tag \<Rightarrow> bool" where
  "wf_tag (TVector t) = wf_tag t"
| "wf_tag (TStruct a m n ps) = (tag_word a \<and> tag_word m \<and> tag_word n \<and> (\<forall>p\<in>set ps. wf_tag p))"
| "wf_tag _ = True"

text \<open>A text the splitting loop passes over without ending a word, at any depth or at positive depth.\<close>

definition passes :: "int \<Rightarrow> string \<Rightarrow> bool" where
  "passes d s \<longleftrightarrow> (\<forall>n word rest. d \<le> n \<longrightarrow>
     split_generic_loop CHR ''<'' CHR ''>'' n word (s @ rest)
     = split_generic_loop CHR ''<'' CHR ''>'' n (word @ s) rest)"

lemma passes_Nil [simp]: "passes d []"
  by (simp add: passes_def)

lemma passes_append: "passes d s \<Longrightarrow> passes d t \<Longrightarrow> passes d (s @ t)"
  by (simp add: passes_def)

lemma passes_char: "c \<notin> {CHR ''<'', CHR ''>'', CHR '',''} \<Longrightarrow> passes d [c]"
  by (simp add: passes_def Let_def)

lemma passes_comma: "passes 1 '',''"
  by (simp add: passes_def Let_def)

lemma passes_chars: "list_all (\<lambda>c. c \<notin> {CHR ''<'', CHR ''>'', CHR '',''}) s \<Longrightarrow> passes d s"
proof (induction s)
  case (Cons c s)
  then show ?case using passes_append [OF passes_char [of c d], of s] by simp
qed simp

lemma passes_mono: "passes d s \<Longrightarrow> d \<le> e \<Longrightarrow> passes e s"
  by (auto simp: passes_def)

lemma passes_brackets:
  assumes "passes (d + 1) s" "0 \<le> d"
  shows "passes d (''<'' @ s @ ''>'')"
  unfolding passes_def
proof (intro allI impI)
  fix n :: int and word rest assume n: "d \<le> n"
  let ?f = "split_generic_loop CHR ''<'' CHR ''>''"
  have "?f n word ((''<'' @ s @ ''>'') @ rest) = ?f (n + 1) (word @ ''<'') (s @ CHR ''>'' # rest)"
    by (simp add: Let_def)
  also have "\<dots> = ?f (n + 1) ((word @ ''<'') @ s) (CHR ''>'' # rest)"
    using assms(1) n by (simp add: passes_def)
  also have "\<dots> = ?f n (word @ (''<'' @ s @ ''>'')) rest" by (simp add: Let_def)
  finally show "?f n word ((''<'' @ s @ ''>'') @ rest) = ?f n (word @ (''<'' @ s @ ''>'')) rest" .
qed

lemma passes_join: "(\<And>s. s \<in> set ss \<Longrightarrow> passes 1 s) \<Longrightarrow> passes 1 (join '', '' ss)"
proof (induction ss)
  case (Cons s ss)
  show ?case
  proof (cases ss)
    case (Cons t ts)
    have "passes 1 (s @ '','' @ '' '' @ join '', '' ss)"
      by (intro passes_append passes_comma passes_char Cons.IH) (use Cons.prems in auto)
    with Cons show ?thesis by simp
  qed (use Cons.prems in simp)
qed simp

lemma tag_word_passes: "tag_word s \<Longrightarrow> passes d s"
  by (rule passes_chars) (auto simp: tag_word_def tag_char_def list_all_iff)

lemma passes_tag: "wf_tag t \<Longrightarrow> passes 0 (tagToString t)"
proof (induction t)
  case (TVector t)
  have "passes 1 (tagToString t)" using TVector passes_mono [of 0 _ 1] by simp
  then have "passes 0 (''vector'' @ (''<'' @ tagToString t @ ''>''))"
    using passes_append [OF passes_chars [of "''vector''"] passes_brackets] by simp
  then show ?case by simp
next
  case (TStruct a m n ps)
  have ps: "passes 1 (join '', '' (map tagToString ps))"
    by (rule passes_join) (use TStruct passes_mono [of 0 _ 1] in auto)
  have sep: "passes 0 ''::''" by (rule passes_chars) simp
  have params: "passes 0 (if join '', '' (map tagToString ps) \<noteq> []
      then ''<'' @ join '', '' (map tagToString ps) @ ''>'' else [])"
    using passes_brackets [of 0, OF _ order.refl] ps by simp
  have "tag_word a" "tag_word m" "tag_word n" using TStruct.prems by auto
  note w = this [THEN tag_word_passes, of 0]
  have "passes 0 (a @ ''::'' @ m @ ''::'' @ n @
      (if join '', '' (map tagToString ps) \<noteq> [] then ''<'' @ join '', '' (map tagToString ps) @ ''>'' else []))"
    by (rule passes_append [OF w(1) passes_append [OF sep passes_append [OF w(2) passes_append [OF sep passes_append [OF w(3) params]]]]])
  then show ?case by (simp add: Let_def)
qed (auto intro!: passes_chars)

subsection \<open>Printing and parsing\<close>

definition plain :: "string \<Rightarrow> bool" where
  "plain s \<longleftrightarrow> s \<noteq> [] \<and> \<not> is_space (hd s) \<and> \<not> is_space (last s) \<and> list_all (\<lambda>c. \<not> is_newline c) s"

lemma not_space [simp]: "\<not> is_space CHR '':''" "\<not> is_space CHR ''<''" "\<not> is_space CHR ''>''" "\<not> is_space CHR ''v''"
  "is_space CHR '' ''"
  by code_simp+

lemma not_newline: "\<not> is_space c \<Longrightarrow> \<not> is_newline c"
  by (auto simp: is_newline_def is_space_def)

lemma tag_word_plain: "tag_word s \<Longrightarrow> plain s"
  by (auto simp: tag_word_def plain_def tag_char_def list_all_iff not_newline)

lemma no_newline_join:
  "(\<And>s. s \<in> set ss \<Longrightarrow> list_all (\<lambda>c. \<not> is_newline c) s) \<Longrightarrow> list_all (\<lambda>c. \<not> is_newline c) (join '', '' ss)"
proof (induction ss)
  case (Cons s ss)
  then show ?case by (cases ss) (auto simp: is_newline_def)
qed simp

lemma join_empty_iff: "(\<And>s. s \<in> set ss \<Longrightarrow> s \<noteq> []) \<Longrightarrow> join sep ss = [] \<longleftrightarrow> ss = []"
  by (cases ss; cases "tl ss") auto

lemma plain_tag: "wf_tag t \<Longrightarrow> plain (tagToString t)"
proof (induction t)
  case (TVector t)
  then show ?case by (auto simp: plain_def is_newline_def)
next
  case (TStruct a m n ps)
  have w: "plain a" "plain m" "plain n" using TStruct.prems tag_word_plain by auto
  have "list_all (\<lambda>c. \<not> is_newline c) (join '', '' (map tagToString ps))"
    by (rule no_newline_join) (use TStruct in \<open>auto simp: plain_def\<close>)
  with w show ?case by (auto simp: plain_def Let_def is_newline_def)
qed (auto simp: plain_def is_newline_def is_space_def)

lemma trim_plain: "plain s \<Longrightarrow> trim s = s" "plain s \<Longrightarrow> trim ('' '' @ s) = s"
proof -
  assume "plain s"
  then have "dropWhile is_space s = s" "dropWhile is_space (rev s) = rev s"
    by (auto simp: plain_def dropWhile_eq_self_iff hd_rev)
  then show "trim s = s" "trim ('' '' @ s) = s" by (simp_all add: trim_def)
qed

lemma split_join:
  assumes "ss \<noteq> []" "\<And>s. s \<in> set ss \<Longrightarrow> passes 0 s \<and> plain s" "w = [] \<or> w = '' ''"
  shows "split_generic_loop CHR ''<'' CHR ''>'' 0 w (join '', '' ss) = ss"
  using assms
proof (induction ss arbitrary: w)
  case (Cons s ss)
  let ?f = "split_generic_loop CHR ''<'' CHR ''>''"
  have s: "passes 0 s" "trim (w @ s) = s" using Cons.prems trim_plain by auto
  show ?case
  proof (cases ss)
    case Nil
    have "?f 0 w (s @ []) = ?f 0 (w @ s) []" using s(1) unfolding passes_def by blast
    with Nil s(2) show ?thesis by simp
  next
    case (Cons t ts)
    have "?f 0 w (s @ '', '' @ join '', '' ss) = ?f 0 (w @ s) ('', '' @ join '', '' ss)"
      using s(1) unfolding passes_def by blast
    also have "\<dots> = s # ?f 0 '' '' (join '', '' ss)" using s(2) by (simp add: Let_def)
    also have "?f 0 '' '' (join '', '' ss) = ss" by (rule Cons.IH) (use Cons Cons.prems in auto)
    finally show ?thesis using Cons by (simp add: join_Cons)
  qed
qed simp

lemma splitGenericParameters_tags:
  "ps \<noteq> [] \<Longrightarrow> (\<And>p. p \<in> set ps \<Longrightarrow> wf_tag p) \<Longrightarrow>
   splitGenericParameters (join '', '' (map tagToString ps)) = map tagToString ps"
  unfolding splitGenericParameters_def by (rule split_join) (auto simp: passes_tag plain_tag)

lemma before_last_snoc: "before_last c (s @ [c]) = Some s"
  by (induction s) auto

lemma takeWhile_all: "list_all P s \<Longrightarrow> takeWhile P s = s"
  by (induction s) auto

lemma match_generics_ok:
  assumes "s \<noteq> []" "list_all (\<lambda>c. \<not> is_newline c) s"
  shows "match_generics (''<'' @ s @ ''>'') = Some s"
proof -
  have "takeWhile (\<lambda>c. \<not> is_newline c) (s @ ''>'') = s @ ''>''"
    by (rule takeWhile_all) (use assms in \<open>simp add: is_newline_def\<close>)
  then show ?thesis using assms(1) by (simp add: match_generics_def before_last_snoc)
qed

lemma match_struct_ok:
  assumes "tag_word a" "tag_word m" "tag_word n" "g = [] \<or> hd g = CHR ''<''"
  shows "match_struct (a @ ''::'' @ m @ ''::'' @ n @ g) = Some (a, m, n, match_generics g)"
proof -
  have no: "\<forall>c\<in>set a. c \<noteq> CHR '':''" "\<forall>c\<in>set m. c \<noteq> CHR '':''" "\<forall>c\<in>set n. c \<noteq> CHR ''<''"
    using assms by (auto simp: tag_word_def tag_char_def list_all_iff)
  have "takeWhile (\<lambda>c. c \<noteq> CHR '':'') (a @ ''::'' @ m @ ''::'' @ n @ g) = a"
    "takeWhile (\<lambda>c. c \<noteq> CHR '':'') (m @ ''::'' @ n @ g) = m"
    using no by (simp_all add: takeWhile_append2)
  moreover have "takeWhile (\<lambda>c. c \<noteq> CHR ''<'') (n @ g) = n"
    using no(3) assms(4) by (cases g) (simp_all add: takeWhile_append2 takeWhile_all list_all_iff)
  ultimately show ?thesis
    using assms(1-3) by (simp add: match_struct_def Let_def tag_word_def numeral_2_eq_2)
qed

lemma startsWith_before: "startsWith (a @ x # r) p \<Longrightarrow> startsWith a p \<or> x \<in> set p"
proof (induction a p rule: startsWith.induct)
  case (2 c cs)
  then show ?case by simp
qed auto

lemma primitive_tag_chars: "primitive_tag s \<noteq> None \<Longrightarrow> CHR '':'' \<notin> set s"
proof -
  let ?keywords = "{''address'', ''bool'', ''u8'', ''u16'', ''u32'', ''u64'', ''u128'', ''u256'', ''signer''}"
  assume "primitive_tag s \<noteq> None"
  then have "s \<in> ?keywords" by (rule contrapos_np) (simp add: primitive_tag_def)
  moreover have "\<forall>k\<in>?keywords. CHR '':'' \<notin> set k" by simp
  ultimately show ?thesis by (rule bspec [rotated])
qed

lemma struct_not_vector:
  assumes "tag_word a"
  shows "\<not> startsWith (a @ ''::'' @ rest) ''vector<''" "primitive_tag (a @ ''::'' @ rest) = None"
proof -
  have lt: "CHR ''<'' \<notin> set a" using assms by (auto simp: tag_word_def tag_char_def list_all_iff)
  have not_in: "CHR '':'' \<notin> set ''vector<''" and is_in: "CHR ''<'' \<in> set ''vector<''" by simp_all
  show "\<not> startsWith (a @ ''::'' @ rest) ''vector<''"
  proof
    assume "startsWith (a @ ''::'' @ rest) ''vector<''"
    then have "startsWith (a @ CHR '':'' # CHR '':'' # rest) ''vector<''" by (simp only: append.simps)
    then have "startsWith a ''vector<''" using startsWith_before not_in by blast
    then have "set ''vector<'' \<subseteq> set a" by (rule startsWith_chars)
    with lt is_in show False by blast
  qed
  have "CHR '':'' \<in> set (a @ ''::'' @ rest)" by simp
  then show "primitive_tag (a @ ''::'' @ rest) = None" using primitive_tag_chars by blast
qed

text \<open>C17: Parsing the text of a tag gives the tag back.\<close>

theorem parseFromStr_tagToString: "wf_tag t \<Longrightarrow> parseFromStr (tagToString t) False = Inr t"
proof (induction t)
  case (TVector t)
  have "plain (tagToString t)" using TVector.prems plain_tag by simp
  then have "match_vector (''vector<'' @ tagToString t @ ''>'') = Some (tagToString t)"
    by (simp add: match_vector_def Let_def plain_def list_all_iff list_ex_iff)
  moreover have "primitive_tag (''vector<'' @ tagToString t @ ''>'') = None"
    by (simp add: primitive_tag_def)
  ultimately show ?case
    using TVector by (subst parseFromStr.simps) simp
next
  case (TStruct a m n ps)
  let ?ss = "map tagToString ps"
  let ?g = "if join '', '' ?ss \<noteq> [] then ''<'' @ join '', '' ?ss @ ''>'' else []"
  have w: "tag_word a" "tag_word m" "tag_word n" using TStruct.prems by auto
  have plain: "\<And>s. s \<in> set ?ss \<Longrightarrow> plain s" using TStruct.prems plain_tag by auto
  then have empty: "join '', '' ?ss = [] \<longleftrightarrow> ps = []" using join_empty_iff [of ?ss] by (auto simp: plain_def)
  have str: "tagToString (TStruct a m n ps) = a @ ''::'' @ m @ ''::'' @ n @ ?g" by (simp add: Let_def)
  have ms: "match_struct (a @ ''::'' @ m @ ''::'' @ n @ ?g) = Some (a, m, n, match_generics ?g)"
    by (rule match_struct_ok [OF w]) simp
  have mv: "match_vector (a @ ''::'' @ m @ ''::'' @ n @ ?g) = None"
    using struct_not_vector(1) [OF w(1), of "m @ ''::'' @ n @ ?g"] by (simp add: match_vector_def)
  have pt: "primitive_tag (a @ ''::'' @ m @ ''::'' @ n @ ?g) = None"
    using struct_not_vector(2) [OF w(1), of "m @ ''::'' @ n @ ?g"] by simp
  have params: "(case match_generics ?g of None \<Rightarrow> Inr []
      | Some p \<Rightarrow> rmapM (\<lambda>tok. parseFromStr tok False) (splitGenericParameters p)) = Inr ps"
  proof (cases "ps = []")
    case False
    have "list_all (\<lambda>c. \<not> is_newline c) (join '', '' ?ss)"
      by (rule no_newline_join) (use plain in \<open>auto simp: plain_def\<close>)
    then have "match_generics ?g = Some (join '', '' ?ss)" using match_generics_ok empty False by simp
    moreover have "splitGenericParameters (join '', '' ?ss) = ?ss"
      by (rule splitGenericParameters_tags) (use False TStruct.prems in auto)
    moreover have "rmapM (\<lambda>tok. parseFromStr tok False) ?ss = Inr ps"
      using TStruct by (induction ps) auto
    ultimately show ?thesis by simp
  qed (simp add: match_generics_def)
  show ?case
    unfolding str by (subst parseFromStr.simps) (simp only: pt mv ms option.case prod.case params if_False rmap_simps)
qed (subst parseFromStr.simps, simp add: primitive_tag_def)+

lemma parseFromStr_tagToString_witness:
  "parseFromStr (tagToString (TStruct ''0x2'' ''coin'' ''Coin'' [TVector TU8, TStruct ''0x2'' ''a'' ''B'' []])) False
   = Inr (TStruct ''0x2'' ''coin'' ''Coin'' [TVector TU8, TStruct ''0x2'' ''a'' ''B'' []])"
  by (rule parseFromStr_tagToString) (simp add: tag_word_def tag_char_def is_space_def)

text \<open>A tag with the addresses normalized.\<close>

fun normalize_tag :: "type_tag \<Rightarrow> type_tag" where
  "normalize_tag (TVector t) = TVector (normalize_tag t)"
| "normalize_tag (TStruct a m n ps) = TStruct (normalizeMySoAddress a False) m n (map normalize_tag ps)"
| "normalize_tag t = t"

lemma rmapM_rmap:
  "(\<And>x. x \<in> set xs \<Longrightarrow> f x = rmap h (g x)) \<Longrightarrow> rmapM f xs = rmap (map h) (rmapM g xs)"
proof (induction xs)
  case (Cons x xs)
  then show ?case by (cases "g x"; cases "rmapM g xs") auto
qed simp

text \<open>Parsing with address normalization is parsing without it and then normalizing every address of
  the tag; in particular it fails on the same texts.\<close>

theorem parseFromStr_normalize: "parseFromStr str True = rmap normalize_tag (parseFromStr str False)"
proof (induction str rule: measure_induct_rule [where f = length])
  case (less str)
  note parseFromStr.simps [of str, simp]
  show ?case
  proof (cases "primitive_tag str")
    case (Some t)
    then have "normalize_tag t = t" by (auto simp: primitive_tag_def split: if_splits)
    with Some show ?thesis by simp
  next
    case None
    note prim = None
    show ?thesis
    proof (cases "match_vector str")
      case (Some inner)
      with less [of inner] match_vector_length [OF Some] prim show ?thesis
        by (cases "parseFromStr inner False") auto
    next
      case None
      note vec = None
      show ?thesis
      proof (cases "match_struct str")
        case (Some s)
        obtain a m n g where s: "s = (a, m, n, g)" by (cases s)
        have "rmapM (\<lambda>tok. parseFromStr tok True) (splitGenericParameters p)
            = rmap (map normalize_tag) (rmapM (\<lambda>tok. parseFromStr tok False) (splitGenericParameters p))"
          if "g = Some p" for p
        proof (rule rmapM_rmap)
          fix tok assume "tok \<in> set (splitGenericParameters p)"
          then have "length tok < length str"
            using splitGenericParameters_length match_struct_length [of str a m n p] Some s that by fastforce
          then show "parseFromStr tok True = rmap normalize_tag (parseFromStr tok False)" by (rule less)
        qed
        then show ?thesis
          using prim vec Some s
          by (cases g; cases "rmapM (\<lambda>tok. parseFromStr tok False) (splitGenericParameters (the g))") auto
      qed (use prim vec in simp)
    qed
  qed
qed

end
