(* ===== verification/Myso_Bcs.thy ===== *)
theory Myso_Bcs
  imports Bcs_Format Myso_Types
begin

text \<open>
  Schemas of \<open>packages/myso/src/bcs/bcs.ts\<close> built from the constructors of \<open>bcs\<close>: \<open>Address\<close>,
  \<open>ObjectDigest\<close> (over the package's base58 functions), \<open>MySoObjectRef\<close>, \<open>SharedObjectRef\<close>,
  \<open>ObjectArg\<close>, and the \<open>Coin\<close> of \<open>packages/wallet-sdk/src/transaction-analyzer/rules/coins.ts\<close>.
\<close>

subsection \<open>Addresses\<close>

text \<open>The input is a string or a byte array, as the TypeScript type of \<open>Address\<close> has it.\<close>

definition address_validate :: "jsval \<Rightarrow> unit res" where
  "address_validate v =
     rbind (case v of JStr s \<Rightarrow> Inr s | JBytes bs \<Rightarrow> Inr (toHex bs) | _ \<Rightarrow> Inl (TypeError ''bytes.reduce is not a function''))
       (\<lambda>address. if address = [] \<or> \<not> isValidMySoAddress (normalizeMySoAddress address False)
                   then Inl (Error (''Invalid MySo address '' @ address)) else Inr ())"

definition address_input :: "jsval \<Rightarrow> jsval res" where
  "address_input v =
     (case v of JStr s \<Rightarrow> rmap JBytes (fromHex (normalizeMySoAddress s False)) | _ \<Rightarrow> Inr v)"

definition address_output :: "jsval \<Rightarrow> jsval res" where
  "address_output v =
     (case v of JBytes bs \<Rightarrow> Inr (JStr (normalizeMySoAddress (toHex bs) False))
      | _ \<Rightarrow> Inl (TypeError ''bytes.reduce is not a function''))"

definition Address :: bcs_type where
  "Address = type_transform (bcs_bytes MYSO_ADDRESS_LENGTH no_opts) None
     (Some address_input) (Some address_output) (Some address_validate)"

subsection \<open>References to objects\<close>

definition ObjectDigest :: "(string \<Rightarrow> byte list res) \<Rightarrow> (byte list \<Rightarrow> string) \<Rightarrow> bcs_type" where
  "ObjectDigest fromBase58 toBase58 =
     (let decode = (\<lambda>v. case v of JStr s \<Rightarrow> fromBase58 s | _ \<Rightarrow> Inl (TypeError ''Expected string''))
      in type_transform (bcs_byteVector no_opts) (Some ''ObjectDigest'')
        (Some (\<lambda>v. rmap JBytes (decode v)))
        (Some (\<lambda>v. rmap (\<lambda>bs. JStr (toBase58 bs)) (new_Uint8Array v)))
        (Some (\<lambda>v. rbind (decode v) (\<lambda>bs.
           if length bs \<noteq> 32 then Inl (Error ''ObjectDigest must be 32 bytes'') else Inr ()))))"

definition MySoObjectRef :: "(string \<Rightarrow> byte list res) \<Rightarrow> (byte list \<Rightarrow> string) \<Rightarrow> bcs_type" where
  "MySoObjectRef fromBase58 toBase58 = BcsStruct ''MySoObjectRef''
     [(''objectId'', Address), (''version'', bcs_u64 no_opts), (''digest'', ObjectDigest fromBase58 toBase58)] no_opts"

definition SharedObjectRef :: bcs_type where
  "SharedObjectRef = BcsStruct ''SharedObjectRef''
     [(''objectId'', Address), (''initialSharedVersion'', bcs_u64 no_opts), (''mutable'', bcs_bool no_opts)] no_opts"

definition ObjectArg :: "(string \<Rightarrow> byte list res) \<Rightarrow> (byte list \<Rightarrow> string) \<Rightarrow> bcs_type" where
  "ObjectArg fromBase58 toBase58 = BcsEnum ''ObjectArg''
     [(''ImmOrOwnedObject'', Some (MySoObjectRef fromBase58 toBase58)),
      (''SharedObject'', Some SharedObjectRef),
      (''Receiving'', Some (MySoObjectRef fromBase58 toBase58))] no_opts"

text \<open>The contents of a coin object.\<close>

definition Coin :: bcs_type where
  "Coin = BcsStruct ''Coin'' [(''id'', Address), (''balance'', bcs_u64 no_opts)] no_opts"

definition coin_balance :: "byte list \<Rightarrow> int res" where
  "coin_balance content =
     rbind (type_parse Coin (uint8array_of content)) (\<lambda>v. rbind (get_prop v ''balance'') to_bigint)"

definition pure_u64 :: "string \<Rightarrow> int res" where
  "pure_u64 b64 = rbind (type_fromBase64 (bcs_u64 no_opts) b64) to_bigint"

definition pure_address :: "string \<Rightarrow> string res" where
  "pure_address b64 = rmap (\<lambda>v. case v of JStr s \<Rightarrow> s | _ \<Rightarrow> []) (type_fromBase64 Address b64)"

subsection \<open>The text and the bytes of an address\<close>

lemma codec_transform_validated:
  assumes "inp v = Inr v'" "codec t v' x bs" "outp x = Inr y" "val v = Inr ()"
  shows "codec (type_transform t name (Some inp) (Some outp) (Some val)) v y bs"
  using assms by (auto simp: codec_def type_transform_def Let_def reads_def)

lemma hex_codes:
  "list_all (\<lambda>n. map_option digit_char (digit_val (char_of (n :: nat))) = Some (lower_char (char_of n)))
      ([48..<58] @ [97..<103] @ [65..<71])"
  by (simp add: upt_rec_numeral digit_val_def Let_def lower_char_def digit_char_def) (simp add: char_of_def bit_Suc_0_iff)

lemma digit_char_val:
  assumes "digit_val c = Some d"
  shows "digit_char d = lower_char c"
proof -
  have "of_char c \<in> set ([48..<58] @ [97..<103] @ [65..<71 :: nat])"
    using assms unfolding set_append set_upt Un_iff atLeastLessThan_iff digit_val_def Let_def by (auto split: if_splits)
  from bspec [OF hex_codes [unfolded list_all_iff] this] assms show ?thesis by simp
qed

lemma hex_of_hex_matches: "list_all is_hex_char s \<Longrightarrow> even (length s) \<Longrightarrow> hex_of (hex_matches s) = toLowerCase s"
proof (induction s rule: hex_matches.induct)
  case (1 c d cs)
  then obtain h l where hl: "digit_val c = Some h" "digit_val d = Some l" by (auto simp: is_hex_char_def)
  then have "h < 16" "l < 16" by (simp_all add: digit_val_bound)
  then have "unat (word_of_nat (16 * h + l) :: byte) = 16 * h + l" by (simp add: unat_of_nat del: of_nat_add of_nat_mult)
  then have "hex_of (hex_matches (c # d # cs)) = digit_char h # digit_char l # hex_of (hex_matches cs)"
    using hl \<open>l < 16\<close> by (simp del: of_nat_add of_nat_mult)
  with 1 hl show ?case by (simp add: toLowerCase_def digit_char_val)
qed (auto simp: toLowerCase_def)

lemma fromHex_normalized:
  assumes "isValidMySoAddress (normalizeMySoAddress s False)"
  obtains bs where "fromHex (normalizeMySoAddress s False) = Inr bs" "length bs = 32"
    "toHex bs = drop 2 (normalizeMySoAddress s False)"
proof -
  let ?n = "normalizeMySoAddress s False"
  obtain t where n: "?n = ''0x'' @ t" by (auto simp: normalize_body)
  have hex: "list_all is_hex_char t" "length t = 64"
    using assms by (auto simp: isValidMySoAddress_def isHex_def getHexByteLength_def n has_0x_def MYSO_ADDRESS_LENGTH_def Let_def split: if_splits)
  then have len: "2 * length (hex_matches t) = length t" using hex_matches_full [of t] by simp
  have "fromHex ?n = Inr (hex_matches t)" using hex len by (simp add: n fromHex_def Let_def)
  moreover have "toHex (hex_matches t) = t"
  proof -
    have "toLowerCase ?n = ?n" by (rule toLowerCase_normalize)
    then have "toLowerCase t = t" by (simp add: n toLowerCase_def)
    then show ?thesis using hex_of_hex_matches [OF hex(1)] hex(2) by (simp add: toHex_hex_of)
  qed
  ultimately show ?thesis using that [of "hex_matches t"] len hex(2) n by simp
qed

lemma normalize_drop: "normalizeMySoAddress (drop 2 (normalizeMySoAddress s False)) False = normalizeMySoAddress s False"
  if "length (normalizeMySoAddress s False) = 66" "\<not> startsWith (drop 2 (normalizeMySoAddress s False)) ''0x''"
proof -
  let ?n = "normalizeMySoAddress s False"
  obtain t where n: "?n = ''0x'' @ t" by (auto simp: normalize_body)
  have "toLowerCase ?n = ?n" by (rule toLowerCase_normalize)
  then have "toLowerCase t = t" by (simp add: n toLowerCase_def)
  then show ?thesis using that n by (simp add: normalize_body [of t] padStart_def)
qed

lemma codec_Address:
  assumes "s \<noteq> []" "isValidMySoAddress (normalizeMySoAddress s False)"
    and "fromHex (normalizeMySoAddress s False) = Inr bs"
  shows "codec Address (JStr s) (JStr (normalizeMySoAddress s False)) bs"
  unfolding Address_def
proof (rule codec_transform_validated)
  from fromHex_normalized [OF assms(2)] assms(3)
  have bs: "length bs = 32" "toHex bs = drop 2 (normalizeMySoAddress s False)" by auto
  show "address_input (JStr s) = Inr (JBytes bs)" using assms(3) by (simp add: address_input_def)
  show "codec (bcs_bytes MYSO_ADDRESS_LENGTH no_opts) (JBytes bs) (JBytes bs) bs"
    by (rule codec_bytes) (simp_all add: bs MYSO_ADDRESS_LENGTH_def)
  have "length (drop 2 (normalizeMySoAddress s False)) = 64"
    by (simp only: bs(2) [symmetric] toHex_hex_of length_hex_of bs(1) mult_numeral_left_semiring_numeral num_double arith_simps)
  then have "normalizeMySoAddress (toHex bs) False = normalizeMySoAddress s False"
    unfolding bs(2) using hex_of_no_prefix [of bs] bs(2) by (intro normalize_drop) (simp_all add: toHex_hex_of)
  then show "address_output (JBytes bs) = Inr (JStr (normalizeMySoAddress s False))" by (simp add: address_output_def)
  show "address_validate (JStr s) = Inr ()" using assms by (simp add: address_validate_def)
qed

text \<open>The canonical text of 32 bytes.\<close>

lemma hex_of_digit:
  assumes "c \<in> set (hex_of bs)"
  shows "lower_char c = c \<and> is_hex_char c"
proof -
  obtain d where d: "d < 16" "c = digit_char d" using hex_of_chars [OF assms] by blast
  then have v: "digit_val c = Some d" by simp
  have "lower_char c = c" using digit_char_val [OF v] d(2) by simp
  with v show ?thesis by (simp add: is_hex_char_def)
qed

lemma hex_of_lower: "map lower_char (hex_of bs) = hex_of bs"
  using hex_of_digit by (intro map_idI) blast

lemma hex_of_is_hex: "list_all is_hex_char (hex_of bs)"
  using hex_of_digit by (auto simp: list_all_iff)

lemma normalize_0x_toHex:
  assumes "length bs = 32"
  shows "normalizeMySoAddress (''0x'' @ toHex bs) False = ''0x'' @ toHex bs"
  using assms by (simp add: normalize_body toLowerCase_def toHex_hex_of hex_of_lower padStart_def lower_char_0 lower_char_x)

lemma valid_0x_toHex:
  assumes "length bs = 32"
  shows "isValidMySoAddress (''0x'' @ toHex bs)"
proof -
  have "hex_of bs \<noteq> []" using length_hex_of [of bs] assms by (cases "hex_of bs") auto
  then show ?thesis
    using assms by (simp add: isValidMySoAddress_def isHex_def getHexByteLength_def has_0x_def MYSO_ADDRESS_LENGTH_def
      Let_def toHex_hex_of hex_of_is_hex)
qed

lemma codec_Address_canonical:
  assumes "length bs = 32"
  shows "codec Address (JStr (''0x'' @ toHex bs)) (JStr (''0x'' @ toHex bs)) bs"
  using codec_Address [of "''0x'' @ toHex bs" bs]
  by (simp add: normalize_0x_toHex [OF assms, simplified] valid_0x_toHex [OF assms, simplified] fromHex_0x_toHex [simplified])

lemma coin_balance_content:
  assumes "length objId = 32" "n < 2 ^ 64"
  shows "coin_balance (objId @ le_bytes 8 n @ rest) = Inr (int n)"
proof -
  let ?a = "JStr (''0x'' @ toHex objId)"
  let ?fs = "[(''id'', Address, ?a, ?a, objId),
              (''balance'', bcs_u64 no_opts, JBigInt (int n), JStr (show_base 10 n), le_bytes 8 n)]"
  let ?v = "JObj [(''id'', ?a), (''balance'', JBigInt (int n))]"
  have "codec (BcsStruct ''Coin'' (map f_type ?fs) no_opts) ?v
      (JObj (map (\<lambda>f. (fst f, i_out (f_item f))) ?fs)) (concat (map (\<lambda>f. i_bytes (f_item f)) ?fs))"
  proof (rule codec_struct [OF _ _ _ refl])
    show "codec_field f" if "f \<in> set ?fs" for f
      using that codec_Address_canonical [OF assms(1)] codec_u64 [of "JBigInt (int n)" n] assms(2)
      by (auto simp: codec_field_def codec_item_def)
    show "has_fields ?v ?fs" by (simp add: has_fields_def get_prop_def)
  qed simp
  then have "codec Coin ?v (JObj [(''id'', ?a), (''balance'', JStr (show_base 10 n))]) (objId @ le_bytes 8 n)"
    by (simp add: Coin_def f_type_def)
  from codec_parse [OF this, of rest] show ?thesis by (simp add: coin_balance_def get_prop_def)
qed

lemma pure_u64_bytes: "n < 2 ^ 64 \<Longrightarrow> pure_u64 (toBase64 (le_bytes 8 n)) = Inr (int n)"
  using codec_parse [OF codec_u64 [of "JBigInt (int n)" n], of "[]"]
  by (simp add: pure_u64_def type_fromBase64_def fromBase64_toBase64)

lemma pure_address_bytes: "length bs = 32 \<Longrightarrow> pure_address (toBase64 bs) = Inr (''0x'' @ toHex bs)"
  using codec_parse [OF codec_Address_canonical, of bs "[]"]
  by (simp add: pure_address_def type_fromBase64_def fromBase64_toBase64)

text \<open>C40: An address that is valid after normalization is serialized as 32 bytes, which parse back to the
  normalized address, whatever bytes follow, from their base64 text too.\<close>

theorem address_roundtrip:
  assumes "s \<noteq> []" "isValidMySoAddress (normalizeMySoAddress s False)"
  shows "\<exists>bs. length bs = 32 \<and> type_serialize Address (JStr s) no_options = Inr bs \<and>
    type_parse Address (uint8array_of (bs @ rest)) = Inr (JStr (normalizeMySoAddress s False)) \<and>
    pure_address (toBase64 bs) = Inr (normalizeMySoAddress s False)"
proof -
  obtain bs where bs: "fromHex (normalizeMySoAddress s False) = Inr bs" "length bs = 32"
    using fromHex_normalized [OF assms(2)] by blast
  note codec = codec_Address [OF assms bs(1)]
  have "type_serialize Address (JStr s) no_options = Inr bs"
    using codec_type_serialize [OF codec, of no_options] by (simp add: no_options_def)
  moreover have "pure_address (toBase64 bs) = Inr (normalizeMySoAddress s False)"
    using codec_parse [OF codec, of "[]"] by (simp add: pure_address_def type_fromBase64_def fromBase64_toBase64)
  ultimately show ?thesis using bs(2) codec_parse [OF codec, of rest] by blast
qed

lemma address_roundtrip_witness:
  "\<exists>bs. length bs = 32 \<and> type_serialize Address (JStr (''0x'' @ toHex (replicate 32 5))) no_options = Inr bs \<and>
    type_parse Address (uint8array_of (bs @ [])) = Inr (JStr (normalizeMySoAddress (''0x'' @ toHex (replicate 32 5)) False)) \<and>
    pure_address (toBase64 bs) = Inr (normalizeMySoAddress (''0x'' @ toHex (replicate 32 5)) False)"
  by (rule address_roundtrip) (simp_all only: normalize_0x_toHex valid_0x_toHex length_replicate append_is_Nil_conv list.distinct simp_thms)

end
