(* ===== verification/Transaction_Schemas.thy ===== *)
theory Transaction_Schemas
  imports Myso_Bcs Type_Tag
begin

text \<open>
  The schemas of \<open>packages/myso/src/bcs/bcs.ts\<close> for transactions, signatures and objects, each built
  from the constructors of \<open>bcs\<close> as the code builds it.

  A \<open>platform\<close> holds the functions the schemas take from outside: base58 (a package) and the
  platform's \<open>TextEncoder\<close> and \<open>TextDecoder\<close>. The mutual recursion of \<open>InnerTypeTag\<close> and \<open>StructTag\<close>
  through \<open>bcs.lazy\<close> runs on the JavaScript stack; its depth is the argument \<open>n\<close>, and a type at depth 0
  throws the error of an exhausted stack.
\<close>

record platform =
  p_fromBase58 :: "string \<Rightarrow> byte list res"
  p_toBase58 :: "byte list \<Rightarrow> string"
  p_encode :: "string \<Rightarrow> byte list"
  p_decode :: "byte list \<Rightarrow> string"

definition bcs_string :: "platform \<Rightarrow> bcs_type" where
  "bcs_string p = stringLikeBcsType (p_encode p) (p_decode p) ''string'' no_opts"

abbreviation Digest :: "platform \<Rightarrow> bcs_type" where
  "Digest p \<equiv> ObjectDigest (p_fromBase58 p) (p_toBase58 p)"

abbreviation ObjectRef :: "platform \<Rightarrow> bcs_type" where
  "ObjectRef p \<equiv> MySoObjectRef (p_fromBase58 p) (p_toBase58 p)"

subsection \<open>Numbers above the safe integers\<close>

text \<open>
  \<open>Number(s)\<close> of the decimal text of a natural number: the nearest double, ties to the even mantissa of
  53 bits.
\<close>

fun excess_bits :: "nat \<Rightarrow> nat" where
  "excess_bits a = (if a < 2 ^ 53 then 0 else Suc (excess_bits (a div 2)))"

declare excess_bits.simps [simp del]

definition nearest_double :: "nat \<Rightarrow> nat" where
  "nearest_double a =
     (let u = 2 ^ excess_bits a; q = a div u; r = a mod u
      in if 2 * r < u \<or> (2 * r = u \<and> even q) then q * u else (q + 1) * u)"

lemma nearest_double_small: "a < 2 ^ 53 \<Longrightarrow> nearest_double a = a"
  by (simp add: nearest_double_def excess_bits.simps)

text \<open>The argument is what \<open>read64\<close> returns, the decimal text of a natural number.\<close>

definition unsafe_u64_output :: "jsval \<Rightarrow> jsval res" where
  "unsafe_u64_output v = rmap (\<lambda>n. JNum (int (nearest_double (nat n)))) (to_bigint v)"

definition unsafe_u64 :: "type_options \<Rightarrow> bcs_type" where
  "unsafe_u64 opts =
     type_transform (bcs_u64 (opts\<lparr>opt_name := Some (name_or opts ''unsafe_u64'')\<rparr>)) None
       (Some Inr) (Some unsafe_u64_output) None"

definition optionEnum :: "bcs_type \<Rightarrow> bcs_type" where
  "optionEnum type = BcsEnum ''Option'' [(''None'', None), (''Some'', Some type)] no_opts"

subsection \<open>Objects and withdrawals\<close>

definition Owner :: bcs_type where
  "Owner = BcsEnum ''Owner''
     [(''AddressOwner'', Some Address),
      (''ObjectOwner'', Some Address),
      (''Shared'', Some (BcsStruct ''Shared'' [(''initialSharedVersion'', bcs_u64 no_opts)] no_opts)),
      (''Immutable'', None),
      (''ConsensusAddressOwner'', Some (BcsStruct ''ConsensusAddressOwner''
         [(''startVersion'', bcs_u64 no_opts), (''owner'', Address)] no_opts))] no_opts"

definition Reservation :: bcs_type where
  "Reservation = BcsEnum ''Reservation'' [(''MaxAmountU64'', Some (bcs_u64 no_opts))] no_opts"

definition WithdrawFrom :: bcs_type where
  "WithdrawFrom = BcsEnum ''WithdrawFrom'' [(''Sender'', None), (''Sponsor'', None)] no_opts"

text \<open>Base64 text or bytes in, base64 text out: the transform of \<open>Pure\<close>, of modules and of \<open>base64String\<close>.\<close>

definition base64_input :: "jsval \<Rightarrow> jsval res" where
  "base64_input v = (case v of JStr s \<Rightarrow> rmap JBytes (fromBase64 s) | _ \<Rightarrow> Inr v)"

definition base64_output :: "jsval \<Rightarrow> jsval res" where
  "base64_output v = rmap (\<lambda>bs. JStr (toBase64 bs)) (new_Uint8Array v)"

definition base64String :: bcs_type where
  "base64String = type_transform (bcs_byteVector no_opts) None (Some base64_input) (Some base64_output) None"

subsection \<open>Type tags\<close>

definition out_of_stack :: js_error where
  "out_of_stack = RangeError ''Maximum call stack size exceeded''"

definition no_stack :: bcs_type where
  "no_stack =
     \<lparr>t_name = ''lazy'', t_read = (\<lambda>_. Inl out_of_stack), t_size = (\<lambda>_. Inl out_of_stack),
      t_write = (\<lambda>_ _. Inl out_of_stack), t_serialize = (\<lambda>_ _. Inl out_of_stack), t_validate = (\<lambda>_. Inl out_of_stack)\<rparr>"

definition StructTag_of :: "platform \<Rightarrow> bcs_type \<Rightarrow> bcs_type" where
  "StructTag_of p innerTypeTag = BcsStruct ''StructTag''
     [(''address'', Address), (''module'', bcs_string p), (''name'', bcs_string p),
      (''typeParams'', vector innerTypeTag no_opts)] no_opts"

primrec InnerTypeTag :: "platform \<Rightarrow> nat \<Rightarrow> bcs_type" where
  "InnerTypeTag p 0 = no_stack"
| "InnerTypeTag p (Suc n) = BcsEnum ''TypeTag''
     [(''bool'', None), (''u8'', None), (''u64'', None), (''u128'', None), (''address'', None), (''signer'', None),
      (''vector'', Some (lazyBcsType (InnerTypeTag p n))),
      (''struct'', Some (lazyBcsType (StructTag_of p (InnerTypeTag p n)))),
      (''u16'', None), (''u32'', None), (''u256'', None)] no_opts"

definition StructTag :: "platform \<Rightarrow> nat \<Rightarrow> bcs_type" where
  "StructTag p n = StructTag_of p (InnerTypeTag p n)"

text \<open>The objects the parser builds.\<close>

fun js_tag :: "type_tag \<Rightarrow> jsval" where
  "js_tag TAddress = JObj [(''address'', JNull)]"
| "js_tag TBool = JObj [(''bool'', JNull)]"
| "js_tag TU8 = JObj [(''u8'', JNull)]"
| "js_tag TU16 = JObj [(''u16'', JNull)]"
| "js_tag TU32 = JObj [(''u32'', JNull)]"
| "js_tag TU64 = JObj [(''u64'', JNull)]"
| "js_tag TU128 = JObj [(''u128'', JNull)]"
| "js_tag TU256 = JObj [(''u256'', JNull)]"
| "js_tag TSigner = JObj [(''signer'', JNull)]"
| "js_tag (TVector t) = JObj [(''vector'', js_tag t)]"
| "js_tag (TStruct address module name params) =
     JObj [(''struct'', JObj [(''address'', JStr address), (''module'', JStr module), (''name'', JStr name),
       (''typeParams'', JArr (map js_tag params))])]"

text \<open>
  \<open>tagToString\<close> on an object: which tag it is by the tests of the code in their order. The texts of a
  struct are the strings \<open>StructTag\<close> reads.
\<close>

definition js_in :: "string \<Rightarrow> jsval \<Rightarrow> bool" where
  "js_in name v \<longleftrightarrow> name \<in> set (map fst (entries v))"

definition js_prop :: "jsval \<Rightarrow> string \<Rightarrow> jsval" where
  "js_prop v name = (case map_of (entries v) name of None \<Rightarrow> JUndefined | Some x \<Rightarrow> x)"

definition js_text :: "jsval \<Rightarrow> string res" where
  "js_text v = (case v of JStr s \<Rightarrow> Inr s | _ \<Rightarrow> Inl (TypeError ''not a string''))"

definition js_elements :: "jsval \<Rightarrow> jsval list" where
  "js_elements v = (case v of JArr xs \<Rightarrow> xs | _ \<Rightarrow> [])"

lemma map_of_size: "map_of ps name = Some x \<Longrightarrow> size x < size (JObj ps)"
proof (induction ps)
  case (Cons q ps)
  then show ?case by (cases q) (auto split: if_splits)
qed simp

lemma size_js_prop: "js_in name v \<Longrightarrow> size (js_prop v name) < size v"
proof (cases v)
  case (JObj ps)
  assume "js_in name v"
  then obtain x where x: "map_of ps name = Some x"
    using JObj by (cases "map_of ps name") (auto simp: js_in_def map_of_eq_None_iff)
  then show ?thesis using map_of_size [OF x] JObj by (simp add: js_prop_def)
qed (simp_all add: js_in_def)

lemma size_js_elements: "x \<in> set (js_elements v) \<Longrightarrow> size x < size v"
  using size_list_estimation [of x _ _ size] by (cases v) (auto simp: js_elements_def less_Suc_eq_le size_list_estimation')

function tag_of_js :: "jsval \<Rightarrow> type_tag res" where
  "tag_of_js v =
     (if js_in ''bool'' v then Inr TBool
      else if js_in ''u8'' v then Inr TU8
      else if js_in ''u16'' v then Inr TU16
      else if js_in ''u32'' v then Inr TU32
      else if js_in ''u64'' v then Inr TU64
      else if js_in ''u128'' v then Inr TU128
      else if js_in ''u256'' v then Inr TU256
      else if js_in ''address'' v then Inr TAddress
      else if js_in ''signer'' v then Inr TSigner
      else if js_in ''vector'' v then rmap TVector (tag_of_js (js_prop v ''vector''))
      else if js_in ''struct'' v then
        (let struct = js_prop v ''struct'' in
         rbind (rmapM tag_of_js (js_elements (js_prop struct ''typeParams''))) (\<lambda>params.
         rbind (js_text (js_prop struct ''address'')) (\<lambda>address.
         rbind (js_text (js_prop struct ''module'')) (\<lambda>module.
         rmap (\<lambda>name. TStruct address module name params) (js_text (js_prop struct ''name''))))))
      else Inl (Error ''Invalid TypeTag''))"
  by pat_completeness auto
termination
proof (relation "measure size", goal_cases)
  case 1
  then show ?case by simp
next
  case (2 v)
  then show ?case using size_js_prop by simp
next
  case (3 v struct x)
  have "size struct < size v" using 3 size_js_prop by simp
  moreover have "size x < size (js_prop struct ''typeParams'')" using 3 size_js_elements by simp
  moreover have "size (js_prop struct ''typeParams'') \<le> size struct"
    using size_js_prop [of "''typeParams''" struct] 3(13)
    by (cases "js_in ''typeParams'' struct")
      (auto simp: js_elements_def js_prop_def js_in_def map_of_eq_None_iff [THEN iffD2])
  ultimately show ?case by simp
qed

declare tag_of_js.simps [simp del]

definition tag_input :: "jsval \<Rightarrow> jsval res" where
  "tag_input v = (case v of JStr s \<Rightarrow> rmap js_tag (parseFromStr s True) | _ \<Rightarrow> Inr v)"

definition tag_output :: "jsval \<Rightarrow> jsval res" where
  "tag_output v = rmap (\<lambda>t. JStr (tagToString t)) (tag_of_js v)"

definition TypeTag :: "platform \<Rightarrow> nat \<Rightarrow> bcs_type" where
  "TypeTag p n = type_transform (InnerTypeTag p n) None (Some tag_input) (Some tag_output) None"

definition WithdrawalType :: "platform \<Rightarrow> nat \<Rightarrow> bcs_type" where
  "WithdrawalType p n = BcsEnum ''WithdrawalType'' [(''Balance'', Some (lazyBcsType (TypeTag p n)))] no_opts"

definition FundsWithdrawal_bcs :: "platform \<Rightarrow> nat \<Rightarrow> bcs_type" where
  "FundsWithdrawal_bcs p n = BcsStruct ''FundsWithdrawal''
     [(''reservation'', Reservation), (''typeArg'', WithdrawalType p n), (''withdrawFrom'', WithdrawFrom)] no_opts"

subsection \<open>Programmable transactions\<close>

definition CallArg :: "platform \<Rightarrow> nat \<Rightarrow> bcs_type" where
  "CallArg p n = BcsEnum ''CallArg''
     [(''Pure'', Some (BcsStruct ''Pure'' [(''bytes'', base64String)] no_opts)),
      (''Object'', Some (ObjectArg (p_fromBase58 p) (p_toBase58 p))),
      (''FundsWithdrawal'', Some (FundsWithdrawal_bcs p n))] no_opts"

definition Argument :: bcs_type where
  "Argument = BcsEnum ''Argument''
     [(''GasCoin'', None), (''Input'', Some (bcs_u16 no_opts)), (''Result'', Some (bcs_u16 no_opts)),
      (''NestedResult'', Some (BcsTuple [bcs_u16 no_opts, bcs_u16 no_opts] no_opts))] no_opts"

definition ProgrammableMoveCall :: "platform \<Rightarrow> nat \<Rightarrow> bcs_type" where
  "ProgrammableMoveCall p n = BcsStruct ''ProgrammableMoveCall''
     [(''package'', Address), (''module'', bcs_string p), (''function'', bcs_string p),
      (''typeArguments'', vector (TypeTag p n) no_opts), (''arguments'', vector Argument no_opts)] no_opts"

text \<open>The type of \<open>MakeMoveVec\<close>: \<open>null\<close> or the text of a type.\<close>

definition move_vec_input :: "jsval \<Rightarrow> jsval res" where
  "move_vec_input v = Inr (if v = JNull then JObj [(''None'', JBool True)] else JObj [(''Some'', v)])"

definition move_vec_output :: "jsval \<Rightarrow> jsval res" where
  "move_vec_output v = rmap (\<lambda>x. if is_nullish x then JNull else x) (get_prop v ''Some'')"

definition move_vec_type :: "platform \<Rightarrow> nat \<Rightarrow> bcs_type" where
  "move_vec_type p n =
     type_transform (optionEnum (TypeTag p n)) None (Some move_vec_input) (Some move_vec_output) None"

definition Command :: "platform \<Rightarrow> nat \<Rightarrow> bcs_type" where
  "Command p n = BcsEnum ''Command''
     [(''MoveCall'', Some (ProgrammableMoveCall p n)),
      (''TransferObjects'', Some (BcsStruct ''TransferObjects''
         [(''objects'', vector Argument no_opts), (''address'', Argument)] no_opts)),
      (''SplitCoins'', Some (BcsStruct ''SplitCoins''
         [(''coin'', Argument), (''amounts'', vector Argument no_opts)] no_opts)),
      (''MergeCoins'', Some (BcsStruct ''MergeCoins''
         [(''destination'', Argument), (''sources'', vector Argument no_opts)] no_opts)),
      (''Publish'', Some (BcsStruct ''Publish''
         [(''modules'', vector base64String no_opts), (''dependencies'', vector Address no_opts)] no_opts)),
      (''MakeMoveVec'', Some (BcsStruct ''MakeMoveVec''
         [(''type'', move_vec_type p n), (''elements'', vector Argument no_opts)] no_opts)),
      (''Upgrade'', Some (BcsStruct ''Upgrade''
         [(''modules'', vector base64String no_opts), (''dependencies'', vector Address no_opts),
          (''package'', Address), (''ticket'', Argument)] no_opts))] no_opts"

definition ProgrammableTransaction :: "platform \<Rightarrow> nat \<Rightarrow> bcs_type" where
  "ProgrammableTransaction p n = BcsStruct ''ProgrammableTransaction''
     [(''inputs'', vector (CallArg p n) no_opts), (''commands'', vector (Command p n) no_opts)] no_opts"

definition TransactionKind :: "platform \<Rightarrow> nat \<Rightarrow> bcs_type" where
  "TransactionKind p n = BcsEnum ''TransactionKind''
     [(''ProgrammableTransaction'', Some (ProgrammableTransaction p n)), (''ChangeEpoch'', None), (''Genesis'', None),
      (''ConsensusCommitPrologue'', None)] no_opts"

subsection \<open>Transaction data\<close>

definition ValidDuring_bcs :: "platform \<Rightarrow> bcs_type" where
  "ValidDuring_bcs p = BcsStruct ''ValidDuring''
     [(''minEpoch'', bcs_option (bcs_u64 no_opts)), (''maxEpoch'', bcs_option (bcs_u64 no_opts)),
      (''minTimestamp'', bcs_option (bcs_u64 no_opts)), (''maxTimestamp'', bcs_option (bcs_u64 no_opts)),
      (''chain'', Digest p), (''nonce'', bcs_u32 no_opts)] no_opts"

definition TransactionExpiration :: "platform \<Rightarrow> bcs_type" where
  "TransactionExpiration p = BcsEnum ''TransactionExpiration''
     [(''None'', None), (''Epoch'', Some (unsafe_u64 no_opts)), (''ValidDuring'', Some (ValidDuring_bcs p))] no_opts"

definition GasData :: "platform \<Rightarrow> bcs_type" where
  "GasData p = BcsStruct ''GasData''
     [(''payment'', vector (ObjectRef p) no_opts), (''owner'', Address), (''price'', bcs_u64 no_opts),
      (''budget'', bcs_u64 no_opts)] no_opts"

definition TransactionDataV1 :: "platform \<Rightarrow> nat \<Rightarrow> bcs_type" where
  "TransactionDataV1 p n = BcsStruct ''TransactionDataV1''
     [(''kind'', TransactionKind p n), (''sender'', Address), (''gasData'', GasData p),
      (''expiration'', TransactionExpiration p)] no_opts"

definition TransactionData :: "platform \<Rightarrow> nat \<Rightarrow> bcs_type" where
  "TransactionData p n = BcsEnum ''TransactionData'' [(''V1'', Some (TransactionDataV1 p n))] no_opts"

subsection \<open>Intents and signatures\<close>

definition IntentScope :: bcs_type where
  "IntentScope = BcsEnum ''IntentScope''
     [(''TransactionData'', None), (''TransactionEffects'', None), (''CheckpointSummary'', None),
      (''PersonalMessage'', None)] no_opts"

definition IntentVersion :: bcs_type where
  "IntentVersion = BcsEnum ''IntentVersion'' [(''V0'', None)] no_opts"

definition AppId :: bcs_type where
  "AppId = BcsEnum ''AppId'' [(''MySo'', None)] no_opts"

definition Intent_bcs :: bcs_type where
  "Intent_bcs = BcsStruct ''Intent''
     [(''scope'', IntentScope), (''version'', IntentVersion), (''appId'', AppId)] no_opts"

definition IntentMessage :: "bcs_type \<Rightarrow> bcs_type" where
  "IntentMessage t = BcsStruct (''IntentMessage<'' @ t_name t @ ''>'') [(''intent'', Intent_bcs), (''value'', t)] no_opts"

definition CompressedSignature :: bcs_type where
  "CompressedSignature = BcsEnum ''CompressedSignature''
     [(''ED25519'', Some (bcs_bytes 64 no_opts)), (''Secp256k1'', Some (bcs_bytes 64 no_opts)),
      (''Secp256r1'', Some (bcs_bytes 64 no_opts)), (''ZkLogin'', Some (bcs_byteVector no_opts)),
      (''Passkey'', Some (bcs_byteVector no_opts))] no_opts"

definition PublicKey :: bcs_type where
  "PublicKey = BcsEnum ''PublicKey''
     [(''ED25519'', Some (bcs_bytes 32 no_opts)), (''Secp256k1'', Some (bcs_bytes 33 no_opts)),
      (''Secp256r1'', Some (bcs_bytes 33 no_opts)), (''ZkLogin'', Some (bcs_byteVector no_opts)),
      (''Passkey'', Some (bcs_bytes 33 no_opts))] no_opts"

definition MultiSigPkMap :: bcs_type where
  "MultiSigPkMap = BcsStruct ''MultiSigPkMap'' [(''pubKey'', PublicKey), (''weight'', bcs_u8 no_opts)] no_opts"

definition MultiSigPublicKey :: bcs_type where
  "MultiSigPublicKey = BcsStruct ''MultiSigPublicKey''
     [(''pk_map'', vector MultiSigPkMap no_opts), (''threshold'', bcs_u16 no_opts)] no_opts"

definition MultiSig :: bcs_type where
  "MultiSig = BcsStruct ''MultiSig''
     [(''sigs'', vector CompressedSignature no_opts), (''bitmap'', bcs_u16 no_opts),
      (''multisig_pk'', MultiSigPublicKey)] no_opts"

definition SenderSignedTransaction :: "platform \<Rightarrow> nat \<Rightarrow> bcs_type" where
  "SenderSignedTransaction p n = BcsStruct ''SenderSignedTransaction''
     [(''intentMessage'', IntentMessage (TransactionData p n)), (''txSignatures'', vector base64String no_opts)] no_opts"

definition SenderSignedData :: "platform \<Rightarrow> nat \<Rightarrow> bcs_type" where
  "SenderSignedData p n =
     vector (SenderSignedTransaction p n) (no_opts\<lparr>opt_name := Some ''SenderSignedData''\<rparr>)"

definition PasskeyAuthenticator :: "platform \<Rightarrow> bcs_type" where
  "PasskeyAuthenticator p = BcsStruct ''PasskeyAuthenticator''
     [(''authenticatorData'', bcs_byteVector no_opts), (''clientDataJson'', bcs_string p),
      (''userSignature'', bcs_byteVector no_opts)] no_opts"

subsection \<open>Objects\<close>

definition MoveObjectType :: "platform \<Rightarrow> nat \<Rightarrow> bcs_type" where
  "MoveObjectType p n = BcsEnum ''MoveObjectType''
     [(''Other'', Some (StructTag p n)), (''GasCoin'', None), (''StakedMySo'', None), (''Coin'', Some (TypeTag p n)),
      (''AccumulatorBalanceWrapper'', None)] no_opts"

definition TypeOrigin :: "platform \<Rightarrow> bcs_type" where
  "TypeOrigin p = BcsStruct ''TypeOrigin''
     [(''moduleName'', bcs_string p), (''datatypeName'', bcs_string p), (''package'', Address)] no_opts"

definition UpgradeInfo :: bcs_type where
  "UpgradeInfo = BcsStruct ''UpgradeInfo'' [(''upgradedId'', Address), (''upgradedVersion'', bcs_u64 no_opts)] no_opts"

definition MovePackage :: "platform \<Rightarrow> bcs_type" where
  "MovePackage p = BcsStruct ''MovePackage''
     [(''id'', Address), (''version'', bcs_u64 no_opts),
      (''moduleMap'', bcs_map (bcs_string p) (bcs_byteVector no_opts)),
      (''typeOriginTable'', vector (TypeOrigin p) no_opts),
      (''linkageTable'', bcs_map Address UpgradeInfo)] no_opts"

definition MoveObject :: "platform \<Rightarrow> nat \<Rightarrow> bcs_type" where
  "MoveObject p n = BcsStruct ''MoveObject''
     [(''type'', MoveObjectType p n), (''hasPublicTransfer'', bcs_bool no_opts), (''version'', bcs_u64 no_opts),
      (''contents'', bcs_byteVector no_opts)] no_opts"

definition Data :: "platform \<Rightarrow> nat \<Rightarrow> bcs_type" where
  "Data p n = BcsEnum ''Data'' [(''Move'', Some (MoveObject p n)), (''Package'', Some (MovePackage p))] no_opts"

definition ObjectInner :: "platform \<Rightarrow> nat \<Rightarrow> bcs_type" where
  "ObjectInner p n = BcsStruct ''ObjectInner''
     [(''data'', Data p n), (''owner'', Owner), (''previousTransaction'', Digest p), (''storageRebate'', bcs_u64 no_opts)]
     no_opts"

end
