(* ===== verification/Bcs_Carries.thy ===== *)
theory Bcs_Carries
  imports Transaction_Schemas
begin

text \<open>
  \<open>carries t v x\<close>: the type \<open>t\<close> writes the value \<open>v\<close>, and reads what it has written as \<open>x\<close>. A calculus over the
  constructors of \<open>bcs\<close> for values whose bytes do not matter.
\<close>

subsection \<open>Values carried by a type\<close>

definition carries :: "bcs_type \<Rightarrow> jsval \<Rightarrow> jsval \<Rightarrow> bool" where
  "carries t v x \<longleftrightarrow> (\<exists>bs. codec t v x bs)"

named_theorems carries_intros

lemma codec_carries: "codec t v x bs \<Longrightarrow> carries t v x"
  by (auto simp: carries_def)

lemma carries_items:
  "list_all2 (carries t) vs xs \<Longrightarrow>
   \<exists>ps. map i_in ps = vs \<and> map i_out ps = xs \<and> (\<forall>p\<in>set ps. codec_item t p)"
proof (induction rule: list_all2_induct)
  case (Cons v vs x xs)
  then obtain ps bs where "map i_in ps = vs \<and> map i_out ps = xs \<and> (\<forall>p\<in>set ps. codec_item t p)"
    "codec t v x bs" by (auto simp: carries_def)
  then show ?case by (intro exI [of _ "(v, x, bs) # ps"]) (simp add: codec_item_def)
qed simp

lemma carries_vector [carries_intros]:
  assumes "list_all2 (carries t) vs xs" "length vs < 2 ^ 32"
  shows "carries (vector t no_opts) (JArr vs) (JArr xs)"
proof -
  obtain ps where "map i_in ps = vs" "map i_out ps = xs" "\<forall>p\<in>set ps. codec_item t p"
    using carries_items [OF assms(1)] by blast
  with assms(2) codec_vector [of ps t] show ?thesis by (fastforce simp: carries_def)
qed

lemma carries_map [carries_intros]:
  assumes "\<And>a. a \<in> set as \<Longrightarrow> carries t (f a) (g a)" "length as < 2 ^ 32"
  shows "carries (vector t no_opts) (JArr (map f as)) (JArr (map g as))"
  by (rule carries_vector) (use assms in \<open>auto simp: list_all2_map1 list_all2_map2 list_all2_same\<close>)

fun fields_carry :: "(string \<times> bcs_type) list \<Rightarrow> jsval \<Rightarrow> (string \<times> jsval) list \<Rightarrow> bool" where
  "fields_carry [] v [] = True"
| "fields_carry ((k, t) # ts) v ((k', x) # ps) =
     (k' = k \<and> (\<exists>y. get_prop v k = Inr y \<and> carries t y x) \<and> fields_carry ts v ps)"
| "fields_carry _ _ _ = False"

lemma fields_carry_items:
  "fields_carry ts v ps \<Longrightarrow>
   \<exists>fs. ts = map f_type fs \<and> ps = map (\<lambda>f. (fst f, i_out (f_item f))) fs \<and> has_fields v fs \<and> (\<forall>f\<in>set fs. codec_field f)"
proof (induction ts v ps rule: fields_carry.induct)
  case (2 k t ts v k' x ps)
  then obtain fs y bs where "ts = map f_type fs \<and> ps = map (\<lambda>f. (fst f, i_out (f_item f))) fs \<and>
      has_fields v fs \<and> (\<forall>f\<in>set fs. codec_field f)" "get_prop v k = Inr y" "codec t y x bs" "k' = k"
    by (auto simp: carries_def)
  then show ?case
    by (intro exI [of _ "(k, t, y, x, bs) # fs"]) (simp add: codec_field_def codec_item_def f_type_def has_fields_Cons)
qed (auto simp: has_fields_def)

lemma carries_struct [carries_intros]:
  assumes "fields_carry ts v ps" "is_object v"
  shows "carries (BcsStruct name ts no_opts) v (JObj ps)"
proof -
  obtain fs where fs: "ts = map f_type fs" "ps = map (\<lambda>f. (fst f, i_out (f_item f))) fs" "has_fields v fs"
    "\<forall>f\<in>set fs. codec_field f" using fields_carry_items [OF assms(1)] by blast
  then show ?thesis using codec_struct [of fs v ts name] assms(2) by (auto intro: codec_carries)
qed

lemma carries_pair [carries_intros]:
  assumes "carries t v x" "carries u w y"
  shows "carries (BcsTuple [t, u] no_opts) (JArr [v, w]) (JArr [x, y])"
proof -
  obtain bs cs where c: "codec t v x bs" "codec u w y cs" using assms by (auto simp: carries_def)
  have "codec (BcsTuple [t, u] no_opts) (JArr (map (\<lambda>q. i_in (snd q)) [(t, v, x, bs), (u, w, y, cs)]))
      (JArr (map (\<lambda>q. i_out (snd q)) [(t, v, x, bs), (u, w, y, cs)]))
      (concat (map (\<lambda>q. i_bytes (snd q)) [(t, v, x, bs), (u, w, y, cs)]))"
    by (rule codec_tuple) (use c in \<open>auto simp: codec_pair_def codec_item_def\<close>)
  then show ?thesis by (auto intro: codec_carries)
qed

lemma carries_enum:
  assumes "distinct (map fst flds)" "length flds \<le> MAX_SAFE_INTEGER" "map_of flds name = Some type"
    and "is_object v" "filter (\<lambda>(k, _). has_own flds k) (entries v) = [(name, y)]" "y \<noteq> JUndefined"
    and "case type of None \<Rightarrow> x = JUndefined | Some t \<Rightarrow> carries t y x"
  shows "carries (BcsEnum ename flds no_opts) v (variant_object name x)"
proof -
  obtain i where i: "i < length flds" "flds ! i = (name, type)"
    using map_of_SomeD [OF assms(3)] by (auto simp: in_set_conv_nth)
  obtain bs where bs: "case type of None \<Rightarrow> i_out (y, x, bs) = JUndefined \<and> i_bytes (y, x, bs) = []
      | Some t \<Rightarrow> codec_item t (y, x, bs)"
    using assms(7) by (cases type) (auto simp: carries_def codec_item_def)
  have "variant_input flds v name (i_in (y, x, bs))" using assms(4-6) by (simp add: variant_input_def)
  from codec_enum [OF assms(1) i _ this bs, of ename] assms(2) i(1) show ?thesis by (simp add: codec_carries)
qed

lemma carries_transform:
  "inp v = Inr v' \<Longrightarrow> carries t v' x \<Longrightarrow> outp x = Inr y \<Longrightarrow>
   carries (type_transform t name (Some inp) (Some outp) None) v y"
  using codec_transform by (fastforce simp: carries_def)

lemma carries_lazy [carries_intros]: "carries t v x \<Longrightarrow> carries (lazyBcsType t) v x"
  using codec_lazy by (fastforce simp: carries_def)

lemma carries_option:
  "is_nullish v \<Longrightarrow> carries (bcs_option t) v JNull"
  "carries t v x \<Longrightarrow> \<not> is_nullish v \<Longrightarrow> \<not> is_nullish x \<Longrightarrow> carries (bcs_option t) v x"
proof -
  show "is_nullish v \<Longrightarrow> carries (bcs_option t) v JNull" using codec_option_none codec_carries by blast
  assume "carries t v x" "\<not> is_nullish v" "\<not> is_nullish x"
  then obtain bs where "codec_item t (v, x, bs)" by (auto simp: carries_def codec_item_def)
  from codec_option_some [OF this] \<open>\<not> is_nullish v\<close> \<open>\<not> is_nullish x\<close> show "carries (bcs_option t) v x"
    by (auto simp: option_value_def intro: codec_carries)
qed

lemma carries_parse:
  assumes "carries t v x"
  obtains bs where "type_serialize t v no_options = Inr bs" "\<And>rest. type_parse t (uint8array_of (bs @ rest)) = Inr x"
  using assms codec_type_serialize [of t v x _ no_options] codec_parse [of t v x]
  by (auto simp: carries_def no_options_def)

subsection \<open>Objects with a kind\<close>

definition js_kind :: "string \<Rightarrow> jsval \<Rightarrow> jsval" where
  "js_kind k x = JObj [(k, x), (''$kind'', JStr k)]"

lemma variant_object_kind: "k \<noteq> ''$kind'' \<Longrightarrow> \<not> is_nullish x \<Longrightarrow> variant_object k x = js_kind k x"
  "k \<noteq> ''$kind'' \<Longrightarrow> variant_object k JUndefined = js_kind k (JBool True)"
  by (simp_all add: variant_object_def js_kind_def)

lemma js_kind_not_nullish [simp]: "\<not> is_nullish (js_kind k x)"
  by (simp add: js_kind_def)

lemma js_kind_object [simp]: "is_object (js_kind k x)" "js_kind k x \<noteq> JUndefined" "js_kind k x \<noteq> JNull"
  by (simp_all add: js_kind_def)

lemma only_variant:
  assumes "k \<in> set (map fst flds)" "\<forall>q\<in>set others. fst q \<notin> set (map fst flds)"
  shows "filter (\<lambda>(k, _). has_own flds k) ((k, y) # others) = [(k, y)]"
proof -
  have "filter (\<lambda>(k, _). has_own flds k) others = []"
    using assms(2) by (simp add: filter_empty_conv has_own_def case_prod_unfold)
  then show ?thesis using assms(1) by (simp add: has_own_def)
qed

definition enum_names :: "(string \<times> bcs_type option) list \<Rightarrow> bool" where
  "enum_names flds \<longleftrightarrow> distinct (map fst flds) \<and> length flds \<le> MAX_SAFE_INTEGER \<and> (\<forall>q\<in>set flds. fst q \<noteq> ''$kind'')"

text \<open>An enum value that names its variant and has more properties that are no variants.\<close>

lemma carries_kind:
  assumes "enum_names flds" "map_of flds k = Some (Some t)" "carries t y x" "y \<noteq> JUndefined" "\<not> is_nullish x"
    and "\<forall>q\<in>set others. fst q \<notin> set (map fst flds)"
  shows "carries (BcsEnum ename flds no_opts) (JObj ((k, y) # others)) (js_kind k x)"
proof -
  have k: "k \<in> set (map fst flds)" using assms(2) by (force dest: map_of_SomeD)
  then have "k \<noteq> ''$kind''" using assms(1) by (force simp: enum_names_def)
  moreover have "filter (\<lambda>(k, _). has_own flds k) (entries (JObj ((k, y) # others))) = [(k, y)]"
    using only_variant [OF k assms(6)] by simp
  ultimately show ?thesis
    using carries_enum [of flds k "Some t" "JObj ((k, y) # others)" y x ename] assms
    by (simp add: variant_object_kind enum_names_def)
qed

lemma carries_unit:
  assumes "enum_names flds" "map_of flds k = Some None" "y \<noteq> JUndefined"
    and "\<forall>q\<in>set others. fst q \<notin> set (map fst flds)"
  shows "carries (BcsEnum ename flds no_opts) (JObj ((k, y) # others)) (js_kind k (JBool True))"
proof -
  have k: "k \<in> set (map fst flds)" using assms(2) by (force dest: map_of_SomeD)
  then have "k \<noteq> ''$kind''" using assms(1) by (force simp: enum_names_def)
  moreover have "filter (\<lambda>(k, _). has_own flds k) (entries (JObj ((k, y) # others))) = [(k, y)]"
    using only_variant [OF k assms(4)] by simp
  ultimately show ?thesis
    using carries_enum [of flds k None "JObj ((k, y) # others)" y JUndefined ename] assms
    by (simp add: variant_object_kind enum_names_def)
qed

lemma carries_js_kind:
  "enum_names flds \<Longrightarrow> map_of flds k = Some (Some t) \<Longrightarrow> carries t y x \<Longrightarrow> y \<noteq> JUndefined \<Longrightarrow> \<not> is_nullish x \<Longrightarrow>
   carries (BcsEnum ename flds no_opts) (js_kind k y) (js_kind k x)"
  unfolding js_kind_def [of k y] by (rule carries_kind) (auto simp: enum_names_def)

lemma carries_js_unit:
  "enum_names flds \<Longrightarrow> map_of flds k = Some None \<Longrightarrow>
   carries (BcsEnum ename flds no_opts) (js_kind k (JBool True)) (js_kind k (JBool True))"
  unfolding js_kind_def [of k] by (rule carries_unit [unfolded js_kind_def]) (auto simp: enum_names_def)

subsection \<open>Serializing with a maximal size\<close>

lemma struct_serialize_bounded:
  assumes "codec (BcsStruct name flds no_opts) v x bs"
  shows "case type_serialize (BcsStruct name flds no_opts) v opts of
     Inr bs' \<Rightarrow> bs' = bs | Inl e \<Rightarrow> (\<exists>m. o_maxSize opts = Some m \<and> m < length bs)"
proof -
  let ?t = "BcsStruct name flds no_opts"
  have v: "t_validate ?t v = Inr ()" using assms by (rule codec_validate)
  obtain s where s: "t_size ?t v = Inr s" using codec_size [OF assms] by blast
  let ?opts = "opts\<lparr>o_initialSize := (case o_initialSize opts of None \<Rightarrow> s | Some k \<Rightarrow> Some k)\<rparr>"
  have "t_serialize ?t v opts = rmap w_toBytes (t_write ?t v (new_writer ?opts))"
    using s by (simp add: BcsStruct_def BcsType_new_def default_serialize_def Let_def)
  moreover have "emits (new_writer ?opts) bs (t_write ?t v (new_writer ?opts))" by (rule codec_write [OF assms]) simp
  ultimately show ?thesis
    by (cases "t_write ?t v (new_writer ?opts)")
      (auto simp: type_serialize_def v emits_def new_writer_def Let_def w_toBytes_def)
qed

subsection \<open>Numbers and texts\<close>

definition u16_ok :: "int \<Rightarrow> bool" where
  "u16_ok i \<longleftrightarrow> 0 \<le> i \<and> i < 2 ^ 16"

definition string_ok :: "platform \<Rightarrow> string \<Rightarrow> bool" where
  "string_ok p s \<longleftrightarrow> p_decode p (p_encode p s) = s \<and> length (p_encode p s) \<le> MAX_SAFE_INTEGER"

lemma carries_u16: "u16_ok i \<Longrightarrow> carries (bcs_u16 no_opts) (JNum i) (JNum i)"
  using codec_u16 [of "JNum i" "nat i"] by (auto simp: u16_ok_def nat_less_iff intro: codec_carries)

lemma carries_u32: "0 \<le> i \<Longrightarrow> i < 2 ^ 32 \<Longrightarrow> carries (bcs_u32 no_opts) (JNum i) (JNum i)"
  using codec_u32 [of "JNum i" "nat i"] by (auto simp: nat_less_iff intro: codec_carries)

lemma carries_bool: "carries (bcs_bool no_opts) (JBool b) (JBool b)"
  using codec_bool codec_carries by blast

lemma carries_string: "string_ok p s \<Longrightarrow> carries (bcs_string p) (JStr s) (JStr s)"
  unfolding string_ok_def bcs_string_def using codec_string codec_carries by blast

subsection \<open>An example\<close>

text \<open>A platform whose base58 is hexadecimal and whose texts are single bytes.\<close>

definition example_platform :: platform where
  "example_platform = \<lparr>p_fromBase58 = fromHex, p_toBase58 = toHex, p_encode = latin1, p_decode = unlatin1\<rparr>"

lemma string_ok_example: "length s < 1000 \<Longrightarrow> string_ok example_platform s"
  by (simp add: string_ok_def example_platform_def unlatin1_latin1 MAX_SAFE_INTEGER_def) (simp add: latin1_def)

end
