(* ===== verification/Transaction_Data.thy ===== *)
theory Transaction_Data
  imports Myso_Types
begin

text \<open>
  \<open>packages/myso/src/transactions/TransactionData.ts\<close> (\<open>TransactionDataBuilder\<close>), \<open>utils.ts\<close>
  (\<open>getIdFromCallArg\<close>, \<open>remapCommandArguments\<close>), \<open>Inputs.ts\<close>, \<open>resolve.ts\<close> and the data of
  \<open>data/internal.ts\<close>. Opaque JavaScript values (the value of an unresolved pure input, the data of an
  intent) are of the type parameter \<open>'v\<close>.

  The code replaces and updates argument objects in place. \<open>Transaction\<close> parses every argument
  into a fresh object, so no argument object occurs twice, and values model it.
\<close>

subsection \<open>Data\<close>

datatype json_u64 = U64Str string | U64Num int

datatype input_type = PureT | ObjectT | WithdrawalT

datatype argument =
    GasCoin
  | Input int "input_type option"
  | Result int
  | NestedResult int int

record object_ref =
  or_objectId :: string
  or_version :: json_u64
  or_digest :: string

datatype object_arg =
    ImmOrOwnedObject object_ref
  | SharedObject (sh_objectId: string) (sh_initialSharedVersion: json_u64) (sh_mutable: bool)
  | Receiving object_ref

record unresolved_object =
  uo_objectId :: string
  uo_version :: "json_u64 option"
  uo_digest :: "string option"
  uo_initialSharedVersion :: "json_u64 option"
  uo_mutable :: "bool option"

datatype withdraw_from = Sender | Sponsor

datatype 'v call_arg =
    Object object_arg
  | Pure string
  | UnresolvedPure 'v
  | UnresolvedObject unresolved_object
  | FundsWithdrawal json_u64 string withdraw_from

datatype intent_input = OneArg argument | ManyArgs "argument list"

datatype 'v command =
    MoveCall (mc_package: string) (mc_module: string) (mc_function: string)
      (mc_typeArguments: "string list") (mc_arguments: "argument list")
  | TransferObjects "argument list" argument
  | SplitCoins argument "argument list"
  | MergeCoins argument "argument list"
  | Publish "string list" "string list"
  | MakeMoveVec "string option" "argument list"
  | Upgrade "string list" "string list" string argument
  | Intent string "(string \<times> intent_input) list" 'v

record gas_data =
  g_budget :: "json_u64 option"
  g_price :: "json_u64 option"
  g_owner :: "string option"
  g_payment :: "object_ref list option"

record valid_during =
  minEpoch :: "json_u64 option"
  maxEpoch :: "json_u64 option"
  minTimestamp :: "json_u64 option"
  maxTimestamp :: "json_u64 option"
  chain :: string
  nonce :: int

datatype expiration = NoExpiration | Epoch json_u64 | ValidDuring valid_during

record 'v tx_data =
  sender :: "string option"
  expiration :: "expiration option"
  gasData :: gas_data
  inputs :: "'v call_arg list"
  commands :: "'v command list"

definition empty_tx :: "'v tx_data" where
  "empty_tx = \<lparr>sender = None, expiration = None,
     gasData = \<lparr>g_budget = None, g_price = None, g_owner = None, g_payment = None\<rparr>, inputs = [], commands = []\<rparr>"

subsection \<open>Inputs\<close>

definition Inputs_ObjectRef :: "object_ref \<Rightarrow> 'v call_arg" where
  "Inputs_ObjectRef r = Object (ImmOrOwnedObject (r\<lparr>or_objectId := normalizeMySoAddress (or_objectId r) False\<rparr>))"

definition Inputs_SharedObjectRef :: "string \<Rightarrow> bool \<Rightarrow> json_u64 \<Rightarrow> 'v call_arg" where
  "Inputs_SharedObjectRef objectId mutable v = Object (SharedObject (normalizeMySoAddress objectId False) v mutable)"

definition Inputs_ReceivingRef :: "object_ref \<Rightarrow> 'v call_arg" where
  "Inputs_ReceivingRef r = Object (Receiving (r\<lparr>or_objectId := normalizeMySoAddress (or_objectId r) False\<rparr>))"

fun getIdFromCallArg :: "'v call_arg \<Rightarrow> string option" where
  "getIdFromCallArg (Object (ImmOrOwnedObject r)) = Some (normalizeMySoAddress (or_objectId r) False)"
| "getIdFromCallArg (Object (Receiving r)) = Some (normalizeMySoAddress (or_objectId r) False)"
| "getIdFromCallArg (Object (SharedObject objectId _ _)) = Some (normalizeMySoAddress objectId False)"
| "getIdFromCallArg (UnresolvedObject u) = Some (normalizeMySoAddress (uo_objectId u) False)"
| "getIdFromCallArg _ = None"

text \<open>\<open>addInput\<close>: push the input and return the argument that refers to it.\<close>

definition addInput :: "'v tx_data \<Rightarrow> input_type \<Rightarrow> 'v call_arg \<Rightarrow> argument \<times> 'v tx_data" where
  "addInput t type arg = (Input (int (length (inputs t))) (Some type), t\<lparr>inputs := inputs t @ [arg]\<rparr>)"

subsection \<open>Mapping over the arguments of commands\<close>

fun map_intent_input :: "(argument \<Rightarrow> argument res) \<Rightarrow> string \<times> intent_input \<Rightarrow> (string \<times> intent_input) res" where
  "map_intent_input fn (key, ManyArgs args) = rmap (\<lambda>args. (key, ManyArgs args)) (rmapM fn args)"
| "map_intent_input fn (key, OneArg arg) = rmap (\<lambda>arg. (key, OneArg arg)) (fn arg)"

text \<open>The switch of \<open>mapCommandArguments\<close>, in its order of evaluation.\<close>

fun traverse_command :: "(argument \<Rightarrow> argument res) \<Rightarrow> 'v command \<Rightarrow> 'v command res" where
  "traverse_command fn (MoveCall p m f tas args) = rmap (MoveCall p m f tas) (rmapM fn args)"
| "traverse_command fn (TransferObjects objects address) =
     rbind (rmapM fn objects) (\<lambda>objects. rmap (TransferObjects objects) (fn address))"
| "traverse_command fn (SplitCoins coin amounts) =
     rbind (fn coin) (\<lambda>coin. rmap (SplitCoins coin) (rmapM fn amounts))"
| "traverse_command fn (MergeCoins destination sources) =
     rbind (fn destination) (\<lambda>destination. rmap (MergeCoins destination) (rmapM fn sources))"
| "traverse_command fn (MakeMoveVec type elements) = rmap (MakeMoveVec type) (rmapM fn elements)"
| "traverse_command fn (Upgrade modules dependencies package ticket) =
     rmap (Upgrade modules dependencies package) (fn ticket)"
| "traverse_command fn (Intent name ins data) = rmap (\<lambda>ins. Intent name ins data) (rmapM (map_intent_input fn) ins)"
| "traverse_command fn (Publish modules dependencies) = Inr (Publish modules dependencies)"

definition mapCommandArguments :: "'v tx_data \<Rightarrow> nat \<Rightarrow> (argument \<Rightarrow> nat \<Rightarrow> argument res) \<Rightarrow> 'v tx_data res" where
  "mapCommandArguments t index fn =
     (if index < length (commands t)
      then rmap (\<lambda>c. t\<lparr>commands := (commands t)[index := c]\<rparr>)
             (traverse_command (\<lambda>arg. fn arg index) (commands t ! index))
      else Inl (TypeError ''Cannot read properties of undefined''))"

definition mapArguments :: "'v tx_data \<Rightarrow> (argument \<Rightarrow> nat \<Rightarrow> argument res) \<Rightarrow> 'v tx_data res" where
  "mapArguments t fn = rfold (\<lambda>t commandIndex. mapCommandArguments t commandIndex fn) t [0..<length (commands t)]"

text \<open>The arguments of a command, in the order in which they are visited.\<close>

fun intent_args :: "intent_input \<Rightarrow> argument list" where
  "intent_args (ManyArgs args) = args"
| "intent_args (OneArg arg) = [arg]"

fun command_args :: "'v command \<Rightarrow> argument list" where
  "command_args (MoveCall p m f tas args) = args"
| "command_args (TransferObjects objects address) = objects @ [address]"
| "command_args (SplitCoins coin amounts) = coin # amounts"
| "command_args (MergeCoins destination sources) = destination # sources"
| "command_args (MakeMoveVec type elements) = elements"
| "command_args (Upgrade modules dependencies package ticket) = [ticket]"
| "command_args (Intent name ins data) = concat (map (\<lambda>(k, i). intent_args i) ins)"
| "command_args (Publish modules dependencies) = []"

text \<open>\<open>getInputUses\<close>: the uses it passes to the callback, as pairs of argument and command index.\<close>

definition getInputUses :: "'v tx_data \<Rightarrow> int \<Rightarrow> (argument \<times> nat) list" where
  "getInputUses t index =
     concat (map (\<lambda>k. map (\<lambda>arg. (arg, k))
       (filter (\<lambda>arg. case arg of Input i _ \<Rightarrow> i = index | _ \<Rightarrow> False) (command_args (commands t ! k))))
       [0..<length (commands t)])"

subsection \<open>Replacing a command\<close>

datatype result_index = RNum int | RResult int | RNested int int

fun result_argument :: "result_index \<Rightarrow> argument" where
  "result_argument (RResult i) = Result i"
| "result_argument (RNested i j) = NestedResult i j"
| "result_argument (RNum i) = Result i"

definition is_RNum :: "result_index \<Rightarrow> bool" where
  "is_RNum r \<longleftrightarrow> (case r of RNum _ \<Rightarrow> True | _ \<Rightarrow> False)"

definition refers_to :: "argument \<Rightarrow> int \<Rightarrow> bool" where
  "refers_to arg index \<longleftrightarrow> (case arg of Result i \<Rightarrow> i = index | NestedResult i _ \<Rightarrow> i = index | _ \<Rightarrow> False)"

text \<open>The callback of \<open>replaceCommand\<close>: \<open>n\<close> is the number of replacing commands.\<close>

definition replace_arg :: "nat \<Rightarrow> nat \<Rightarrow> result_index \<Rightarrow> argument \<Rightarrow> nat \<Rightarrow> argument res" where
  "replace_arg index n resultIndex arg commandIndex =
     (if commandIndex < index + n then Inr arg
      else if \<not> is_RNum resultIndex \<and> refers_to arg (int index)
      then (case arg of
              NestedResult _ j \<Rightarrow>
                if j = 0 then Inr (result_argument resultIndex)
                else Inl (Error ''Cannot replace command with a specific result type'')
            | _ \<Rightarrow> Inr (result_argument resultIndex))
      else (case arg of
              Result r \<Rightarrow>
                let r = (case resultIndex of RNum k \<Rightarrow> if r = int index then k else r | _ \<Rightarrow> r)
                in Inr (Result (if r > int index then r + (int n - 1) else r))
            | NestedResult i j \<Rightarrow>
                (case resultIndex of
                   RNum k \<Rightarrow> if i = int index then Inr (NestedResult k j)
                             else Inr (NestedResult (if i > int index then i + (int n - 1) else i) j)
                 | _ \<Rightarrow> Inr (NestedResult (if i > int index then i + (int n - 1) else i) j))
            | _ \<Rightarrow> Inr arg))"

text \<open>
  \<open>replaceCommand\<close> with one command, and with an array. \<open>commands[index] = c\<close> past the end makes
  a sparse array in JavaScript, which is not modelled.
\<close>

definition replaceCommand_one :: "'v tx_data \<Rightarrow> nat \<Rightarrow> 'v command \<Rightarrow> 'v tx_data" where
  "replaceCommand_one t index replacement = t\<lparr>commands := (commands t)[index := replacement]\<rparr>"

definition replaceCommand :: "'v tx_data \<Rightarrow> nat \<Rightarrow> 'v command list \<Rightarrow> result_index \<Rightarrow> 'v tx_data res" where
  "replaceCommand t index replacement resultIndex =
     (let t = t\<lparr>commands := take index (commands t) @ replacement @ drop (index + 1) (commands t)\<rparr>
      in mapArguments t (replace_arg index (length replacement) resultIndex))"

subsection \<open>Inserting a transaction\<close>

definition remapArg :: "(nat \<rightharpoonup> nat) \<Rightarrow> (nat \<rightharpoonup> nat) \<Rightarrow> argument \<Rightarrow> argument res" where
  "remapArg inputMapping commandMapping arg =
     (let look = (\<lambda>m i. if i < 0 then None else m (nat i)) in
      case arg of
        Input i ty \<Rightarrow> (case look inputMapping i of
                         None \<Rightarrow> Inl (Error ''Input not found in input mapping'')
                       | Some k \<Rightarrow> Inr (Input (int k) ty))
      | Result r \<Rightarrow> Inr (case look commandMapping r of Some k \<Rightarrow> Result (int k) | None \<Rightarrow> arg)
      | NestedResult r j \<Rightarrow> Inr (case look commandMapping r of Some k \<Rightarrow> NestedResult (int k) j | None \<Rightarrow> arg)
      | GasCoin \<Rightarrow> Inr arg)"

definition remapCommandArguments :: "'v command \<Rightarrow> (nat \<rightharpoonup> nat) \<Rightarrow> (nat \<rightharpoonup> nat) \<Rightarrow> 'v command res" where
  "remapCommandArguments command inputMapping commandMapping =
     traverse_command (remapArg inputMapping commandMapping) command"

text \<open>\<open>findIndex\<close>.\<close>

fun find_index :: "('a \<Rightarrow> bool) \<Rightarrow> 'a list \<Rightarrow> nat option" where
  "find_index P [] = None"
| "find_index P (x # xs) = (if P x then Some 0 else map_option Suc (find_index P xs))"

text \<open>The shared-object flag: mutable if either use is.\<close>

fun merge_shared :: "'v call_arg \<Rightarrow> 'v call_arg \<Rightarrow> 'v call_arg" where
  "merge_shared (Object (SharedObject i v m)) (Object (SharedObject _ _ m')) = Object (SharedObject i v (m \<or> m'))"
| "merge_shared a b = a"

text \<open>One turn of the loop over the other transaction's inputs: the inputs and the mapping so far.\<close>

definition insert_input :: "'v call_arg list \<times> (nat \<rightharpoonup> nat) \<Rightarrow> nat \<times> 'v call_arg \<Rightarrow> 'v call_arg list \<times> (nat \<rightharpoonup> nat)" where
  "insert_input s e =
     (case s of (ins, m) \<Rightarrow> case e of (i, otherInput) \<Rightarrow>
       (let existing = (case getIdFromCallArg otherInput of
                          None \<Rightarrow> None
                        | Some objId \<Rightarrow> find_index (\<lambda>input. getIdFromCallArg input = Some objId) ins)
        in case existing of
             Some k \<Rightarrow> (ins[k := merge_shared (ins ! k) otherInput], m(i \<mapsto> k))
           | None \<Rightarrow> (ins @ [otherInput], m(i \<mapsto> length ins))))"

definition shift_arg :: "nat \<Rightarrow> nat \<Rightarrow> argument \<Rightarrow> argument" where
  "shift_arg atIndex n arg =
     (case arg of
        Result r \<Rightarrow> Result (if r \<ge> int atIndex then r + int n else r)
      | NestedResult r j \<Rightarrow> NestedResult (if r \<ge> int atIndex then r + int n else r) j
      | _ \<Rightarrow> arg)"

definition insertTransaction :: "'v tx_data \<Rightarrow> nat \<Rightarrow> 'v tx_data \<Rightarrow> 'v tx_data res" where
  "insertTransaction t atCommandIndex other =
     (let (ins, inputMapping) = foldl insert_input (inputs t, Map.empty) (enumerate 0 (inputs other));
          commandMapping = (\<lambda>i. if i < length (commands other) then Some (atCommandIndex + i) else None)
      in rbind (rmapM (\<lambda>c. remapCommandArguments c inputMapping commandMapping) (commands other)) (\<lambda>remapped.
           let t = t\<lparr>inputs := ins,
                     commands := take atCommandIndex (commands t) @ remapped @ drop atCommandIndex (commands t)\<rparr>;
               n = length remapped
           in if n > 0
              then mapArguments t (\<lambda>arg k. Inr (if atCommandIndex \<le> k \<and> k < atCommandIndex + n then arg
                                                 else shift_arg atCommandIndex n arg))
              else Inr t))"

definition replaceCommandWithTransaction :: "'v tx_data \<Rightarrow> nat \<Rightarrow> 'v tx_data \<Rightarrow> argument \<Rightarrow> 'v tx_data res" where
  "replaceCommandWithTransaction t index other result =
     (case result of
        Result r \<Rightarrow>
          rbind (insertTransaction t index other) (\<lambda>t.
            replaceCommand t (index + length (commands other)) [] (RNested (r + int index) 0))
      | NestedResult r j \<Rightarrow>
          rbind (insertTransaction t index other) (\<lambda>t.
            replaceCommand t (index + length (commands other)) [] (RNested (r + int index) j))
      | _ \<Rightarrow> Inl (Error ''Result must be of kind Result or NestedResult''))"

subsection \<open>Building\<close>

text \<open>Truth values of nullable JavaScript values: the empty string and the number 0 are false.\<close>

definition truthy_str :: "string option \<Rightarrow> bool" where
  "truthy_str s \<longleftrightarrow> s \<noteq> None \<and> s \<noteq> Some []"

definition truthy_u64 :: "json_u64 option \<Rightarrow> bool" where
  "truthy_u64 v \<longleftrightarrow> (case v of None \<Rightarrow> False | Some (U64Str s) \<Rightarrow> s \<noteq> [] | Some (U64Num n) \<Rightarrow> n \<noteq> 0)"

text \<open>\<open>BigInt\<close> of a u64 in JSON.\<close>

fun u64_bigint :: "json_u64 \<Rightarrow> int res" where
  "u64_bigint (U64Str s) = bigint_of_string s"
| "u64_bigint (U64Num n) = Inr n"

text \<open>\<open>normalizeMySoAddress(address).replace('0x', '')\<close>: the normalized text starts with the one it removes.\<close>

definition prepareMySoAddress :: "string \<Rightarrow> string" where
  "prepareMySoAddress address = drop 2 (normalizeMySoAddress address False)"

text \<open>\<open>overrides.gasData\<close>: each property absent or given, also as null.\<close>

record gas_override =
  v_budget :: "json_u64 option option"
  v_price :: "json_u64 option option"
  v_owner :: "string option option"
  v_payment :: "object_ref list option option"

record overrides =
  ov_expiration :: "expiration option"
  ov_sender :: "string option"
  ov_gasData :: gas_override

definition no_overrides :: overrides where
  "no_overrides = \<lparr>ov_expiration = None, ov_sender = None,
     ov_gasData = \<lparr>v_budget = None, v_price = None, v_owner = None, v_payment = None\<rparr>\<rparr>"

definition pick :: "'a option \<Rightarrow> 'a \<Rightarrow> 'a" where
  "pick ov x = (case ov of None \<Rightarrow> x | Some v \<Rightarrow> v)"

definition spread_gas :: "gas_data \<Rightarrow> gas_override \<Rightarrow> gas_data" where
  "spread_gas g ov =
     \<lparr>g_budget = pick (v_budget ov) (g_budget g), g_price = pick (v_price ov) (g_price g),
      g_owner = pick (v_owner ov) (g_owner g), g_payment = pick (v_payment ov) (g_payment g)\<rparr>"

record 'v built =
  b_sender :: string
  b_expiration :: expiration
  b_payment :: "object_ref list"
  b_owner :: string
  b_price :: int
  b_budget :: int
  b_inputs :: "'v call_arg list"
  b_commands :: "'v command list"

text \<open>\<open>build\<close> up to the value it passes to the BCS type of transaction data.\<close>

definition build_value :: "'v tx_data \<Rightarrow> overrides \<Rightarrow> 'v built res" where
  "build_value t ov =
     (let expiration' = (case ov_expiration ov of Some e \<Rightarrow> Some e | None \<Rightarrow> expiration t);
          sender' = (case ov_sender ov of Some s \<Rightarrow> Some s | None \<Rightarrow> sender t);
          gas = spread_gas (gasData t) (ov_gasData ov)
      in if \<not> truthy_str sender' then Inl (Error ''Missing transaction sender'')
         else if \<not> truthy_u64 (g_budget gas) then Inl (Error ''Missing gas budget'')
         else case g_payment gas of
           None \<Rightarrow> Inl (Error ''Missing gas payment'')
         | Some payment \<Rightarrow>
             if \<not> truthy_u64 (g_price gas) then Inl (Error ''Missing gas price'')
             else rbind (u64_bigint (the (g_price gas))) (\<lambda>price.
                  rbind (u64_bigint (the (g_budget gas))) (\<lambda>budget.
                  Inr \<lparr>b_sender = prepareMySoAddress (the sender'),
                       b_expiration = (case expiration' of None \<Rightarrow> NoExpiration | Some e \<Rightarrow> e),
                       b_payment = payment,
                       b_owner = prepareMySoAddress (case g_owner (gasData t) of Some o' \<Rightarrow> o' | None \<Rightarrow> the sender'),
                       b_price = price, b_budget = budget,
                       b_inputs = inputs t, b_commands = commands t\<rparr>)))"

subsection \<open>Resolution\<close>

fun is_unresolved :: "'v call_arg \<Rightarrow> bool" where
  "is_unresolved (UnresolvedPure _) = True"
| "is_unresolved (UnresolvedObject _) = True"
| "is_unresolved _ = False"

definition needsTransactionResolution :: "'v tx_data \<Rightarrow> bool \<Rightarrow> bool" where
  "needsTransactionResolution data onlyTransactionKind =
     (if list_ex is_unresolved (inputs data) then True
      else if \<not> onlyTransactionKind
      then (if \<not> truthy_u64 (g_price (gasData data)) \<or> \<not> truthy_u64 (g_budget (gasData data)) \<or> g_payment (gasData data) = None
            then True
            else g_payment (gasData data) = Some [] \<and> expiration data = None)
      else False)"

text \<open>\<open>validate\<close>: the first input that is not resolved throws.\<close>

definition validate_resolved :: "'v tx_data \<Rightarrow> unit res" where
  "validate_resolved data =
     rfold (\<lambda>_ input. if is_unresolved input then Inl (Error ''Input has not been resolved'') else Inr ()) () (inputs data)"

text \<open>\<open>original.f != null && original.f !== resolved.f\<close>.\<close>

definition conflicts :: "'a option \<Rightarrow> 'a \<Rightarrow> bool" where
  "conflicts original resolved \<longleftrightarrow> (case original of None \<Rightarrow> False | Some v \<Rightarrow> v \<noteq> resolved)"

definition same_id :: "string \<Rightarrow> string \<Rightarrow> bool" where
  "same_id a b \<longleftrightarrow> normalizeMySoAddress a False = normalizeMySoAddress b False"

definition did_not_match :: js_error where
  "did_not_match = Error ''Input did not match unresolved object''"

definition match_owned :: "unresolved_object \<Rightarrow> object_ref \<Rightarrow> bool" where
  "match_owned original resolved \<longleftrightarrow>
     \<not> (\<not> same_id (uo_objectId original) (or_objectId resolved) \<or>
        conflicts (uo_version original) (or_version resolved) \<or>
        conflicts (uo_digest original) (or_digest resolved) \<or>
        uo_mutable original \<noteq> None \<or> uo_initialSharedVersion original \<noteq> None)"

definition match_shared :: "unresolved_object \<Rightarrow> string \<Rightarrow> json_u64 \<Rightarrow> bool \<Rightarrow> bool" where
  "match_shared original objectId v m \<longleftrightarrow>
     \<not> (\<not> same_id (uo_objectId original) objectId \<or>
        conflicts (uo_initialSharedVersion original) v \<or>
        conflicts (uo_mutable original) m \<or>
        uo_version original \<noteq> None \<or> uo_digest original \<noteq> None)"

text \<open>One turn of the loop of \<open>applyResolvedData\<close>; \<open>None\<close> is a resolved input that is missing.\<close>

definition resolve_input :: "'v call_arg \<Rightarrow> 'v call_arg option \<Rightarrow> 'v call_arg res" where
  "resolve_input input resolvedInput =
     (case input of
        UnresolvedPure _ \<Rightarrow>
          (case resolvedInput of
             None \<Rightarrow> Inl (TypeError ''Cannot read properties of undefined'')
           | Some (Pure b) \<Rightarrow> Inr (Pure b)
           | Some _ \<Rightarrow> Inl (Error ''Expected input to resolve to a Pure argument''))
      | UnresolvedObject original \<Rightarrow>
          (case resolvedInput of
             None \<Rightarrow> Inl (TypeError ''Cannot read properties of undefined'')
           | Some (Object (ImmOrOwnedObject r)) \<Rightarrow>
               if match_owned original r then Inr (Object (ImmOrOwnedObject r)) else Inl did_not_match
           | Some (Object (Receiving r)) \<Rightarrow>
               if match_owned original r then Inr (Object (Receiving r)) else Inl did_not_match
           | Some (Object (SharedObject i v m)) \<Rightarrow>
               if match_shared original i v m then Inr (Object (SharedObject i v m)) else Inl did_not_match
           | Some _ \<Rightarrow> Inl (Error ''Expected input to resolve to an Object argument''))
      | _ \<Rightarrow> Inr input)"

fun resolve_inputs :: "'v call_arg list \<Rightarrow> 'v call_arg list \<Rightarrow> 'v call_arg list res" where
  "resolve_inputs [] rs = Inr []"
| "resolve_inputs (x # xs) rs =
     rbind (resolve_input x (case rs of [] \<Rightarrow> None | r # _ \<Rightarrow> Some r)) (\<lambda>y.
       rmap (\<lambda>ys. y # ys) (resolve_inputs xs (tl rs)))"

definition applyResolvedData :: "'v tx_data \<Rightarrow> 'v tx_data \<Rightarrow> 'v tx_data res" where
  "applyResolvedData t resolved =
     (let g = gasData t; rg = gasData resolved;
          t = t\<lparr>sender := (if truthy_str (sender t) then sender t else sender resolved),
                expiration := (case expiration t of Some e \<Rightarrow> Some e | None \<Rightarrow> expiration resolved),
                gasData := \<lparr>g_budget = (if truthy_u64 (g_budget g) then g_budget g else g_budget rg),
                            g_price = (if truthy_u64 (g_price g) then g_price g else g_price rg),
                            g_owner = (if truthy_str (g_owner g) then g_owner g else g_owner rg),
                            g_payment = (case g_payment g of Some p \<Rightarrow> Some p | None \<Rightarrow> g_payment rg)\<rparr>\<rparr>
      in rmap (\<lambda>ins. t\<lparr>inputs := ins\<rparr>) (resolve_inputs (inputs t) (inputs resolved)))"

end
