(* ===== verification/Transaction_Props.thy ===== *)
theory Transaction_Props
  imports Transaction_Data
begin

text \<open>
  What the operations of \<open>Transaction_Data\<close> do to the references between commands: the closed form of
  the traversals, the invariant that every argument refers to an existing input or an earlier
  command, and that inserting and replacing commands keep it.
\<close>

subsection \<open>Traversals\<close>

fun map_intent :: "(argument \<Rightarrow> argument) \<Rightarrow> intent_input \<Rightarrow> intent_input" where
  "map_intent g (ManyArgs args) = ManyArgs (map g args)"
| "map_intent g (OneArg arg) = OneArg (g arg)"

fun command_map :: "(argument \<Rightarrow> argument) \<Rightarrow> 'v command \<Rightarrow> 'v command" where
  "command_map g (MoveCall p m f tas args) = MoveCall p m f tas (map g args)"
| "command_map g (TransferObjects objects address) = TransferObjects (map g objects) (g address)"
| "command_map g (SplitCoins coin amounts) = SplitCoins (g coin) (map g amounts)"
| "command_map g (MergeCoins destination sources) = MergeCoins (g destination) (map g sources)"
| "command_map g (MakeMoveVec type elements) = MakeMoveVec type (map g elements)"
| "command_map g (Upgrade modules dependencies package ticket) = Upgrade modules dependencies package (g ticket)"
| "command_map g (Intent name ins data) = Intent name (map (\<lambda>(k, i). (k, map_intent g i)) ins) data"
| "command_map g (Publish modules dependencies) = Publish modules dependencies"

lemma map_intent_input_Inr:
  "(\<And>arg. arg \<in> set (intent_args (snd e)) \<Longrightarrow> fn arg = Inr (g arg)) \<Longrightarrow>
   map_intent_input fn e = Inr (fst e, map_intent g (snd e))"
  by (cases e; cases "snd e") (auto simp: rmapM_Inr)

lemma map_command_Inr:
  "(\<And>arg. arg \<in> set (command_args c) \<Longrightarrow> fn arg = Inr (g arg)) \<Longrightarrow> traverse_command fn c = Inr (command_map g c)"
proof (cases c)
  case (Intent name ins data)
  assume fn: "\<And>arg. arg \<in> set (command_args c) \<Longrightarrow> fn arg = Inr (g arg)"
  have "rmapM (map_intent_input fn) ins = Inr (map (\<lambda>e. (fst e, map_intent g (snd e))) ins)"
  proof (rule rmapM_Inr)
    fix e assume "e \<in> set ins"
    then have "arg \<in> set (command_args c)" if "arg \<in> set (intent_args (snd e))" for arg
      using that Intent by (auto simp: case_prod_unfold)
    then show "map_intent_input fn e = Inr (fst e, map_intent g (snd e))"
      by (intro map_intent_input_Inr fn)
  qed
  then show ?thesis by (simp add: Intent case_prod_unfold)
qed (auto simp: rmapM_Inr)

lemma intent_args_map: "intent_args (map_intent g i) = map g (intent_args i)"
  by (cases i) auto

lemma command_args_map: "command_args (command_map g c) = map g (command_args c)"
proof (cases c)
  case (Intent name ins data)
  then show ?thesis by (simp add: map_concat intent_args_map case_prod_unfold comp_def)
qed auto

lemma rmapM_concat: "rmapM f (concat xss) = rmap concat (rmapM (rmapM f) xss)"
proof (induction xss)
  case (Cons xs xss)
  then show ?case by (cases "rmapM f xs"; cases "rmapM (rmapM f) xss") (auto simp: rmapM_append)
qed simp

lemma map_intent_input_args:
  "map_intent_input fn e = Inr e' \<Longrightarrow> fst e' = fst e \<and> rmapM fn (intent_args (snd e)) = Inr (intent_args (snd e'))"
  by (cases e; cases "snd e") (auto simp: res_simps)

lemma map_command_args: "traverse_command fn c = Inr c' \<Longrightarrow> rmapM fn (command_args c) = Inr (command_args c')"
proof (cases c)
  case (Intent name ins data)
  assume "traverse_command fn c = Inr c'"
  then obtain ins' where m: "rmapM (map_intent_input fn) ins = Inr ins'" "c' = Intent name ins' data"
    by (auto simp: Intent res_simps)
  have "rmapM (rmapM fn) (map (\<lambda>e. intent_args (snd e)) ins) = Inr (map (\<lambda>e. intent_args (snd e)) ins')"
    using m(1)
  proof (induction ins arbitrary: ins')
    case (Cons e ins)
    then show ?case by (auto simp: res_simps dest: map_intent_input_args)
  qed simp
  then show ?thesis by (simp add: Intent m(2) rmapM_concat case_prod_unfold)
qed (auto simp: res_simps rmapM_append)

text \<open>\<open>mapArguments\<close> works on every command by itself.\<close>

lemma mapArguments_loop:
  assumes "\<And>k. k \<in> set ks \<Longrightarrow> k < length (commands t) \<and> traverse_command (\<lambda>a. fn a k) (commands t ! k) = Inr (h k)" "distinct ks"
  shows "rfold (\<lambda>t k. mapCommandArguments t k fn) t ks
       = Inr (t\<lparr>commands := map (\<lambda>k. if k \<in> set ks then h k else commands t ! k) [0..<length (commands t)]\<rparr>)"
  using assms
proof (induction ks arbitrary: t)
  case Nil
  have "map ((!) (commands t)) [0..<length (commands t)] = commands t" by (rule map_nth)
  then show ?case by simp
next
  case (Cons k ks)
  let ?t = "t\<lparr>commands := (commands t)[k := h k]\<rparr>"
  have k: "k < length (commands t)" "traverse_command (\<lambda>a. fn a k) (commands t ! k) = Inr (h k)" "k \<notin> set ks"
    using Cons.prems by auto
  then have "mapCommandArguments t k fn = Inr ?t" by (simp add: mapCommandArguments_def)
  moreover have "rfold (\<lambda>t k. mapCommandArguments t k fn) ?t ks
      = Inr (?t\<lparr>commands := map (\<lambda>k. if k \<in> set ks then h k else commands ?t ! k) [0..<length (commands ?t)]\<rparr>)"
    by (rule Cons.IH) (use Cons.prems k(3) in \<open>auto simp: nth_list_update\<close>)
  moreover have "map (\<lambda>j. if j \<in> set ks then h j else commands ?t ! j) [0..<length (commands ?t)]
      = map (\<lambda>j. if j \<in> set (k # ks) then h j else commands t ! j) [0..<length (commands t)]"
    using k by (auto simp: nth_list_update)
  ultimately show ?case by simp
qed

lemma mapArguments_Inr:
  assumes "\<And>k. k < length (commands t) \<Longrightarrow> traverse_command (\<lambda>a. fn a k) (commands t ! k) = Inr (h k)"
  shows "mapArguments t fn = Inr (t\<lparr>commands := map h [0..<length (commands t)]\<rparr>)"
proof -
  have "mapArguments t fn
      = Inr (t\<lparr>commands := map (\<lambda>k. if k \<in> set [0..<length (commands t)] then h k else commands t ! k) [0..<length (commands t)]\<rparr>)"
    unfolding mapArguments_def by (rule mapArguments_loop) (use assms in auto)
  also have "map (\<lambda>k. if k \<in> set [0..<length (commands t)] then h k else commands t ! k) [0..<length (commands t)]
      = map h [0..<length (commands t)]" by auto
  finally show ?thesis .
qed

text \<open>A callback that leaves a first part of the commands alone and does the same to the rest.\<close>

lemma mapArguments_split:
  assumes "commands t = xs @ ys @ zs"
    and "\<And>a k. k < length xs \<Longrightarrow> fn a k = Inr (g1 a)"
    and "\<And>a k. length xs \<le> k \<Longrightarrow> k < length xs + length ys \<Longrightarrow> fn a k = Inr a"
    and "\<And>a k c. c \<in> set zs \<Longrightarrow> a \<in> set (command_args c) \<Longrightarrow> length xs + length ys \<le> k \<Longrightarrow> fn a k = Inr (g a)"
  shows "mapArguments t fn = Inr (t\<lparr>commands := map (command_map g1) xs @ ys @ map (command_map g) zs\<rparr>)"
proof -
  have id: "command_map (\<lambda>a. a) c = c" for c :: "'a command"
  proof (cases c)
    case (Intent name ins data)
    have "map_intent (\<lambda>a. a) i = i" for i by (cases i) auto
    with Intent show ?thesis by (simp add: map_idI)
  qed auto
  let ?n = "length xs" and ?m = "length xs + length ys"
  let ?h = "\<lambda>k. if k < ?n then command_map g1 (xs ! k) else if k < ?m then ys ! (k - ?n) else command_map g (zs ! (k - ?m))"
  have "mapArguments t fn = Inr (t\<lparr>commands := map ?h [0..<length (commands t)]\<rparr>)"
  proof (rule mapArguments_Inr)
    fix k assume k: "k < length (commands t)"
    consider "k < ?n" | "?n \<le> k" "k < ?m" | "?m \<le> k" by linarith
    then show "traverse_command (\<lambda>a. fn a k) (commands t ! k) = Inr (?h k)"
    proof cases
      case 1
      have "traverse_command (\<lambda>a. fn a k) (xs ! k) = Inr (command_map g1 (xs ! k))"
        using assms(2) [OF 1] by (intro map_command_Inr)
      with 1 show ?thesis by (simp add: assms(1) nth_append)
    next
      case 2
      have "traverse_command (\<lambda>a. fn a k) (ys ! (k - ?n)) = Inr (command_map (\<lambda>a. a) (ys ! (k - ?n)))"
        using assms(3) [OF 2] by (intro map_command_Inr)
      with 2 show ?thesis by (auto simp: assms(1) nth_append id)
    next
      case 3
      then have zs: "zs ! (k - ?m) \<in> set zs" using k by (simp add: assms(1))
      have "traverse_command (\<lambda>a. fn a k) (zs ! (k - ?m)) = Inr (command_map g (zs ! (k - ?m)))"
        using assms(4) [OF zs _ 3] by (intro map_command_Inr)
      moreover have "\<not> k < ?n" "\<not> k - ?n < length ys" "k - ?n - length ys = k - ?m" using 3 by auto
      ultimately show ?thesis using 3 by (simp add: assms(1) nth_append)
    qed
  qed
  also have "map ?h [0..<length (commands t)] = map (command_map g1) xs @ ys @ map (command_map g) zs"
    by (rule nth_equalityI) (auto simp: assms(1) nth_append)
  finally show ?thesis .
qed

subsection \<open>Well-formed transactions\<close>

text \<open>An argument of the command \<open>k\<close>: an input that exists, or a result of an earlier command.\<close>

fun arg_ok :: "nat \<Rightarrow> nat \<Rightarrow> argument \<Rightarrow> bool" where
  "arg_ok n k GasCoin = True"
| "arg_ok n k (Input i _) = (0 \<le> i \<and> i < int n)"
| "arg_ok n k (Result r) = (0 \<le> r \<and> r < int k)"
| "arg_ok n k (NestedResult r j) = (0 \<le> r \<and> r < int k \<and> 0 \<le> j)"

definition commands_ok :: "nat \<Rightarrow> nat \<Rightarrow> 'v command list \<Rightarrow> bool" where
  "commands_ok n from cs \<longleftrightarrow> (\<forall>k < length cs. \<forall>a \<in> set (command_args (cs ! k)). arg_ok n (from + k) a)"

definition wf_tx :: "'v tx_data \<Rightarrow> bool" where
  "wf_tx t \<longleftrightarrow> commands_ok (length (inputs t)) 0 (commands t)"

lemma commands_ok_append:
  "commands_ok n from (xs @ ys) \<longleftrightarrow> commands_ok n from xs \<and> commands_ok n (from + length xs) ys"
proof
  assume "commands_ok n from (xs @ ys)"
  then have all: "k < length xs + length ys \<Longrightarrow> a \<in> set (command_args ((xs @ ys) ! k)) \<Longrightarrow> arg_ok n (from + k) a" for k a
    by (simp add: commands_ok_def)
  show "commands_ok n from xs \<and> commands_ok n (from + length xs) ys"
    unfolding commands_ok_def
  proof (intro conjI allI impI ballI)
    show "arg_ok n (from + k) a" if "k < length xs" "a \<in> set (command_args (xs ! k))" for k a
      using all [of k a] that by (simp add: nth_append)
    show "arg_ok n (from + length xs + k) a" if "k < length ys" "a \<in> set (command_args (ys ! k))" for k a
      using all [of "length xs + k" a] that by (simp add: nth_append add.assoc)
  qed
next
  assume ok: "commands_ok n from xs \<and> commands_ok n (from + length xs) ys"
  show "commands_ok n from (xs @ ys)"
    unfolding commands_ok_def
  proof (intro allI impI ballI)
    fix k a assume k: "k < length (xs @ ys)" "a \<in> set (command_args ((xs @ ys) ! k))"
    show "arg_ok n (from + k) a"
    proof (cases "k < length xs")
      case False
      then have "from + length xs + (k - length xs) = from + k" by simp
      with ok k False show ?thesis unfolding commands_ok_def
        by (metis add_diff_inverse_nat length_append nat_add_left_cancel_less nth_append)
    qed (use ok k in \<open>auto simp: commands_ok_def nth_append\<close>)
  qed
qed

lemma commands_ok_map:
  assumes "commands_ok n from cs"
    and "\<And>k a. k < length cs \<Longrightarrow> arg_ok n (from + k) a \<Longrightarrow> a \<in> set (command_args (cs ! k)) \<Longrightarrow> arg_ok n' (from' + k) (g a)"
  shows "commands_ok n' from' (map (command_map g) cs)"
  using assms by (auto simp: commands_ok_def command_args_map)

lemma arg_ok_mono: "arg_ok n k a \<Longrightarrow> n \<le> n' \<Longrightarrow> k \<le> k' \<Longrightarrow> arg_ok n' k' a"
  by (cases a) auto

lemma commands_ok_mono: "commands_ok n from cs \<Longrightarrow> n \<le> n' \<Longrightarrow> commands_ok n' from cs"
  by (auto simp: commands_ok_def intro: arg_ok_mono)

subsection \<open>Inserting a transaction\<close>

lemma find_index_Some: "find_index P xs = Some k \<Longrightarrow> k < length xs \<and> P (xs ! k)"
  by (induction xs arbitrary: k) (auto split: if_splits)

lemma getId_merge: "getIdFromCallArg (merge_shared a b) = getIdFromCallArg a"
  by (cases "(a, b)" rule: merge_shared.cases) auto

lemma merge_same_kind: "is_unresolved (merge_shared a b) = is_unresolved a"
  by (cases "(a, b)" rule: merge_shared.cases) auto

text \<open>What the loop over the inputs keeps: the inputs already there stay in place with their ids, and
  every input seen is mapped to an input with its id, or to itself when it has none.\<close>

definition inputs_inv :: "'v call_arg list \<Rightarrow> 'v call_arg list \<Rightarrow> nat \<Rightarrow> 'v call_arg list \<times> (nat \<rightharpoonup> nat) \<Rightarrow> bool" where
  "inputs_inv old other n s \<longleftrightarrow>
     (case s of (ins, m) \<Rightarrow>
        length old \<le> length ins \<and>
        (\<forall>i < length old. getIdFromCallArg (ins ! i) = getIdFromCallArg (old ! i) \<and>
           (getIdFromCallArg (old ! i) = None \<longrightarrow> ins ! i = old ! i)) \<and>
        dom m = {..<n} \<and>
        (\<forall>j < n. \<exists>k. m j = Some k \<and> k < length ins \<and> getIdFromCallArg (ins ! k) = getIdFromCallArg (other ! j) \<and>
           (getIdFromCallArg (other ! j) = None \<longrightarrow> ins ! k = other ! j)))"

lemma insert_input_inv:
  assumes "inputs_inv old other n (ins, m)"
  shows "inputs_inv old other (Suc n) (insert_input (ins, m) (n, other ! n))"
proof -
  note inv = assms[unfolded inputs_inv_def prod.case]
  let ?o = "other ! n"
  show ?thesis
  proof (cases "case getIdFromCallArg ?o of None \<Rightarrow> None
      | Some objId \<Rightarrow> find_index (\<lambda>input. getIdFromCallArg input = Some objId) ins")
    case None
    then have "insert_input (ins, m) (n, ?o) = (ins @ [?o], m(n \<mapsto> length ins))"
      by (simp add: insert_input_def)
    moreover have "inputs_inv old other (Suc n) (ins @ [?o], m(n \<mapsto> length ins))"
      unfolding inputs_inv_def prod.case
    proof (intro conjI allI impI)
      show "length old \<le> length (ins @ [?o])" using inv by simp
      show "getIdFromCallArg ((ins @ [?o]) ! i) = getIdFromCallArg (old ! i)"
        "getIdFromCallArg (old ! i) = None \<Longrightarrow> (ins @ [?o]) ! i = old ! i" if "i < length old" for i
        using inv that by (auto simp: nth_append)
      show "dom (m(n \<mapsto> length ins)) = {..<Suc n}" using inv by auto
      fix j assume j: "j < Suc n"
      show "\<exists>k. (m(n \<mapsto> length ins)) j = Some k \<and> k < length (ins @ [?o]) \<and>
          getIdFromCallArg ((ins @ [?o]) ! k) = getIdFromCallArg (other ! j) \<and>
          (getIdFromCallArg (other ! j) = None \<longrightarrow> (ins @ [?o]) ! k = other ! j)"
      proof (cases "j = n")
        case False
        with inv j obtain k where "m j = Some k" "k < length ins" "getIdFromCallArg (ins ! k) = getIdFromCallArg (other ! j)"
          "getIdFromCallArg (other ! j) = None \<longrightarrow> ins ! k = other ! j" by (metis less_SucE)
        with False show ?thesis by (intro exI [of _ k]) (simp add: nth_append)
      qed simp
    qed
    ultimately show ?thesis by simp
  next
    case (Some k)
    then obtain objId where objId: "getIdFromCallArg ?o = Some objId" by (auto split: option.splits)
    with Some have k: "k < length ins" "getIdFromCallArg (ins ! k) = Some objId" using find_index_Some by fastforce+
    let ?ins = "ins[k := merge_shared (ins ! k) ?o]"
    have same: "getIdFromCallArg (?ins ! i) = getIdFromCallArg (ins ! i)" if "i < length ins" for i
      using that k(1) by (auto simp: nth_list_update getId_merge)
    have same': "getIdFromCallArg (ins ! i) = None \<Longrightarrow> ?ins ! i = ins ! i" for i
      using k by (auto simp: nth_list_update)
    have "insert_input (ins, m) (n, ?o) = (?ins, m(n \<mapsto> k))" using Some by (simp add: insert_input_def)
    moreover have "inputs_inv old other (Suc n) (?ins, m(n \<mapsto> k))"
      unfolding inputs_inv_def prod.case
    proof (intro conjI allI impI)
      show "length old \<le> length ?ins" using inv by simp
      show "getIdFromCallArg (?ins ! i) = getIdFromCallArg (old ! i)"
        "getIdFromCallArg (old ! i) = None \<Longrightarrow> ?ins ! i = old ! i" if "i < length old" for i
        using inv that same [of i] same' [of i] by auto
      show "dom (m(n \<mapsto> k)) = {..<Suc n}" using inv by auto
      fix j assume j: "j < Suc n"
      show "\<exists>k'. (m(n \<mapsto> k)) j = Some k' \<and> k' < length ?ins \<and>
          getIdFromCallArg (?ins ! k') = getIdFromCallArg (other ! j) \<and>
          (getIdFromCallArg (other ! j) = None \<longrightarrow> ?ins ! k' = other ! j)"
      proof (cases "j = n")
        case False
        with inv j obtain k' where "m j = Some k'" "k' < length ins" "getIdFromCallArg (ins ! k') = getIdFromCallArg (other ! j)"
          "getIdFromCallArg (other ! j) = None \<longrightarrow> ins ! k' = other ! j" by (metis less_SucE)
        with False same [of k'] same' [of k'] show ?thesis by (intro exI [of _ k']) auto
      qed (use k objId same [of k] in auto)
    qed
    ultimately show ?thesis by simp
  qed
qed

lemma insert_inputs_inv:
  "n \<le> length other \<Longrightarrow> inputs_inv old other n (foldl insert_input (old, Map.empty) (take n (enumerate 0 other)))"
proof (induction n)
  case (Suc n)
  let ?s = "foldl insert_input (old, Map.empty) (take n (enumerate 0 other))"
  have "take (Suc n) (enumerate 0 other) = take n (enumerate 0 other) @ [(n, other ! n)]"
    using Suc.prems by (simp add: take_Suc_conv_app_nth nth_enumerate_eq)
  then show ?case
    using insert_input_inv [of old other n "fst ?s" "snd ?s"] Suc by simp
qed (simp add: inputs_inv_def)

text \<open>The inputs after an insertion, and where each input of the other transaction went.\<close>

definition merged_inputs :: "'v tx_data \<Rightarrow> 'v tx_data \<Rightarrow> 'v call_arg list" where
  "merged_inputs t other = fst (foldl insert_input (inputs t, Map.empty) (enumerate 0 (inputs other)))"

definition input_index :: "'v tx_data \<Rightarrow> 'v tx_data \<Rightarrow> nat \<rightharpoonup> nat" where
  "input_index t other = snd (foldl insert_input (inputs t, Map.empty) (enumerate 0 (inputs other)))"

lemma merged_inputs_inv: "inputs_inv (inputs t) (inputs other) (length (inputs other)) (merged_inputs t other, input_index t other)"
  using insert_inputs_inv [of "length (inputs other)" "inputs other" "inputs t"]
  by (simp add: merged_inputs_def input_index_def)

text \<open>How the arguments of the inserted commands change.\<close>

definition moved_arg :: "(nat \<rightharpoonup> nat) \<Rightarrow> nat \<Rightarrow> argument \<Rightarrow> argument" where
  "moved_arg m atIndex arg =
     (case arg of
        Input i ty \<Rightarrow> Input (int (the (m (nat i)))) ty
      | Result r \<Rightarrow> Result (r + int atIndex)
      | NestedResult r j \<Rightarrow> NestedResult (r + int atIndex) j
      | GasCoin \<Rightarrow> GasCoin)"

lemma remapArg_moved:
  assumes "arg_ok n k arg" "k \<le> l" "dom m = {..<n}"
  shows "remapArg m (\<lambda>i. if i < l then Some (atIndex + i) else None) arg = Inr (moved_arg m atIndex arg)"
proof (cases arg)
  case (Input i ty)
  then have "nat i \<in> dom m" using assms by (auto simp: assms(3))
  then show ?thesis using assms(1) Input by (auto simp: remapArg_def moved_arg_def)
qed (use assms(1,2) in \<open>auto simp: remapArg_def moved_arg_def Let_def\<close>)

lemma insertTransaction_eq:
  assumes "wf_tx other" "atIndex \<le> length (commands t)"
  shows "insertTransaction t atIndex other =
    Inr (t\<lparr>inputs := merged_inputs t other,
           commands := map (command_map (shift_arg atIndex (length (commands other)))) (take atIndex (commands t)) @
                       map (command_map (moved_arg (input_index t other) atIndex)) (commands other) @
                       map (command_map (shift_arg atIndex (length (commands other)))) (drop atIndex (commands t))\<rparr>)"
proof -
  let ?n = "length (commands other)" and ?m = "input_index t other"
  let ?cm = "\<lambda>i. if i < ?n then Some (atIndex + i) else None"
  let ?new = "map (command_map (moved_arg ?m atIndex)) (commands other)"
  let ?g = "shift_arg atIndex ?n"
  have dom: "dom ?m = {..<length (inputs other)}" using merged_inputs_inv [of t other] by (simp add: inputs_inv_def)
  have pair: "foldl insert_input (inputs t, Map.empty) (enumerate 0 (inputs other)) = (merged_inputs t other, ?m)"
    by (simp add: merged_inputs_def input_index_def)
  have remap: "rmapM (\<lambda>c. remapCommandArguments c ?m ?cm) (commands other) = Inr ?new"
  proof (rule rmapM_Inr)
    fix c assume "c \<in> set (commands other)"
    then obtain k where k: "k < ?n" "commands other ! k = c" by (auto simp: in_set_conv_nth)
    show "remapCommandArguments c ?m ?cm = Inr (command_map (moved_arg ?m atIndex) c)"
      unfolding remapCommandArguments_def
    proof (rule map_command_Inr)
      fix a assume "a \<in> set (command_args c)"
      then have "arg_ok (length (inputs other)) k a" using assms(1) k by (auto simp: wf_tx_def commands_ok_def)
      then show "remapArg ?m ?cm a = Inr (moved_arg ?m atIndex a)"
        using dom k(1) by (intro remapArg_moved) auto
    qed
  qed
  let ?t = "t\<lparr>inputs := merged_inputs t other, commands := take atIndex (commands t) @ ?new @ drop atIndex (commands t)\<rparr>"
  have shift0: "command_map (shift_arg atIndex 0) c = c" for c :: "'a command"
  proof -
    have "shift_arg atIndex 0 = (\<lambda>a. a)" by (auto simp: shift_arg_def fun_eq_iff split: argument.splits)
    moreover have "map_intent (\<lambda>a. a) i = i" for i by (cases i) auto
    ultimately show ?thesis by (cases c) (auto simp: map_idI)
  qed
  have "insertTransaction t atIndex other =
      (if ?n > 0 then mapArguments ?t (\<lambda>arg k. Inr (if atIndex \<le> k \<and> k < atIndex + ?n then arg else ?g arg)) else Inr ?t)"
    by (simp add: insertTransaction_def pair remap Let_def cong: if_cong)
  moreover have "mapArguments ?t (\<lambda>arg k. Inr (if atIndex \<le> k \<and> k < atIndex + ?n then arg else ?g arg))
      = Inr (?t\<lparr>commands := map (command_map ?g) (take atIndex (commands t)) @ ?new @ map (command_map ?g) (drop atIndex (commands t))\<rparr>)"
    by (rule mapArguments_split) (use assms(2) in auto)
  ultimately show ?thesis by (auto simp: shift0 map_idI)
qed

lemma insertTransaction_shape:
  assumes "wf_tx t" "wf_tx other" "atIndex \<le> length (commands t)"
  shows "\<exists>t'. insertTransaction t atIndex other = Inr t' \<and> wf_tx t' \<and>
    commands t' =
      map (command_map (shift_arg atIndex (length (commands other)))) (take atIndex (commands t)) @
      map (command_map (moved_arg (input_index t other) atIndex)) (commands other) @
      map (command_map (shift_arg atIndex (length (commands other)))) (drop atIndex (commands t))"
proof -
  let ?n = "length (commands other)" and ?m = "input_index t other"
  let ?ins = "merged_inputs t other" and ?g = "shift_arg atIndex ?n"
  let ?xs = "take atIndex (commands t)" and ?zs = "drop atIndex (commands t)"
  note inv = merged_inputs_inv [of t other, unfolded inputs_inv_def prod.case]
  have len: "length (inputs t) \<le> length ?ins" using inv by simp
  have old: "commands_ok (length (inputs t)) 0 ?xs" "commands_ok (length (inputs t)) atIndex ?zs"
    using commands_ok_append [of _ 0 ?xs ?zs] assms(1,3) by (auto simp: wf_tx_def min_absorb2)
  have "commands_ok (length ?ins) 0 (map (command_map ?g) ?xs)"
    by (rule commands_ok_map [OF old(1)])
      (use len assms(3) in \<open>auto simp: shift_arg_def split: argument.splits\<close>)
  moreover have "commands_ok (length ?ins) atIndex (map (command_map (moved_arg ?m atIndex)) (commands other))"
  proof (rule commands_ok_map)
    show "commands_ok (length (inputs other)) 0 (commands other)" using assms(2) by (simp add: wf_tx_def)
    fix k a assume ok: "arg_ok (length (inputs other)) (0 + k) a"
    show "arg_ok (length ?ins) (atIndex + k) (moved_arg ?m atIndex a)"
    proof (cases a)
      case (Input i ty)
      with ok have "nat i < length (inputs other)" by auto
      with inv obtain l where "?m (nat i) = Some l" "l < length ?ins" by blast
      with Input show ?thesis by (simp add: moved_arg_def)
    qed (use ok in \<open>auto simp: moved_arg_def\<close>)
  qed
  moreover have "commands_ok (length ?ins) (atIndex + ?n) (map (command_map ?g) ?zs)"
    by (rule commands_ok_map [OF old(2)])
      (use len in \<open>auto simp: shift_arg_def split: argument.splits\<close>)
  ultimately have "commands_ok (length ?ins) 0 (map (command_map ?g) ?xs @
      map (command_map (moved_arg ?m atIndex)) (commands other) @ map (command_map ?g) ?zs)"
    using assms(3) by (simp add: commands_ok_append min_absorb2)
  then show ?thesis
    using insertTransaction_eq [OF assms(2,3)] by (simp add: wf_tx_def)
qed

text \<open>Where a command of the transaction is after an insertion, and an argument that follows the commands.\<close>

definition place_after :: "nat \<Rightarrow> nat \<Rightarrow> int \<Rightarrow> int" where
  "place_after atIndex n r = (if r < int atIndex then r else r + int n)"

definition follow :: "(int \<Rightarrow> int) \<Rightarrow> (int \<Rightarrow> int) \<Rightarrow> argument \<Rightarrow> argument" where
  "follow place input_place arg =
     (case arg of
        Input i ty \<Rightarrow> Input (input_place i) ty
      | Result r \<Rightarrow> Result (place r)
      | NestedResult r j \<Rightarrow> NestedResult (place r) j
      | GasCoin \<Rightarrow> GasCoin)"

lemma shift_arg_follow: "shift_arg atIndex n = follow (place_after atIndex n) (\<lambda>i. i)"
  by (auto simp: fun_eq_iff shift_arg_def follow_def place_after_def split: argument.splits)

lemma moved_arg_follow:
  "moved_arg m atIndex = follow (\<lambda>r. r + int atIndex) (\<lambda>i. int (the (m (nat i))))"
  by (auto simp: fun_eq_iff moved_arg_def follow_def split: argument.splits)

text \<open>C11: Inserting a well-formed transaction always succeeds and keeps the transaction well formed. Every old
  command is found at its place after the insertion and its references follow the commands and stay at
  their inputs; every inserted command is found behind the insertion point, and its references follow
  the commands of the other transaction and the places its inputs were given.\<close>

theorem insertTransaction_wf:
  assumes "wf_tx t" "wf_tx other" "atIndex \<le> length (commands t)"
  shows "\<exists>t'. insertTransaction t atIndex other = Inr t' \<and> wf_tx t' \<and>
    length (commands t') = length (commands t) + length (commands other) \<and>
    (\<forall>k < length (commands t).
       commands t' ! nat (place_after atIndex (length (commands other)) (int k)) =
         command_map (follow (place_after atIndex (length (commands other))) (\<lambda>i. i)) (commands t ! k)) \<and>
    (\<forall>k < length (commands other).
       commands t' ! (atIndex + k) =
         command_map (follow (\<lambda>r. r + int atIndex) (\<lambda>i. int (the (input_index t other (nat i))))) (commands other ! k))"
proof -
  obtain t' where t': "insertTransaction t atIndex other = Inr t'" "wf_tx t'"
    and cs: "commands t' =
      map (command_map (shift_arg atIndex (length (commands other)))) (take atIndex (commands t)) @
      map (command_map (moved_arg (input_index t other) atIndex)) (commands other) @
      map (command_map (shift_arg atIndex (length (commands other)))) (drop atIndex (commands t))"
    using insertTransaction_shape [OF assms] by blast
  have "nat (int k + int n) - n - a = k - a" for k n a :: nat by linarith
  then show ?thesis
    using t' assms(3)
    by (intro exI [of _ t'])
      (auto simp: cs shift_arg_follow moved_arg_follow nth_append place_after_def min_absorb2 nat_add_distrib)
qed

text \<open>After an insertion every input that was there keeps its place and its object id, and every
  input of the other transaction is found at the place its uses were sent to.\<close>

theorem insertTransaction_inputs:
  assumes "wf_tx other" "atIndex \<le> length (commands t)"
  shows "\<exists>t'. insertTransaction t atIndex other = Inr t' \<and>
    (\<forall>i < length (inputs t). i < length (inputs t') \<and>
       getIdFromCallArg (inputs t' ! i) = getIdFromCallArg (inputs t ! i) \<and>
       (getIdFromCallArg (inputs t ! i) = None \<longrightarrow> inputs t' ! i = inputs t ! i)) \<and>
    (\<forall>j < length (inputs other). \<exists>k. input_index t other j = Some k \<and> k < length (inputs t') \<and>
       getIdFromCallArg (inputs t' ! k) = getIdFromCallArg (inputs other ! j) \<and>
       (getIdFromCallArg (inputs other ! j) = None \<longrightarrow> inputs t' ! k = inputs other ! j))"
  using merged_inputs_inv [of t other] insertTransaction_eq [OF assms]
  by (auto simp: inputs_inv_def)

definition example_tx :: "unit tx_data" where
  "example_tx = empty_tx\<lparr>inputs := [Pure ''AQ==''],
     commands := [SplitCoins GasCoin [Input 0 None], TransferObjects [Result 0] (Input 0 None)]\<rparr>"

lemma example_tx_wf: "wf_tx example_tx"
  by (auto simp: wf_tx_def example_tx_def empty_tx_def commands_ok_def less_Suc_eq)

lemma insertTransaction_wf_witness:
  "\<exists>t'. insertTransaction example_tx 1 example_tx = Inr t' \<and> wf_tx t' \<and>
    length (commands t') = length (commands example_tx) + length (commands example_tx) \<and>
    (\<forall>k < length (commands example_tx).
       commands t' ! nat (place_after 1 (length (commands example_tx)) (int k)) =
         command_map (follow (place_after 1 (length (commands example_tx))) (\<lambda>i. i)) (commands example_tx ! k)) \<and>
    (\<forall>k < length (commands example_tx).
       commands t' ! (1 + k) =
         command_map (follow (\<lambda>r. r + int 1) (\<lambda>i. int (the (input_index example_tx example_tx (nat i))))) (commands example_tx ! k))"
  by (rule insertTransaction_wf) (simp_all add: example_tx_wf, simp add: example_tx_def)

lemma insertTransaction_inputs_witness:
  "\<exists>t'. insertTransaction example_tx 1 example_tx = Inr t' \<and>
    (\<forall>i < length (inputs example_tx). i < length (inputs t') \<and>
       getIdFromCallArg (inputs t' ! i) = getIdFromCallArg (inputs example_tx ! i) \<and>
       (getIdFromCallArg (inputs example_tx ! i) = None \<longrightarrow> inputs t' ! i = inputs example_tx ! i)) \<and>
    (\<forall>j < length (inputs example_tx). \<exists>k. input_index example_tx example_tx j = Some k \<and> k < length (inputs t') \<and>
       getIdFromCallArg (inputs t' ! k) = getIdFromCallArg (inputs example_tx ! j) \<and>
       (getIdFromCallArg (inputs example_tx ! j) = None \<longrightarrow> inputs t' ! k = inputs example_tx ! j))"
  by (rule insertTransaction_inputs) (simp add: example_tx_wf, simp add: example_tx_def)

subsection \<open>Replacing commands\<close>

text \<open>Where a reference of a later command goes when the command \<open>index\<close> is replaced by \<open>n\<close> commands
  and \<open>target\<close> stands for its result.\<close>

definition retarget :: "nat \<Rightarrow> nat \<Rightarrow> argument \<Rightarrow> argument \<Rightarrow> argument" where
  "retarget index n target arg =
     (if refers_to arg (int index) then target
      else case arg of
        Result r \<Rightarrow> Result (if r > int index then r + int n - 1 else r)
      | NestedResult r j \<Rightarrow> NestedResult (if r > int index then r + int n - 1 else r) j
      | _ \<Rightarrow> arg)"

lemma replace_arg_target:
  assumes "\<not> is_RNum target" "index + n \<le> k" "\<And>j. arg = NestedResult (int index) j \<Longrightarrow> j = 0"
  shows "replace_arg index n target arg k = Inr (retarget index n (result_argument target) arg)"
  using assms
  by (cases arg; cases target) (auto simp: replace_arg_def retarget_def refers_to_def is_RNum_def)

lemma replaceCommand_target:
  assumes "\<not> is_RNum target" "index < length (commands t)"
    and "\<And>c j. c \<in> set (drop (index + 1) (commands t)) \<Longrightarrow> NestedResult (int index) j \<in> set (command_args c) \<Longrightarrow> j = 0"
  shows "replaceCommand t index cs target =
    Inr (t\<lparr>commands := take index (commands t) @ cs @
            map (command_map (retarget index (length cs) (result_argument target))) (drop (index + 1) (commands t))\<rparr>)"
proof -
  let ?n = "length cs"
  let ?t = "t\<lparr>commands := take index (commands t) @ cs @ drop (index + 1) (commands t)\<rparr>"
  have "mapArguments ?t (replace_arg index ?n target) =
      Inr (?t\<lparr>commands := map (command_map (\<lambda>a. a)) [] @ (take index (commands t) @ cs) @
             map (command_map (retarget index ?n (result_argument target))) (drop (index + 1) (commands t))\<rparr>)"
  proof (rule mapArguments_split)
    show "replace_arg index ?n target a k = Inr a"
      if "length [] \<le> k" "k < length [] + length (take index (commands t) @ cs)" for a k
      using that assms(2) by (simp add: replace_arg_def)
    show "replace_arg index ?n target a k = Inr (retarget index ?n (result_argument target) a)"
      if "c \<in> set (drop (index + 1) (commands t))" "a \<in> set (command_args c)"
        "length [] + length (take index (commands t) @ cs) \<le> k" for a k c
      by (rule replace_arg_target [OF assms(1)]) (use that assms(2,3) in auto)
  qed auto
  then show ?thesis by (simp add: replaceCommand_def Let_def)
qed

lemma shift_arg_nested:
  "shift_arg atIndex n a = NestedResult r j \<Longrightarrow>
   \<exists>r'. a = NestedResult r' j \<and> r = (if r' \<ge> int atIndex then r' + int n else r')"
  by (cases a) (auto simp: shift_arg_def)

text \<open>A reference to the shifted command was a reference to the command, so it keeps its value index.\<close>

lemma shifted_nested_zero:
  assumes "\<And>c j. c \<in> set cs \<Longrightarrow> NestedResult (int index) j \<in> set (command_args c) \<Longrightarrow> j = 0"
    and "c \<in> set (map (command_map (shift_arg index n)) cs)"
    and "NestedResult (int (index + n)) j \<in> set (command_args c)"
  shows "j = 0"
proof -
  obtain c' where c': "c' \<in> set cs" "c = command_map (shift_arg index n) c'" using assms(2) by auto
  with assms(3) obtain a where a: "a \<in> set (command_args c')" "shift_arg index n a = NestedResult (int (index + n)) j"
    by (auto simp: command_args_map)
  from shift_arg_nested [OF a(2)] have "a = NestedResult (int index) j" by (auto split: if_splits)
  with a(1) c'(1) assms(1) show "j = 0" by metis
qed

lemma commands_ok_around:
  "commands_ok n from (xs @ c # ys) \<Longrightarrow> commands_ok n from xs \<and> commands_ok n (from + length xs + 1) ys"
  using commands_ok_append [of n "from" xs "[c] @ ys"] commands_ok_append [of n "from + length xs" "[c]" ys] by simp

text \<open>C34: Replacing a command by a whole transaction keeps a transaction well formed when the result
  chosen is one of the inserted commands and no later command uses another value of the replaced command than its first.\<close>

theorem replaceCommandWithTransaction_wf:
  assumes "wf_tx t" "wf_tx other" "index < length (commands t)"
    and "arg_ok 0 (length (commands other)) result" "result \<noteq> GasCoin"
    and "\<And>c j. c \<in> set (commands t) \<Longrightarrow> NestedResult (int index) j \<in> set (command_args c) \<Longrightarrow> j = 0"
  shows "\<exists>t'. replaceCommandWithTransaction t index other result = Inr t' \<and> wf_tx t' \<and>
    length (commands t') = length (commands t) + length (commands other) - 1"
proof -
  let ?n = "length (commands other)" and ?m = "input_index t other"
  let ?g = "shift_arg index ?n"
  let ?xs = "map (command_map ?g) (take index (commands t)) @ map (command_map (moved_arg ?m index)) (commands other)"
  obtain c0 rest where split: "drop index (commands t) = c0 # rest" "rest = drop (index + 1) (commands t)"
    using assms(3) by (metis Cons_nth_drop_Suc Suc_eq_plus1)
  obtain t1 where t1: "insertTransaction t index other = Inr t1" "wf_tx t1"
    "commands t1 = ?xs @ command_map ?g c0 # map (command_map ?g) rest"
    using insertTransaction_shape [OF assms(1,2), of index] assms(3) split(1) by auto
  obtain r j where rj: "result = Result r \<and> j = 0 \<or> result = NestedResult r j" "0 \<le> r" "r < int ?n" "0 \<le> j"
    using assms(4,5) by (cases result) auto
  let ?target = "RNested (r + int index) j"
  let ?at = "index + ?n"
  have lxs: "length ?xs = ?at" using assms(3) by simp
  have at: "?at < length (commands t1)" "take ?at (commands t1) = ?xs"
    "drop (?at + 1) (commands t1) = map (command_map ?g) rest"
    unfolding t1(3) using lxs by simp_all
  have nested: "j' = 0"
    if mem: "c \<in> set (drop (?at + 1) (commands t1))" and arg: "NestedResult (int ?at) j' \<in> set (command_args c)" for c j'
  proof (rule shifted_nested_zero [OF _ mem [unfolded at(3)] arg])
    show "j = 0" if "c \<in> set rest" "NestedResult (int index) j \<in> set (command_args c)" for c j
      using assms(6) that split(2) by (metis in_set_dropD)
  qed
  have rep: "replaceCommand t1 ?at [] ?target =
      Inr (t1\<lparr>commands := ?xs @ map (command_map (retarget ?at 0 (NestedResult (r + int index) j))) (map (command_map ?g) rest)\<rparr>)"
    using replaceCommand_target [of ?target ?at t1 "[]"] nested at by (simp add: is_RNum_def)
  have ok: "commands_ok (length (inputs t1)) 0 ?xs" "commands_ok (length (inputs t1)) (?at + 1) (map (command_map ?g) rest)"
    using t1(2) commands_ok_around [of _ 0 ?xs] lxs unfolding wf_tx_def t1(3) by fastforce+
  have "commands_ok (length (inputs t1)) ?at
      (map (command_map (retarget ?at 0 (NestedResult (r + int index) j))) (map (command_map ?g) rest))"
    by (rule commands_ok_map [OF ok(2)])
      (use rj in \<open>auto simp: retarget_def refers_to_def split: argument.splits\<close>)
  with ok(1) lxs have "wf_tx (t1\<lparr>commands := ?xs @
      map (command_map (retarget ?at 0 (NestedResult (r + int index) j))) (map (command_map ?g) rest)\<rparr>)"
    by (simp add: wf_tx_def commands_ok_append)
  moreover have "replaceCommandWithTransaction t index other result = replaceCommand t1 ?at [] ?target"
    using rj(1) t1(1) by (auto simp: replaceCommandWithTransaction_def)
  moreover have "length rest = length (commands t) - index - 1" using split(2) by simp
  ultimately show ?thesis using rep lxs assms(3) by (auto simp: add.commute)
qed

lemma replaceCommandWithTransaction_wf_witness:
  "\<exists>t'. replaceCommandWithTransaction example_tx 0 example_tx (Result 0) = Inr t' \<and> wf_tx t' \<and>
    length (commands t') = length (commands example_tx) + length (commands example_tx) - 1"
  by (rule replaceCommandWithTransaction_wf)
    (simp_all add: example_tx_wf, auto simp: example_tx_def)

text \<open>A reference to the replaced command is sent to \<open>k\<close>, and a \<open>Result\<close> is then shifted once more.\<close>

lemma replace_arg_double_shift:
  assumes "index < k" "index + n \<le> commandIndex"
  shows "replace_arg index n (RNum (int k)) (Result (int index)) commandIndex = Inr (Result (int k + (int n - 1)))"
    and "replace_arg index n (RNum (int k)) (NestedResult (int index) j) commandIndex = Inr (NestedResult (int k) j)"
  using assms by (auto simp: replace_arg_def is_RNum_def)

text \<open>Replacing a command by other commands with the number of one of them as the result index shifts
  a Result twice, while a NestedResult is shifted once: on a well-formed transaction the second of two
  replacing commands, named as the result, becomes a reference of the next command to itself.\<close>

theorem replaceCommand_double_shift:
  "wf_tx example_tx \<and>
   (\<exists>t'. replaceCommand example_tx 0 [Publish [] [], SplitCoins GasCoin [Input 0 None]] (RNum 1) = Inr t' \<and>
         Result 2 \<in> set (command_args (commands t' ! 2)) \<and> \<not> wf_tx t')"
proof -
  let ?cs = "[Publish [] [], SplitCoins GasCoin [Input 0 None]] :: unit command list"
  let ?t = "example_tx\<lparr>commands := take 0 (commands example_tx) @ ?cs @ drop (0 + 1) (commands example_tx)\<rparr>"
  let ?g = "\<lambda>a. projr (replace_arg 0 2 (RNum 1) a 2)"
  have rep: "replaceCommand example_tx 0 ?cs (RNum 1)
      = Inr (?t\<lparr>commands := map (command_map (\<lambda>a. a)) [] @ ?cs @ map (command_map ?g) (drop 1 (commands example_tx))\<rparr>)"
    unfolding replaceCommand_def Let_def
    by (rule mapArguments_split) (auto simp: replace_arg_def is_RNum_def example_tx_def)
  have g: "?g (Result 0) = Result 2" "?g (Input 0 None) = Input 0 None"
    using replace_arg_double_shift(1) [of 0 1 2 2] by (simp_all add: replace_arg_def is_RNum_def)
  let ?t' = "?t\<lparr>commands := ?cs @ [TransferObjects [Result 2] (Input 0 None)]\<rparr>"
  have "replaceCommand example_tx 0 ?cs (RNum 1) = Inr ?t'"
    using rep g by (simp add: example_tx_def)
  moreover have "Result 2 \<in> set (command_args (commands ?t' ! 2))" by simp
  moreover have "\<not> wf_tx ?t'"
    unfolding wf_tx_def commands_ok_def by (auto intro!: exI [of _ 2])
  ultimately show ?thesis using example_tx_wf by blast
qed

subsection \<open>Resolving and building\<close>

text \<open>What an input is resolved to.\<close>

lemma resolve_input_resolved: "resolve_input x r = Inr y \<Longrightarrow> \<not> is_unresolved y"
  by (cases x; cases r) (auto simp: resolve_input_def split: call_arg.splits object_arg.splits if_splits)

lemma resolve_input_keeps: "\<not> is_unresolved x \<Longrightarrow> resolve_input x r = Inr x"
  by (cases x) (auto simp: resolve_input_def)

lemma resolve_input_id:
  "resolve_input x r = Inr y \<Longrightarrow> getIdFromCallArg x \<noteq> None \<Longrightarrow> getIdFromCallArg y = getIdFromCallArg x"
  by (cases x; cases r)
    (auto simp: resolve_input_def match_owned_def match_shared_def same_id_def split: call_arg.splits object_arg.splits if_splits)

lemma resolve_inputs_nth:
  "resolve_inputs xs rs = Inr ys \<Longrightarrow> length ys = length xs \<and>
   (\<forall>i < length xs. \<exists>r. resolve_input (xs ! i) r = Inr (ys ! i))"
proof (induction xs arbitrary: rs ys)
  case (Cons x xs)
  then obtain y ys' where y: "resolve_input x (case rs of [] \<Rightarrow> None | r # _ \<Rightarrow> Some r) = Inr y"
    "resolve_inputs xs (tl rs) = Inr ys'" "ys = y # ys'" by (auto simp: res_simps)
  from Cons.IH [OF y(2)] y(1,3) show ?case by (auto simp: nth_Cons split: nat.splits)
qed simp



text \<open>\<open>build\<close> gets as far as the BCS type exactly when a sender, a gas budget, a gas payment and a gas price are present
  after the overrides and the two amounts are integers.\<close>

lemma build_value_Inr:
  "build_value t ov = Inr b \<longleftrightarrow>
     (let from = (case ov_sender ov of Some s \<Rightarrow> Some s | None \<Rightarrow> sender t); gas = spread_gas (gasData t) (ov_gasData ov)
      in truthy_str from \<and> truthy_u64 (g_budget gas) \<and> truthy_u64 (g_price gas) \<and>
         u64_bigint (the (g_price gas)) = Inr (b_price b) \<and> u64_bigint (the (g_budget gas)) = Inr (b_budget b) \<and>
         g_payment gas = Some (b_payment b) \<and>
         b_sender b = prepareMySoAddress (the from) \<and>
         b_owner b = prepareMySoAddress (case g_owner (gasData t) of Some a \<Rightarrow> a | None \<Rightarrow> the from) \<and>
         b_expiration b = (case ov_expiration ov of Some e \<Rightarrow> e
           | None \<Rightarrow> (case expiration t of None \<Rightarrow> NoExpiration | Some e \<Rightarrow> e)) \<and>
         b_inputs b = inputs t \<and> b_commands b = commands t)"
  by (cases b) (auto simp: build_value_def Let_def res_simps split: option.splits)

text \<open>The gas owner of the overrides is not used: whatever it is, the same transaction is built.\<close>

theorem build_ignores_owner_override:
  "build_value t (ov\<lparr>ov_gasData := (ov_gasData ov)\<lparr>v_owner := a\<rparr>\<rparr>) = build_value t ov"
  by (simp add: build_value_def spread_gas_def Let_def cong: option.case_cong if_cong)

end
