(* ===== verification/Transaction_Bcs.thy ===== *)
theory Transaction_Bcs
  imports Bcs_Carries Transaction_Props
begin

text \<open>
  What the schemas of \<open>Transaction_Schemas\<close> do to the data of a transaction: the JavaScript object
  of each value of \<open>Transaction_Data\<close> (\<open>js_...\<close>), the values that can be encoded (\<open>..._ok\<close>), and the
  value a parser gives back (\<open>canon_...\<close>). \<open>build\<close> is the whole of \<open>TransactionDataBuilder.build\<close>, down to
  the bytes; \<open>rejects\<close> says what a schema does not write, and with it when \<open>build\<close> succeeds.
\<close>

subsection \<open>The objects of transaction data\<close>

definition js_option :: "('a \<Rightarrow> jsval) \<Rightarrow> 'a option \<Rightarrow> jsval" where
  "js_option f x = (case x of None \<Rightarrow> JNull | Some v \<Rightarrow> f v)"

fun js_u64 :: "json_u64 \<Rightarrow> jsval" where
  "js_u64 (U64Str s) = JStr s"
| "js_u64 (U64Num n) = JNum n"

fun js_input_type :: "input_type \<Rightarrow> jsval" where
  "js_input_type PureT = JStr ''pure''"
| "js_input_type ObjectT = JStr ''object''"
| "js_input_type WithdrawalT = JStr ''withdrawal''"

fun js_argument :: "argument \<Rightarrow> jsval" where
  "js_argument GasCoin = js_kind ''GasCoin'' (JBool True)"
| "js_argument (Input i None) = js_kind ''Input'' (JNum i)"
| "js_argument (Input i (Some ty)) = JObj [(''Input'', JNum i), (''type'', js_input_type ty), (''$kind'', JStr ''Input'')]"
| "js_argument (Result i) = js_kind ''Result'' (JNum i)"
| "js_argument (NestedResult i j) = js_kind ''NestedResult'' (JArr [JNum i, JNum j])"

definition js_arguments :: "argument list \<Rightarrow> jsval" where
  "js_arguments args = JArr (map js_argument args)"

definition js_strings :: "string list \<Rightarrow> jsval" where
  "js_strings ss = JArr (map JStr ss)"

definition js_object_ref :: "object_ref \<Rightarrow> jsval" where
  "js_object_ref r =
     JObj [(''objectId'', JStr (or_objectId r)), (''version'', js_u64 (or_version r)), (''digest'', JStr (or_digest r))]"

fun js_object_arg :: "object_arg \<Rightarrow> jsval" where
  "js_object_arg (ImmOrOwnedObject r) = js_kind ''ImmOrOwnedObject'' (js_object_ref r)"
| "js_object_arg (SharedObject objectId v m) = js_kind ''SharedObject''
     (JObj [(''objectId'', JStr objectId), (''initialSharedVersion'', js_u64 v), (''mutable'', JBool m)])"
| "js_object_arg (Receiving r) = js_kind ''Receiving'' (js_object_ref r)"

definition js_present :: "string \<Rightarrow> ('a \<Rightarrow> jsval) \<Rightarrow> 'a option \<Rightarrow> (string \<times> jsval) list" where
  "js_present k f x = (case x of None \<Rightarrow> [] | Some v \<Rightarrow> [(k, f v)])"

fun js_withdraw_from :: "withdraw_from \<Rightarrow> jsval" where
  "js_withdraw_from Sender = js_kind ''Sender'' (JBool True)"
| "js_withdraw_from Sponsor = js_kind ''Sponsor'' (JBool True)"

definition js_unresolved :: "unresolved_object \<Rightarrow> jsval" where
  "js_unresolved u = JObj
     ([(''objectId'', JStr (uo_objectId u))] @ js_present ''version'' js_u64 (uo_version u) @
      js_present ''digest'' JStr (uo_digest u) @ js_present ''initialSharedVersion'' js_u64 (uo_initialSharedVersion u) @
      js_present ''mutable'' JBool (uo_mutable u))"

fun js_call_arg :: "jsval call_arg \<Rightarrow> jsval" where
  "js_call_arg (Object a) = js_kind ''Object'' (js_object_arg a)"
| "js_call_arg (Pure b) = js_kind ''Pure'' (JObj [(''bytes'', JStr b)])"
| "js_call_arg (UnresolvedPure v) = js_kind ''UnresolvedPure'' (JObj [(''value'', v)])"
| "js_call_arg (UnresolvedObject u) = js_kind ''UnresolvedObject'' (js_unresolved u)"
| "js_call_arg (FundsWithdrawal amount type from) = js_kind ''FundsWithdrawal'' (JObj
     [(''reservation'', js_kind ''MaxAmountU64'' (js_u64 amount)), (''typeArg'', js_kind ''Balance'' (JStr type)),
      (''withdrawFrom'', js_withdraw_from from)])"

fun js_intent_input :: "intent_input \<Rightarrow> jsval" where
  "js_intent_input (OneArg a) = js_argument a"
| "js_intent_input (ManyArgs args) = js_arguments args"

fun js_command :: "jsval command \<Rightarrow> jsval" where
  "js_command (MoveCall package module func typeArguments args) = js_kind ''MoveCall'' (JObj
     [(''package'', JStr package), (''module'', JStr module), (''function'', JStr func),
      (''typeArguments'', js_strings typeArguments), (''arguments'', js_arguments args)])"
| "js_command (TransferObjects objects address) = js_kind ''TransferObjects'' (JObj
     [(''objects'', js_arguments objects), (''address'', js_argument address)])"
| "js_command (SplitCoins coin amounts) = js_kind ''SplitCoins'' (JObj
     [(''coin'', js_argument coin), (''amounts'', js_arguments amounts)])"
| "js_command (MergeCoins destination sources) = js_kind ''MergeCoins'' (JObj
     [(''destination'', js_argument destination), (''sources'', js_arguments sources)])"
| "js_command (Publish modules dependencies) = js_kind ''Publish'' (JObj
     [(''modules'', js_strings modules), (''dependencies'', js_strings dependencies)])"
| "js_command (MakeMoveVec type elements) = js_kind ''MakeMoveVec'' (JObj
     [(''type'', js_option JStr type), (''elements'', js_arguments elements)])"
| "js_command (Upgrade modules dependencies package ticket) = js_kind ''Upgrade'' (JObj
     [(''modules'', js_strings modules), (''dependencies'', js_strings dependencies), (''package'', JStr package),
      (''ticket'', js_argument ticket)])"
| "js_command (Intent name ins data) = js_kind ''$Intent'' (JObj
     [(''name'', JStr name), (''inputs'', JObj (map (\<lambda>(k, i). (k, js_intent_input i)) ins)), (''data'', data)])"

fun js_expiration :: "expiration \<Rightarrow> jsval" where
  "js_expiration NoExpiration = js_kind ''None'' (JBool True)"
| "js_expiration (Epoch u) = js_kind ''Epoch'' (js_u64 u)"
| "js_expiration (ValidDuring d) = js_kind ''ValidDuring'' (JObj
     [(''minEpoch'', js_option js_u64 (minEpoch d)), (''maxEpoch'', js_option js_u64 (maxEpoch d)),
      (''minTimestamp'', js_option js_u64 (minTimestamp d)), (''maxTimestamp'', js_option js_u64 (maxTimestamp d)),
      (''chain'', JStr (chain d)), (''nonce'', JNum (nonce d))])"

definition js_gas :: "gas_data \<Rightarrow> jsval" where
  "js_gas g = JObj
     [(''budget'', js_option js_u64 (g_budget g)), (''price'', js_option js_u64 (g_price g)),
      (''owner'', js_option JStr (g_owner g)), (''payment'', js_option (\<lambda>rs. JArr (map js_object_ref rs)) (g_payment g))]"

text \<open>The fields of a \<open>TransactionDataBuilder\<close>.\<close>

definition js_tx :: "jsval tx_data \<Rightarrow> jsval" where
  "js_tx t = JObj
     [(''version'', JNum 2), (''sender'', js_option JStr (sender t)), (''expiration'', js_option js_expiration (expiration t)),
      (''gasData'', js_gas (gasData t)), (''inputs'', JArr (map js_call_arg (inputs t))),
      (''commands'', JArr (map js_command (commands t)))]"

text \<open>The \<open>kind\<close> and the \<open>transactionData\<close> that \<open>build\<close> serializes.\<close>

definition js_programmable :: "jsval call_arg list \<Rightarrow> jsval command list \<Rightarrow> jsval" where
  "js_programmable ins cs =
     JObj [(''inputs'', JArr (map js_call_arg ins)), (''commands'', JArr (map js_command cs))]"

definition js_built :: "jsval built \<Rightarrow> jsval" where
  "js_built b = JObj
     [(''sender'', JStr (b_sender b)),
      (''expiration'', case b_expiration b of NoExpiration \<Rightarrow> JObj [(''None'', JBool True)] | e \<Rightarrow> js_expiration e),
      (''gasData'', JObj [(''payment'', JArr (map js_object_ref (b_payment b))), (''owner'', JStr (b_owner b)),
         (''price'', JBigInt (b_price b)), (''budget'', JBigInt (b_budget b))]),
      (''kind'', JObj [(''ProgrammableTransaction'', js_programmable (b_inputs b) (b_commands b))])]"

definition with_maxSize :: "nat option \<Rightarrow> writer_options" where
  "with_maxSize maxSizeBytes = no_options\<lparr>o_maxSize := maxSizeBytes\<rparr>"

text \<open>\<open>build\<close>: \<open>None\<close> is the maximal size \<open>Infinity\<close>.\<close>

definition build_kind :: "platform \<Rightarrow> nat \<Rightarrow> jsval tx_data \<Rightarrow> nat option \<Rightarrow> byte list res" where
  "build_kind p n t maxSizeBytes =
     type_serialize (TransactionKind p n)
       (JObj [(''ProgrammableTransaction'', js_programmable (inputs t) (commands t))]) (with_maxSize maxSizeBytes)"

definition build :: "platform \<Rightarrow> nat \<Rightarrow> jsval tx_data \<Rightarrow> nat option \<Rightarrow> overrides \<Rightarrow> bool \<Rightarrow> byte list res" where
  "build p n t maxSizeBytes ov onlyTransactionKind =
     (if onlyTransactionKind then build_kind p n t maxSizeBytes
      else rbind (build_value t ov) (\<lambda>b.
        type_serialize (TransactionData p n) (JObj [(''V1'', js_built b)]) (with_maxSize maxSizeBytes)))"

subsection \<open>What can be encoded, and what comes back\<close>

definition u64_ok :: "json_u64 \<Rightarrow> bool" where
  "u64_ok u \<longleftrightarrow> (case u64_bigint u of Inl _ \<Rightarrow> False | Inr n \<Rightarrow> 0 \<le> n \<and> n < 2 ^ 64)"

definition canon_u64 :: "json_u64 \<Rightarrow> json_u64" where
  "canon_u64 u = (case u64_bigint u of Inl _ \<Rightarrow> u | Inr n \<Rightarrow> U64Str (show_base 10 (nat n)))"

definition address_ok :: "string \<Rightarrow> bool" where
  "address_ok a \<longleftrightarrow> a \<noteq> [] \<and> isValidMySoAddress (normalizeMySoAddress a False)"

definition canon_address :: "string \<Rightarrow> string" where
  "canon_address a = normalizeMySoAddress a False"

definition digest_ok :: "platform \<Rightarrow> string \<Rightarrow> bool" where
  "digest_ok p d \<longleftrightarrow> (case p_fromBase58 p d of Inl _ \<Rightarrow> False | Inr bs \<Rightarrow> length bs = 32)"

definition canon_digest :: "platform \<Rightarrow> string \<Rightarrow> string" where
  "canon_digest p d = (case p_fromBase58 p d of Inl _ \<Rightarrow> d | Inr bs \<Rightarrow> p_toBase58 p bs)"

definition base64_ok :: "string \<Rightarrow> bool" where
  "base64_ok s \<longleftrightarrow> (case fromBase64 s of Inl _ \<Rightarrow> False | Inr bs \<Rightarrow> length bs \<le> MAX_SAFE_INTEGER)"

definition canon_base64 :: "string \<Rightarrow> string" where
  "canon_base64 s = (case fromBase64 s of Inl _ \<Rightarrow> s | Inr bs \<Rightarrow> toBase64 bs)"

text \<open>A tag that fits a stack of depth \<open>n\<close>.\<close>

fun tag_ok :: "platform \<Rightarrow> nat \<Rightarrow> type_tag \<Rightarrow> bool" where
  "tag_ok p 0 t = False"
| "tag_ok p (Suc n) (TVector t) = tag_ok p n t"
| "tag_ok p (Suc n) (TStruct a m name ps) =
     (address_ok a \<and> string_ok p m \<and> string_ok p name \<and> length ps < 2 ^ 32 \<and> (\<forall>t\<in>set ps. tag_ok p n t))"
| "tag_ok p (Suc n) _ = True"

definition type_ok :: "platform \<Rightarrow> nat \<Rightarrow> string \<Rightarrow> bool" where
  "type_ok p n s \<longleftrightarrow> (case parseFromStr s True of Inl _ \<Rightarrow> False | Inr t \<Rightarrow> tag_ok p n t)"

definition canon_type :: "string \<Rightarrow> string" where
  "canon_type s = (case parseFromStr s True of Inl _ \<Rightarrow> s | Inr t \<Rightarrow> tagToString (normalize_tag t))"

fun argument_ok :: "argument \<Rightarrow> bool" where
  "argument_ok GasCoin = True"
| "argument_ok (Input i _) = u16_ok i"
| "argument_ok (Result i) = u16_ok i"
| "argument_ok (NestedResult i j) = (u16_ok i \<and> u16_ok j)"

fun canon_argument :: "argument \<Rightarrow> argument" where
  "canon_argument (Input i _) = Input i None"
| "canon_argument a = a"

definition all_ok :: "('a \<Rightarrow> bool) \<Rightarrow> 'a list \<Rightarrow> bool" where
  "all_ok P xs \<longleftrightarrow> length xs < 2 ^ 32 \<and> list_all P xs"

definition object_ref_ok :: "platform \<Rightarrow> object_ref \<Rightarrow> bool" where
  "object_ref_ok p r \<longleftrightarrow> address_ok (or_objectId r) \<and> u64_ok (or_version r) \<and> digest_ok p (or_digest r)"

definition canon_object_ref :: "platform \<Rightarrow> object_ref \<Rightarrow> object_ref" where
  "canon_object_ref p r = \<lparr>or_objectId = canon_address (or_objectId r), or_version = canon_u64 (or_version r),
     or_digest = canon_digest p (or_digest r)\<rparr>"

fun object_arg_ok :: "platform \<Rightarrow> object_arg \<Rightarrow> bool" where
  "object_arg_ok p (ImmOrOwnedObject r) = object_ref_ok p r"
| "object_arg_ok p (SharedObject objectId v m) = (address_ok objectId \<and> u64_ok v)"
| "object_arg_ok p (Receiving r) = object_ref_ok p r"

fun canon_object_arg :: "platform \<Rightarrow> object_arg \<Rightarrow> object_arg" where
  "canon_object_arg p (ImmOrOwnedObject r) = ImmOrOwnedObject (canon_object_ref p r)"
| "canon_object_arg p (SharedObject objectId v m) = SharedObject (canon_address objectId) (canon_u64 v) m"
| "canon_object_arg p (Receiving r) = Receiving (canon_object_ref p r)"

fun call_arg_ok :: "platform \<Rightarrow> nat \<Rightarrow> 'v call_arg \<Rightarrow> bool" where
  "call_arg_ok p n (Object a) = object_arg_ok p a"
| "call_arg_ok p n (Pure b) = base64_ok b"
| "call_arg_ok p n (FundsWithdrawal amount type from) = (u64_ok amount \<and> type_ok p n type)"
| "call_arg_ok p n _ = False"

fun canon_call_arg :: "platform \<Rightarrow> 'v call_arg \<Rightarrow> 'v call_arg" where
  "canon_call_arg p (Object a) = Object (canon_object_arg p a)"
| "canon_call_arg p (Pure b) = Pure (canon_base64 b)"
| "canon_call_arg p (FundsWithdrawal amount type from) = FundsWithdrawal (canon_u64 amount) (canon_type type) from"
| "canon_call_arg p a = a"

fun command_ok :: "platform \<Rightarrow> nat \<Rightarrow> 'v command \<Rightarrow> bool" where
  "command_ok p n (MoveCall package module func typeArguments args) =
     (address_ok package \<and> string_ok p module \<and> string_ok p func \<and> all_ok (type_ok p n) typeArguments \<and>
      all_ok argument_ok args)"
| "command_ok p n (TransferObjects objects address) = (all_ok argument_ok objects \<and> argument_ok address)"
| "command_ok p n (SplitCoins coin amounts) = (argument_ok coin \<and> all_ok argument_ok amounts)"
| "command_ok p n (MergeCoins destination sources) = (argument_ok destination \<and> all_ok argument_ok sources)"
| "command_ok p n (Publish modules dependencies) = (all_ok base64_ok modules \<and> all_ok address_ok dependencies)"
| "command_ok p n (MakeMoveVec type elements) =
     ((case type of None \<Rightarrow> True | Some s \<Rightarrow> type_ok p n s) \<and> all_ok argument_ok elements)"
| "command_ok p n (Upgrade modules dependencies package ticket) =
     (all_ok base64_ok modules \<and> all_ok address_ok dependencies \<and> address_ok package \<and> argument_ok ticket)"
| "command_ok p n (Intent name ins data) = False"

fun canon_command :: "'v command \<Rightarrow> 'v command" where
  "canon_command (MoveCall package module func typeArguments args) =
     MoveCall (canon_address package) module func (map canon_type typeArguments) (map canon_argument args)"
| "canon_command (TransferObjects objects address) =
     TransferObjects (map canon_argument objects) (canon_argument address)"
| "canon_command (SplitCoins coin amounts) = SplitCoins (canon_argument coin) (map canon_argument amounts)"
| "canon_command (MergeCoins destination sources) = MergeCoins (canon_argument destination) (map canon_argument sources)"
| "canon_command (Publish modules dependencies) = Publish (map canon_base64 modules) (map canon_address dependencies)"
| "canon_command (MakeMoveVec type elements) = MakeMoveVec (map_option canon_type type) (map canon_argument elements)"
| "canon_command (Upgrade modules dependencies package ticket) =
     Upgrade (map canon_base64 modules) (map canon_address dependencies) (canon_address package) (canon_argument ticket)"
| "canon_command c = c"

definition option_ok :: "('a \<Rightarrow> bool) \<Rightarrow> 'a option \<Rightarrow> bool" where
  "option_ok P x \<longleftrightarrow> (case x of None \<Rightarrow> True | Some v \<Rightarrow> P v)"

fun expiration_ok :: "platform \<Rightarrow> expiration \<Rightarrow> bool" where
  "expiration_ok p NoExpiration = True"
| "expiration_ok p (Epoch u) = u64_ok u"
| "expiration_ok p (ValidDuring d) =
     (option_ok u64_ok (minEpoch d) \<and> option_ok u64_ok (maxEpoch d) \<and> option_ok u64_ok (minTimestamp d) \<and>
      option_ok u64_ok (maxTimestamp d) \<and> digest_ok p (chain d) \<and> 0 \<le> nonce d \<and> nonce d < 2 ^ 32)"

text \<open>An epoch comes back as the nearest double.\<close>

fun canon_expiration :: "platform \<Rightarrow> expiration \<Rightarrow> expiration" where
  "canon_expiration p NoExpiration = NoExpiration"
| "canon_expiration p (Epoch u) =
     Epoch (case u64_bigint u of Inl _ \<Rightarrow> u | Inr n \<Rightarrow> U64Num (int (nearest_double (nat n))))"
| "canon_expiration p (ValidDuring d) = ValidDuring
     \<lparr>minEpoch = map_option canon_u64 (minEpoch d), maxEpoch = map_option canon_u64 (maxEpoch d),
      minTimestamp = map_option canon_u64 (minTimestamp d), maxTimestamp = map_option canon_u64 (maxTimestamp d),
      chain = canon_digest p (chain d), nonce = nonce d\<rparr>"

definition built_ok :: "platform \<Rightarrow> nat \<Rightarrow> 'v built \<Rightarrow> bool" where
  "built_ok p n b \<longleftrightarrow>
     address_ok (b_sender b) \<and> address_ok (b_owner b) \<and> expiration_ok p (b_expiration b) \<and>
     all_ok (object_ref_ok p) (b_payment b) \<and> 0 \<le> b_price b \<and> b_price b < 2 ^ 64 \<and> 0 \<le> b_budget b \<and>
     b_budget b < 2 ^ 64 \<and> all_ok (call_arg_ok p n) (b_inputs b) \<and> all_ok (command_ok p n) (b_commands b)"

text \<open>The transaction a parser reads back.\<close>

definition canon_built :: "platform \<Rightarrow> 'v built \<Rightarrow> 'v tx_data" where
  "canon_built p b =
     \<lparr>sender = Some (canon_address (b_sender b)), expiration = Some (canon_expiration p (b_expiration b)),
      gasData = \<lparr>g_budget = Some (U64Str (show_base 10 (nat (b_budget b)))),
        g_price = Some (U64Str (show_base 10 (nat (b_price b)))), g_owner = Some (canon_address (b_owner b)),
        g_payment = Some (map (canon_object_ref p) (b_payment b))\<rparr>,
      inputs = map (canon_call_arg p) (b_inputs b), commands = map canon_command (b_commands b)\<rparr>"

subsection \<open>Every part is carried to its canonical form\<close>

lemma carries_u64_int: "to_bigint v = Inr n \<Longrightarrow> 0 \<le> n \<Longrightarrow> n < 2 ^ 64 \<Longrightarrow>
   carries (bcs_u64 no_opts) v (JStr (show_base 10 (nat n)))"
  using codec_u64 [of v "nat n"] by (auto simp: nat_less_iff intro: codec_carries)

lemma to_bigint_js_u64 [simp]: "to_bigint (js_u64 u) = u64_bigint u"
  by (cases u) simp_all

lemma carries_u64: "u64_ok u \<Longrightarrow> carries (bcs_u64 no_opts) (js_u64 u) (js_u64 (canon_u64 u))"
  using carries_u64_int [of "js_u64 u"] by (auto simp: u64_ok_def canon_u64_def split: sum.splits)

lemma carries_address: "address_ok a \<Longrightarrow> carries Address (JStr a) (JStr (canon_address a))"
  unfolding address_ok_def canon_address_def
  using codec_Address fromHex_normalized codec_carries by metis

lemma carries_digest:
  assumes "digest_ok p d"
  shows "carries (Digest p) (JStr d) (JStr (canon_digest p d))"
proof -
  obtain bs where bs: "p_fromBase58 p d = Inr bs" "length bs = 32"
    using assms by (auto simp: digest_ok_def split: sum.splits)
  have "codec (Digest p) (JStr d) (JStr (p_toBase58 p bs)) (ulebEncode (int (length bs)) @ bs)"
    unfolding ObjectDigest_def Let_def
    by (rule codec_transform_validated [OF _ codec_byteVector [of "JBytes bs"]])
      (use bs in \<open>auto simp: MAX_SAFE_INTEGER_def\<close>)
  then show ?thesis using bs by (simp add: canon_digest_def codec_carries)
qed

lemma carries_base64:
  assumes "base64_ok s"
  shows "carries base64String (JStr s) (JStr (canon_base64 s))"
proof -
  obtain bs where bs: "fromBase64 s = Inr bs" "length bs \<le> MAX_SAFE_INTEGER"
    using assms by (auto simp: base64_ok_def split: sum.splits)
  have "carries (bcs_byteVector no_opts) (JBytes bs) (JBytes bs)"
    by (rule codec_carries [OF codec_byteVector]) (simp_all add: bs)
  with bs show ?thesis
    unfolding base64String_def
    by (intro carries_transform) (auto simp: base64_input_def base64_output_def canon_base64_def)
qed

lemma enum_names_Argument:
  "enum_names [(''GasCoin'', None), (''Input'', a), (''Result'', b), (''NestedResult'', c)]"
  by (simp add: enum_names_def MAX_SAFE_INTEGER_def)

lemma carries_argument: "argument_ok a \<Longrightarrow> carries Argument (js_argument a) (js_argument (canon_argument a))"
proof (induction a rule: js_argument.induct)
  case 1
  then show ?case unfolding Argument_def by (simp add: carries_js_unit enum_names_Argument)
next
  case (2 i)
  then show ?case unfolding Argument_def by (simp add: carries_js_kind enum_names_Argument carries_u16)
next
  case (3 i ty)
  then show ?case unfolding Argument_def by (simp add: carries_kind enum_names_Argument carries_u16)
next
  case (4 i)
  then show ?case unfolding Argument_def by (simp add: carries_js_kind enum_names_Argument carries_u16)
next
  case (5 i j)
  then show ?case unfolding Argument_def
    by (simp add: carries_js_kind enum_names_Argument carries_u16 carries_pair)
qed

text \<open>The object the reader returns for a tag.\<close>

fun parsed_tag :: "type_tag \<Rightarrow> jsval" where
  "parsed_tag TAddress = js_kind ''address'' (JBool True)"
| "parsed_tag TBool = js_kind ''bool'' (JBool True)"
| "parsed_tag TU8 = js_kind ''u8'' (JBool True)"
| "parsed_tag TU16 = js_kind ''u16'' (JBool True)"
| "parsed_tag TU32 = js_kind ''u32'' (JBool True)"
| "parsed_tag TU64 = js_kind ''u64'' (JBool True)"
| "parsed_tag TU128 = js_kind ''u128'' (JBool True)"
| "parsed_tag TU256 = js_kind ''u256'' (JBool True)"
| "parsed_tag TSigner = js_kind ''signer'' (JBool True)"
| "parsed_tag (TVector t) = js_kind ''vector'' (parsed_tag t)"
| "parsed_tag (TStruct address module name params) = js_kind ''struct''
     (JObj [(''address'', JStr address), (''module'', JStr module), (''name'', JStr name),
       (''typeParams'', JArr (map parsed_tag params))])"

lemma tag_of_js_parsed: "tag_of_js (parsed_tag t) = Inr t"
proof (induction t)
  case (TStruct a m name ps)
  have "rmapM tag_of_js (map parsed_tag ps) = Inr ps" using TStruct by (induction ps) auto
  then show ?case
    by (subst tag_of_js.simps) (simp add: js_kind_def js_in_def js_prop_def js_elements_def js_text_def)
qed (subst tag_of_js.simps, simp add: js_kind_def js_in_def js_prop_def)+

lemma parsed_tag_not_nullish [simp]: "\<not> is_nullish (parsed_tag t)"
  by (cases t) simp_all

lemma js_tag_not_undefined [simp]: "js_tag t \<noteq> JUndefined"
  by (cases t) simp_all

lemma enum_names_TypeTag:
  "enum_names [(''bool'', None), (''u8'', None), (''u64'', None), (''u128'', None), (''address'', None), (''signer'', None),
      (''vector'', a), (''struct'', b), (''u16'', None), (''u32'', None), (''u256'', None)]"
  by (simp add: enum_names_def MAX_SAFE_INTEGER_def)

lemma get_prop_Cons [simp]:
  "get_prop (JObj ((k, v) # ps)) name = (if name = k then Inr v else get_prop (JObj ps) name)"
  by (simp add: get_prop_def)

lemma carries_tag: "tag_ok p n t \<Longrightarrow> carries (InnerTypeTag p n) (js_tag t) (parsed_tag (normalize_tag t))"
proof (induction p n t rule: tag_ok.induct)
  case (2 p n t)
  then have "carries (lazyBcsType (InnerTypeTag p n)) (js_tag t) (parsed_tag (normalize_tag t))"
    by (simp add: carries_lazy)
  then show ?case by (simp add: carries_kind [OF enum_names_TypeTag])
next
  case (3 p n a m name ps)
  then have ps: "carries (vector (InnerTypeTag p n) no_opts) (JArr (map js_tag ps)) (JArr (map (\<lambda>t. parsed_tag (normalize_tag t)) ps))"
    by (intro carries_map) auto
  have "carries (lazyBcsType (StructTag_of p (InnerTypeTag p n)))
      (JObj [(''address'', JStr a), (''module'', JStr m), (''name'', JStr name), (''typeParams'', JArr (map js_tag ps))])
      (JObj [(''address'', JStr (canon_address a)), (''module'', JStr m), (''name'', JStr name),
        (''typeParams'', JArr (map (\<lambda>t. parsed_tag (normalize_tag t)) ps))])"
    unfolding StructTag_of_def
    by (intro carries_lazy carries_struct) (use 3 in \<open>simp_all add: carries_address carries_string ps\<close>)
  then show ?case by (simp add: carries_kind [OF enum_names_TypeTag] canon_address_def comp_def)
qed (simp_all add: carries_unit [OF enum_names_TypeTag])

lemma carries_type: "type_ok p n s \<Longrightarrow> carries (TypeTag p n) (JStr s) (JStr (canon_type s))"
  unfolding TypeTag_def
  by (auto simp: type_ok_def canon_type_def tag_input_def tag_output_def tag_of_js_parsed split: sum.splits
      intro!: carries_transform carries_tag)

lemma carries_ref: "object_ref_ok p r \<Longrightarrow> carries (ObjectRef p) (js_object_ref r) (js_object_ref (canon_object_ref p r))"
  unfolding MySoObjectRef_def js_object_ref_def object_ref_ok_def canon_object_ref_def
  by (intro carries_struct) (simp_all add: carries_address carries_u64 carries_digest)

lemma js_object_ref_not [simp]: "js_object_ref r \<noteq> JUndefined" "\<not> is_nullish (js_object_ref r)"
  by (simp_all add: js_object_ref_def)

lemma enum_names_ObjectArg: "enum_names [(''ImmOrOwnedObject'', a), (''SharedObject'', b), (''Receiving'', c)]"
  by (simp add: enum_names_def MAX_SAFE_INTEGER_def)

lemma carries_object_arg:
  assumes "object_arg_ok p a"
  shows "carries (ObjectArg (p_fromBase58 p) (p_toBase58 p)) (js_object_arg a) (js_object_arg (canon_object_arg p a))"
proof (cases a)
  case (SharedObject objectId v m)
  have "carries SharedObjectRef (JObj [(''objectId'', JStr objectId), (''initialSharedVersion'', js_u64 v), (''mutable'', JBool m)])
     (JObj [(''objectId'', JStr (canon_address objectId)), (''initialSharedVersion'', js_u64 (canon_u64 v)), (''mutable'', JBool m)])"
    unfolding SharedObjectRef_def
    by (intro carries_struct) (use assms SharedObject in \<open>simp_all add: carries_address carries_u64 carries_bool\<close>)
  with SharedObject show ?thesis unfolding ObjectArg_def by (simp add: carries_js_kind enum_names_ObjectArg)
qed (use assms in \<open>simp_all add: ObjectArg_def carries_js_kind enum_names_ObjectArg carries_ref\<close>)

lemma enum_names_small: "enum_names [(''Sender'', None), (''Sponsor'', None)]" "enum_names [(''MaxAmountU64'', a)]"
  "enum_names [(''Balance'', a)]" "enum_names [(''Pure'', a), (''Object'', b), (''FundsWithdrawal'', c)]"
  by (simp_all add: enum_names_def MAX_SAFE_INTEGER_def)

lemma carries_withdraw_from: "carries WithdrawFrom (js_withdraw_from f) (js_withdraw_from f)"
  by (cases f) (simp_all add: WithdrawFrom_def carries_js_unit enum_names_small)

lemma js_u64_not [simp]: "js_u64 u \<noteq> JUndefined" "\<not> is_nullish (js_u64 u)"
  by (cases u; simp)+

lemma js_object_arg_not [simp]: "js_object_arg r \<noteq> JUndefined" "\<not> is_nullish (js_object_arg r)"
  by (cases r; simp)+

lemma carries_call_arg:
  assumes "call_arg_ok p n a"
  shows "carries (CallArg p n) (js_call_arg a) (js_call_arg (canon_call_arg p a))"
proof (cases a)
  case (Pure b)
  have "carries (BcsStruct ''Pure'' [(''bytes'', base64String)] no_opts) (JObj [(''bytes'', JStr b)])
      (JObj [(''bytes'', JStr (canon_base64 b))])"
    by (intro carries_struct) (use assms Pure in \<open>simp_all add: carries_base64\<close>)
  with Pure show ?thesis by (simp add: CallArg_def carries_js_kind enum_names_small)
next
  case (FundsWithdrawal amount type payer)
  have "carries Reservation (js_kind ''MaxAmountU64'' (js_u64 amount)) (js_kind ''MaxAmountU64'' (js_u64 (canon_u64 amount)))"
    using assms FundsWithdrawal by (simp add: Reservation_def carries_js_kind enum_names_small carries_u64)
  moreover have "carries (WithdrawalType p n) (js_kind ''Balance'' (JStr type)) (js_kind ''Balance'' (JStr (canon_type type)))"
    using assms FundsWithdrawal
    by (simp add: WithdrawalType_def carries_js_kind enum_names_small carries_lazy carries_type)
  ultimately have "carries (FundsWithdrawal_bcs p n)
      (JObj [(''reservation'', js_kind ''MaxAmountU64'' (js_u64 amount)), (''typeArg'', js_kind ''Balance'' (JStr type)),
        (''withdrawFrom'', js_withdraw_from payer)])
      (JObj [(''reservation'', js_kind ''MaxAmountU64'' (js_u64 (canon_u64 amount))),
        (''typeArg'', js_kind ''Balance'' (JStr (canon_type type))), (''withdrawFrom'', js_withdraw_from payer)])"
    unfolding FundsWithdrawal_bcs_def by (intro carries_struct) (simp_all add: carries_withdraw_from)
  with FundsWithdrawal show ?thesis by (simp add: CallArg_def carries_js_kind enum_names_small)
qed (use assms in \<open>simp_all add: CallArg_def carries_js_kind enum_names_small carries_object_arg\<close>)


lemma carries_all:
  "all_ok P xs \<Longrightarrow> (\<And>x. P x \<Longrightarrow> carries t (f x) (g x)) \<Longrightarrow>
   carries (vector t no_opts) (JArr (map f xs)) (JArr (map g xs))"
  by (rule carries_map) (auto simp: all_ok_def list_all_iff)

lemma carries_arguments:
  "all_ok argument_ok as \<Longrightarrow> carries (vector Argument no_opts) (js_arguments as) (js_arguments (map canon_argument as))"
  using carries_all [of argument_ok as Argument js_argument "\<lambda>a. js_argument (canon_argument a)"] carries_argument
  by (simp add: js_arguments_def comp_def)

lemma carries_strings:
  "all_ok P ss \<Longrightarrow> (\<And>s. P s \<Longrightarrow> carries t (JStr s) (JStr (c s))) \<Longrightarrow>
   carries (vector t no_opts) (js_strings ss) (js_strings (map c ss))"
  using carries_all [of P ss t JStr "\<lambda>s. JStr (c s)"] by (simp add: js_strings_def comp_def)

lemma carries_types:
  "all_ok (type_ok p n) ss \<Longrightarrow> carries (vector (TypeTag p n) no_opts) (js_strings ss) (js_strings (map canon_type ss))"
  by (rule carries_strings [OF _ carries_type])

lemma carries_addresses:
  "all_ok address_ok ss \<Longrightarrow> carries (vector Address no_opts) (js_strings ss) (js_strings (map canon_address ss))"
  by (rule carries_strings [OF _ carries_address])

lemma carries_modules:
  "all_ok base64_ok ss \<Longrightarrow> carries (vector base64String no_opts) (js_strings ss) (js_strings (map canon_base64 ss))"
  by (rule carries_strings [OF _ carries_base64])

lemmas carries_lists = carries_arguments carries_types carries_addresses carries_modules

lemma enum_names_Option: "enum_names [(''None'', None), (''Some'', a)]"
  by (simp add: enum_names_def MAX_SAFE_INTEGER_def)

lemma carries_move_vec_type:
  assumes "option_ok (type_ok p n) t"
  shows "carries (move_vec_type p n) (js_option JStr t) (js_option JStr (map_option canon_type t))"
  unfolding move_vec_type_def
proof (cases t)
  case None
  have "carries (optionEnum (TypeTag p n)) (JObj [(''None'', JBool True)]) (js_kind ''None'' (JBool True))"
    unfolding optionEnum_def by (rule carries_unit) (simp_all add: enum_names_Option)
  then show "carries (type_transform (optionEnum (TypeTag p n)) None (Some move_vec_input) (Some move_vec_output) None)
      (js_option JStr t) (js_option JStr (map_option canon_type t))"
    by (rule carries_transform [rotated]) (simp_all add: None js_option_def move_vec_input_def move_vec_output_def js_kind_def get_prop_def)
next
  case (Some s)
  then have "type_ok p n s" using assms by (simp add: option_ok_def)
  from carries_type [OF this]
  have "carries (optionEnum (TypeTag p n)) (JObj [(''Some'', JStr s)]) (js_kind ''Some'' (JStr (canon_type s)))"
    unfolding optionEnum_def
    by (intro carries_kind) (simp_all add: enum_names_Option)
  then show "carries (type_transform (optionEnum (TypeTag p n)) None (Some move_vec_input) (Some move_vec_output) None)
      (js_option JStr t) (js_option JStr (map_option canon_type t))"
    by (rule carries_transform [rotated]) (simp_all add: Some js_option_def move_vec_input_def move_vec_output_def js_kind_def)
qed

lemma enum_names_Command:
  "enum_names [(''MoveCall'', a), (''TransferObjects'', b), (''SplitCoins'', c), (''MergeCoins'', d), (''Publish'', e),
     (''MakeMoveVec'', f), (''Upgrade'', g)]"
  by (simp add: enum_names_def MAX_SAFE_INTEGER_def)

lemma carries_command:
  assumes "command_ok p n c"
  shows "carries (Command p n) (js_command c) (js_command (canon_command c))"
proof (cases c)
  case (MoveCall package module func tys args)
  have "carries (ProgrammableMoveCall p n)
     (JObj [(''package'', JStr package), (''module'', JStr module), (''function'', JStr func),
      (''typeArguments'', js_strings tys), (''arguments'', js_arguments args)])
     (JObj [(''package'', JStr (canon_address package)), (''module'', JStr module), (''function'', JStr func),
      (''typeArguments'', js_strings (map canon_type tys)), (''arguments'', js_arguments (map canon_argument args))])"
    unfolding ProgrammableMoveCall_def
    by (intro carries_struct) (use assms MoveCall in \<open>simp_all add: carries_address carries_string carries_lists\<close>)
  with MoveCall show ?thesis by (simp add: Command_def carries_js_kind enum_names_Command)
next
  case (MakeMoveVec type elements)
  then have "option_ok (type_ok p n) type" using assms by (simp add: option_ok_def)
  then have "carries (BcsStruct ''MakeMoveVec'' [(''type'', move_vec_type p n), (''elements'', vector Argument no_opts)] no_opts)
     (JObj [(''type'', js_option JStr type), (''elements'', js_arguments elements)])
     (JObj [(''type'', js_option JStr (map_option canon_type type)), (''elements'', js_arguments (map canon_argument elements))])"
    by (intro carries_struct) (use assms MakeMoveVec in \<open>simp_all add: carries_move_vec_type carries_lists\<close>)
  with MakeMoveVec show ?thesis by (simp add: Command_def carries_js_kind enum_names_Command)
qed (use assms in \<open>simp_all add: Command_def carries_js_kind enum_names_Command carries_struct carries_lists
       carries_argument carries_address\<close>)

lemma enum_names_Expiration: "enum_names [(''None'', None), (''Epoch'', a), (''ValidDuring'', b)]"
  by (simp add: enum_names_def MAX_SAFE_INTEGER_def)

lemma to_bigint_show [simp]: "to_bigint (JStr (show_base 10 n)) = Inr (int n)"
  by simp

lemma codec_u64_named:
  "to_bigint v = Inr (int k) \<Longrightarrow> k < 2 ^ 64 \<Longrightarrow> opt_validate opts = None \<Longrightarrow>
   codec (bcs_u64 opts) v (JStr (show_base 10 k)) (le_bytes 8 k)"
  unfolding bcs_u64_def
  by (rule codec_bigUInt)
    (use reads_read64 [of "le_bytes 8 k"] emits_write64 [of _ k] in \<open>auto simp: le_val_le_bytes_small\<close>)

lemma carries_unsafe_u64:
  assumes "u64_bigint u = Inr n" "0 \<le> n" "n < 2 ^ 64"
  shows "carries (unsafe_u64 no_opts) (js_u64 u) (JNum (int (nearest_double (nat n))))"
proof -
  have "codec (bcs_u64 (no_opts\<lparr>opt_name := Some ''unsafe_u64''\<rparr>)) (js_u64 u) (JStr (show_base 10 (nat n))) (le_bytes 8 (nat n))"
    by (rule codec_u64_named) (use assms in \<open>auto simp: nat_less_iff no_opts_def\<close>)
  then show ?thesis
    unfolding unsafe_u64_def
    by (intro carries_transform [OF refl codec_carries]) (auto simp: unsafe_u64_output_def no_opts_def name_or_def)
qed

lemma carries_opt_u64:
  "option_ok u64_ok u \<Longrightarrow> carries (bcs_option (bcs_u64 no_opts)) (js_option js_u64 u) (js_option js_u64 (map_option canon_u64 u))"
  by (cases u) (simp_all add: js_option_def option_ok_def carries_option carries_u64)

lemma carries_expiration:
  assumes "expiration_ok p e"
  shows "carries (TransactionExpiration p) (js_expiration e) (js_expiration (canon_expiration p e))"
proof (cases e)
  case NoExpiration
  then show ?thesis by (simp add: TransactionExpiration_def carries_js_unit enum_names_Expiration)
next
  case (Epoch u)
  obtain n where "u64_bigint u = Inr n" "0 \<le> n" "n < 2 ^ 64"
    using assms Epoch by (auto simp: u64_ok_def split: sum.splits)
  with Epoch show ?thesis
    by (simp add: TransactionExpiration_def carries_js_kind enum_names_Expiration carries_unsafe_u64)
next
  case (ValidDuring d)
  have "carries (ValidDuring_bcs p)
     (JObj [(''minEpoch'', js_option js_u64 (minEpoch d)), (''maxEpoch'', js_option js_u64 (maxEpoch d)),
      (''minTimestamp'', js_option js_u64 (minTimestamp d)), (''maxTimestamp'', js_option js_u64 (maxTimestamp d)),
      (''chain'', JStr (chain d)), (''nonce'', JNum (nonce d))])
     (JObj [(''minEpoch'', js_option js_u64 (map_option canon_u64 (minEpoch d))),
      (''maxEpoch'', js_option js_u64 (map_option canon_u64 (maxEpoch d))),
      (''minTimestamp'', js_option js_u64 (map_option canon_u64 (minTimestamp d))),
      (''maxTimestamp'', js_option js_u64 (map_option canon_u64 (maxTimestamp d))),
      (''chain'', JStr (canon_digest p (chain d))), (''nonce'', JNum (nonce d))])"
    unfolding ValidDuring_bcs_def
    by (intro carries_struct) (use assms ValidDuring in \<open>simp_all add: carries_opt_u64 carries_digest carries_u32\<close>)
  with ValidDuring show ?thesis by (simp add: TransactionExpiration_def carries_js_kind enum_names_Expiration)
qed

lemma js_not_nullish [simp]: "js_expiration e \<noteq> JUndefined" "\<not> is_nullish (js_expiration e)"
  by (cases e; simp)+

text \<open>The object \<open>TransactionData\<close> reads.\<close>

definition parsed_tx :: "jsval tx_data \<Rightarrow> jsval" where
  "parsed_tx t = js_kind ''V1'' (JObj
     [(''kind'', js_kind ''ProgrammableTransaction'' (js_programmable (inputs t) (commands t))),
      (''sender'', js_option JStr (sender t)),
      (''gasData'', JObj [(''payment'', js_option (\<lambda>rs. JArr (map js_object_ref rs)) (g_payment (gasData t))),
         (''owner'', js_option JStr (g_owner (gasData t))), (''price'', js_option js_u64 (g_price (gasData t))),
         (''budget'', js_option js_u64 (g_budget (gasData t)))]),
      (''expiration'', js_option js_expiration (expiration t))])"

lemma enum_names_Transaction: "enum_names [(''V1'', a)]"
  "enum_names [(''ProgrammableTransaction'', a), (''ChangeEpoch'', b), (''Genesis'', c), (''ConsensusCommitPrologue'', d)]"
  by (simp_all add: enum_names_def MAX_SAFE_INTEGER_def)

lemma carries_programmable:
  assumes "all_ok (call_arg_ok p n) ins" "all_ok (command_ok p n) cs"
  shows "carries (TransactionKind p n) (JObj [(''ProgrammableTransaction'', js_programmable ins cs)])
     (js_kind ''ProgrammableTransaction'' (js_programmable (map (canon_call_arg p) ins) (map canon_command cs)))"
proof -
  have "carries (ProgrammableTransaction p n) (js_programmable ins cs)
      (js_programmable (map (canon_call_arg p) ins) (map canon_command cs))"
    unfolding ProgrammableTransaction_def js_programmable_def map_map comp_def
    by (intro carries_struct)
      (simp_all add: carries_all [OF assms(1) carries_call_arg] carries_all [OF assms(2) carries_command])
  then show ?thesis
    unfolding TransactionKind_def
    by (intro carries_kind) (simp_all add: enum_names_Transaction js_programmable_def)
qed

lemma carries_built_expiration:
  assumes "expiration_ok p e"
  shows "carries (TransactionExpiration p) (case e of NoExpiration \<Rightarrow> JObj [(''None'', JBool True)] | e \<Rightarrow> js_expiration e)
     (js_expiration (canon_expiration p e))"
proof (cases e)
  case NoExpiration
  have "carries (TransactionExpiration p) (JObj [(''None'', JBool True)]) (js_kind ''None'' (JBool True))"
    unfolding TransactionExpiration_def by (rule carries_unit) (simp_all add: enum_names_Expiration)
  with NoExpiration show ?thesis by simp
qed (use carries_expiration [OF assms] in simp_all)

lemma carries_built:
  assumes "built_ok p n b"
  shows "carries (TransactionData p n) (JObj [(''V1'', js_built b)]) (parsed_tx (canon_built p b))"
proof -
  have ok: "all_ok (object_ref_ok p) (b_payment b)" "all_ok (call_arg_ok p n) (b_inputs b)" "all_ok (command_ok p n) (b_commands b)"
    using assms by (simp_all add: built_ok_def)
  have "carries (GasData p) (JObj [(''payment'', JArr (map js_object_ref (b_payment b))), (''owner'', JStr (b_owner b)),
         (''price'', JBigInt (b_price b)), (''budget'', JBigInt (b_budget b))])
      (JObj [(''payment'', JArr (map (\<lambda>r. js_object_ref (canon_object_ref p r)) (b_payment b))),
         (''owner'', JStr (canon_address (b_owner b))), (''price'', JStr (show_base 10 (nat (b_price b)))),
         (''budget'', JStr (show_base 10 (nat (b_budget b))))])"
    unfolding GasData_def
    by (intro carries_struct)
      (use assms in \<open>simp_all add: built_ok_def carries_address carries_u64_int carries_all [OF ok(1) carries_ref]\<close>)
  moreover have "carries (TransactionExpiration p)
      (case b_expiration b of NoExpiration \<Rightarrow> JObj [(''None'', JBool True)] | e \<Rightarrow> js_expiration e)
      (js_expiration (canon_expiration p (b_expiration b)))"
    using assms by (simp add: built_ok_def carries_built_expiration)
  moreover have "carries Address (JStr (b_sender b)) (JStr (canon_address (b_sender b)))"
    using assms by (simp add: built_ok_def carries_address)
  ultimately have "carries (TransactionDataV1 p n) (js_built b)
     (JObj [(''kind'', js_kind ''ProgrammableTransaction''
        (js_programmable (map (canon_call_arg p) (b_inputs b)) (map canon_command (b_commands b)))),
      (''sender'', JStr (canon_address (b_sender b))),
      (''gasData'', JObj [(''payment'', JArr (map (\<lambda>r. js_object_ref (canon_object_ref p r)) (b_payment b))),
         (''owner'', JStr (canon_address (b_owner b))), (''price'', JStr (show_base 10 (nat (b_price b)))),
         (''budget'', JStr (show_base 10 (nat (b_budget b))))]),
      (''expiration'', js_expiration (canon_expiration p (b_expiration b)))])"
    unfolding TransactionDataV1_def js_built_def
    by (intro carries_struct) (simp_all add: carries_programmable ok)
  then have "carries (TransactionData p n) (JObj [(''V1'', js_built b)]) (js_kind ''V1'' (JObj
     [(''kind'', js_kind ''ProgrammableTransaction''
        (js_programmable (map (canon_call_arg p) (b_inputs b)) (map canon_command (b_commands b)))),
      (''sender'', JStr (canon_address (b_sender b))),
      (''gasData'', JObj [(''payment'', JArr (map (\<lambda>r. js_object_ref (canon_object_ref p r)) (b_payment b))),
         (''owner'', JStr (canon_address (b_owner b))), (''price'', JStr (show_base 10 (nat (b_price b)))),
         (''budget'', JStr (show_base 10 (nat (b_budget b))))]),
      (''expiration'', js_expiration (canon_expiration p (b_expiration b)))]))"
    unfolding TransactionData_def by (intro carries_kind) (simp_all add: enum_names_Transaction js_built_def)
  then show ?thesis by (simp add: parsed_tx_def canon_built_def js_option_def comp_def)
qed


lemma prepare_address:
  assumes "address_ok a"
  shows "address_ok (prepareMySoAddress a)" "canon_address (prepareMySoAddress a) = canon_address a"
proof -
  have valid: "isValidMySoAddress (normalizeMySoAddress a False)" using assms by (simp add: address_ok_def)
  obtain bs where bs: "length bs = 32" "toHex bs = drop 2 (normalizeMySoAddress a False)"
    using fromHex_normalized [OF valid] by blast
  have n: "normalizeMySoAddress a False = ''0x'' @ toHex bs"
    unfolding bs(2) by (simp add: normalize_body)
  have len: "length (toHex bs) = 64" unfolding toHex_hex_of length_hex_of bs(1) by simp
  have "normalizeMySoAddress (drop 2 (normalizeMySoAddress a False)) False = normalizeMySoAddress a False"
  proof (rule normalize_drop)
    show "length (normalizeMySoAddress a False) = 66" using len by (simp add: n)
    show "\<not> startsWith (drop 2 (normalizeMySoAddress a False)) ''0x''"
      using hex_of_no_prefix [of bs] by (simp add: bs(2) [symmetric] toHex_hex_of)
  qed
  then show "canon_address (prepareMySoAddress a) = canon_address a" by (simp add: canon_address_def prepareMySoAddress_def)
  then show "address_ok (prepareMySoAddress a)"
    using valid len bs(2) by (auto simp: address_ok_def canon_address_def prepareMySoAddress_def)
qed

subsection \<open>An example\<close>

definition example_address :: string where
  "example_address = ''0x'' @ toHex (replicate 32 5)"

definition example_tx :: "jsval tx_data" where
  "example_tx =
     \<lparr>sender = Some example_address, expiration = Some (Epoch (U64Num 7)),
      gasData = \<lparr>g_budget = Some (U64Num 1000), g_price = Some (U64Num 5), g_owner = None,
        g_payment = Some [\<lparr>or_objectId = example_address, or_version = U64Num 3, or_digest = toHex (replicate 32 9)\<rparr>]\<rparr>,
      inputs = [Pure (toBase64 [1]), Object (SharedObject example_address (U64Num 1) True)],
      commands = [SplitCoins GasCoin [Input 0 (Some PureT)],
        MoveCall example_address ''m'' ''f'' [''u64''] [Result 0, Input 1 None], MakeMoveVec None []]\<rparr>"

lemma example_address_ok: "address_ok example_address"
  unfolding address_ok_def example_address_def
  by (simp only: normalize_0x_toHex valid_0x_toHex length_replicate append_is_Nil_conv list.distinct simp_thms)

lemma example_digest_ok: "digest_ok example_platform (toHex (replicate 32 9))"
  unfolding digest_ok_def example_platform_def platform.simps fromHex_toHex by (simp only: sum.case length_replicate)

lemma type_ok_u64: "type_ok p 1 ''u64''"
proof -
  have "parseFromStr ''u64'' True = Inr TU64" by (subst parseFromStr.simps) (simp add: primitive_tag_def)
  then show ?thesis by (simp add: type_ok_def)
qed

lemma base64_ok_toBase64: "length bs < 1000 \<Longrightarrow> base64_ok (toBase64 bs)"
  by (simp add: base64_ok_def fromBase64_toBase64 MAX_SAFE_INTEGER_def)

definition example_built :: "jsval built" where
  "example_built =
     \<lparr>b_sender = prepareMySoAddress example_address, b_expiration = Epoch (U64Num 7),
      b_payment = [\<lparr>or_objectId = example_address, or_version = U64Num 3, or_digest = toHex (replicate 32 9)\<rparr>],
      b_owner = prepareMySoAddress example_address, b_price = 5, b_budget = 1000,
      b_inputs = inputs example_tx, b_commands = commands example_tx\<rparr>"

lemma example_build_value: "build_value example_tx no_overrides = Inr example_built"
  by (simp add: build_value_def example_tx_def example_built_def no_overrides_def spread_gas_def pick_def truthy_str_def
      truthy_u64_def example_address_def)

lemma example_built_ok: "built_ok example_platform 1 example_built"
  unfolding built_ok_def example_built_def example_tx_def
  by (simp add: prepare_address example_address_ok example_digest_ok object_ref_ok_def u64_ok_def all_ok_def base64_ok_toBase64
      string_ok_example type_ok_u64 u16_ok_def del: One_nat_def)

subsection \<open>Building and reading back\<close>

lemma build_codec:
  assumes "build_value t ov = Inr b" "built_ok p n b"
  obtains bs where "codec (TransactionData p n) (JObj [(''V1'', js_built b)]) (parsed_tx (canon_built p b)) bs"
    "build p n t None ov False = Inr bs"
proof -
  obtain bs where c: "codec (TransactionData p n) (JObj [(''V1'', js_built b)]) (parsed_tx (canon_built p b)) bs"
    using carries_built [OF assms(2)] by (auto simp: carries_def)
  moreover have "build p n t None ov False = Inr bs"
    using codec_type_serialize [OF c, of "with_maxSize None"] assms(1)
    by (simp add: build_def with_maxSize_def no_options_def)
  ultimately show ?thesis using that by blast
qed

text \<open>The bytes that \<open>build\<close> makes are read back by the schema, whatever follows them, as the transaction in its
  canonical form: normalized addresses and types, canonical digests and base64, numbers as decimal texts.\<close>

theorem build_parses:
  assumes "build_value t ov = Inr b" "built_ok p n b"
  shows "\<exists>bs. build p n t None ov False = Inr bs \<and>
    type_parse (TransactionData p n) (uint8array_of (bs @ rest)) = Inr (parsed_tx (canon_built p b))"
  using build_codec [OF assms] codec_parse by metis

lemma build_parses_witness:
  "\<exists>bs. build example_platform 1 example_tx None no_overrides False = Inr bs \<and>
    type_parse (TransactionData example_platform 1) (uint8array_of (bs @ [7])) =
      Inr (parsed_tx (canon_built example_platform example_built))"
  by (rule build_parses [OF example_build_value example_built_ok])

lemma enum_serialize:
  "t_serialize (BcsEnum name flds no_opts) v opts = rmap w_toBytes (t_write (BcsEnum name flds no_opts) v (new_writer opts))"
proof -
  have "opts\<lparr>o_initialSize := (case o_initialSize opts of None \<Rightarrow> None | Some k \<Rightarrow> Some k)\<rparr> = opts"
    by (cases opts) (simp split: option.splits)
  then show ?thesis by (simp add: BcsEnum_def BcsType_new_def default_serialize_def no_size_def)
qed

lemma enum_serialize_bounded:
  assumes "codec (BcsEnum name flds no_opts) v x bs"
  shows "case type_serialize (BcsEnum name flds no_opts) v opts of
     Inr bs' \<Rightarrow> bs' = bs | Inl e \<Rightarrow> (\<exists>m. o_maxSize opts = Some m \<and> m < length bs)"
proof -
  have v: "t_validate (BcsEnum name flds no_opts) v = Inr ()" using assms by (rule codec_validate)
  have "emits (new_writer opts) bs (t_write (BcsEnum name flds no_opts) v (new_writer opts))"
    by (rule codec_write [OF assms]) simp
  then show ?thesis
    by (cases "t_write (BcsEnum name flds no_opts) v (new_writer opts)")
      (auto simp: type_serialize_def v enum_serialize emits_def new_writer_def Let_def w_toBytes_def)
qed

text \<open>C27: A maximal size changes nothing but that \<open>build\<close> may throw, and only when the transaction is larger.\<close>

theorem build_maxSize:
  assumes "build_value t ov = Inr b" "built_ok p n b" "build p n t None ov False = Inr bs"
  shows "case build p n t (Some m) ov False of Inr bs' \<Rightarrow> bs' = bs | Inl e \<Rightarrow> m < length bs"
proof -
  obtain bs0 where c: "codec (TransactionData p n) (JObj [(''V1'', js_built b)]) (parsed_tx (canon_built p b)) bs0"
    and b: "build p n t None ov False = Inr bs0" using build_codec [OF assms(1,2)] .
  from enum_serialize_bounded [OF c [unfolded TransactionData_def], of "with_maxSize (Some m)"] b assms(1,3)
  show ?thesis by (auto simp: build_def TransactionData_def with_maxSize_def split: sum.splits)
qed

lemma build_maxSize_witness:
  "\<exists>bs. build example_platform 1 example_tx None no_overrides False = Inr bs \<and>
    (case build example_platform 1 example_tx (Some 5000) no_overrides False of Inr bs' \<Rightarrow> bs' = bs | Inl e \<Rightarrow> 5000 < length bs)"
proof -
  obtain bs where b: "build example_platform 1 example_tx None no_overrides False = Inr bs"
    using build_codec [OF example_build_value example_built_ok] .
  from b build_maxSize [OF example_build_value example_built_ok b] show ?thesis by blast
qed

subsection \<open>What cannot be built\<close>

definition rejects :: "bcs_type \<Rightarrow> jsval \<Rightarrow> bool" where
  "rejects t v \<longleftrightarrow> (\<forall>w. \<not> is_ok (type_write t v w))"

lemma rejectsI: "(\<And>w w'. type_write t v w \<noteq> Inr w') \<Longrightarrow> rejects t v"
  unfolding rejects_def by (metis is_ok.elims(2))

lemma rejectsD: "rejects t v \<Longrightarrow> type_write t v w \<noteq> Inr w'"
  unfolding rejects_def by (metis is_ok.simps(2))

lemma rfold_rejects:
  assumes "x \<in> set xs" "\<And>s s'. f s x \<noteq> Inr s'"
  shows "rfold f s xs \<noteq> Inr s'"
  using assms(1)
proof (induction xs arbitrary: s)
  case (Cons y ys)
  then show ?case using assms(2) by (cases "f s y") auto
qed simp

lemma rejects_vector: "x \<in> set xs \<Longrightarrow> rejects t x \<Longrightarrow> rejects (vector t no_opts) (JArr xs)"
  using rfold_rejects [of x xs "\<lambda>w x. type_write t x w"] rejectsD
  by (intro rejectsI) (auto simp: type_write_def vector_def BcsType_new_def iterate_def res_simps)

lemma rejects_struct:
  assumes "(k, t) \<in> set ts" "get_prop v k = Inr y" "rejects t y"
  shows "rejects (BcsStruct name ts no_opts) v"
  using rfold_rejects [OF assms(1), of "\<lambda>w (field, type). rbind (get_prop v field) (\<lambda>x. type_write type x w)"] assms(2,3) rejectsD
  by (intro rejectsI) (auto simp: type_write_def BcsStruct_def BcsType_new_def struct_write_def res_simps)

lemma rejects_enum:
  assumes "enum_names flds" "map_of flds k = Some (Some t)" "rejects t y" "y \<noteq> JUndefined"
    and "\<forall>q\<in>set others. fst q \<notin> set (map fst flds)"
  shows "rejects (BcsEnum name flds no_opts) (JObj ((k, y) # others))"
proof -
  obtain i where i: "i < length flds" "flds ! i = (k, Some t)"
    using map_of_SomeD [OF assms(2)] by (auto simp: in_set_conv_nth)
  have k: "k \<in> set (map fst flds)" using assms(2) by (force dest: map_of_SomeD)
  have "distinct (map fst flds)" using assms(1) by (simp add: enum_names_def)
  note loop = enum_write_loop_ok [OF this i, of 0 y]
  have "enum_write flds (JObj ((k, y) # others)) w \<noteq> Inr w'" for w w'
    using only_variant [OF k assms(5), of y] loop rejectsD [OF assms(3)] by (auto simp: enum_write_def res_simps)
  then show ?thesis by (intro rejectsI) (auto simp: type_write_def BcsEnum_def BcsType_new_def res_simps)
qed

lemma rejects_no_variant:
  assumes "\<forall>q\<in>set ps. fst q \<notin> set (map fst flds)"
  shows "rejects (BcsEnum name flds no_opts) (JObj ps)"
proof -
  have "filter (\<lambda>(k, x). x \<noteq> JUndefined \<and> has_own flds k) ps = []"
    using assms by (simp add: filter_empty_conv has_own_def case_prod_unfold)
  then show ?thesis
    by (intro rejectsI) (auto simp: type_write_def BcsEnum_def BcsType_new_def res_simps check_def run_validate_def no_opts_def)
qed

lemma rejects_unresolved: "is_unresolved a \<Longrightarrow> rejects (CallArg p n) (js_call_arg a)"
  unfolding CallArg_def
  by (cases a) (auto simp: js_kind_def intro!: rejects_no_variant)

lemma rejects_intent: "rejects (Command p n) (js_command (Intent name ins data))"
  unfolding Command_def by (auto simp: js_kind_def intro!: rejects_no_variant)

definition is_intent :: "'v command \<Rightarrow> bool" where
  "is_intent c \<longleftrightarrow> (case c of Intent name ins data \<Rightarrow> True | _ \<Rightarrow> False)"

lemma rejects_programmable:
  assumes "list_ex is_unresolved ins \<or> list_ex is_intent cs"
  shows "rejects (ProgrammableTransaction p n) (js_programmable ins cs)"
  using assms
proof
  assume "list_ex is_unresolved ins"
  then obtain a where "a \<in> set ins" "is_unresolved a" by (auto simp: list_ex_iff)
  then have "rejects (vector (CallArg p n) no_opts) (JArr (map js_call_arg ins))"
    by (intro rejects_vector [OF _ rejects_unresolved]) auto
  then show ?thesis
    unfolding ProgrammableTransaction_def
    by (intro rejects_struct [of "''inputs''" "vector (CallArg p n) no_opts"]) (simp_all add: js_programmable_def)
next
  assume "list_ex is_intent cs"
  then obtain c where "c \<in> set cs" "is_intent c" by (auto simp: list_ex_iff)
  moreover have "rejects (Command p n) (js_command c)"
    using \<open>is_intent c\<close> rejects_intent by (cases c) (simp_all add: is_intent_def del: js_command.simps)
  ultimately have "rejects (vector (Command p n) no_opts) (JArr (map js_command cs))"
    by (intro rejects_vector [of "js_command c"]) simp_all
  then show ?thesis
    unfolding ProgrammableTransaction_def
    by (intro rejects_struct [of "''commands''" "vector (Command p n) no_opts"]) (simp_all add: js_programmable_def)
qed

lemma rejects_kind:
  assumes "list_ex is_unresolved ins \<or> list_ex is_intent cs"
  shows "rejects (TransactionKind p n) (JObj [(''ProgrammableTransaction'', js_programmable ins cs)])"
  unfolding TransactionKind_def
  by (rule rejects_enum [OF enum_names_Transaction(2) _ rejects_programmable [OF assms]])
    (simp_all add: js_programmable_def)

lemma rejects_built:
  assumes "list_ex is_unresolved (b_inputs b) \<or> list_ex is_intent (b_commands b)"
  shows "rejects (TransactionData p n) (JObj [(''V1'', js_built b)])"
proof -
  have "rejects (TransactionDataV1 p n) (js_built b)"
    unfolding TransactionDataV1_def
    by (rule rejects_struct [of "''kind''" "TransactionKind p n", OF _ _ rejects_kind [OF assms]])
      (simp_all add: js_built_def)
  then show ?thesis
    unfolding TransactionData_def by (rule rejects_enum [OF enum_names_Transaction(1), rotated]) (simp_all add: js_built_def)
qed

lemma enum_serialize_rejects:
  assumes "rejects (BcsEnum name flds no_opts) v"
  shows "\<exists>e. type_serialize (BcsEnum name flds no_opts) v opts = Inl e"
proof (cases "t_validate (BcsEnum name flds no_opts) v")
  case (Inr u)
  then have "t_write (BcsEnum name flds no_opts) v w \<noteq> Inr w'" for w w'
    using rejectsD [OF assms, of w w'] by (simp add: type_write_def)
  then show ?thesis
    using Inr by (cases "t_write (BcsEnum name flds no_opts) v (new_writer opts)")
      (auto simp: type_serialize_def enum_serialize)
qed (simp add: type_serialize_def)

text \<open>C4: A transaction with an unresolved input or an intent cannot be built, as a whole or as its kind only.\<close>

theorem build_unresolved:
  assumes "list_ex is_unresolved (inputs t) \<or> list_ex is_intent (commands t)"
  shows "\<exists>e. build p n t maxSizeBytes ov onlyTransactionKind = Inl e"
proof -
  have "\<exists>e. type_serialize (TransactionKind p n)
      (JObj [(''ProgrammableTransaction'', js_programmable (inputs t) (commands t))]) opts = Inl e" for opts
    unfolding TransactionKind_def
    by (rule enum_serialize_rejects) (rule rejects_kind [OF assms, unfolded TransactionKind_def])
  moreover have "\<exists>e. type_serialize (TransactionData p n) (JObj [(''V1'', js_built b)]) opts = Inl e"
    if "build_value t ov = Inr b" for b opts
  proof -
    have "b_inputs b = inputs t" "b_commands b = commands t"
      using that by (auto simp: build_value_def Let_def res_simps split: if_splits option.splits)
    then show ?thesis
      unfolding TransactionData_def
      using assms by (intro enum_serialize_rejects) (simp add: rejects_built [unfolded TransactionData_def])
  qed
  ultimately show ?thesis
    by (cases "build_value t ov") (auto simp: build_def build_kind_def)
qed

lemma build_unresolved_witness:
  "\<exists>e. build example_platform 1 (example_tx\<lparr>inputs := [UnresolvedPure JNull]\<rparr>) None no_overrides True = Inl e"
  by (rule build_unresolved) simp

subsection \<open>When a transaction can be built\<close>

lemma rejects_validate: "(\<And>u. t_validate t v \<noteq> Inr u) \<Longrightarrow> rejects t v"
  by (intro rejectsI) (auto simp: type_write_def res_simps)

lemma rejects_transform: "inp v = Inr x \<Longrightarrow> rejects t x \<Longrightarrow> rejects (type_transform t name (Some inp) outp None) v"
  using rejectsD [of t x] by (intro rejectsI) (auto simp: type_write_def type_transform_def Let_def res_simps)

lemma rejects_address: "\<not> address_ok a \<Longrightarrow> rejects Address (JStr a)"
  by (intro rejects_validate) (auto simp: Address_def type_transform_def Let_def address_validate_def address_ok_def res_simps)

lemma rejects_u64_named:
  assumes "case to_bigint v of Inl _ \<Rightarrow> True | Inr n \<Rightarrow> n < 0 \<or> 2 ^ 64 \<le> n"
  shows "rejects (bcs_u64 opts) v"
  using assms
  by (intro rejects_validate)
    (auto simp: bcs_u64_def bigUIntBcsType_def fixedSizeBcsType_def BcsType_new_def check_def res_simps split: sum.splits)

lemma rejects_u64: "\<not> u64_ok u \<Longrightarrow> rejects (bcs_u64 opts) (js_u64 u)"
  by (rule rejects_u64_named) (auto simp: u64_ok_def split: sum.splits)

lemma rejects_u32: "\<not> (0 \<le> n \<and> n < 2 ^ 32) \<Longrightarrow> rejects (bcs_u32 no_opts) (JNum n)"
  by (intro rejects_validate)
    (auto simp: bcs_u32_def uIntBcsType_def fixedSizeBcsType_def BcsType_new_def check_def res_simps)

lemma rejects_digest: "\<not> digest_ok p d \<Longrightarrow> rejects (Digest p) (JStr d)"
  by (intro rejects_validate)
    (auto simp: ObjectDigest_def type_transform_def Let_def digest_ok_def res_simps split: sum.splits if_splits)

lemma rejects_opt_u64:
  assumes "\<not> option_ok u64_ok u"
  shows "rejects (bcs_option (bcs_u64 no_opts)) (js_option js_u64 u)"
proof -
  obtain a where a: "u = Some a" "\<not> u64_ok a" using assms by (auto simp: option_ok_def split: option.splits)
  have "rejects (BcsEnum (''Option<'' @ t_name (bcs_u64 no_opts) @ ''>'') [(''None'', None), (''Some'', Some (bcs_u64 no_opts))] no_opts)
      (JObj [(''Some'', js_u64 a)])"
    by (rule rejects_enum [OF enum_names_Option _ rejects_u64 [OF a(2)]]) simp_all
  then show ?thesis
    unfolding bcs_option_def by (rule rejects_transform [rotated]) (simp add: option_input_def js_option_def a(1))
qed

lemma rejects_ref: "\<not> object_ref_ok p r \<Longrightarrow> rejects (ObjectRef p) (js_object_ref r)"
proof -
  have r: "rejects (ObjectRef p) (js_object_ref r)"
    if "(k, t) \<in> set [(''objectId'', Address), (''version'', bcs_u64 no_opts), (''digest'', Digest p)]"
      "get_prop (js_object_ref r) k = Inr y" "rejects t y" for k t y
    unfolding MySoObjectRef_def using that by (rule rejects_struct)
  show "\<not> object_ref_ok p r \<Longrightarrow> ?thesis"
    unfolding object_ref_ok_def
    using r [OF _ _ rejects_address, of "''objectId''"] r [OF _ _ rejects_u64, of "''version''"] r [OF _ _ rejects_digest, of "''digest''"]
    by (auto simp: js_object_ref_def)
qed

lemma rejects_valid_during:
  assumes "\<not> expiration_ok p (ValidDuring d)" "js_expiration (ValidDuring d) = js_kind ''ValidDuring'' y"
  shows "rejects (ValidDuring_bcs p) y"
proof -
  have y: "y = JObj [(''minEpoch'', js_option js_u64 (minEpoch d)), (''maxEpoch'', js_option js_u64 (maxEpoch d)),
      (''minTimestamp'', js_option js_u64 (minTimestamp d)), (''maxTimestamp'', js_option js_u64 (maxTimestamp d)),
      (''chain'', JStr (chain d)), (''nonce'', JNum (nonce d))]"
    using assms(2) by (simp add: js_kind_def)
  have r: "rejects (ValidDuring_bcs p) y"
    if "(k, t) \<in> set [(''minEpoch'', bcs_option (bcs_u64 no_opts)), (''maxEpoch'', bcs_option (bcs_u64 no_opts)),
        (''minTimestamp'', bcs_option (bcs_u64 no_opts)), (''maxTimestamp'', bcs_option (bcs_u64 no_opts)),
        (''chain'', Digest p), (''nonce'', bcs_u32 no_opts)]"
      "get_prop y k = Inr x" "rejects t x" for k t x
    unfolding ValidDuring_bcs_def using that by (rule rejects_struct)
  consider "\<not> option_ok u64_ok (minEpoch d)" | "\<not> option_ok u64_ok (maxEpoch d)" | "\<not> option_ok u64_ok (minTimestamp d)"
    | "\<not> option_ok u64_ok (maxTimestamp d)" | "\<not> digest_ok p (chain d)" | "\<not> (0 \<le> nonce d \<and> nonce d < 2 ^ 32)"
    using assms(1) by auto
  then show ?thesis
  proof cases
    case 1
    then show ?thesis by (intro r [OF _ _ rejects_opt_u64, of "''minEpoch''"]) (simp_all add: y)
  next
    case 2
    then show ?thesis by (intro r [OF _ _ rejects_opt_u64, of "''maxEpoch''"]) (simp_all add: y)
  next
    case 3
    then show ?thesis by (intro r [OF _ _ rejects_opt_u64, of "''minTimestamp''"]) (simp_all add: y)
  next
    case 4
    then show ?thesis by (intro r [OF _ _ rejects_opt_u64, of "''maxTimestamp''"]) (simp_all add: y)
  next
    case 5
    then show ?thesis by (intro r [OF _ _ rejects_digest, of "''chain''"]) (simp_all add: y)
  next
    case 6
    then show ?thesis by (intro r [OF _ _ rejects_u32, of "''nonce''"]) (simp_all add: y)
  qed
qed

lemma rejects_expiration:
  assumes "\<not> expiration_ok p e"
  shows "rejects (TransactionExpiration p) (js_expiration e)"
proof (cases e)
  case (Epoch u)
  then have "rejects (unsafe_u64 no_opts) (js_u64 u)"
    unfolding unsafe_u64_def using assms by (intro rejects_transform [where x = "js_u64 u"]) (simp_all add: rejects_u64)
  with Epoch show ?thesis
    unfolding TransactionExpiration_def by (auto simp: js_kind_def enum_names_Expiration intro!: rejects_enum)
next
  case (ValidDuring d)
  obtain y where y: "js_expiration e = js_kind ''ValidDuring'' y" "y \<noteq> JUndefined" using ValidDuring by simp
  with ValidDuring have "rejects (ValidDuring_bcs p) y" using rejects_valid_during assms by metis
  with y show ?thesis
    unfolding TransactionExpiration_def by (auto simp: js_kind_def enum_names_Expiration intro!: rejects_enum)
qed (use assms in simp)

text \<open>The fields of the transaction beside its inputs and commands.\<close>

definition header_ok :: "platform \<Rightarrow> 'v built \<Rightarrow> bool" where
  "header_ok p b \<longleftrightarrow> address_ok (b_sender b) \<and> address_ok (b_owner b) \<and> expiration_ok p (b_expiration b) \<and>
     list_all (object_ref_ok p) (b_payment b) \<and> 0 \<le> b_price b \<and> b_price b < 2 ^ 64 \<and> 0 \<le> b_budget b \<and> b_budget b < 2 ^ 64"

lemma rejects_gas:
  assumes "\<not> (address_ok (b_owner b) \<and> list_all (object_ref_ok p) (b_payment b) \<and>
      0 \<le> b_price b \<and> b_price b < 2 ^ 64 \<and> 0 \<le> b_budget b \<and> b_budget b < 2 ^ 64)"
  shows "rejects (GasData p) (JObj [(''payment'', JArr (map js_object_ref (b_payment b))), (''owner'', JStr (b_owner b)),
         (''price'', JBigInt (b_price b)), (''budget'', JBigInt (b_budget b))])" (is "rejects _ ?gas")
proof -
  have r: "rejects (GasData p) ?gas"
    if "(k, t) \<in> set [(''payment'', vector (ObjectRef p) no_opts), (''owner'', Address), (''price'', bcs_u64 no_opts),
        (''budget'', bcs_u64 no_opts)]" "get_prop ?gas k = Inr x" "rejects t x" for k t x
    unfolding GasData_def using that by (rule rejects_struct)
  consider "\<not> address_ok (b_owner b)" | "\<not> list_all (object_ref_ok p) (b_payment b)"
    | "b_price b < 0 \<or> 2 ^ 64 \<le> b_price b" | "b_budget b < 0 \<or> 2 ^ 64 \<le> b_budget b"
    using assms by linarith
  then show ?thesis
  proof cases
    case 1
    then show ?thesis by (intro r [OF _ _ rejects_address, of "''owner''"]) simp_all
  next
    case 2
    then obtain x where "x \<in> set (b_payment b)" "\<not> object_ref_ok p x" by (auto simp: list_all_iff)
    then have "rejects (vector (ObjectRef p) no_opts) (JArr (map js_object_ref (b_payment b)))"
      by (intro rejects_vector [OF _ rejects_ref]) auto
    then show ?thesis by (intro r [of "''payment''"]) simp_all
  next
    case 3
    then have "rejects (bcs_u64 no_opts) (JBigInt (b_price b))" by (intro rejects_u64_named) simp
    then show ?thesis by (intro r [of "''price''"]) simp_all
  next
    case 4
    then have "rejects (bcs_u64 no_opts) (JBigInt (b_budget b))" by (intro rejects_u64_named) simp
    then show ?thesis by (intro r [of "''budget''"]) simp_all
  qed
qed

lemma rejects_header:
  assumes "\<not> header_ok p b"
  shows "rejects (TransactionData p n) (JObj [(''V1'', js_built b)])"
proof -
  have r: "rejects (TransactionDataV1 p n) (js_built b)"
    if "(k, t) \<in> set [(''kind'', TransactionKind p n), (''sender'', Address), (''gasData'', GasData p),
        (''expiration'', TransactionExpiration p)]" "get_prop (js_built b) k = Inr x" "rejects t x" for k t x
    unfolding TransactionDataV1_def using that by (rule rejects_struct)
  have "rejects (TransactionDataV1 p n) (js_built b)"
  proof (cases "address_ok (b_sender b)")
    case False
    then show ?thesis by (intro r [OF _ _ rejects_address, of "''sender''"]) (simp_all add: js_built_def)
  next
    case sender: True
    show ?thesis
    proof (cases "expiration_ok p (b_expiration b)")
      case False
      then have "b_expiration b \<noteq> NoExpiration" by auto
      with False show ?thesis
        by (intro r [OF _ _ rejects_expiration, of "''expiration''" _ "b_expiration b"])
          (auto simp: js_built_def split: expiration.split)
    next
      case True
      with sender assms show ?thesis
        by (intro r [OF _ _ rejects_gas, of "''gasData''" _ b]) (simp_all add: js_built_def header_ok_def)
    qed
  qed
  then show ?thesis
    unfolding TransactionData_def by (rule rejects_enum [OF enum_names_Transaction(1), rotated]) (simp_all add: js_built_def)
qed

lemma build_header_iff:
  assumes "all_ok (call_arg_ok p n) (inputs t)" "all_ok (command_ok p n) (commands t)"
    and "build_value t ov = Inr b" "length (b_payment b) < 2 ^ 32"
  shows "(\<exists>bs. build p n t None ov False = Inr bs) \<longleftrightarrow> header_ok p b"
proof
  assume "header_ok p b"
  moreover have "b_inputs b = inputs t" "b_commands b = commands t"
    using assms(3) by (simp_all add: build_value_Inr Let_def)
  ultimately have "built_ok p n b" using assms(1,2,4) by (simp add: built_ok_def header_ok_def all_ok_def)
  then show "\<exists>bs. build p n t None ov False = Inr bs" using build_codec [OF assms(3)] by metis
next
  assume "\<exists>bs. build p n t None ov False = Inr bs"
  then obtain bs where "type_serialize (TransactionData p n) (JObj [(''V1'', js_built b)]) (with_maxSize None) = Inr bs"
    by (auto simp: build_def assms(3))
  then show "header_ok p b"
    using enum_serialize_rejects [OF rejects_header [of p b n, unfolded TransactionData_def], of "with_maxSize None"]
    by (auto simp: TransactionData_def)
qed

lemma build_header_built:
  assumes "all_ok (call_arg_ok p n) (inputs t)" "all_ok (command_ok p n) (commands t)"
    and "\<And>refs. pick (v_payment (ov_gasData ov)) (g_payment (gasData t)) = Some refs \<Longrightarrow> length refs < 2 ^ 32"
  shows "(\<exists>bs. build p n t None ov False = Inr bs) \<longleftrightarrow> (\<exists>b. build_value t ov = Inr b \<and> header_ok p b)"
proof (cases "build_value t ov")
  case (Inl e)
  then show ?thesis by (simp add: build_def)
next
  case (Inr b)
  then have "length (b_payment b) < 2 ^ 32" using assms(3) by (simp add: build_value_Inr Let_def spread_gas_def)
  then show ?thesis using build_header_iff [OF assms(1,2) Inr] Inr by simp
qed

lemma truthy_str_iff: "truthy_str x \<longleftrightarrow> (\<exists>a. x = Some a \<and> a \<noteq> [])"
  by (cases x) (simp_all add: truthy_str_def)

lemma truthy_u64_Some: "truthy_u64 x \<Longrightarrow> \<exists>u. x = Some u"
  by (cases x) (simp_all add: truthy_u64_def)

lemma u64_ok_bigint: "u64_ok u \<longleftrightarrow> (\<exists>m. u64_bigint u = Inr m \<and> 0 \<le> m \<and> m < 2 ^ 64)"
  by (auto simp: u64_ok_def split: sum.splits)

text \<open>The parts of a transaction that \<open>build\<close> accepts make the value it writes.\<close>

lemma header_of_parts:
  assumes "(case ov_sender ov of Some s \<Rightarrow> Some s | None \<Rightarrow> sender t) = Some from" "from \<noteq> []"
    "address_ok (prepareMySoAddress from)"
    "address_ok (prepareMySoAddress (case g_owner (gasData t) of Some a \<Rightarrow> a | None \<Rightarrow> from))"
    "pick (v_budget (ov_gasData ov)) (g_budget (gasData t)) = Some budget" "truthy_u64 (Some budget)" "u64_ok budget"
    "pick (v_price (ov_gasData ov)) (g_price (gasData t)) = Some price" "truthy_u64 (Some price)" "u64_ok price"
    "pick (v_payment (ov_gasData ov)) (g_payment (gasData t)) = Some refs" "list_all (object_ref_ok p) refs"
    "expiration_ok p (case ov_expiration ov of Some e \<Rightarrow> e | None \<Rightarrow> (case expiration t of None \<Rightarrow> NoExpiration | Some e \<Rightarrow> e))"
  shows "\<exists>b. build_value t ov = Inr b \<and> header_ok p b"
proof -
  obtain bm pm where amounts: "u64_bigint budget = Inr bm" "0 \<le> bm" "bm < 2 ^ 64" "u64_bigint price = Inr pm" "0 \<le> pm" "pm < 2 ^ 64"
    using assms(7,10) unfolding u64_ok_bigint by blast
  let ?b = "\<lparr>b_sender = prepareMySoAddress from, b_expiration = (case ov_expiration ov of Some e \<Rightarrow> e
       | None \<Rightarrow> (case expiration t of None \<Rightarrow> NoExpiration | Some e \<Rightarrow> e)), b_payment = refs,
     b_owner = prepareMySoAddress (case g_owner (gasData t) of Some a \<Rightarrow> a | None \<Rightarrow> from), b_price = pm, b_budget = bm,
     b_inputs = inputs t, b_commands = commands t\<rparr>"
  have "build_value t ov = Inr ?b"
    using assms amounts by (simp add: build_value_Inr Let_def spread_gas_def truthy_str_iff cong: option.case_cong)
  moreover have "header_ok p ?b" using assms amounts by (simp add: header_ok_def)
  ultimately show ?thesis by blast
qed



subsection \<open>The stack a type needs\<close>

fun tag_height :: "type_tag \<Rightarrow> nat" where
  "tag_height (TVector t) = Suc (tag_height t)"
| "tag_height (TStruct a m name ps) = Suc (foldr max (map tag_height ps) 0)"
| "tag_height t = 1"

fun tag_valid :: "platform \<Rightarrow> type_tag \<Rightarrow> bool" where
  "tag_valid p (TVector t) = tag_valid p t"
| "tag_valid p (TStruct a m name ps) =
     (address_ok a \<and> string_ok p m \<and> string_ok p name \<and> length ps < 2 ^ 32 \<and> (\<forall>t\<in>set ps. tag_valid p t))"
| "tag_valid p t = True"

lemma foldr_max_le: "foldr max (map f xs) 0 \<le> (n :: nat) \<longleftrightarrow> (\<forall>x\<in>set xs. f x \<le> n)"
  by (induction xs) auto

lemma tag_ok_iff: "tag_ok p n t \<longleftrightarrow> tag_height t \<le> n \<and> tag_valid p t"
proof (induction p n t rule: tag_ok.induct)
  case (1 p t)
  then show ?case by (cases t) auto
next
  case (3 p n a m name ps)
  then show ?case by (auto simp: foldr_max_le)
qed auto

text \<open>C26: A stack as deep as the tag is high is enough to write a type tag, and to read it back with its addresses
  normalized.\<close>

theorem type_tag_bcs:
  assumes "tag_valid p t" "tag_height t \<le> n"
  shows "\<exists>bs. type_serialize (InnerTypeTag p n) (js_tag t) no_options = Inr bs \<and>
    rbind (type_parse (InnerTypeTag p n) (uint8array_of (bs @ rest))) tag_of_js = Inr (normalize_tag t)"
proof -
  have "tag_ok p n t" using assms by (simp add: tag_ok_iff)
  from carries_parse [OF carries_tag [OF this]] show ?thesis by (metis rbind.simps(2) tag_of_js_parsed)
qed

lemma type_tag_bcs_witness:
  "\<exists>bs. type_serialize (InnerTypeTag example_platform 3) (js_tag (TVector (TVector TU8))) no_options = Inr bs \<and>
    rbind (type_parse (InnerTypeTag example_platform 3) (uint8array_of (bs @ []))) tag_of_js =
      Inr (normalize_tag (TVector (TVector TU8)))"
  by (rule type_tag_bcs) simp_all

end
