(* ===== verification/Transaction_Restore.thy ===== *)
theory Transaction_Restore
  imports Transaction_Bcs
begin

text \<open>
  The valibot schemas of \<open>packages/myso/src/transactions/data/internal.ts\<close>, and \<open>fromKindBytes\<close>,
  \<open>fromBytes\<close> and \<open>restore\<close> of \<open>TransactionData.ts\<close>, which pass what the BCS schemas read through them.

  valibot is a package. A schema is an expression over its combinators (\<open>vschema\<close>), its \<open>parse\<close> a
  parameter; the locale \<open>valibot\<close> states the documented behaviour of \<open>parse\<close> on each combinator the
  schemas use, on objects that are their own properties.
\<close>

subsection \<open>Schemas\<close>

datatype vaction =
    VInteger
  | VCheck "jsval \<Rightarrow> bool"
  | VTransform "jsval \<Rightarrow> jsval"

datatype vschema =
    VString | VNumber | VBoolean | VUnknown
  | VLiteral jsval
  | VArray vschema
  | VTuple "vschema list"
  | VObject "(string \<times> vschema) list"
  | VRecord vschema
  | VUnion "vschema list"
  | VOptional vschema
  | VNullable vschema
  | VNullish vschema
  | VPipe vschema "vaction list"

fun run_actions :: "vaction list \<Rightarrow> jsval \<Rightarrow> jsval option" where
  "run_actions [] v = Some v"
| "run_actions (VInteger # as) v = (case v of JNum n \<Rightarrow> run_actions as v | _ \<Rightarrow> None)"
| "run_actions (VCheck f # as) v = (if f v then run_actions as v else None)"
| "run_actions (VTransform f # as) v = run_actions as (f v)"

text \<open>An entry whose key may be missing.\<close>

fun may_miss :: "vschema \<Rightarrow> bool" where
  "may_miss (VOptional _) = True"
| "may_miss (VNullish _) = True"
| "may_miss _ = False"

text \<open>The entries of an object schema on the properties \<open>ps\<close>: the output has the keys of the schema, in its order.\<close>

fun parses_entries :: "(vschema \<Rightarrow> jsval \<Rightarrow> jsval res) \<Rightarrow> (string \<times> vschema) list \<Rightarrow> (string \<times> jsval) list
    \<Rightarrow> (string \<times> jsval) list \<Rightarrow> bool" where
  "parses_entries parse [] ps out = (out = [])"
| "parses_entries parse ((k, s) # es) ps out =
     (case map_of ps k of
        None \<Rightarrow> may_miss s \<and> parses_entries parse es ps out
      | Some x \<Rightarrow> (\<exists>y out'. parse s x = Inr y \<and> out = (k, y) # out' \<and> parses_entries parse es ps out'))"

definition plain_key :: "string \<Rightarrow> bool" where
  "plain_key k \<longleftrightarrow> k \<notin> {''__proto__'', ''prototype'', ''constructor''}"

text \<open>A key that neither an array nor a prototype has: it starts with a capital letter.\<close>

definition capital_key :: "string \<Rightarrow> bool" where
  "capital_key k \<longleftrightarrow> k \<noteq> [] \<and> 65 \<le> (of_char (hd k) :: nat) \<and> (of_char (hd k) :: nat) \<le> 90"

locale valibot =
  fixes parse :: "vschema \<Rightarrow> jsval \<Rightarrow> jsval res"
  assumes parse_string: "parse VString v = Inr y \<longleftrightarrow> (\<exists>s. v = JStr s) \<and> y = v"
    and parse_number: "parse VNumber v = Inr y \<longleftrightarrow> (\<exists>n. v = JNum n) \<and> y = v"
    and parse_boolean: "parse VBoolean v = Inr y \<longleftrightarrow> (\<exists>b. v = JBool b) \<and> y = v"
    and parse_unknown: "parse VUnknown v = Inr y \<longleftrightarrow> y = v"
    and parse_literal: "\<not> is_object l \<Longrightarrow> parse (VLiteral l) v = Inr y \<longleftrightarrow> v = l \<and> y = v"
    and parse_array: "parse (VArray s) v = Inr y \<longleftrightarrow>
      (\<exists>xs ys. v = JArr xs \<and> y = JArr ys \<and> list_all2 (\<lambda>x y. parse s x = Inr y) xs ys)"
    and parse_tuple: "length xs = length ss \<Longrightarrow> parse (VTuple ss) (JArr xs) = Inr y \<longleftrightarrow>
      (\<exists>ys. y = JArr ys \<and> list_all2 (\<lambda>(s, x) y. parse s x = Inr y) (zip ss xs) ys)"
    and parse_object: "parse (VObject es) (JObj ps) = Inr y \<longleftrightarrow> (\<exists>out. y = JObj out \<and> parses_entries parse es ps out)"
    and parse_object_array: "(k, s) \<in> set es \<Longrightarrow> \<not> may_miss s \<Longrightarrow> capital_key k \<Longrightarrow> parse (VObject es) (JArr xs) \<noteq> Inr y"
    and parse_record: "list_all (\<lambda>(k, x). plain_key k) ps \<Longrightarrow> parse (VRecord s) (JObj ps) = Inr y \<longleftrightarrow>
      (\<exists>out. y = JObj out \<and> list_all2 (\<lambda>(k, x) (k', y). k' = k \<and> parse s x = Inr y) ps out)"
    and parse_union: "parse (VUnion []) v \<noteq> Inr y"
      "parse (VUnion (s # ss)) v = Inr y \<longleftrightarrow>
         parse s v = Inr y \<or> (\<forall>z. parse s v \<noteq> Inr z) \<and> parse (VUnion ss) v = Inr y"
    and parse_optional: "parse (VOptional s) v = Inr y \<longleftrightarrow> (if v = JUndefined then y = v else parse s v = Inr y)"
    and parse_nullable: "parse (VNullable s) v = Inr y \<longleftrightarrow> (if v = JNull then y = v else parse s v = Inr y)"
    and parse_nullish: "parse (VNullish s) v = Inr y \<longleftrightarrow> (if is_nullish v then y = v else parse s v = Inr y)"
    and parse_pipe: "parse (VPipe s as) v = Inr y \<longleftrightarrow> (\<exists>x. parse s v = Inr x \<and> run_actions as x = Some y)"

subsection \<open>The schemas of the transaction data\<close>

text \<open>\<open>{ ...value, $kind: key }\<close>.\<close>

definition set_kind :: "string \<Rightarrow> jsval \<Rightarrow> jsval" where
  "set_kind key v = JObj (AList.update ''$kind'' (JStr key) (entries v))"

definition withKind :: "string \<Rightarrow> (string \<times> vschema) list \<Rightarrow> vschema" where
  "withKind key es =
     VPipe (VObject (es @ [(''$kind'', VOptional (VLiteral (JStr key)))])) [VTransform (set_kind key)]"

definition safeEnum :: "(string \<times> vschema) list \<Rightarrow> vschema" where
  "safeEnum options = VUnion (map (\<lambda>(key, s). withKind key [(key, s)]) options)"

definition normalize_value :: "jsval \<Rightarrow> jsval" where
  "normalize_value v = (case v of JStr s \<Rightarrow> JStr (normalizeMySoAddress s False) | _ \<Rightarrow> v)"

definition valid_value :: "jsval \<Rightarrow> bool" where
  "valid_value v \<longleftrightarrow> (case v of JStr s \<Rightarrow> isValidMySoAddress s | _ \<Rightarrow> False)"

definition MySoAddress :: vschema where
  "MySoAddress = VPipe VString [VTransform normalize_value, VCheck valid_value]"

definition VInt :: vschema where
  "VInt = VPipe VNumber [VInteger]"

definition is_u64 :: "jsval \<Rightarrow> bool" where
  "is_u64 v \<longleftrightarrow> (case to_bigint v of Inl _ \<Rightarrow> False | Inr n \<Rightarrow> n \<ge> 0 \<and> n \<le> 18446744073709551615)"

definition JsonU64 :: vschema where
  "JsonU64 = VPipe (VUnion [VString, VInt]) [VCheck is_u64]"

definition is_u32 :: "jsval \<Rightarrow> bool" where
  "is_u32 v \<longleftrightarrow> (case v of JNum n \<Rightarrow> n \<ge> 0 \<and> n < 2 ^ 32 | _ \<Rightarrow> False)"

definition U32 :: vschema where
  "U32 = VPipe VNumber [VInteger, VCheck is_u32]"

definition ObjectRefSchema :: vschema where
  "ObjectRefSchema = VObject [(''objectId'', MySoAddress), (''version'', JsonU64), (''digest'', VString)]"

definition ArgumentSchema :: vschema where
  "ArgumentSchema = VUnion
     [withKind ''GasCoin'' [(''GasCoin'', VLiteral (JBool True))],
      withKind ''Input'' [(''Input'', VInt),
        (''type'', VOptional (VUnion [VLiteral (JStr ''pure''), VLiteral (JStr ''object''), VLiteral (JStr ''withdrawal'')]))],
      withKind ''Result'' [(''Result'', VInt)],
      withKind ''NestedResult'' [(''NestedResult'', VTuple [VInt, VInt])]]"

definition GasDataSchema :: vschema where
  "GasDataSchema = VObject
     [(''budget'', VNullable JsonU64), (''price'', VNullable JsonU64), (''owner'', VNullable MySoAddress),
      (''payment'', VNullable (VArray ObjectRefSchema))]"

text \<open>\<open>lazy\<close> recurses as deep as the value is nested; \<open>n\<close> bounds the depth.\<close>

primrec OpenSignatureBodySchema :: "nat \<Rightarrow> vschema" where
  "OpenSignatureBodySchema 0 = VUnion []"
| "OpenSignatureBodySchema (Suc n) = VUnion
     (map (\<lambda>k. VObject [(''$kind'', VLiteral (JStr k))])
        [''address'', ''bool'', ''u8'', ''u16'', ''u32'', ''u64'', ''u128'', ''u256'', ''unknown''] @
      [VObject [(''$kind'', VLiteral (JStr ''vector'')), (''vector'', OpenSignatureBodySchema n)],
       VObject [(''$kind'', VLiteral (JStr ''datatype'')),
         (''datatype'', VObject [(''typeName'', VString), (''typeParameters'', VArray (OpenSignatureBodySchema n))])],
       VObject [(''$kind'', VLiteral (JStr ''typeParameter'')), (''index'', VInt)]])"

definition OpenSignatureSchema :: "nat \<Rightarrow> vschema" where
  "OpenSignatureSchema n = VObject
     [(''reference'', VNullable (VUnion [VLiteral (JStr ''mutable''), VLiteral (JStr ''immutable''), VLiteral (JStr ''unknown'')])),
      (''body'', OpenSignatureBodySchema n)]"

definition ProgrammableMoveCallSchema :: "nat \<Rightarrow> vschema" where
  "ProgrammableMoveCallSchema n = VObject
     [(''package'', MySoAddress), (''module'', VString), (''function'', VString), (''typeArguments'', VArray VString),
      (''arguments'', VArray ArgumentSchema),
      (''_argumentTypes'', VOptional (VNullable (VArray (OpenSignatureSchema n))))]"

definition IntentSchema :: vschema where
  "IntentSchema = VObject
     [(''name'', VString), (''inputs'', VRecord (VUnion [ArgumentSchema, VArray ArgumentSchema])), (''data'', VRecord VUnknown)]"

definition CommandSchema :: "nat \<Rightarrow> vschema" where
  "CommandSchema n = safeEnum
     [(''MoveCall'', ProgrammableMoveCallSchema n),
      (''TransferObjects'', VObject [(''objects'', VArray ArgumentSchema), (''address'', ArgumentSchema)]),
      (''SplitCoins'', VObject [(''coin'', ArgumentSchema), (''amounts'', VArray ArgumentSchema)]),
      (''MergeCoins'', VObject [(''destination'', ArgumentSchema), (''sources'', VArray ArgumentSchema)]),
      (''Publish'', VObject [(''modules'', VArray VString), (''dependencies'', VArray MySoAddress)]),
      (''MakeMoveVec'', VObject [(''type'', VNullable VString), (''elements'', VArray ArgumentSchema)]),
      (''Upgrade'', VObject [(''modules'', VArray VString), (''dependencies'', VArray MySoAddress),
         (''package'', MySoAddress), (''ticket'', ArgumentSchema)]),
      (''$Intent'', IntentSchema)]"

definition ObjectArgSchema :: vschema where
  "ObjectArgSchema = safeEnum
     [(''ImmOrOwnedObject'', ObjectRefSchema),
      (''SharedObject'', VObject [(''objectId'', MySoAddress), (''initialSharedVersion'', JsonU64), (''mutable'', VBoolean)]),
      (''Receiving'', ObjectRefSchema)]"

definition ReservationSchema :: vschema where
  "ReservationSchema = safeEnum [(''MaxAmountU64'', JsonU64)]"

definition WithdrawalTypeArgSchema :: vschema where
  "WithdrawalTypeArgSchema = safeEnum [(''Balance'', VString)]"

definition WithdrawFromSchema :: vschema where
  "WithdrawFromSchema = safeEnum [(''Sender'', VLiteral (JBool True)), (''Sponsor'', VLiteral (JBool True))]"

definition FundsWithdrawalArgSchema :: vschema where
  "FundsWithdrawalArgSchema = VObject
     [(''reservation'', ReservationSchema), (''typeArg'', WithdrawalTypeArgSchema), (''withdrawFrom'', WithdrawFromSchema)]"

definition CallArgSchema :: vschema where
  "CallArgSchema = safeEnum
     [(''Object'', ObjectArgSchema),
      (''Pure'', VObject [(''bytes'', VString)]),
      (''UnresolvedPure'', VObject [(''value'', VUnknown)]),
      (''UnresolvedObject'', VObject [(''objectId'', MySoAddress), (''version'', VOptional (VNullable JsonU64)),
         (''digest'', VOptional (VNullable VString)), (''initialSharedVersion'', VOptional (VNullable JsonU64)),
         (''mutable'', VOptional (VNullable VBoolean))]),
      (''FundsWithdrawal'', FundsWithdrawalArgSchema)]"

definition ValidDuringSchema :: vschema where
  "ValidDuringSchema = VObject
     [(''minEpoch'', VNullable JsonU64), (''maxEpoch'', VNullable JsonU64), (''minTimestamp'', VNullable JsonU64),
      (''maxTimestamp'', VNullable JsonU64), (''chain'', VString), (''nonce'', U32)]"

definition ExpirationSchema :: vschema where
  "ExpirationSchema = safeEnum
     [(''None'', VLiteral (JBool True)), (''Epoch'', JsonU64), (''ValidDuring'', ValidDuringSchema)]"

definition TransactionDataSchema :: "nat \<Rightarrow> vschema" where
  "TransactionDataSchema n = VObject
     [(''version'', VLiteral (JNum 2)), (''sender'', VNullish MySoAddress), (''expiration'', VNullish ExpirationSchema),
      (''gasData'', GasDataSchema), (''inputs'', VArray CallArgSchema), (''commands'', VArray (CommandSchema n))]"

subsection \<open>What the schemas accept and give\<close>

definition valid_address :: "string \<Rightarrow> bool" where
  "valid_address a \<longleftrightarrow> isValidMySoAddress (canon_address a)"

definition normal_ref :: "object_ref \<Rightarrow> object_ref" where
  "normal_ref r = r\<lparr>or_objectId := canon_address (or_objectId r)\<rparr>"

definition valid_ref :: "object_ref \<Rightarrow> bool" where
  "valid_ref r \<longleftrightarrow> valid_address (or_objectId r) \<and> u64_ok (or_version r)"

fun valid_object_arg :: "object_arg \<Rightarrow> bool" where
  "valid_object_arg (ImmOrOwnedObject r) = valid_ref r"
| "valid_object_arg (SharedObject i v m) = (valid_address i \<and> u64_ok v)"
| "valid_object_arg (Receiving r) = valid_ref r"

fun normal_object_arg :: "object_arg \<Rightarrow> object_arg" where
  "normal_object_arg (ImmOrOwnedObject r) = ImmOrOwnedObject (normal_ref r)"
| "normal_object_arg (SharedObject i v m) = SharedObject (canon_address i) v m"
| "normal_object_arg (Receiving r) = Receiving (normal_ref r)"

fun valid_call_arg :: "'v call_arg \<Rightarrow> bool" where
  "valid_call_arg (Object a) = valid_object_arg a"
| "valid_call_arg (UnresolvedObject u) =
     (valid_address (uo_objectId u) \<and> option_ok u64_ok (uo_version u) \<and> option_ok u64_ok (uo_initialSharedVersion u))"
| "valid_call_arg (FundsWithdrawal amount type payer) = u64_ok amount"
| "valid_call_arg _ = True"

fun normal_call_arg :: "'v call_arg \<Rightarrow> 'v call_arg" where
  "normal_call_arg (Object a) = Object (normal_object_arg a)"
| "normal_call_arg (UnresolvedObject u) = UnresolvedObject (u\<lparr>uo_objectId := canon_address (uo_objectId u)\<rparr>)"
| "normal_call_arg a = a"

fun valid_command :: "jsval command \<Rightarrow> bool" where
  "valid_command (MoveCall package m f tys args) = valid_address package"
| "valid_command (Publish modules dependencies) = list_all valid_address dependencies"
| "valid_command (Upgrade modules dependencies package ticket) =
     (list_all valid_address dependencies \<and> valid_address package)"
| "valid_command _ = True"

fun normal_command :: "jsval command \<Rightarrow> jsval command" where
  "normal_command (MoveCall package m f tys args) = MoveCall (canon_address package) m f tys args"
| "normal_command (Publish modules dependencies) = Publish modules (map canon_address dependencies)"
| "normal_command (Upgrade modules dependencies package ticket) =
     Upgrade modules (map canon_address dependencies) (canon_address package) ticket"
| "normal_command c = c"

text \<open>The data of an intent is a record, and no key of the records is one of those valibot refuses.\<close>

fun plain_command :: "jsval command \<Rightarrow> bool" where
  "plain_command (Intent name ins data) =
     (list_all (\<lambda>(k, i). plain_key k) ins \<and>
      (case data of JObj ps \<Rightarrow> list_all (\<lambda>(k, x). plain_key k) ps | _ \<Rightarrow> False))"
| "plain_command _ = True"

fun valid_expiration :: "expiration \<Rightarrow> bool" where
  "valid_expiration NoExpiration = True"
| "valid_expiration (Epoch u) = u64_ok u"
| "valid_expiration (ValidDuring d) =
     (option_ok u64_ok (minEpoch d) \<and> option_ok u64_ok (maxEpoch d) \<and> option_ok u64_ok (minTimestamp d) \<and>
      option_ok u64_ok (maxTimestamp d) \<and> 0 \<le> nonce d \<and> nonce d < 2 ^ 32)"

definition valid_gas :: "gas_data \<Rightarrow> bool" where
  "valid_gas g \<longleftrightarrow> option_ok u64_ok (g_budget g) \<and> option_ok u64_ok (g_price g) \<and> option_ok valid_address (g_owner g) \<and>
     option_ok (list_all valid_ref) (g_payment g)"

definition normal_gas :: "gas_data \<Rightarrow> gas_data" where
  "normal_gas g = g\<lparr>g_owner := map_option canon_address (g_owner g), g_payment := map_option (map normal_ref) (g_payment g)\<rparr>"

definition valid_tx :: "jsval tx_data \<Rightarrow> bool" where
  "valid_tx t \<longleftrightarrow> option_ok valid_address (sender t) \<and> option_ok valid_expiration (expiration t) \<and> valid_gas (gasData t) \<and>
     list_all valid_call_arg (inputs t) \<and> list_all valid_command (commands t)"

definition normal_tx :: "jsval tx_data \<Rightarrow> jsval tx_data" where
  "normal_tx t = t\<lparr>sender := map_option canon_address (sender t), gasData := normal_gas (gasData t),
     inputs := map normal_call_arg (inputs t), commands := map normal_command (commands t)\<rparr>"

lemma is_u64_js [simp]: "is_u64 (js_u64 u) = u64_ok u"
  by (simp add: is_u64_def u64_ok_def split: sum.splits) auto

lemma option_ok_True [simp]: "option_ok (\<lambda>a. True) x"
  by (simp add: option_ok_def split: option.splits)

lemma js_u64_not_null: "js_u64 u \<noteq> JNull"
  by (cases u) simp_all

context valibot
begin

lemma parse_VInt: "parse VInt v = Inr y \<longleftrightarrow> (\<exists>n. v = JNum n) \<and> y = v"
  by (auto simp: VInt_def parse_pipe parse_number)

lemma parse_address: "parse MySoAddress (JStr s) = Inr y \<longleftrightarrow> valid_address s \<and> y = JStr (canon_address s)"
  by (auto simp: MySoAddress_def parse_pipe parse_string normalize_value_def valid_value_def valid_address_def canon_address_def)

lemma parse_u64: "parse JsonU64 (js_u64 u) = Inr y \<longleftrightarrow> u64_ok u \<and> y = js_u64 u"
  using is_u64_js [of u] by (cases u) (auto simp: JsonU64_def parse_pipe parse_union parse_string parse_VInt)

lemma parse_withKind:
  "parse (withKind key es) (JObj ps) = Inr y \<longleftrightarrow>
   (\<exists>out. parses_entries parse (es @ [(''$kind'', VOptional (VLiteral (JStr key)))]) ps out \<and> y = set_kind key (JObj out))"
  by (auto simp: withKind_def parse_pipe parse_object)

lemma parse_withKind_one:
  assumes "k \<noteq> ''$kind''" "key \<noteq> ''$kind''"
  shows "parse (withKind key [(key, s)]) (js_kind k x) = Inr y \<longleftrightarrow> key = k \<and> (\<exists>z. parse s x = Inr z \<and> y = js_kind k z)"
  using assms by (auto simp: js_kind_def parse_withKind parse_optional parse_literal set_kind_def)

lemma parse_safeEnum:
  assumes "k \<noteq> ''$kind''" "''$kind'' \<notin> set (map fst options)" "distinct (map fst options)"
  shows "parse (safeEnum options) (js_kind k x) = Inr y \<longleftrightarrow>
     (\<exists>s z. map_of options k = Some s \<and> parse s x = Inr z \<and> y = js_kind k z)"
  using assms(2,3)
proof (induction options)
  case (Cons opt options)
  obtain key s where o: "opt = (key, s)" by (cases opt)
  have u: "safeEnum (opt # options) = VUnion (withKind key [(key, s)] # map (\<lambda>(key, s). withKind key [(key, s)]) options)"
    by (simp add: safeEnum_def o)
  have IH: "parse (VUnion (map (\<lambda>(key, s). withKind key [(key, s)]) options)) (js_kind k x) = Inr y \<longleftrightarrow>
     (\<exists>s z. map_of options k = Some s \<and> parse s x = Inr z \<and> y = js_kind k z)"
    using Cons by (simp add: safeEnum_def)
  have none: "key = k \<Longrightarrow> map_of options k = None"
    using Cons.prems o by (auto simp: map_of_eq_None_iff)
  have key: "key \<noteq> ''$kind''" using Cons.prems(1) o by auto
  show ?case
    unfolding u parse_union(2) IH parse_withKind_one [OF assms(1) key]
    using none o by auto
qed (simp add: safeEnum_def parse_union)

lemma parse_list:
  assumes "\<And>a y. a \<in> set as \<Longrightarrow> parse s (f a) = Inr y \<longleftrightarrow> P a \<and> y = f (g a)"
  shows "parse (VArray s) (JArr (map f as)) = Inr y \<longleftrightarrow> list_all P as \<and> y = JArr (map f (map g as))"
proof -
  have "list_all2 (\<lambda>x y. parse s x = Inr y) (map f as) ys \<longleftrightarrow> list_all P as \<and> ys = map f (map g as)" for ys
    using assms
  proof (induction as arbitrary: ys)
    case (Cons a as)
    then show ?case by (cases ys) auto
  qed simp
  then show ?thesis by (auto simp: parse_array)
qed

lemma parse_nullable_option:
  assumes "\<And>a y. x = Some a \<Longrightarrow> parse s (f a) = Inr y \<longleftrightarrow> P a \<and> y = f (g a)" "\<And>a. f a \<noteq> JNull"
  shows "parse (VNullable s) (js_option f x) = Inr y \<longleftrightarrow> option_ok P x \<and> y = js_option f (map_option g x)"
  using assms by (cases x) (auto simp: parse_nullable js_option_def option_ok_def)

lemma parse_nullish_option:
  assumes "\<And>a y. x = Some a \<Longrightarrow> parse s (f a) = Inr y \<longleftrightarrow> P a \<and> y = f (g a)" "\<And>a. \<not> is_nullish (f a)"
  shows "parse (VNullish s) (js_option f x) = Inr y \<longleftrightarrow> option_ok P x \<and> y = js_option f (map_option g x)"
  using assms by (cases x) (auto simp: parse_nullish js_option_def option_ok_def)

lemma parse_ref: "parse ObjectRefSchema (js_object_ref r) = Inr y \<longleftrightarrow> valid_ref r \<and> y = js_object_ref (normal_ref r)"
  by (auto simp: ObjectRefSchema_def js_object_ref_def parse_object parse_address parse_u64 parse_string
      valid_ref_def normal_ref_def)

lemma parse_argument: "parse ArgumentSchema (js_argument a) = Inr y \<longleftrightarrow> y = js_argument a"
proof (cases a)
  case (Input i ty)
  then show ?thesis
    by (cases ty; cases "the ty") (auto simp: ArgumentSchema_def parse_union parse_withKind js_kind_def parse_optional
      parse_literal parse_VInt set_kind_def)
qed (auto simp: ArgumentSchema_def parse_union parse_withKind js_kind_def parse_optional parse_literal parse_VInt
      set_kind_def parse_tuple list_all2_Cons1)

lemma parse_arguments: "parse (VArray ArgumentSchema) (js_arguments as) = Inr y \<longleftrightarrow> y = js_arguments as"
  using parse_list [of as ArgumentSchema js_argument "\<lambda>_. True" id] parse_argument
  by (simp add: js_arguments_def list_all_iff)

lemma parse_strings: "parse (VArray VString) (js_strings ss) = Inr y \<longleftrightarrow> y = js_strings ss"
  using parse_list [of ss VString JStr "\<lambda>_. True" id] parse_string
  by (auto simp: js_strings_def list_all_iff)

lemma parse_addresses: "parse (VArray MySoAddress) (js_strings ss) = Inr y \<longleftrightarrow>
    list_all valid_address ss \<and> y = js_strings (map canon_address ss)"
  using parse_list [of ss MySoAddress JStr valid_address canon_address] parse_address
  by (simp add: js_strings_def)

lemma parse_object_arg: "parse ObjectArgSchema (js_object_arg a) = Inr y \<longleftrightarrow>
    valid_object_arg a \<and> y = js_object_arg (normal_object_arg a)"
  by (cases a) (auto simp: ObjectArgSchema_def parse_safeEnum parse_ref parse_object parse_address parse_u64 parse_boolean)

lemma parse_withdraw_from: "parse WithdrawFromSchema (js_withdraw_from f) = Inr y \<longleftrightarrow> y = js_withdraw_from f"
  by (cases f) (auto simp: WithdrawFromSchema_def parse_safeEnum parse_literal)

lemma entries_optional:
  assumes "map_of ps k = map_option f x" "\<And>a y. parse s (f a) = Inr y \<longleftrightarrow> P a \<and> y = f a" "\<And>a. \<not> is_nullish (f a)"
  shows "parses_entries parse ((k, VOptional (VNullable s)) # es) ps out \<longleftrightarrow>
     option_ok P x \<and> (\<exists>out'. out = js_present k f x @ out' \<and> parses_entries parse es ps out')"
proof (cases x)
  case (Some a)
  have "parse (VOptional (VNullable s)) (f a) = Inr y \<longleftrightarrow> P a \<and> y = f a" for y
    using assms(2,3) [of a] by (cases "f a") (auto simp: parse_optional parse_nullable)
  with Some assms(1) show ?thesis by (auto simp: option_ok_def js_present_def)
qed (use assms(1) in \<open>simp add: option_ok_def js_present_def\<close>)

lemma parse_unresolved_object:
  "parse (VObject [(''objectId'', MySoAddress), (''version'', VOptional (VNullable JsonU64)),
      (''digest'', VOptional (VNullable VString)), (''initialSharedVersion'', VOptional (VNullable JsonU64)),
      (''mutable'', VOptional (VNullable VBoolean))])
    (js_unresolved u) = Inr y \<longleftrightarrow>
   valid_address (uo_objectId u) \<and> option_ok u64_ok (uo_version u) \<and> option_ok u64_ok (uo_initialSharedVersion u) \<and>
   y = js_unresolved (u\<lparr>uo_objectId := canon_address (uo_objectId u)\<rparr>)"
proof -
  let ?ps = "[(''objectId'', JStr (uo_objectId u))] @ js_present ''version'' js_u64 (uo_version u) @
      js_present ''digest'' JStr (uo_digest u) @ js_present ''initialSharedVersion'' js_u64 (uo_initialSharedVersion u) @
      js_present ''mutable'' JBool (uo_mutable u)"
  have look: "map_of ?ps ''version'' = map_option js_u64 (uo_version u)" "map_of ?ps ''digest'' = map_option JStr (uo_digest u)"
    "map_of ?ps ''initialSharedVersion'' = map_option js_u64 (uo_initialSharedVersion u)"
    "map_of ?ps ''mutable'' = map_option JBool (uo_mutable u)" "map_of ?ps ''objectId'' = Some (JStr (uo_objectId u))"
    by (simp_all add: js_present_def map_add_def split: option.splits)
  have str: "parse VString (JStr a) = Inr y \<longleftrightarrow> True \<and> y = JStr a" for a y by (auto simp: parse_string)
  have flag: "parse VBoolean (JBool a) = Inr y \<longleftrightarrow> True \<and> y = JBool a" for a y by (auto simp: parse_boolean)
  have nn: "\<not> is_nullish (JStr a)" "\<not> is_nullish (JBool c)" for a c by simp_all
  have first: "parses_entries parse ((''objectId'', MySoAddress) # es) ?ps out \<longleftrightarrow> valid_address (uo_objectId u) \<and>
      (\<exists>out'. out = (''objectId'', JStr (canon_address (uo_objectId u))) # out' \<and> parses_entries parse es ?ps out')" for es out
    unfolding parses_entries.simps look by (auto simp: parse_address)
  show ?thesis
    unfolding js_unresolved_def parse_object first entries_optional [OF look(1) parse_u64 js_u64_not(2)]
      entries_optional [where f = JStr, OF look(2) str nn(1)] entries_optional [OF look(3) parse_u64 js_u64_not(2)]
      entries_optional [where f = JBool, OF look(4) flag nn(2)]
    by auto
qed

lemma parse_call_arg: "parse CallArgSchema (js_call_arg a) = Inr y \<longleftrightarrow> valid_call_arg a \<and> y = js_call_arg (normal_call_arg a)"
proof (cases a)
  case (UnresolvedObject u)
  then show ?thesis by (auto simp: CallArgSchema_def parse_safeEnum parse_unresolved_object)
next
  case (FundsWithdrawal amount type payer)
  then show ?thesis
    by (auto simp: CallArgSchema_def parse_safeEnum parse_object FundsWithdrawalArgSchema_def ReservationSchema_def
        WithdrawalTypeArgSchema_def parse_u64 parse_string parse_withdraw_from)
qed (auto simp: CallArgSchema_def parse_safeEnum parse_object_arg parse_object parse_string parse_unknown)

lemma parse_intent_input:
  "parse (VUnion [ArgumentSchema, VArray ArgumentSchema]) (js_intent_input i) = Inr y \<longleftrightarrow> y = js_intent_input i"
proof (cases i)
  case (OneArg a)
  then show ?thesis by (auto simp: parse_union parse_argument)
next
  case (ManyArgs args)
  have no: "parse (withKind key ((key, s) # es)) (JArr xs) \<noteq> Inr z"
    if "\<not> may_miss s" "capital_key key" for key s es xs z
    using parse_object_array [of key s "(key, s) # es @ [(''$kind'', VOptional (VLiteral (JStr key)))]"] that
    by (auto simp: withKind_def parse_pipe)
  have "parse ArgumentSchema (js_arguments args) \<noteq> Inr z" for z
    unfolding ArgumentSchema_def js_arguments_def parse_union(2)
    using no by (simp add: parse_union(1) capital_key_def VInt_def)
  with ManyArgs show ?thesis by (simp add: parse_union parse_arguments)
qed

lemma parse_inputs_record:
  assumes "list_all (\<lambda>(k, i). plain_key k) ins"
  shows "parse (VRecord (VUnion [ArgumentSchema, VArray ArgumentSchema])) (JObj (map (\<lambda>(k, i). (k, js_intent_input i)) ins)) = Inr y
    \<longleftrightarrow> y = JObj (map (\<lambda>(k, i). (k, js_intent_input i)) ins)"
proof -
  have "list_all2 (\<lambda>(k, x) (k', y). k' = k \<and> parse (VUnion [ArgumentSchema, VArray ArgumentSchema]) x = Inr y)
      (map (\<lambda>(k, i). (k, js_intent_input i)) ins) out \<longleftrightarrow> out = map (\<lambda>(k, i). (k, js_intent_input i)) ins" for out
  proof (induction ins arbitrary: out)
    case (Cons e ins)
    then show ?case by (cases e; cases out) (auto simp: parse_intent_input)
  qed auto
  moreover have "list_all (\<lambda>(k, x). plain_key k) (map (\<lambda>(k, i). (k, js_intent_input i)) ins)"
    using assms by (auto simp: list_all_iff)
  ultimately show ?thesis by (auto simp: parse_record)
qed

lemma parse_data_record:
  assumes "list_all (\<lambda>(k, x). plain_key k) ps"
  shows "parse (VRecord VUnknown) (JObj ps) = Inr y \<longleftrightarrow> y = JObj ps"
proof -
  have "list_all2 (\<lambda>(k, x) (k', y). k' = k \<and> parse VUnknown x = Inr y) ps out \<longleftrightarrow> out = ps" for out
  proof (induction ps arbitrary: out)
    case (Cons e ps)
    then show ?case by (cases e; cases out) (auto simp: parse_unknown)
  qed auto
  then show ?thesis using assms by (auto simp: parse_record)
qed

lemma parse_intent:
  assumes "plain_command (Intent name ins data)"
  shows "parse IntentSchema (JObj [(''name'', JStr name), (''inputs'', JObj (map (\<lambda>(k, i). (k, js_intent_input i)) ins)), (''data'', data)])
    = Inr y \<longleftrightarrow> y = JObj [(''name'', JStr name), (''inputs'', JObj (map (\<lambda>(k, i). (k, js_intent_input i)) ins)), (''data'', data)]"
proof -
  obtain ps where "data = JObj ps" "list_all (\<lambda>(k, x). plain_key k) ps" "list_all (\<lambda>(k, i). plain_key k) ins"
    using assms by (auto split: jsval.splits)
  then show ?thesis
    by (auto simp: IntentSchema_def parse_object parse_string parse_inputs_record parse_data_record)
qed

lemma parse_type_option: "parse (VNullable VString) (js_option JStr t) = Inr y \<longleftrightarrow> y = js_option JStr t"
  by (cases t) (auto simp: js_option_def parse_nullable parse_string)

lemma parse_command:
  assumes "plain_command c"
  shows "parse (CommandSchema n) (js_command c) = Inr y \<longleftrightarrow> valid_command c \<and> y = js_command (normal_command c)"
proof (cases c)
  case (MoveCall package m f tys args)
  then show ?thesis
    by (auto simp: CommandSchema_def parse_safeEnum ProgrammableMoveCallSchema_def parse_object parse_address parse_string
        parse_strings parse_arguments)
next
  case (Intent name ins data)
  have "distinct (map fst [(''MoveCall'', a), (''TransferObjects'', b), (''SplitCoins'', d), (''MergeCoins'', e), (''Publish'', f),
     (''MakeMoveVec'', g), (''Upgrade'', h), (''$Intent'', IntentSchema)])" for a b d e f g h by simp
  then show ?thesis
    using assms Intent by (auto simp: CommandSchema_def parse_safeEnum parse_intent simp del: plain_command.simps)
qed (auto simp: CommandSchema_def parse_safeEnum parse_object parse_address parse_string parse_strings parse_arguments
      parse_argument parse_addresses parse_type_option)

lemma parse_opt_u64: "parse (VNullable JsonU64) (js_option js_u64 u) = Inr y \<longleftrightarrow> option_ok u64_ok u \<and> y = js_option js_u64 u"
  using parse_nullable_option [of u JsonU64 js_u64 u64_ok id] parse_u64 js_u64_not_null by (simp add: option.map_id)

lemma parse_expiration: "parse ExpirationSchema (js_expiration e) = Inr y \<longleftrightarrow> valid_expiration e \<and> y = js_expiration e"
proof (cases e)
  case (ValidDuring d)
  have "parse U32 (JNum n) = Inr y \<longleftrightarrow> 0 \<le> n \<and> n < 2 ^ 32 \<and> y = JNum n" for n y
    by (auto simp: U32_def parse_pipe parse_number is_u32_def)
  with ValidDuring show ?thesis
    by (auto simp: ExpirationSchema_def parse_safeEnum ValidDuringSchema_def parse_object parse_opt_u64 parse_string)
qed (auto simp: ExpirationSchema_def parse_safeEnum parse_literal parse_u64)

lemma parse_gas: "parse GasDataSchema (js_gas g) = Inr y \<longleftrightarrow> valid_gas g \<and> y = js_gas (normal_gas g)"
proof -
  have owner: "parse (VNullable MySoAddress) (js_option JStr o') = Inr y \<longleftrightarrow>
      option_ok valid_address o' \<and> y = js_option JStr (map_option canon_address o')" for o' y
    by (rule parse_nullable_option) (simp_all add: parse_address)
  have payment: "parse (VNullable (VArray ObjectRefSchema)) (js_option (\<lambda>rs. JArr (map js_object_ref rs)) rs) = Inr y \<longleftrightarrow>
      option_ok (list_all valid_ref) rs \<and> y = js_option (\<lambda>rs. JArr (map js_object_ref rs)) (map_option (map normal_ref) rs)" for rs y
    by (rule parse_nullable_option) (simp_all add: parse_list parse_ref)
  show ?thesis
    by (auto simp: GasDataSchema_def js_gas_def parse_object parse_opt_u64 owner payment valid_gas_def normal_gas_def)
qed

lemma parse_tx:
  assumes "list_all plain_command (commands t)"
  shows "parse (TransactionDataSchema n) (js_tx t) = Inr y \<longleftrightarrow> valid_tx t \<and> y = js_tx (normal_tx t)"
proof -
  have sender: "parse (VNullish MySoAddress) (js_option JStr s) = Inr y \<longleftrightarrow>
      option_ok valid_address s \<and> y = js_option JStr (map_option canon_address s)" for s y
    by (rule parse_nullish_option) (simp_all add: parse_address)
  have expiration: "parse (VNullish ExpirationSchema) (js_option js_expiration e) = Inr y \<longleftrightarrow>
      option_ok valid_expiration e \<and> y = js_option js_expiration e" for e y
    using parse_nullish_option [of e ExpirationSchema js_expiration valid_expiration id] by (simp add: parse_expiration option.map_id)
  have ins: "parse (VArray CallArgSchema) (JArr (map js_call_arg (inputs t))) = Inr y \<longleftrightarrow>
      list_all valid_call_arg (inputs t) \<and> y = JArr (map js_call_arg (map normal_call_arg (inputs t)))" for y
    by (rule parse_list) (rule parse_call_arg)
  have cs: "parse (VArray (CommandSchema n)) (JArr (map js_command (commands t))) = Inr y \<longleftrightarrow>
      list_all valid_command (commands t) \<and> y = JArr (map js_command (map normal_command (commands t)))" for y
    by (rule parse_list) (rule parse_command, use assms in \<open>auto simp: list_all_iff\<close>)
  show ?thesis
    by (auto simp: TransactionDataSchema_def js_tx_def parse_object parse_literal sender expiration ins cs parse_gas
        valid_tx_def normal_tx_def simp del: map_map)
qed

end


subsection \<open>Restoring a builder\<close>

text \<open>\<open>value ?? d\<close> on a property.\<close>

definition prop_or :: "jsval \<Rightarrow> string \<Rightarrow> jsval \<Rightarrow> jsval" where
  "prop_or v name d = (let x = js_prop v name in if is_nullish x then d else x)"

definition empty_gas :: jsval where
  "empty_gas = JObj [(''budget'', JNull), (''price'', JNull), (''owner'', JNull), (''payment'', JNull)]"

text \<open>The fields the constructor sets from \<open>clone\<close>, in their order of declaration.\<close>

definition new_builder :: "jsval \<Rightarrow> jsval" where
  "new_builder clone = JObj
     [(''version'', JNum 2), (''sender'', prop_or clone ''sender'' JNull), (''expiration'', prop_or clone ''expiration'' JNull),
      (''gasData'', prop_or clone ''gasData'' empty_gas), (''inputs'', prop_or clone ''inputs'' (JArr [])),
      (''commands'', prop_or clone ''commands'' (JArr []))]"

text \<open>\<open>restore\<close> on data of version 2.\<close>

definition restore_v2 :: "(vschema \<Rightarrow> jsval \<Rightarrow> jsval res) \<Rightarrow> nat \<Rightarrow> jsval \<Rightarrow> jsval res" where
  "restore_v2 parse n data = rmap new_builder (parse (TransactionDataSchema n) data)"

definition cannot_deserialize :: js_error where
  "cannot_deserialize = Error ''Unable to deserialize from bytes.''"

definition fromKindBytes :: "platform \<Rightarrow> nat \<Rightarrow> (vschema \<Rightarrow> jsval \<Rightarrow> jsval res) \<Rightarrow> uint8array \<Rightarrow> jsval res" where
  "fromKindBytes p n parse bytes =
     rbind (type_parse (TransactionKind p n) bytes) (\<lambda>kind.
     rbind (get_prop kind ''ProgrammableTransaction'') (\<lambda>programmableTx.
       if \<not> truthy programmableTx then Inl cannot_deserialize
       else rbind (get_prop programmableTx ''inputs'') (\<lambda>ins.
            rbind (get_prop programmableTx ''commands'') (\<lambda>cs.
            restore_v2 parse n (JObj
              [(''version'', JNum 2), (''sender'', JNull), (''expiration'', JNull),
               (''gasData'', JObj [(''budget'', JNull), (''owner'', JNull), (''payment'', JNull), (''price'', JNull)]),
               (''inputs'', ins), (''commands'', cs)])))))"

definition fromBytes :: "platform \<Rightarrow> nat \<Rightarrow> (vschema \<Rightarrow> jsval \<Rightarrow> jsval res) \<Rightarrow> uint8array \<Rightarrow> jsval res" where
  "fromBytes p n parse bytes =
     rbind (type_parse (TransactionData p n) bytes) (\<lambda>rawData.
     rbind (if is_nullish rawData then Inr JUndefined else get_prop rawData ''V1'') (\<lambda>data.
     rbind (get_prop data ''kind'') (\<lambda>kind.
     rbind (get_prop kind ''ProgrammableTransaction'') (\<lambda>programmableTx.
       if \<not> truthy data \<or> \<not> truthy programmableTx then Inl cannot_deserialize
       else rbind (get_prop data ''sender'') (\<lambda>sender.
            rbind (get_prop data ''expiration'') (\<lambda>expiration.
            rbind (get_prop data ''gasData'') (\<lambda>gasData.
            rbind (get_prop programmableTx ''inputs'') (\<lambda>ins.
            rbind (get_prop programmableTx ''commands'') (\<lambda>cs.
            restore_v2 parse n (JObj
              [(''version'', JNum 2), (''sender'', sender), (''expiration'', expiration), (''gasData'', gasData),
               (''inputs'', ins), (''commands'', cs)]))))))))))"

lemma js_option_or: "\<not> is_nullish (js_option f x) \<Longrightarrow> x \<noteq> None" "(if is_nullish (js_option JStr s) then JNull else js_option JStr s) = js_option JStr s"
  "(if is_nullish (js_option js_expiration e) then JNull else js_option js_expiration e) = js_option js_expiration e"
  by (cases x; simp add: js_option_def; fail) (cases s; cases e; simp add: js_option_def)+

lemma new_builder_js_tx: "new_builder (js_tx t) = js_tx t"
  by (simp add: new_builder_def js_tx_def prop_or_def js_prop_def js_gas_def js_option_or)

lemma canon_address_idem:
  assumes "isValidMySoAddress (canon_address a)"
  shows "canon_address (canon_address a) = canon_address a" "valid_address (canon_address a)"
proof -
  obtain bs where bs: "length bs = 32" "toHex bs = drop 2 (canon_address a)"
    using fromHex_normalized assms by (metis canon_address_def)
  have "canon_address a = ''0x'' @ drop 2 (canon_address a)" by (simp add: canon_address_def normalize_body)
  then show "canon_address (canon_address a) = canon_address a"
    using normalize_0x_toHex [OF bs(1)] bs(2) by (simp add: canon_address_def)
  then show "valid_address (canon_address a)" using assms by (simp add: valid_address_def)
qed

lemma canon_address_ok: "address_ok a \<Longrightarrow> canon_address (canon_address a) = canon_address a \<and> valid_address (canon_address a)"
  using canon_address_idem by (simp add: address_ok_def canon_address_def)

lemma u64_ok_canon: "u64_ok u \<Longrightarrow> u64_ok (canon_u64 u)"
  by (auto simp: u64_ok_def canon_u64_def split: sum.splits)

lemma u64_ok_show: "n < 2 ^ 64 \<Longrightarrow> u64_ok (U64Str (show_base 10 n))"
  by (simp add: u64_ok_def)

lemma canon_ref_normal: "object_ref_ok p r \<Longrightarrow> valid_ref (canon_object_ref p r) \<and> normal_ref (canon_object_ref p r) = canon_object_ref p r"
  by (simp add: object_ref_ok_def valid_ref_def normal_ref_def canon_object_ref_def canon_address_ok u64_ok_canon)

lemma canon_call_arg_normal:
  "call_arg_ok p n a \<Longrightarrow> valid_call_arg (canon_call_arg p a) \<and> normal_call_arg (canon_call_arg p a) = canon_call_arg p a"
proof (cases a)
  case (Object oa)
  assume "call_arg_ok p n a"
  with Object show ?thesis by (cases oa) (simp_all add: canon_ref_normal canon_address_ok u64_ok_canon)
qed (simp_all add: u64_ok_canon)

lemma canon_command_normal:
  "command_ok p n c \<Longrightarrow> valid_command (canon_command c) \<and> normal_command (canon_command c) = canon_command c \<and>
   plain_command (canon_command c)"
  by (cases c) (auto simp: canon_address_ok all_ok_def list_all_iff)

text \<open>An epoch below \<open>2^64 - 1024\<close> is rounded to a u64.\<close>

fun epoch_readable :: "expiration \<Rightarrow> bool" where
  "epoch_readable (Epoch u) =
     (case u64_bigint u of Inl _ \<Rightarrow> False | Inr n \<Rightarrow> nearest_double (nat n) < 2 ^ 64)"
| "epoch_readable _ = True"

lemma canon_expiration_valid:
  assumes "expiration_ok p e"
  shows "valid_expiration (canon_expiration p e) \<longleftrightarrow> epoch_readable e"
proof (cases e)
  case (Epoch u)
  with assms show ?thesis by (auto simp: u64_ok_def split: sum.splits)
next
  case (ValidDuring d)
  have "option_ok u64_ok x \<Longrightarrow> option_ok u64_ok (map_option canon_u64 x)" for x
    by (cases x) (simp_all add: option_ok_def u64_ok_canon)
  with ValidDuring assms show ?thesis by simp
qed simp

lemma canon_built_normal:
  assumes "built_ok p n b"
  shows "valid_tx (canon_built p b) \<longleftrightarrow> epoch_readable (b_expiration b)"
    and "normal_tx (canon_built p b) = canon_built p b" "list_all plain_command (commands (canon_built p b))"
proof -
  have refs: "list_all valid_ref (map (canon_object_ref p) (b_payment b))"
    "map normal_ref (map (canon_object_ref p) (b_payment b)) = map (canon_object_ref p) (b_payment b)"
    using assms canon_ref_normal [of p] by (auto simp: built_ok_def all_ok_def list_all_iff)
  have ins: "list_all valid_call_arg (map (canon_call_arg p) (b_inputs b))"
    "map normal_call_arg (map (canon_call_arg p) (b_inputs b)) = map (canon_call_arg p) (b_inputs b)"
    using assms canon_call_arg_normal [of p n] by (auto simp: built_ok_def all_ok_def list_all_iff)
  have cs: "list_all valid_command (map canon_command (b_commands b))"
    "map normal_command (map canon_command (b_commands b)) = map canon_command (b_commands b)"
    "list_all plain_command (map canon_command (b_commands b))"
    using assms canon_command_normal [of p n] by (auto simp: built_ok_def all_ok_def list_all_iff)
  have e: "valid_expiration (canon_expiration p (b_expiration b)) \<longleftrightarrow> epoch_readable (b_expiration b)"
    using assms by (simp add: built_ok_def canon_expiration_valid)
  have a: "address_ok (b_sender b)" "address_ok (b_owner b)" "u64_ok (U64Str (show_base 10 (nat (b_price b))))"
    "u64_ok (U64Str (show_base 10 (nat (b_budget b))))"
    using assms by (auto simp: built_ok_def nat_less_iff intro!: u64_ok_show)
  show "valid_tx (canon_built p b) \<longleftrightarrow> epoch_readable (b_expiration b)"
    using refs(1) ins(1) cs(1) e a by (simp add: valid_tx_def valid_gas_def canon_built_def option_ok_def canon_address_ok)
  show "normal_tx (canon_built p b) = canon_built p b"
    using refs(2) ins(2) cs(2) a by (simp add: normal_tx_def normal_gas_def canon_built_def canon_address_ok del: map_map)
  show "list_all plain_command (commands (canon_built p b))" using cs(3) by (simp add: canon_built_def)
qed

lemma excess_bits_range: "2 ^ (52 + k) \<le> a \<Longrightarrow> a < 2 ^ (53 + k) \<Longrightarrow> excess_bits a = k"
proof (induction k arbitrary: a)
  case 0
  then show ?case by (simp add: excess_bits.simps)
next
  case (Suc k)
  have "(2 :: nat) ^ (52 + Suc k) = 2 * 2 ^ (52 + k)" "(2 :: nat) ^ (53 + Suc k) = 2 * 2 ^ (53 + k)"
    by (simp_all only: add_Suc_right power_Suc)
  then have "2 ^ (52 + k) \<le> a div 2" "a div 2 < 2 ^ (53 + k)" using Suc.prems by linarith+
  moreover have "\<not> a < 2 ^ 53"
  proof -
    have "(2 :: nat) ^ 53 \<le> 2 ^ (52 + Suc k)" by (rule power_increasing) auto
    with Suc.prems(1) show ?thesis by simp
  qed
  ultimately show ?case using Suc.IH [of "a div 2"] by (subst excess_bits.simps) simp
qed

lemma nearest_double_top:
  assumes "2 ^ 64 - 1024 \<le> a" "a < 2 ^ 64"
  shows "nearest_double a = 2 ^ 64"
proof -
  have "excess_bits a = 11" by (rule excess_bits_range) (use assms in simp_all)
  moreover have "a div 2048 = 2 ^ 53 - 1"
    by (rule div_nat_eqI) (use assms in simp_all)
  moreover then have "1024 \<le> a mod 2048" using assms by (simp add: mod_div_decomp modulo_nat_def)
  ultimately show ?thesis by (simp add: nearest_double_def Let_def)
qed

lemma parses_entries_cong: "map_of ps = map_of ps' \<Longrightarrow> parses_entries parse es ps out = parses_entries parse es ps' out"
proof (induction es arbitrary: out)
  case (Cons e es)
  then show ?case by (cases e) (simp split: option.splits)
qed simp

context valibot
begin

lemma parse_object_cong:
  "map_of ps = map_of ps' \<Longrightarrow> parse (VObject es) (JObj ps) = Inr y \<longleftrightarrow> parse (VObject es) (JObj ps') = Inr y"
  using parses_entries_cong [of ps ps'] by (simp add: parse_object)

lemma parse_gas_order:
  "parse GasDataSchema (JObj [(''payment'', js_option (\<lambda>rs. JArr (map js_object_ref rs)) (g_payment g)),
      (''owner'', js_option JStr (g_owner g)), (''price'', js_option js_u64 (g_price g)),
      (''budget'', js_option js_u64 (g_budget g))]) = Inr y \<longleftrightarrow> valid_gas g \<and> y = js_gas (normal_gas g)"
proof -
  have "parse GasDataSchema (JObj [(''payment'', js_option (\<lambda>rs. JArr (map js_object_ref rs)) (g_payment g)),
      (''owner'', js_option JStr (g_owner g)), (''price'', js_option js_u64 (g_price g)),
      (''budget'', js_option js_u64 (g_budget g))]) = Inr y \<longleftrightarrow> parse GasDataSchema (js_gas g) = Inr y"
    unfolding GasDataSchema_def js_gas_def by (rule parse_object_cong) (simp add: fun_eq_iff)
  then show ?thesis by (simp only: parse_gas)
qed

lemma parse_tx_gas:
  assumes "list_all plain_command (commands t)"
    and "\<And>y. parse GasDataSchema g' = Inr y \<longleftrightarrow> valid_gas (gasData t) \<and> y = js_gas (normal_gas (gasData t))"
  shows "parse (TransactionDataSchema n) (JObj [(''version'', JNum 2), (''sender'', js_option JStr (sender t)),
      (''expiration'', js_option js_expiration (expiration t)), (''gasData'', g'),
      (''inputs'', JArr (map js_call_arg (inputs t))), (''commands'', JArr (map js_command (commands t)))]) = Inr y \<longleftrightarrow>
    valid_tx t \<and> y = js_tx (normal_tx t)"
proof -
  have same: "(parse GasDataSchema g' = Inr z) = (parse GasDataSchema (js_gas (gasData t)) = Inr z)" for z
    by (simp only: assms(2) parse_gas)
  have "parse (TransactionDataSchema n) (JObj [(''version'', JNum 2), (''sender'', js_option JStr (sender t)),
      (''expiration'', js_option js_expiration (expiration t)), (''gasData'', g'),
      (''inputs'', JArr (map js_call_arg (inputs t))), (''commands'', JArr (map js_command (commands t)))]) = Inr y \<longleftrightarrow>
    parse (TransactionDataSchema n) (js_tx t) = Inr y"
    by (simp add: js_tx_def TransactionDataSchema_def parse_object same)
  then show ?thesis by (simp only: parse_tx [OF assms(1)])
qed

lemma restore_js_tx:
  assumes "list_all plain_command (commands t)"
  shows "restore_v2 parse n (js_tx t) = Inr y \<longleftrightarrow> valid_tx t \<and> y = js_tx (normal_tx t)"
  using parse_tx [OF assms, of n] by (auto simp: restore_v2_def res_simps new_builder_js_tx)

lemma restore_read:
  assumes "type_parse (TransactionData p n) bytes = Inr (parsed_tx t)" "list_all plain_command (commands t)"
  shows "fromBytes p n parse bytes = Inr y \<longleftrightarrow> valid_tx t \<and> y = js_tx (normal_tx t)"
  using parse_tx_gas [OF assms(2) parse_gas_order, of n]
  by (auto simp: fromBytes_def assms(1) parsed_tx_def js_kind_def js_programmable_def restore_v2_def res_simps new_builder_js_tx)

lemma restore_kind:
  assumes "type_parse (TransactionKind p n) bytes = Inr (js_kind ''ProgrammableTransaction'' (js_programmable ins cs))"
    "list_all plain_command cs"
  shows "fromKindBytes p n parse bytes = Inr y \<longleftrightarrow>
    list_all valid_call_arg ins \<and> list_all valid_command cs \<and>
    y = js_tx (empty_tx\<lparr>inputs := map normal_call_arg ins, commands := map normal_command cs\<rparr>)"
proof -
  let ?t = "empty_tx\<lparr>inputs := ins, commands := cs\<rparr>"
  have gas: "parse GasDataSchema (JObj [(''budget'', JNull), (''owner'', JNull), (''payment'', JNull), (''price'', JNull)]) = Inr z \<longleftrightarrow>
      valid_gas (gasData ?t) \<and> z = js_gas (normal_gas (gasData ?t))" for z
  proof -
    have "parse GasDataSchema (JObj [(''budget'', JNull), (''owner'', JNull), (''payment'', JNull), (''price'', JNull)]) = Inr z \<longleftrightarrow>
        parse GasDataSchema (js_gas (gasData ?t)) = Inr z"
      unfolding GasDataSchema_def js_gas_def
      by (rule parse_object_cong) (simp add: fun_eq_iff empty_tx_def js_option_def)
    then show ?thesis by (simp only: parse_gas)
  qed
  have "list_all plain_command (commands ?t)" using assms(2) by simp
  from parse_tx_gas [OF this gas, of n] show ?thesis
    by (auto simp: fromKindBytes_def assms(1) js_kind_def js_programmable_def restore_v2_def res_simps new_builder_js_tx
        empty_tx_def js_option_def valid_tx_def normal_tx_def valid_gas_def normal_gas_def option_ok_def)
qed

end

text \<open>C2: What \<open>build\<close> writes, \<open>fromBytes\<close> restores: the builder it returns has the data of the transaction in
  canonical form, if the epoch of the expiration, rounded to a double, is still a u64.\<close>

theorem build_fromBytes:
  assumes "valibot parse" "build_value t ov = Inr b" "built_ok p n b" "epoch_readable (b_expiration b)"
  shows "\<exists>bs. build p n t None ov False = Inr bs \<and>
    fromBytes p n parse (uint8array_of (bs @ rest)) = Inr (js_tx (canon_built p b))"
proof -
  obtain bs where c: "codec (TransactionData p n) (JObj [(''V1'', js_built b)]) (parsed_tx (canon_built p b)) bs"
    and b: "build p n t None ov False = Inr bs" using build_codec [OF assms(2,3)] .
  from valibot.restore_read [OF assms(1) codec_parse [OF c] canon_built_normal(3) [OF assms(3)], of rest]
  show ?thesis using b canon_built_normal(1,2) [OF assms(3)] assms(4) by auto
qed

text \<open>A transaction that expires in one of the last 1024 epochs is built, and its bytes cannot be restored: the epoch
  is read as the double \<open>2^64\<close>.\<close>

theorem last_epochs_not_restored:
  assumes "valibot parse" "build_value t ov = Inr b" "built_ok p n b"
    and "b_expiration b = Epoch u" "u64_bigint u = Inr e" "2 ^ 64 - 1024 \<le> e"
  shows "\<exists>bs err. build p n t None ov False = Inr bs \<and> fromBytes p n parse (uint8array_of bs) = Inl err"
proof -
  obtain bs where c: "codec (TransactionData p n) (JObj [(''V1'', js_built b)]) (parsed_tx (canon_built p b)) bs"
    and b: "build p n t None ov False = Inr bs" using build_codec [OF assms(2,3)] .
  have "e < 2 ^ 64" using assms(3-5) by (simp add: built_ok_def u64_ok_def)
  then have "nearest_double (nat e) = 2 ^ 64" using assms(6) by (intro nearest_double_top) (simp_all add: nat_le_eq_zle)
  then have "\<not> valid_tx (canon_built p b)" using canon_built_normal(1) [OF assms(3)] assms(4,5) by simp
  then have "fromBytes p n parse (uint8array_of (bs @ [])) \<noteq> Inr y" for y
    using valibot.restore_read [OF assms(1) codec_parse [OF c] canon_built_normal(3) [OF assms(3)], of "[]"] by simp
  then show ?thesis using b by (cases "fromBytes p n parse (uint8array_of bs)") auto
qed

text \<open>C5: Restoring the data of a builder whose intents are plain (their data are records, no key is \<open>__proto__\<close>,
  \<open>prototype\<close> or \<open>constructor\<close>) and whose Move calls carry no argument types succeeds exactly when
  its addresses (sender, gas owner, objects, packages, dependencies) are valid after normalization, its amounts,
  versions, epochs and timestamps are u64 and its nonce is a u32. It only normalizes the addresses. The indices of
  arguments are not checked: a reference to an input or a result that does not exist is restored as it is.\<close>

theorem restore_builder:
  assumes "valibot parse" "list_all plain_command (commands t)"
  shows "restore_v2 parse n (js_tx t) = Inr y \<longleftrightarrow> valid_tx t \<and> y = js_tx (normal_tx t)"
  by (rule valibot.restore_js_tx [OF assms])

text \<open>The bytes of the kind of a transaction restore its inputs and commands.\<close>

theorem build_kind_fromKindBytes:
  assumes "valibot parse" "all_ok (call_arg_ok p n) (inputs t)" "all_ok (command_ok p n) (commands t)"
  shows "\<exists>bs. build p n t None ov True = Inr bs \<and>
    fromKindBytes p n parse (uint8array_of (bs @ rest)) =
      Inr (js_tx (empty_tx\<lparr>inputs := map (canon_call_arg p) (inputs t), commands := map canon_command (commands t)\<rparr>))"
proof -
  obtain bs where bs: "type_serialize (TransactionKind p n)
      (JObj [(''ProgrammableTransaction'', js_programmable (inputs t) (commands t))]) no_options = Inr bs"
    "type_parse (TransactionKind p n) (uint8array_of (bs @ rest)) = Inr (js_kind ''ProgrammableTransaction''
      (js_programmable (map (canon_call_arg p) (inputs t)) (map canon_command (commands t))))"
    using carries_parse [OF carries_programmable [OF assms(2,3)]] by blast
  have ins: "\<And>a. a \<in> set (inputs t) \<Longrightarrow> valid_call_arg (canon_call_arg p a) \<and> normal_call_arg (canon_call_arg p a) = canon_call_arg p a"
    using assms(2) canon_call_arg_normal [of p n] by (auto simp: all_ok_def list_all_iff)
  have cs: "\<And>c. c \<in> set (commands t) \<Longrightarrow> valid_command (canon_command c) \<and> normal_command (canon_command c) = canon_command c \<and>
      plain_command (canon_command c)"
    using assms(3) canon_command_normal [of p n] by (auto simp: all_ok_def list_all_iff)
  have "list_all plain_command (map canon_command (commands t))" using cs by (simp add: list_all_iff)
  from valibot.restore_kind [OF assms(1) bs(2) this] have
    "fromKindBytes p n parse (uint8array_of (bs @ rest)) = Inr (js_tx (empty_tx\<lparr>
       inputs := map normal_call_arg (map (canon_call_arg p) (inputs t)),
       commands := map normal_command (map canon_command (commands t))\<rparr>))"
    using ins cs by (auto simp: list_all_iff)
  moreover have "map normal_call_arg (map (canon_call_arg p) (inputs t)) = map (canon_call_arg p) (inputs t)"
    "map normal_command (map canon_command (commands t)) = map canon_command (commands t)"
    using ins cs by auto
  ultimately show ?thesis using bs(1) by (simp add: build_def build_kind_def with_maxSize_def no_options_def del: map_map)
qed


subsection \<open>A parser with the documented behaviour\<close>

definition issue :: "jsval res" where
  "issue = Inl (Error ''ValiError'')"

fun vparse :: "vschema \<Rightarrow> jsval \<Rightarrow> jsval res"
  and vparse_entries :: "(string \<times> vschema) list \<Rightarrow> (string \<times> jsval) list \<Rightarrow> (string \<times> jsval) list res"
  and vparse_tuple :: "vschema list \<Rightarrow> jsval list \<Rightarrow> jsval list res"
  and vparse_union :: "vschema list \<Rightarrow> jsval \<Rightarrow> jsval res" where
  "vparse VString v = (case v of JStr s \<Rightarrow> Inr v | _ \<Rightarrow> issue)"
| "vparse VNumber v = (case v of JNum n \<Rightarrow> Inr v | _ \<Rightarrow> issue)"
| "vparse VBoolean v = (case v of JBool b \<Rightarrow> Inr v | _ \<Rightarrow> issue)"
| "vparse VUnknown v = Inr v"
| "vparse (VLiteral l) v = (if v = l then Inr v else issue)"
| "vparse (VArray s) v = (case v of JArr xs \<Rightarrow> rmap JArr (rmapM (vparse s) xs) | _ \<Rightarrow> issue)"
| "vparse (VTuple ss) v = (case v of JArr xs \<Rightarrow> rmap JArr (vparse_tuple ss xs) | _ \<Rightarrow> issue)"
| "vparse (VObject es) v = (if is_object v then rmap JObj (vparse_entries es (entries v)) else issue)"
| "vparse (VRecord s) v =
     (case v of JObj ps \<Rightarrow> rmap JObj (rmapM (\<lambda>(k, x). rmap (Pair k) (vparse s x)) (filter (\<lambda>(k, x). plain_key k) ps)) | _ \<Rightarrow> issue)"
| "vparse (VUnion ss) v = vparse_union ss v"
| "vparse (VOptional s) v = (if v = JUndefined then Inr v else vparse s v)"
| "vparse (VNullable s) v = (if v = JNull then Inr v else vparse s v)"
| "vparse (VNullish s) v = (if is_nullish v then Inr v else vparse s v)"
| "vparse (VPipe s as) v =
     rbind (vparse s v) (\<lambda>x. case run_actions as x of None \<Rightarrow> issue | Some y \<Rightarrow> Inr y)"
| "vparse_entries [] ps = Inr []"
| "vparse_entries ((k, s) # es) ps =
     (case map_of ps k of
        None \<Rightarrow> if may_miss s then vparse_entries es ps else rmap (\<lambda>_. []) issue
      | Some x \<Rightarrow> rbind (vparse s x) (\<lambda>y. rmap (Cons (k, y)) (vparse_entries es ps)))"
| "vparse_tuple [] xs = Inr []"
| "vparse_tuple (s # ss) xs =
     (case xs of [] \<Rightarrow> rmap (\<lambda>_. []) issue | x # xs \<Rightarrow> rbind (vparse s x) (\<lambda>y. rmap (Cons y) (vparse_tuple ss xs)))"
| "vparse_union [] v = issue"
| "vparse_union (s # ss) v = (case vparse s v of Inr y \<Rightarrow> Inr y | Inl e \<Rightarrow> vparse_union ss v)"

lemma vparse_entries_iff: "vparse_entries es ps = Inr out \<longleftrightarrow> parses_entries vparse es ps out"
proof (induction es arbitrary: out)
  case (Cons e es)
  then show ?case by (cases e) (auto simp: issue_def res_simps split: option.splits)
qed auto

lemma rmapM_iff: "rmapM f xs = Inr ys \<longleftrightarrow> list_all2 (\<lambda>x y. f x = Inr y) xs ys"
proof (induction xs arbitrary: ys)
  case (Cons x xs)
  then show ?case by (cases ys) (auto simp: res_simps)
qed auto

lemma vparse_tuple_iff:
  "length xs = length ss \<Longrightarrow> vparse_tuple ss xs = Inr ys \<longleftrightarrow> list_all2 (\<lambda>(s, x) y. vparse s x = Inr y) (zip ss xs) ys"
proof (induction ss arbitrary: xs ys)
  case (Cons s ss)
  then show ?case by (cases xs; cases ys) (auto simp: res_simps)
qed auto

interpretation reference: valibot vparse
proof
  fix v y s k xs ps
  show "vparse (VRecord s) (JObj ps) = Inr y \<longleftrightarrow> (\<exists>out. y = JObj out \<and> list_all2 (\<lambda>(k, x) (k', y). k' = k \<and> vparse s x = Inr y) ps out)"
    if "list_all (\<lambda>(k, x). plain_key k) ps"
  proof -
    have "filter (\<lambda>(k, x). plain_key k) ps = ps" using that by (simp add: filter_id_conv list_all_iff)
    moreover have "rmapM (\<lambda>(k, x). rmap (Pair k) (vparse s x)) ps = Inr out \<longleftrightarrow>
        list_all2 (\<lambda>(k, x) (k', y). k' = k \<and> vparse s x = Inr y) ps out" for out
      unfolding rmapM_iff by (rule arg_cong [where f = "\<lambda>P. list_all2 P ps out"]) (auto simp: fun_eq_iff res_simps)
    ultimately show ?thesis by (auto simp: res_simps)
  qed
  show "vparse (VObject es) (JArr xs) \<noteq> Inr y" if "(k, s) \<in> set es" "\<not> may_miss s" for es
  proof -
    have "\<not> parses_entries vparse es [] out" for out using that by (induction es) auto
    then show ?thesis by (simp add: vparse_entries_iff res_simps)
  qed
qed (auto simp: issue_def res_simps rmapM_iff vparse_tuple_iff vparse_entries_iff split: jsval.splits option.splits sum.splits)

text \<open>The theorems of this theory on the example, with this parser.\<close>

lemma build_fromBytes_witness:
  "\<exists>bs. build example_platform 1 example_tx None no_overrides False = Inr bs \<and>
    fromBytes example_platform 1 vparse (uint8array_of (bs @ [])) = Inr (js_tx (canon_built example_platform example_built))"
  by (rule build_fromBytes [OF reference.valibot_axioms example_build_value example_built_ok])
    (simp add: example_built_def nearest_double_small)

lemma last_epochs_not_restored_witness:
  "\<exists>bs err. build example_platform 1 (example_tx\<lparr>expiration := Some (Epoch (U64Num (2 ^ 64 - 1)))\<rparr>) None no_overrides False = Inr bs \<and>
    fromBytes example_platform 1 vparse (uint8array_of bs) = Inl err"
proof (rule last_epochs_not_restored [OF reference.valibot_axioms, where u = "U64Num (2 ^ 64 - 1)" and e = "2 ^ 64 - 1"])
  show "build_value (example_tx\<lparr>expiration := Some (Epoch (U64Num (2 ^ 64 - 1)))\<rparr>) no_overrides
      = Inr (example_built\<lparr>b_expiration := Epoch (U64Num (2 ^ 64 - 1))\<rparr>)"
    using example_build_value by (simp add: build_value_def example_tx_def example_built_def no_overrides_def spread_gas_def pick_def
        truthy_str_def truthy_u64_def example_address_def)
  show "built_ok example_platform 1 (example_built\<lparr>b_expiration := Epoch (U64Num (2 ^ 64 - 1))\<rparr>)"
    using example_built_ok by (simp add: built_ok_def u64_ok_def)
qed simp_all

text \<open>A transaction with a reference to an input it does not have is restored; with a budget of \<open>2^64\<close> it is not.\<close>

definition dangling_tx :: "jsval tx_data" where
  "dangling_tx = example_tx\<lparr>commands := [SplitCoins GasCoin [Input 99 None], Intent ''i'' [(''coin'', OneArg (Result 5))] (JObj [(''n'', JNum 1)])]\<rparr>"

definition rich_tx :: "jsval tx_data" where
  "rich_tx = dangling_tx\<lparr>gasData := (gasData example_tx)\<lparr>g_budget := Some (U64Num (2 ^ 64))\<rparr>\<rparr>"

lemma restore_builder_witness:
  "restore_v2 vparse 1 (js_tx dangling_tx) = Inr (js_tx (normal_tx dangling_tx)) \<and>
   commands (normal_tx dangling_tx) = commands dangling_tx \<and> \<not> is_ok (restore_v2 vparse 1 (js_tx rich_tx))"
proof -
  have plain: "list_all plain_command (commands dangling_tx)" "list_all plain_command (commands rich_tx)"
    by (simp_all add: dangling_tx_def rich_tx_def plain_key_def)
  have "valid_address example_address" using example_address_ok by (simp add: address_ok_def valid_address_def canon_address_def)
  then have "valid_tx dangling_tx"
    by (simp add: valid_tx_def dangling_tx_def example_tx_def valid_gas_def valid_ref_def option_ok_def u64_ok_def)
  moreover have "\<not> valid_tx rich_tx" by (simp add: valid_tx_def rich_tx_def valid_gas_def option_ok_def u64_ok_def)
  ultimately show ?thesis
    using restore_builder [OF reference.valibot_axioms plain(1), of 1] restore_builder [OF reference.valibot_axioms plain(2), of 1]
    by (cases "restore_v2 vparse 1 (js_tx rich_tx)") (simp_all add: normal_tx_def dangling_tx_def)
qed

lemma build_kind_fromKindBytes_witness:
  "\<exists>bs. build example_platform 1 example_tx None no_overrides True = Inr bs \<and>
    fromKindBytes example_platform 1 vparse (uint8array_of (bs @ [])) =
      Inr (js_tx (empty_tx\<lparr>inputs := map (canon_call_arg example_platform) (inputs example_tx),
        commands := map canon_command (commands example_tx)\<rparr>))"
  by (rule build_kind_fromKindBytes [OF reference.valibot_axioms])
    (use example_built_ok in \<open>simp_all add: built_ok_def example_built_def\<close>)


end
