(* ===== verification/Zk_Utils.thy ===== *)
theory Zk_Utils
  imports Transaction_Schemas
begin

text \<open>
  The functions of \<open>packages/myso/src/zklogin\<close> on numbers and texts: \<open>utils.ts\<close>, \<open>poseidon.ts\<close>,
  \<open>nonce.ts\<close>, the length checks of \<open>address.ts\<close> and the base64url decoder of \<open>jwt-utils.ts\<close>.

  \<open>packages\<close> holds the functions of packages the code calls: hashes, hexadecimal and base64url
  of noble and scure, the Poseidon functions, signature verification, and the platform's \<open>JSON.parse\<close> and
  \<open>decodeURIComponent\<close>. \<open>blake2b\<close> is the call with \<open>dkLen\<close> 32.
\<close>

record packages =
  hexToBytes :: "string \<Rightarrow> byte list res"
  bytesToHex :: "byte list \<Rightarrow> string"
  blake2b :: "byte list \<Rightarrow> byte list"
  sha256 :: "byte list \<Rightarrow> byte list"
  poseidon :: "int list \<Rightarrow> int"
  base64urlnopad :: "byte list \<Rightarrow> string"
  ed25519_verify :: "byte list \<Rightarrow> byte list \<Rightarrow> byte list \<Rightarrow> bool res"
  secp256k1_verify :: "byte list \<Rightarrow> byte list \<Rightarrow> byte list \<Rightarrow> bool res"
  secp256r1_verify :: "byte list \<Rightarrow> byte list \<Rightarrow> byte list \<Rightarrow> bool res"
  json_parse :: "string \<Rightarrow> jsval res"
  decodeURIComponent :: "string \<Rightarrow> string res"

text \<open>What noble's hexadecimal functions are documented to do, stated with the hexadecimal of \<open>packages/utils\<close>.\<close>

locale hexadecimal =
  fixes decode :: "string \<Rightarrow> byte list res" and encode :: "byte list \<Rightarrow> string"
  assumes decode_hex: "decode (toHex bs) = Inr bs"
    and encode_hex: "encode bs = toHex bs"
begin

lemma decode_encode: "decode (encode bs) = Inr bs"
  by (simp add: encode_hex decode_hex)

end

interpretation utils_hex: hexadecimal fromHex toHex
  by unfold_locales (simp_all add: fromHex_toHex)

subsection \<open>Big-endian bytes\<close>

primrec findFirstNonZeroIndex :: "byte list \<Rightarrow> nat option" where
  "findFirstNonZeroIndex [] = None"
| "findFirstNonZeroIndex (b # bytes) = (if b \<noteq> 0 then Some 0 else map_option Suc (findFirstNonZeroIndex bytes))"

text \<open>\<open>n.toString(16)\<close> and \<open>s.slice(-n)\<close>.\<close>

definition hex_string :: "int \<Rightarrow> string" where
  "hex_string n = (if n < 0 then ''-'' @ show_base 16 (nat (- n)) else show_base 16 (nat n))"

definition slice_last :: "nat \<Rightarrow> 'a list \<Rightarrow> 'a list" where
  "slice_last n s = (if n = 0 then s else drop (length s - n) s)"

definition toPaddedBigEndianBytes :: "packages \<Rightarrow> int \<Rightarrow> nat \<Rightarrow> byte list res" where
  "toPaddedBigEndianBytes k num width =
     hexToBytes k (slice_last (width * 2) (padStart (width * 2) CHR ''0'' (hex_string num)))"

definition toBigEndianBytes :: "packages \<Rightarrow> int \<Rightarrow> nat \<Rightarrow> byte list res" where
  "toBigEndianBytes k num width =
     rmap (\<lambda>bytes. case findFirstNonZeroIndex bytes of None \<Rightarrow> [0] | Some i \<Rightarrow> drop i bytes)
       (toPaddedBigEndianBytes k num width)"

subsection \<open>Packing texts into field elements\<close>

text \<open>\<open>Array(n / 0)\<close> throws, for an empty array too.\<close>

definition chunkArray :: "'a list \<Rightarrow> nat \<Rightarrow> 'a list list res" where
  "chunkArray array chunk_size =
     (if chunk_size = 0 then Inl (RangeError ''Invalid array length'')
      else let revArray = rev array in
        Inr (rev (map (\<lambda>i. rev (take chunk_size (drop (i * chunk_size) revArray)))
               [0..<(length array + chunk_size - 1) div chunk_size])))"

definition bytesBEToBigInt :: "nat list \<Rightarrow> int res" where
  "bytesBEToBigInt bytes =
     (let hex = concat (map (\<lambda>b. padStart 2 CHR ''0'' (show_base 16 b)) bytes)
      in if hex = [] then Inr 0 else bigint_of_string (''0x'' @ hex))"

definition BN254_FIELD_SIZE :: int where
  "BN254_FIELD_SIZE = 21888242871839275222246405745257275088548364400416034343698204186575808495617"

definition in_field :: "int \<Rightarrow> bool" where
  "in_field b \<longleftrightarrow> 0 \<le> b \<and> b < BN254_FIELD_SIZE"

text \<open>There is no function for an empty list: the code calls itself on \<open>[]\<close> without end.\<close>

function poseidonHash :: "packages \<Rightarrow> int list \<Rightarrow> int res" where
  "poseidonHash k inputs =
     (if \<not> list_all in_field inputs then Inl (Error ''Element not in the BN254 field'')
      else if inputs = [] then Inl out_of_stack
      else if length inputs \<le> 16 then Inr (poseidon k inputs)
      else if length inputs \<le> 32 then
        rbind (poseidonHash k (take 16 inputs)) (\<lambda>hash1.
        rbind (poseidonHash k (drop 16 inputs)) (\<lambda>hash2.
          poseidonHash k [hash1, hash2]))
      else Inl (Error ''Yet to implement: Unable to hash a vector of length''))"
  by pat_completeness auto
termination
  by (relation "measure (\<lambda>(_, inputs). length inputs)") auto

declare poseidonHash.simps [simp del]

definition MAX_KEY_CLAIM_NAME_LENGTH :: nat where
  "MAX_KEY_CLAIM_NAME_LENGTH = 32"

definition MAX_KEY_CLAIM_VALUE_LENGTH :: nat where
  "MAX_KEY_CLAIM_VALUE_LENGTH = 115"

definition MAX_AUD_VALUE_LENGTH :: nat where
  "MAX_AUD_VALUE_LENGTH = 145"

definition PACK_WIDTH :: nat where
  "PACK_WIDTH = 248"

definition pack_string :: "string \<Rightarrow> nat \<Rightarrow> int list res" where
  "pack_string str maxSize =
     (let strPadded = map of_char (str @ replicate (maxSize - length str) (char_of (0 :: nat))) :: nat list;
          chunkSize = PACK_WIDTH div 8
      in rbind (chunkArray strPadded chunkSize) (rmapM bytesBEToBigInt))"

definition hashASCIIStrToField :: "packages \<Rightarrow> string \<Rightarrow> nat \<Rightarrow> int res" where
  "hashASCIIStrToField k str maxSize =
     (if length str > maxSize then Inl (Error ''String is longer than maxSize chars'')
      else rbind (pack_string str maxSize) (poseidonHash k))"

definition genAddressSeed :: "packages \<Rightarrow> jsval \<Rightarrow> string \<Rightarrow> string \<Rightarrow> string \<Rightarrow> int res" where
  "genAddressSeed k salt name value aud =
     rbind (hashASCIIStrToField k name MAX_KEY_CLAIM_NAME_LENGTH) (\<lambda>n.
     rbind (hashASCIIStrToField k value MAX_KEY_CLAIM_VALUE_LENGTH) (\<lambda>v.
     rbind (hashASCIIStrToField k aud MAX_AUD_VALUE_LENGTH) (\<lambda>a.
     rbind (rbind (to_bigint salt) (\<lambda>s. poseidonHash k [s])) (\<lambda>s.
       poseidonHash k [n, v, a, s]))))"

definition normalizeZkLoginIssuer :: "string \<Rightarrow> string" where
  "normalizeZkLoginIssuer iss =
     (if iss = ''accounts.google.com'' then ''https://accounts.google.com'' else iss)"

subsection \<open>The nonce\<close>

definition NONCE_LENGTH :: nat where
  "NONCE_LENGTH = 27"

definition toBigIntBE :: "byte list \<Rightarrow> int res" where
  "toBigIntBE bytes =
     (let hex = toHex bytes in if hex = [] then Inr 0 else bigint_of_string (''0x'' @ hex))"

text \<open>The argument is \<open>publicKey.toMySoBytes()\<close>.\<close>

definition generateNonce :: "packages \<Rightarrow> byte list \<Rightarrow> int \<Rightarrow> jsval \<Rightarrow> string res" where
  "generateNonce k mysoBytes maxEpoch randomness =
     rbind (toBigIntBE mysoBytes) (\<lambda>publicKeyBytes.
     rbind (to_bigint randomness) (\<lambda>r.
     rbind (poseidonHash k [publicKeyBytes div 2 ^ 128, publicKeyBytes mod 2 ^ 128, maxEpoch, r]) (\<lambda>bigNum.
     rbind (toPaddedBigEndianBytes k bigNum 20) (\<lambda>Z.
       let nonce = base64urlnopad k Z
       in if length nonce \<noteq> NONCE_LENGTH then Inl (Error ''Length of nonce'') else Inr nonce))))"

subsection \<open>The length of a token\<close>

definition MAX_HEADER_LEN_B64 :: nat where
  "MAX_HEADER_LEN_B64 = 248"

definition MAX_PADDED_UNSIGNED_JWT_LEN :: nat where
  "MAX_PADDED_UNSIGNED_JWT_LEN = 64 * 25"

definition lengthChecks :: "string \<Rightarrow> unit res" where
  "lengthChecks jwt =
     (case split_char CHR ''.'' jwt of
        [] \<Rightarrow> Inl (TypeError ''Cannot read properties of undefined'')
      | header # parts \<Rightarrow>
          if length header > MAX_HEADER_LEN_B64 then Inl (Error ''Header is too long'')
          else (case parts of
             [] \<Rightarrow> Inl (TypeError ''Cannot read properties of undefined'')
           | payload # _ \<Rightarrow>
               let L = (length header + 1 + length payload) * 8;
                   K = nat ((512 + 448 - (int L mod 512 + 1)) mod 512);
                   padded_unsigned_jwt_len = (L + 1 + K + 64) div 8
               in if padded_unsigned_jwt_len > MAX_PADDED_UNSIGNED_JWT_LEN then Inl (Error ''JWT is too long'')
                  else Inr ()))"

subsection \<open>Base64url\<close>

definition base64UrlCharacterSet :: string where
  "base64UrlCharacterSet = ''ABCDEFGHIJKLMNOPQRSTUVWXYZabcdefghijklmnopqrstuvwxyz0123456789-_''"

primrec indexOf :: "string \<Rightarrow> char \<Rightarrow> nat option" where
  "indexOf [] c = None"
| "indexOf (x # xs) c = (if x = c then Some 0 else map_option Suc (indexOf xs c))"

definition digit_number :: "char \<Rightarrow> nat" where
  "digit_number c = (case digit_val c of None \<Rightarrow> 0 | Some d \<Rightarrow> d)"

definition base64UrlCharTo6Bits :: "string \<Rightarrow> nat list res" where
  "base64UrlCharTo6Bits base64UrlChar =
     (case base64UrlChar of
        [c] \<Rightarrow> (case indexOf base64UrlCharacterSet c of
            None \<Rightarrow> Inl (Error ''Invalid base64Url character'')
          | Some index \<Rightarrow> Inr (map digit_number (padStart 6 CHR ''0'' (show_base 2 index))))
      | _ \<Rightarrow> Inl (Error ''Invalid base64Url character''))"

definition base64UrlStringToBitVector :: "string \<Rightarrow> nat list res" where
  "base64UrlStringToBitVector base64UrlString =
     rfold (\<lambda>bitVector c. rmap (\<lambda>bits. bitVector @ bits) (base64UrlCharTo6Bits [c])) [] base64UrlString"

definition bits_to_byte :: "nat list \<Rightarrow> byte" where
  "bits_to_byte bitChunk =
     word_of_nat (case parse_nat 2 (concat (map (show_base 10) bitChunk)) of None \<Rightarrow> 0 | Some n \<Rightarrow> n)"

function bits_to_bytes :: "nat list \<Rightarrow> byte list" where
  "bits_to_bytes bits = (if bits = [] then [] else bits_to_byte (take 8 bits) # bits_to_bytes (drop 8 bits))"
  by pat_completeness auto
termination
  by (relation "measure length") auto

declare bits_to_bytes.simps [simp del]

definition decodeBase64URL :: "platform \<Rightarrow> string \<Rightarrow> nat \<Rightarrow> string res" where
  "decodeBase64URL p s i =
     (if length s < 2 then Inl (Error ''Input is not tightly packed'')
      else rbind (base64UrlStringToBitVector s) (\<lambda>bits.
        let firstCharOffset = i mod 4 in
        if firstCharOffset = 3 then Inl (Error ''Input is not tightly packed'')
        else let bits = drop (2 * firstCharOffset) bits;
                 lastCharOffset = (i + length s - 1) mod 4
             in if lastCharOffset = 0 then Inl (Error ''Input is not tightly packed'')
                else let bits = take (length bits - 2 * (3 - lastCharOffset)) bits
                     in if length bits mod 8 \<noteq> 0 then Inl (Error ''We should never reach here...'')
                        else Inr (p_decode p (bits_to_bytes bits))))"

end
