(* ===== verification/Zk_Props.thy ===== *)
theory Zk_Props
  imports Zk_Utils
begin

subsection \<open>Big-endian bytes\<close>

primrec digits :: "nat \<Rightarrow> nat \<Rightarrow> nat \<Rightarrow> string" where
  "digits r 0 n = []"
| "digits r (Suc d) n = digits r d (n div r) @ [digit_char (n mod r)]"

lemma digits_0: "digits r d 0 = replicate d CHR ''0''"
proof (induction d)
  case (Suc d)
  moreover have "digit_char 0 = CHR ''0''" by code_simp
  ultimately show ?case by (simp add: replicate_append_same)
qed simp

lemma slice_pad_show:
  assumes "2 \<le> r"
  shows "0 < d \<Longrightarrow> slice_last d (padStart d CHR ''0'' (show_base r n)) = digits r d n"
proof (induction d arbitrary: n)
  case (Suc d)
  show ?case
  proof (cases "n < r")
    case True
    then have "n div r = 0" "n mod r = n" by auto
    then show ?thesis using True
      by (simp add: show_base.simps [of r n] padStart_def slice_last_def digits_0)
  next
    case False
    let ?s = "show_base r (n div r)"
    have s: "show_base r n = ?s @ [digit_char (n mod r)]" using False assms by (simp add: show_base.simps [of r n])
    have p: "padStart (Suc d) CHR ''0'' (show_base r n) = padStart d CHR ''0'' ?s @ [digit_char (n mod r)]"
      by (simp add: s padStart_def)
    show ?thesis
    proof (cases "d = 0")
      case True
      then show ?thesis using p by (simp add: slice_last_def padStart_def)
    next
      case False
      have "d \<le> length (padStart d CHR ''0'' ?s)" by (simp add: padStart_def)
      then have "slice_last (Suc d) (padStart d CHR ''0'' ?s @ [digit_char (n mod r)]) =
          slice_last d (padStart d CHR ''0'' ?s) @ [digit_char (n mod r)]"
        using False by (simp add: slice_last_def Suc_diff_le)
      then show ?thesis using Suc.IH [of "n div r"] False by (simp add: p)
    qed
  qed
qed simp

lemma hex_of_append: "hex_of (bs @ cs) = hex_of bs @ hex_of cs"
  by (induction bs) auto

lemma digits_bytes: "digits 16 (w * 2) n = hex_of (rev (le_bytes w n))"
proof (induction w arbitrary: n)
  case (Suc w)
  have "n mod 256 = 16 * (n div 16 mod 16) + n mod 16" using mod_mult2_eq [of n 16 16] by simp
  then have "n mod 256 div 16 = n div 16 mod 16" "n mod 256 mod 16 = n mod 16" by simp_all
  then show ?case
    using Suc [of "n div 256"] by (simp add: hex_of_append div_mult2_eq [symmetric] del: mod_mod_cancel)
qed simp

lemma toPadded_bytes:
  assumes "hexadecimal (hexToBytes k) (bytesToHex k)" "0 \<le> num" "0 < width"
  shows "toPaddedBigEndianBytes k num width = Inr (rev (le_bytes width (nat num)))"
proof -
  have "slice_last (width * 2) (padStart (width * 2) CHR ''0'' (hex_string num)) = toHex (rev (le_bytes width (nat num)))"
    using assms(2,3) by (simp add: hex_string_def slice_pad_show digits_bytes toHex_hex_of)
  then show ?thesis
    using hexadecimal.decode_hex [OF assms(1)] by (simp add: toPaddedBigEndianBytes_def)
qed

lemma first_nonzero_None: "findFirstNonZeroIndex bs = None \<longleftrightarrow> (\<forall>b\<in>set bs. b = 0)"
  by (induction bs) auto

lemma first_nonzero: "(case findFirstNonZeroIndex bs of None \<Rightarrow> [0] | Some i \<Rightarrow> drop i bs) =
   (if dropWhile (\<lambda>b. b = 0) bs = [] then [0] else dropWhile (\<lambda>b. b = 0) bs)"
proof (induction bs)
  case (Cons b bs)
  show ?case
  proof (cases "b = 0 \<and> findFirstNonZeroIndex bs = None")
    case True
    then have "\<forall>b\<in>set bs. b = 0" using first_nonzero_None by simp
    then show ?thesis using True by simp
  next
    case False
    then show ?thesis using Cons by (auto split: if_splits)
  qed
qed simp

definition short_bytes :: "nat \<Rightarrow> byte list" where
  "short_bytes n = (let bs = dropWhile (\<lambda>b. b = 0) (rev (le_bytes 32 n)) in if bs = [] then [0] else bs)"

lemma toBig_bytes:
  assumes "hexadecimal (hexToBytes k) (bytesToHex k)" "0 \<le> num"
  shows "toBigEndianBytes k num 32 = Inr (short_bytes (nat num))"
  using assms by (simp add: toBigEndianBytes_def toPadded_bytes first_nonzero short_bytes_def Let_def)

subsection \<open>Hexadecimal numerals\<close>

lemma parse_hex_of: "parse_digits 16 acc (hex_of bs) = Some (256 ^ length bs * acc + le_val (rev bs))"
proof (induction bs arbitrary: acc)
  case (Cons b bs)
  have "unat b div 16 < 16" by (simp add: less_mult_imp_div_less)
  moreover have "16 * (16 * acc + unat b div 16) + unat b mod 16 = 256 * acc + unat b"
    by (simp add: algebra_simps)
  ultimately show ?case using Cons by (simp add: le_val_append algebra_simps)
qed simp

lemma bigint_hex_of:
  assumes "bs \<noteq> []"
  shows "bigint_of_string (''0x'' @ hex_of bs) = Inr (int (le_val (rev bs)))"
proof (rule bigint_of_string_hex)
  show "\<not> is_space c" if "c \<in> set (hex_of bs)" for c
    using hex_of_chars [OF that] digit_char_not_special by blast
  have "hex_of bs \<noteq> []" using assms by (cases bs) auto
  then show "parse_nat 16 (hex_of bs) = Some (le_val (rev bs))" by (simp add: parse_nat_def parse_hex_of)
qed

lemma toBigIntBE_val: "toBigIntBE bs = Inr (int (le_val (rev bs)))"
proof (cases "bs = []")
  case False
  moreover have "hex_of bs \<noteq> []" using False by (cases bs) auto
  ultimately show ?thesis by (simp add: toBigIntBE_def toHex_hex_of bigint_hex_of [simplified] Let_def)
qed (simp add: toBigIntBE_def toHex_hex_of)

lemma bytesBE_val:
  assumes "list_all (\<lambda>b. b < 256) bytes"
  shows "bytesBEToBigInt bytes = Inr (int (le_val (rev (map word_of_nat bytes))))"
proof -
  have "padStart 2 CHR ''0'' (show_base 16 b) = hex_of [word_of_nat b]" if "b < 256" for b
    using that by (simp add: pad_byte_hex)
  then have "concat (map (\<lambda>b. padStart 2 CHR ''0'' (show_base 16 b)) bytes) = hex_of (map word_of_nat bytes)"
    using assms by (induction bytes) (auto simp: hex_of_append [of "[_]", simplified])
  then show ?thesis
    using toBigIntBE_val [of "map word_of_nat bytes"] by (simp add: bytesBEToBigInt_def toBigIntBE_def toHex_hex_of)
qed

subsection \<open>The length of a token\<close>

lemma padded_length: "(n * 8 + 1 + nat ((512 + 448 - (int (n * 8) mod 512 + 1)) mod 512) + 64) div 8 = 64 * ((n + 72) div 64)"
proof -
  define q r where "q = n div 64" and "r = n mod 64"
  then have n: "n = 64 * q + r" "r < 64" by simp_all
  have "int (n * 8) = int (8 * r) + int q * 512" using n by simp
  then have "int (n * 8) mod 512 = int (8 * r) mod 512" by simp
  also have "\<dots> = int (8 * r)" using n(2) by simp
  finally have m: "512 + 448 - (int (n * 8) mod 512 + 1) = 959 - int (8 * r)" by simp
  show ?thesis
  proof (cases "r < 56")
    case True
    have "959 - int (8 * r) = (447 - int (8 * r)) + 512" by simp
    then have "(959 - int (8 * r)) mod 512 = (447 - int (8 * r)) mod 512" by (metis mod_add_self2)
    also have "\<dots> = 447 - int (8 * r)" using True by simp
    finally have "nat ((959 - int (8 * r)) mod 512) = 447 - 8 * r" using True by simp
    moreover have "n * 8 + 1 + (447 - 8 * r) + 64 = (64 * (q + 1)) * 8" using n True by simp
    moreover have "(n + 72) div 64 = q + 1" using n True by simp
    ultimately show ?thesis by (simp only: m; simp)
  next
    case False
    have "(959 - int (8 * r)) mod 512 = 959 - int (8 * r)" using False n(2) by simp
    then have "nat ((959 - int (8 * r)) mod 512) = 959 - 8 * r" using n(2) by simp
    moreover have "n * 8 + 1 + (959 - 8 * r) + 64 = (64 * (q + 2)) * 8" using n False by simp
    moreover have "(n + 72) div 64 = q + 2" using n False by simp
    ultimately show ?thesis by (simp only: m; simp)
  qed
qed

lemma padded_size: "25 * 64 < 64 * ((n + 72) div 64) \<longleftrightarrow> \<not> n + 9 \<le> (25 * 64 :: nat)"
proof -
  have "25 * 64 < 64 * ((n + 72) div 64) \<longleftrightarrow> 26 \<le> (n + 72) div 64" by linarith
  also have "\<dots> \<longleftrightarrow> 26 * 64 \<le> n + 72" by (rule less_eq_div_iff_mult_less_eq) simp
  finally show ?thesis by linarith
qed

lemma lengthChecks_parts:
  assumes "split_char CHR ''.'' jwt = header # payload # rest"
  shows "lengthChecks jwt = Inr () \<longleftrightarrow> length header \<le> 248 \<and> length header + 1 + length payload + 9 \<le> 25 * 64"
  unfolding lengthChecks_def assms list.case Let_def padded_length MAX_HEADER_LEN_B64_def
    MAX_PADDED_UNSIGNED_JWT_LEN_def mult.commute [of 64 25] padded_size
  by simp

text \<open>The length checks pass exactly when the header has at most 248 characters and the token fits, with its SHA-2
  padding, into 25 blocks of 64 bytes.\<close>

theorem lengthChecks_iff:
  "lengthChecks jwt = Inr () \<longleftrightarrow>
   (\<exists>header payload rest. split_char CHR ''.'' jwt = header # payload # rest \<and>
      length header \<le> 248 \<and> length header + 1 + length payload + 9 \<le> 25 * 64)"
proof (cases "split_char CHR ''.'' jwt" rule: remdups_adj.cases)
  case (3 header payload rest)
  then show ?thesis using lengthChecks_parts [OF 3] by simp
qed (simp_all add: lengthChecks_def)

subsection \<open>Packing texts into field elements\<close>

lemma concat_rev_blocks: "concat (rev (map (\<lambda>i. rev (f i)) xs)) = rev (concat (map f xs))"
  by (induction xs) auto

lemma blocks_cover: "0 < n \<Longrightarrow> length xs \<le> (length xs + n - 1) div n * n" for n :: nat
proof -
  assume "0 < n"
  let ?q = "(length xs + n - 1) div n" and ?r = "(length xs + n - 1) mod n"
  have "?q * n + ?r = length xs + n - 1" by simp
  moreover have "?r < n" using \<open>0 < n\<close> by simp
  ultimately show ?thesis by linarith
qed

text \<open>The chunks of an array give it back, and their number and sizes depend on its length only.\<close>

lemma chunkArray_concat:
  assumes "0 < n"
  obtains cs where "chunkArray xs n = Inr cs" "concat cs = xs" "length cs = (length xs + n - 1) div n"
    "map length cs = rev (map (\<lambda>i. min n (length xs - i * n)) [0..<(length xs + n - 1) div n])"
proof -
  let ?k = "(length xs + n - 1) div n"
  let ?cs = "rev (map (\<lambda>i. rev (take n (drop (i * n) (rev xs)))) [0..<?k])"
  have "concat ?cs = rev (take (?k * n) (rev xs))" by (simp add: concat_rev_blocks take_drop_blocks)
  then have "concat ?cs = xs" using blocks_cover [OF assms, of xs] by simp
  moreover have "map length ?cs = rev (map (\<lambda>i. min n (length xs - i * n)) [0..<?k])"
    by (simp add: rev_map [symmetric] comp_def min.commute)
  ultimately show ?thesis
    using assms that [of ?cs] by (simp add: chunkArray_def Let_def)
qed

definition padded :: "string \<Rightarrow> nat \<Rightarrow> nat list" where
  "padded s m = map of_char (s @ replicate (m - length s) (char_of (0 :: nat)))"

lemma padded_bytes: "list_all (\<lambda>b. b < 256) (padded s m)"
  by (auto simp: padded_def list_all_iff)

lemma padded_inj:
  assumes "padded s m = padded t m" "length s \<le> m" "length t \<le> m"
    and "char_of (0 :: nat) \<notin> set s" "char_of (0 :: nat) \<notin> set t"
  shows "s = t"
proof -
  have "s @ replicate (m - length s) (char_of (0 :: nat)) = t @ replicate (m - length t) (char_of (0 :: nat))"
    using assms(1) unfolding padded_def by (rule map_injective) (simp add: inj_def)
  then have "takeWhile (\<lambda>c. c \<noteq> char_of (0 :: nat)) (s @ replicate (m - length s) (char_of (0 :: nat))) =
      takeWhile (\<lambda>c. c \<noteq> char_of (0 :: nat)) (t @ replicate (m - length t) (char_of (0 :: nat)))" by (rule arg_cong)
  moreover have "takeWhile (\<lambda>c. c \<noteq> char_of (0 :: nat)) (u @ replicate j (char_of (0 :: nat))) = u"
    if "char_of (0 :: nat) \<notin> set u" for u :: string and j
  proof -
    have "takeWhile (\<lambda>c. c \<noteq> char_of (0 :: nat)) (u @ replicate j (char_of (0 :: nat))) =
        u @ takeWhile (\<lambda>c. c \<noteq> char_of (0 :: nat)) (replicate j (char_of (0 :: nat)))"
      using that by (intro takeWhile_append2) auto
    then show ?thesis by (cases j) simp_all
  qed
  ultimately show ?thesis using assms(4,5) by metis
qed

definition packed :: "nat list list \<Rightarrow> int list" where
  "packed cs = map (\<lambda>c. int (le_val (rev (map word_of_nat c)))) cs"

lemma pack_string_chunks:
  obtains cs where "pack_string s m = Inr (packed cs)" "concat cs = padded s m"
    "length cs = (length (padded s m) + 30) div 31"
    "map length cs = rev (map (\<lambda>i. min 31 (length (padded s m) - i * 31)) [0..<(length (padded s m) + 30) div 31])"
proof -
  obtain cs where cs: "chunkArray (padded s m) 31 = Inr cs" "concat cs = padded s m"
    "length cs = (length (padded s m) + 31 - 1) div 31"
    "map length cs = rev (map (\<lambda>i. min 31 (length (padded s m) - i * 31)) [0..<(length (padded s m) + 31 - 1) div 31])"
    by (rule chunkArray_concat [of 31 "padded s m"]) simp
  have "list_all (\<lambda>b. b < 256) c" if "c \<in> set cs" for c
    using padded_bytes [of s m] that unfolding cs(2) [symmetric] by (auto simp: list_all_iff)
  then have "rmapM bytesBEToBigInt cs = Inr (packed cs)"
    unfolding packed_def by (intro rmapM_Inr) (simp add: bytesBE_val)
  then have "pack_string s m = Inr (packed cs)"
    using cs(1) by (simp add: pack_string_def padded_def PACK_WIDTH_def Let_def)
  then show ?thesis using that [of cs] cs by simp
qed

lemma packed_inj:
  assumes "packed cs = packed ds" "map length cs = map length ds"
    and "list_all (list_all (\<lambda>b. b < 256)) cs" "list_all (list_all (\<lambda>b. b < 256)) ds"
  shows "cs = ds"
  using assms
proof (induction cs arbitrary: ds)
  case (Cons c cs)
  then obtain d ds' where ds: "ds = d # ds'" by (cases ds) (auto simp: packed_def)
  have "rev (map word_of_nat c) = (rev (map word_of_nat d) :: byte list)"
    using Cons.prems by (intro le_val_inj) (simp_all add: ds packed_def)
  then have "map unat (map word_of_nat c :: byte list) = map unat (map word_of_nat d :: byte list)" by simp
  moreover have "map unat (map word_of_nat x :: byte list) = x" if "list_all (\<lambda>b. b < 256) x" for x
    using that by (induction x) auto
  ultimately have "c = d" using Cons.prems by (metis ds list.pred_inject(2))
  then show ?case using Cons by (simp add: ds packed_def)
qed (simp add: packed_def)

text \<open>Two texts without NUL that fit the same length are packed into the same field elements only if they are equal.\<close>

theorem pack_string_inj:
  assumes "pack_string s m = pack_string t m" "length s \<le> m" "length t \<le> m"
    and "char_of (0 :: nat) \<notin> set s" "char_of (0 :: nat) \<notin> set t"
  shows "s = t"
proof -
  have len: "length (padded s m) = length (padded t m)" using assms(2,3) by (simp add: padded_def)
  obtain cs where cs: "pack_string s m = Inr (packed cs)" "concat cs = padded s m"
    "length cs = (length (padded s m) + 30) div 31"
    "map length cs = rev (map (\<lambda>i. min 31 (length (padded s m) - i * 31)) [0..<(length (padded s m) + 30) div 31])"
    by (rule pack_string_chunks)
  obtain ds where ds: "pack_string t m = Inr (packed ds)" "concat ds = padded t m"
    "length ds = (length (padded t m) + 30) div 31"
    "map length ds = rev (map (\<lambda>i. min 31 (length (padded t m) - i * 31)) [0..<(length (padded t m) + 30) div 31])"
    by (rule pack_string_chunks)
  have bytes: "list_all (list_all (\<lambda>b. b < 256)) es" if "concat es = padded u m" for es u
    using padded_bytes [of u m] unfolding that [symmetric] by (auto simp: list_all_iff)
  have "cs = ds"
    by (rule packed_inj) (use cs ds assms(1) len bytes in simp_all)
  then show ?thesis using padded_inj assms cs(2) ds(2) by metis
qed

lemma packed_in_field:
  assumes "list_all (\<lambda>c. length c \<le> 31) cs"
  shows "list_all in_field (packed cs)"
proof -
  have "in_field (int (le_val (rev (map word_of_nat c))))" if "length c \<le> 31" for c :: "nat list"
  proof -
    have "le_val (rev (map word_of_nat c) :: byte list) < 256 ^ length c"
      using le_val_bound [of "rev (map word_of_nat c)"] by simp
    also have "\<dots> \<le> (256 :: nat) ^ 31" using that by (intro power_increasing) simp_all
    finally have "int (le_val (rev (map word_of_nat c) :: byte list)) < int (256 ^ 31)" by (simp only: of_nat_less_iff)
    also have "int (256 ^ 31) < BN254_FIELD_SIZE" by (simp add: BN254_FIELD_SIZE_def)
    finally show ?thesis by (simp add: in_field_def)
  qed
  then show ?thesis using assms by (auto simp: packed_def list_all_iff)
qed

lemma pack_string_fields:
  assumes "length s \<le> m"
  obtains xs where "pack_string s m = Inr xs" "length xs = (m + 30) div 31" "list_all in_field xs"
proof -
  obtain cs where cs: "pack_string s m = Inr (packed cs)" "concat cs = padded s m"
    "length cs = (length (padded s m) + 30) div 31"
    "map length cs = rev (map (\<lambda>i. min 31 (length (padded s m) - i * 31)) [0..<(length (padded s m) + 30) div 31])"
    by (rule pack_string_chunks)
  have "\<forall>l\<in>set (map length cs). l \<le> 31" unfolding cs(4) by auto
  then have "list_all in_field (packed cs)" by (intro packed_in_field) (simp add: list_all_iff)
  moreover have "length (padded s m) = m" using assms by (simp add: padded_def)
  ultimately show ?thesis using that cs by (simp add: packed_def)
qed

text \<open>C38: An address seed is computed exactly when name, value and audience fit their lengths and the salt is a field element;
  it is then the Poseidon hash of the hashes of the packed texts and of the salt.\<close>

theorem genAddressSeed_iff:
  assumes "\<And>xs. in_field (poseidon k xs)"
  shows "genAddressSeed k salt name value aud = Inr seed \<longleftrightarrow>
    (length name \<le> 32 \<and> length value \<le> 115 \<and> length aud \<le> 145 \<and>
     (\<exists>n v a s. pack_string name 32 = Inr n \<and> pack_string value 115 = Inr v \<and> pack_string aud 145 = Inr a \<and>
        to_bigint salt = Inr s \<and> in_field s \<and>
        seed = poseidon k [poseidon k n, poseidon k v, poseidon k a, poseidon k [s]]))"
proof -
  have hash: "hashASCIIStrToField k s m = Inr h \<longleftrightarrow> length s \<le> m \<and> (\<exists>xs. pack_string s m = Inr xs \<and> h = poseidon k xs)"
    if "0 < m" "m \<le> 16 * 31" for s m h
  proof (cases "length s \<le> m")
    case True
    obtain xs where xs: "pack_string s m = Inr xs" "length xs = (m + 30) div 31" "list_all in_field xs"
      by (rule pack_string_fields [OF True])
    have "0 < (m + 30) div 31" "(m + 30) div 31 \<le> 16" using that by (simp_all add: div_greater_zero_iff)
    with xs have "poseidonHash k xs = Inr (poseidon k xs)" by (subst poseidonHash.simps) auto
    then show ?thesis using True xs by (auto simp: hashASCIIStrToField_def)
  qed (simp add: hashASCIIStrToField_def)
  have one: "poseidonHash k [s] = Inr h \<longleftrightarrow> in_field s \<and> h = poseidon k [s]" for s h
    by (subst poseidonHash.simps) auto
  have four: "poseidonHash k [poseidon k n, poseidon k v, poseidon k a, poseidon k s] = Inr h \<longleftrightarrow>
      h = poseidon k [poseidon k n, poseidon k v, poseidon k a, poseidon k s]" for n v a s h
    using assms by (subst poseidonHash.simps) auto
  show ?thesis
    unfolding genAddressSeed_def MAX_KEY_CLAIM_NAME_LENGTH_def MAX_KEY_CLAIM_VALUE_LENGTH_def MAX_AUD_VALUE_LENGTH_def
    by (auto simp: res_simps hash one four)
qed

subsection \<open>Base64url\<close>

definition bits6 :: "nat \<Rightarrow> nat list" where
  "bits6 n = [n div 32 mod 2, n div 16 mod 2, n div 8 mod 2, n div 4 mod 2, n div 2 mod 2, n mod 2]"

definition bits8 :: "nat \<Rightarrow> nat list" where
  "bits8 n = n div 128 mod 2 # n div 64 mod 2 # bits6 n"

lemma length_bits [simp]: "length (bits6 n) = 6" "length (bits8 n) = 8"
  by (simp_all add: bits6_def bits8_def)

lemma indexOf_nth: "distinct s \<Longrightarrow> i < length s \<Longrightarrow> indexOf s (s ! i) = Some i"
  by (induction s arbitrary: i) (auto simp: nth_Cons' less_Suc_eq_0_disj split: if_splits)

lemma distinct_set: "distinct base64UrlCharacterSet" "length base64UrlCharacterSet = 64"
  by code_simp+

lemma digit_number_bit [simp]: "digit_number (digit_char (n mod 2)) = n mod 2"
proof -
  have "n mod 2 < 16" by (rule order_less_trans [of _ 2]) simp_all
  then show ?thesis by (simp add: digit_number_def)
qed

lemma digits_bits6: "digits 2 6 n = map digit_char (bits6 n)"
proof -
  have "6 = Suc (Suc (Suc (Suc (Suc (Suc 0)))))" by simp
  then have "digits 2 6 n = [digit_char (n div 2 div 2 div 2 div 2 div 2 mod 2), digit_char (n div 2 div 2 div 2 div 2 mod 2),
      digit_char (n div 2 div 2 div 2 mod 2), digit_char (n div 2 div 2 mod 2), digit_char (n div 2 mod 2), digit_char (n mod 2)]"
    by (simp only: digits.simps append.simps)
  moreover have "n div 2 div 2 div 2 = n div 8" "n div 2 div 2 = n div 4" "n div 2 div 2 div 2 div 2 = n div 16"
    "n div 2 div 2 div 2 div 2 div 2 = n div 32" by (simp_all flip: div_mult2_eq)
  ultimately show ?thesis by (simp only: bits6_def list.map)
qed

lemma show_digits:
  assumes "2 \<le> r" "0 < d" "i < r ^ d"
  shows "padStart d CHR ''0'' (show_base r i) = digits r d i"
proof -
  have "length (show_base r i) \<le> d" using assms by (intro length_show_base)
  then have "length (padStart d CHR ''0'' (show_base r i)) = d" by (simp add: padStart_def)
  then show ?thesis using slice_pad_show [OF assms(1,2), of i] assms(2) by (simp add: slice_last_def)
qed

lemma bits6_of_chars: "map digit_number (map digit_char (bits6 i)) = bits6 i"
  by (simp only: bits6_def list.map digit_number_bit)

lemma binary_digits:
  assumes "i < 64"
  shows "map digit_number (padStart 6 CHR ''0'' (show_base 2 i)) = bits6 i"
proof -
  have "i < 2 ^ 6" using assms by simp
  from show_digits [OF order_refl zero_less_numeral this] show ?thesis
    unfolding digits_bits6 by (simp only: bits6_of_chars)
qed

lemma indexOf_set:
  assumes "i < 64"
  shows "indexOf base64UrlCharacterSet (base64UrlCharacterSet ! i) = Some i"
  by (rule indexOf_nth) (use assms distinct_set in simp_all)

lemma char_bits:
  assumes "i < 64"
  shows "base64UrlCharTo6Bits [base64UrlCharacterSet ! i] = Inr (bits6 i)"
  unfolding base64UrlCharTo6Bits_def list.case indexOf_set [OF assms] option.case binary_digits [OF assms] ..

lemma indexOf_Some: "indexOf s c = Some i \<Longrightarrow> i < length s \<and> s ! i = c"
  by (induction s arbitrary: i) (auto split: if_splits)

lemma indexOf_None: "indexOf s c = None \<longleftrightarrow> c \<notin> set s"
  by (induction s) auto

lemma char_bits_iff: "base64UrlCharTo6Bits [c] = Inr bits \<longleftrightarrow> (\<exists>i<64. c = base64UrlCharacterSet ! i \<and> bits = bits6 i)"
proof (cases "indexOf base64UrlCharacterSet c")
  case None
  have "base64UrlCharTo6Bits [c] \<noteq> Inr bits" unfolding base64UrlCharTo6Bits_def by (simp add: None)
  moreover have "c \<noteq> base64UrlCharacterSet ! i" if "i < 64" for i
    using None nth_mem [of i base64UrlCharacterSet] that distinct_set(2) indexOf_None by metis
  ultimately show ?thesis by blast
next
  case (Some i)
  then have i: "i < 64" "base64UrlCharacterSet ! i = c"
    using indexOf_Some [OF Some] distinct_set(2) by auto
  have "base64UrlCharacterSet ! j = c \<Longrightarrow> j < 64 \<Longrightarrow> j = i" for j
    using i distinct_set by (metis nth_eq_iff_index_eq)
  then show ?thesis using char_bits [OF i(1)] i by (metis sum.inject(2))
qed

definition bit_chars :: "nat list \<Rightarrow> string" where
  "bit_chars xs = map (\<lambda>i. base64UrlCharacterSet ! i) xs"

lemma bit_vector:
  "list_all (\<lambda>i. i < 64) xs \<Longrightarrow> base64UrlStringToBitVector (bit_chars xs) = Inr (concat (map bits6 xs))"
proof -
  assume xs: "list_all (\<lambda>i. i < 64) xs"
  have "rfold (\<lambda>bitVector c. rmap (\<lambda>bits. bitVector @ bits) (base64UrlCharTo6Bits [c])) acc (bit_chars xs)
      = Inr (acc @ concat (map bits6 xs))" for acc
    using xs by (induction xs arbitrary: acc) (simp_all add: bit_chars_def char_bits)
  from this [of "[]"] show ?thesis by (simp add: base64UrlStringToBitVector_def)
qed

lemma bit_vector_iff:
  "base64UrlStringToBitVector s = Inr bits \<longleftrightarrow>
   (\<exists>xs. list_all (\<lambda>i. i < 64) xs \<and> s = bit_chars xs \<and> bits = concat (map bits6 xs))"
proof -
  have "rfold (\<lambda>bitVector c. rmap (\<lambda>bits. bitVector @ bits) (base64UrlCharTo6Bits [c])) acc s = Inr bits \<longleftrightarrow>
      (\<exists>xs. list_all (\<lambda>i. i < 64) xs \<and> s = bit_chars xs \<and> bits = acc @ concat (map bits6 xs))" for acc
  proof (induction s arbitrary: acc)
    case (Cons c s)
    have "(\<exists>xs. list_all (\<lambda>i. i < 64) xs \<and> c # s = bit_chars xs \<and> bits = acc @ concat (map bits6 xs)) \<longleftrightarrow>
        (\<exists>i xs. i < 64 \<and> c = base64UrlCharacterSet ! i \<and> list_all (\<lambda>i. i < 64) xs \<and> s = bit_chars xs \<and>
          bits = (acc @ bits6 i) @ concat (map bits6 xs))" (is "?L \<longleftrightarrow> ?R")
    proof
      assume ?L
      then obtain xs where xs: "list_all (\<lambda>i. i < 64) xs" "c # s = bit_chars xs" "bits = acc @ concat (map bits6 xs)" by blast
      then show ?R by (cases xs) (auto simp: bit_chars_def)
    next
      assume ?R
      then obtain i xs where "i < 64" "c = base64UrlCharacterSet ! i" "list_all (\<lambda>i. i < 64) xs" "s = bit_chars xs"
        "bits = (acc @ bits6 i) @ concat (map bits6 xs)" by blast
      then show ?L by (intro exI [of _ "i # xs"]) (simp add: bit_chars_def)
    qed
    moreover have "rfold (\<lambda>bitVector c. rmap (\<lambda>bits. bitVector @ bits) (base64UrlCharTo6Bits [c])) acc (c # s) = Inr bits \<longleftrightarrow>
        (\<exists>i<64. c = base64UrlCharacterSet ! i \<and>
          rfold (\<lambda>bitVector c. rmap (\<lambda>bits. bitVector @ bits) (base64UrlCharTo6Bits [c])) (acc @ bits6 i) s = Inr bits)"
      by (auto simp: res_simps char_bits_iff)
    ultimately show ?case by (simp only: Cons) blast
  qed (auto simp: bit_chars_def)
  from this [of "[]"] show ?thesis by (simp add: base64UrlStringToBitVector_def)
qed

lemma div_prod: "t < m \<Longrightarrow> (x * m + t) div (m * k) = x div (k :: nat)"
  by (simp add: div_mult2_eq)

lemma div_16: "t < 16 \<Longrightarrow> (x * 16 + t) div 32 = x div (2 :: nat)" "t < 16 \<Longrightarrow> (x * 16 + t) div 16 = x"
  using div_prod [of t 16 x 2] by simp_all

lemma div_4: "t < 4 \<Longrightarrow> (x * 4 + t) div 32 = x div (8 :: nat)" "t < 4 \<Longrightarrow> (x * 4 + t) div 16 = x div 4"
  "t < 4 \<Longrightarrow> (x * 4 + t) div 8 = x div 2" "t < 4 \<Longrightarrow> (x * 4 + t) div 4 = x"
  using div_prod [of t 4 x 8] div_prod [of t 4 x 4] div_prod [of t 4 x 2] by simp_all

lemma div_low: "(x * 16 + t) div 8 = 2 * x + t div (8 :: nat)" "(x * 16 + t) div 4 = 4 * x + t div (4 :: nat)"
  "(x * 16 + t) div 2 = 8 * x + t div (2 :: nat)" "(x * 4 + t) div 2 = 2 * x + t div (2 :: nat)"
  by presburger+

lemma mod_prod_div: "0 < b \<Longrightarrow> n mod (b * c) div b = n div b mod (c :: nat)"
  by (simp add: mod_mult2_eq)

lemma mod_div: "n mod 4 div 2 = n div 2 mod (2 :: nat)" "n mod 16 div 8 = n div 8 mod (2 :: nat)"
  "n mod 16 div 4 = n div 4 mod (4 :: nat)" "n mod 16 div 2 = n div 2 mod (8 :: nat)"
  using mod_prod_div [of 2 n 2] mod_prod_div [of 8 n 2] mod_prod_div [of 4 n 4] mod_prod_div [of 2 n 8] by simp_all

lemma mod_div_64: "n mod 64 div 32 = n div 32 mod (2 :: nat)" "n mod 64 div 16 = n div 16 mod (4 :: nat)"
  "n mod 64 div 8 = n div 8 mod (8 :: nat)" "n mod 64 div 4 = n div 4 mod (16 :: nat)" "n mod 64 div 2 = n div 2 mod (32 :: nat)"
  using mod_prod_div [of 32 n 2] mod_prod_div [of 16 n 4] mod_prod_div [of 8 n 8] mod_prod_div [of 4 n 16]
    mod_prod_div [of 2 n 32] by simp_all

lemma even_mod: "(2 * x + t) mod 2 = t mod (2 :: nat)" "(4 * x + t) mod 2 = t mod (2 :: nat)" "(8 * x + t) mod 2 = t mod (2 :: nat)"
  "(x * 16 + t) mod 2 = t mod (2 :: nat)" "(x * 4 + t) mod 2 = t mod (2 :: nat)"
  by presburger+

lemma mod_mod_2: "n mod 2 mod 2 = n mod (2 :: nat)" "n mod 4 mod 2 = n mod (2 :: nat)" "n mod 8 mod 2 = n mod (2 :: nat)"
  "n mod 16 mod 2 = n mod (2 :: nat)" "n mod 32 mod 2 = n mod (2 :: nat)" "n mod 64 mod 2 = n mod (2 :: nat)"
  by (rule mod_mod_cancel, simp)+

lemma div_div: "n div 4 div 32 = n div (128 :: nat)" "n div 4 div 16 = n div (64 :: nat)" "n div 4 div 8 = n div (32 :: nat)"
  "n div 4 div 4 = n div (16 :: nat)" "n div 4 div 2 = n div (8 :: nat)" "n div 16 div 8 = n div (128 :: nat)"
  "n div 16 div 4 = n div (64 :: nat)" "n div 16 div 2 = n div (32 :: nat)" "n div 64 div 2 = n div (128 :: nat)"
  by (simp_all flip: div_mult2_eq)

lemmas sextet_arith = div_low mod_div mod_div_64 even_mod mod_mod_2 div_div

lemma sextets:
  "bits6 (a div 4) = [a div 128 mod 2, a div 64 mod 2, a div 32 mod 2, a div 16 mod 2, a div 8 mod 2, a div 4 mod 2]"
  "b < 256 \<Longrightarrow> bits6 (a mod 4 * 16 + b div 16) =
    [a div 2 mod 2, a mod 2, b div 128 mod 2, b div 64 mod 2, b div 32 mod 2, b div 16 mod 2]"
  "c < 256 \<Longrightarrow> bits6 (b mod 16 * 4 + c div 64) =
    [b div 8 mod 2, b div 4 mod 2, b div 2 mod 2, b mod 2, c div 128 mod 2, c div 64 mod 2]"
  "bits6 (c mod 64) = [c div 32 mod 2, c div 16 mod 2, c div 8 mod 2, c div 4 mod 2, c div 2 mod 2, c mod 2]"
proof -
  show "bits6 (a div 4) = [a div 128 mod 2, a div 64 mod 2, a div 32 mod 2, a div 16 mod 2, a div 8 mod 2, a div 4 mod 2]"
    by (simp only: bits6_def sextet_arith)
  show "bits6 (a mod 4 * 16 + b div 16) =
      [a div 2 mod 2, a mod 2, b div 128 mod 2, b div 64 mod 2, b div 32 mod 2, b div 16 mod 2]" if "b < 256"
  proof -
    have "b div 16 < 16" using that by (simp add: less_mult_imp_div_less)
    then show ?thesis by (simp only: bits6_def div_16 sextet_arith)
  qed
  show "bits6 (b mod 16 * 4 + c div 64) =
      [b div 8 mod 2, b div 4 mod 2, b div 2 mod 2, b mod 2, c div 128 mod 2, c div 64 mod 2]" if "c < 256"
  proof -
    have "c div 64 < 4" using that by (simp add: less_mult_imp_div_less)
    then show ?thesis by (simp only: bits6_def div_4 sextet_arith)
  qed
  show "bits6 (c mod 64) = [c div 32 mod 2, c div 16 mod 2, c div 8 mod 2, c div 4 mod 2, c div 2 mod 2, c mod 2]"
    by (simp only: bits6_def sextet_arith)
qed

lemma bits8_list: "bits8 n = [n div 128 mod 2, n div 64 mod 2, n div 32 mod 2, n div 16 mod 2, n div 8 mod 2, n div 4 mod 2, n div 2 mod 2, n mod 2]"
  by (simp only: bits8_def bits6_def)

definition pad_bits :: "nat \<Rightarrow> nat list" where
  "pad_bits n = (if n mod 3 = 1 then [0, 0, 0, 0] else if n mod 3 = 2 then [0, 0] else [])"

text \<open>The sextets of some bytes have the same bits, and zeros at the end.\<close>

lemma btoa_bits:
  "\<forall>n\<in>set ns. n < 256 \<Longrightarrow>
   concat (map bits6 (btoa_sextets ns)) = concat (map bits8 ns) @ pad_bits (length ns)"
proof (induction ns rule: btoa_sextets.induct)
  case (2 a)
  have "bits6 (a mod 4 * 16) = [a div 2 mod 2, a mod 2, 0, 0, 0, 0]" using sextets(2) [of 0 a] by simp
  moreover have "pad_bits (length [a]) = [0, 0, 0, 0]" by (simp add: pad_bits_def)
  ultimately show ?case by (simp only: btoa_sextets.simps list.map concat.simps append.simps append_Nil2 sextets(1) bits8_list)
next
  case (3 a b)
  then have b: "b < 256" by simp
  have "bits6 (b mod 16 * 4) = [b div 8 mod 2, b div 4 mod 2, b div 2 mod 2, b mod 2, 0, 0]" using sextets(3) [of 0 b] by simp
  moreover have "pad_bits (length [a, b]) = [0, 0]" by (simp add: pad_bits_def)
  ultimately show ?case
    by (simp only: btoa_sextets.simps list.map concat.simps append.simps append_Nil2 sextets(1) sextets(2) [OF b] bits8_list)
next
  case (4 a b c r)
  then have bc: "b < 256" "c < 256" and r: "\<forall>n\<in>set r. n < 256" by auto
  have "pad_bits (length (a # b # c # r)) = pad_bits (length r)" by (simp add: pad_bits_def)
  then show ?case
    by (simp only: btoa_sextets.simps list.map concat.simps append.simps sextets(1,4) sextets(2) [OF bc(1)]
        sextets(3) [OF bc(2)] bits8_list 4(1) [OF r])
qed (simp add: pad_bits_def)

lemma digits_bits8: "digits 2 8 n = map digit_char (bits8 n)"
proof -
  have eight: "8 = Suc (Suc (Suc (Suc (Suc (Suc (Suc (Suc 0)))))))" by simp
  have "n div 2 div 2 div 2 div 2 div 2 div 2 div 2 = n div 128" "n div 2 div 2 div 2 div 2 div 2 div 2 = n div 64"
    "n div 2 div 2 div 2 div 2 div 2 = n div 32" "n div 2 div 2 div 2 div 2 = n div 16" "n div 2 div 2 div 2 = n div 8"
    "n div 2 div 2 = n div 4" by (simp_all flip: div_mult2_eq)
  then show ?thesis by (subst eight) (simp only: digits.simps append.simps bits8_list list.map)
qed

lemma bits8_chars: "concat (map (show_base 10) (bits8 n)) = map digit_char (bits8 n)"
proof -
  have bit: "show_base 10 (m mod 2) = [digit_char (m mod 2)]" for m
  proof -
    have "m mod 2 < 10" by (rule order_less_trans [of _ 2]) simp_all
    then show ?thesis by (simp add: show_base.simps [of 10 "m mod 2"])
  qed
  show ?thesis by (simp only: bits8_list list.map concat.simps append.simps bit)
qed

lemma bits_to_byte_bits8:
  assumes "n < 256"
  shows "bits_to_byte (bits8 n) = word_of_nat n"
proof -
  have "n < 2 ^ 8" using assms by simp
  then have "map digit_char (bits8 n) = padStart 8 CHR ''0'' (show_base 2 n)"
    by (simp only: show_digits [OF order_refl zero_less_numeral] digits_bits8)
  then have "parse_nat 2 (map digit_char (bits8 n)) = Some n"
    by (simp add: parse_nat_def padStart_def parse_digits_append parse_digits_show_base)
  then show ?thesis by (simp only: bits_to_byte_def bits8_chars option.case)
qed

lemma bits_to_bytes_bits8: "\<forall>n\<in>set ns. n < 256 \<Longrightarrow> bits_to_bytes (concat (map bits8 ns)) = map word_of_nat ns"
proof (induction ns)
  case (Cons n ns)
  let ?bits = "bits8 n @ concat (map bits8 ns)"
  have "?bits \<noteq> []" by (simp add: bits8_def)
  then have "bits_to_bytes ?bits = bits_to_byte (take 8 ?bits) # bits_to_bytes (drop 8 ?bits)"
    by (subst bits_to_bytes.simps) (simp only: if_False)
  also have "take 8 ?bits = bits8 n" by simp
  also have "drop 8 ?bits = concat (map bits8 ns)" by simp
  finally show ?case using Cons by (simp add: bits_to_byte_bits8)
qed (subst bits_to_bytes.simps, simp)

lemma concat_blocks_drop:
  assumes "\<And>x. x \<in> set xs \<Longrightarrow> length (f x) = k"
  shows "drop (k * i) (concat (map f xs)) = concat (map f (drop i xs))"
  using assms
proof (induction i arbitrary: xs)
  case (Suc i)
  then show ?case by (cases xs) (simp_all add: drop_append)
qed simp

lemma concat_blocks_take:
  assumes "\<And>x. x \<in> set xs \<Longrightarrow> length (f x) = k"
  shows "take (k * i) (concat (map f xs)) = concat (map f (take i xs))"
  using assms
proof (induction i arbitrary: xs)
  case (Suc i)
  then show ?case by (cases xs) (simp_all add: take_append)
qed simp

lemma concat_blocks_length: "(\<And>x. x \<in> set xs \<Longrightarrow> length (f x) = k) \<Longrightarrow> length (concat (map f xs)) = k * length xs"
  by (induction xs) auto

definition base64url :: "byte list \<Rightarrow> string" where
  "base64url bs = bit_chars (btoa_sextets (map unat bs))"

text \<open>Where the characters from \<open>i\<close> to \<open>j\<close> begin and end in the bytes they encode.\<close>

lemma mod_4_cases: obtains q r where "n = 4 * q + r" "r = 0 \<or> r = 1 \<or> r = 2 \<or> r = (3 :: nat)"
proof
  show "n = 4 * (n div 4) + n mod 4" by simp
  show "n mod 4 = 0 \<or> n mod 4 = 1 \<or> n mod 4 = 2 \<or> n mod 4 = 3" by linarith
qed

lemma slice_start:
  assumes "i mod 4 \<noteq> (3 :: nat)"
  shows "6 * i + 2 * (i mod 4) = 8 * ((6 * i + 7) div 8)"
proof -
  obtain q r where i: "i = 4 * q + r" "r = 0 \<or> r = 1 \<or> r = 2 \<or> r = 3" by (rule mod_4_cases)
  then have "i mod 4 = r" "(6 * i + 7) div 8 = 3 * q + (6 * r + 7) div 8" by auto
  with i assms show ?thesis by auto
qed

lemma slice_end:
  assumes "j mod 4 \<noteq> (1 :: nat)" "0 < j"
  shows "6 * j = 8 * (6 * j div 8) + 2 * (3 - (j - 1) mod 4)" "(j - 1) mod 4 \<noteq> 0"
proof -
  obtain q r where j: "j - 1 = 4 * q + r" "r = 0 \<or> r = 1 \<or> r = 2 \<or> r = 3" by (rule mod_4_cases)
  then have e: "j = 4 * q + r + 1" using assms(2) by linarith
  have "r \<noteq> 0"
  proof
    assume "r = 0"
    then have "j = 4 * q + 1" using e by simp
    then have "j mod 4 = 1" by simp
    then show False using assms(1) by simp
  qed
  moreover have "(j - 1) mod 4 = r" "6 * j div 8 = 3 * q + (6 * r + 6) div 8" using j e by auto
  ultimately show "6 * j = 8 * (6 * j div 8) + 2 * (3 - (j - 1) mod 4)" "(j - 1) mod 4 \<noteq> 0" using j e by auto
qed

lemma slice_arith:
  fixes i j u v a b n :: nat
  assumes "6 * i + 2 * a = 8 * u" "6 * j = 8 * v + b" "b \<le> 4" "a \<le> 2" "i + 2 \<le> j" "6 * j \<le> 8 * n + 4"
  shows "u \<le> v" "v \<le> n" "6 * (j - i) - 2 * a - b = 8 * (v - u)" "8 * (v - u) \<le> 6 * (j - i) - 2 * a"
  using assms by linarith+

lemma slice_of_bits:
  assumes "u \<le> v" "v \<le> length ns"
  shows "take (8 * (v - u)) (drop (8 * u) (concat (map bits8 ns) @ zs)) = concat (map bits8 (take (v - u) (drop u ns)))"
proof -
  have "8 * u \<le> length (concat (map bits8 ns))" using assms by (simp add: concat_blocks_length [of _ bits8 8])
  then have "drop (8 * u) (concat (map bits8 ns) @ zs) = concat (map bits8 (drop u ns)) @ zs"
    by (simp add: concat_blocks_drop [of _ bits8 8])
  moreover have "8 * (v - u) \<le> length (concat (map bits8 (drop u ns)))"
    using assms by (simp add: concat_blocks_length [of _ bits8 8])
  ultimately show ?thesis by (simp add: concat_blocks_take [of _ bits8 8])
qed

lemma decode_part:
  assumes "i + 2 \<le> j" "j \<le> length (base64url bs)" "i mod 4 \<noteq> 3" "j mod 4 \<noteq> 1"
  shows "decodeBase64URL p (take (j - i) (drop i (base64url bs))) (i mod 4) =
    Inr (p_decode p (take (6 * j div 8 - (6 * i + 7) div 8) (drop ((6 * i + 7) div 8) bs)))"
proof -
  define ns where "ns = map unat bs"
  define sx where "sx = btoa_sextets ns"
  define s where "s = take (j - i) (drop i (base64url bs))"
  define u v a b where "u = (6 * i + 7) div 8" and "v = 6 * j div 8" and "a = i mod 4" and "b = 2 * (3 - (j - 1) mod 4)"
  define T where "T = concat (map bits8 ns) @ pad_bits (length ns)"
  have ns: "\<forall>n\<in>set ns. n < 256" by (auto simp: ns_def)
  have len: "length sx = length (base64url bs)" by (simp add: base64url_def bit_chars_def sx_def ns_def)
  have T: "concat (map bits6 sx) = T" unfolding T_def sx_def by (rule btoa_bits [OF ns])
  have lenT: "6 * length sx = length T" unfolding T [symmetric] by (simp add: concat_blocks_length [of _ bits6 6])
  have "j \<noteq> 0" using assms(1) by simp
  note ends = slice_start [OF assms(3), folded u_def a_def] slice_end [OF assms(4), folded v_def b_def]
  have a: "a \<le> 2" using assms(3) mod_less_divisor [of 4 i] unfolding a_def by linarith
  have b: "b \<le> 4" using ends(3) \<open>j \<noteq> 0\<close> unfolding b_def by simp
  have e: "6 * j = 8 * v + b" using ends(2) \<open>j \<noteq> 0\<close> by simp
  have "length T \<le> 8 * length ns + 4" by (simp add: T_def pad_bits_def concat_blocks_length [of _ bits8 8])
  then have "6 * j \<le> 8 * length ns + 4" using assms(2) lenT len by linarith
  note arith = slice_arith [OF ends(1) e b a assms(1) this]
  have chars: "s = bit_chars (take (j - i) (drop i sx))"
    by (simp add: s_def base64url_def bit_chars_def take_map drop_map sx_def ns_def)
  have "list_all (\<lambda>i. i < 64) (take (j - i) (drop i sx))"
    using btoa_sextets_bound [OF ns] by (auto simp: list_all_iff sx_def dest!: in_set_takeD in_set_dropD)
  then have "base64UrlStringToBitVector s = Inr (concat (map bits6 (take (j - i) (drop i sx))))"
    unfolding chars by (rule bit_vector)
  also have "concat (map bits6 (take (j - i) (drop i sx))) = take (6 * (j - i)) (drop (6 * i) T)"
    unfolding T [symmetric] by (simp add: concat_blocks_take [of _ bits6 6] concat_blocks_drop [of _ bits6 6])
  finally have bits: "base64UrlStringToBitVector s = Inr (take (6 * (j - i)) (drop (6 * i) T))" .
  have ls: "length s = j - i" using assms(1,2) by (simp add: s_def)
  have last: "(a + length s - 1) mod 4 = (j - 1) mod 4"
  proof -
    have "(i mod 4 + (j - i - 1)) mod 4 = (i + (j - i - 1)) mod 4" by (rule mod_add_left_eq)
    then show ?thesis using assms(1) by (simp add: ls a_def)
  qed
  have lT: "length (take (6 * (j - i)) (drop (6 * i) T)) = 6 * (j - i)"
    using assms(1,2) len lenT by simp
  have "take (6 * (j - i) - 2 * a - b) (drop (2 * a) (take (6 * (j - i)) (drop (6 * i) T))) = take (8 * (v - u)) (drop (8 * u) T)"
    unfolding arith(3) using arith(4) ends(1) by (simp add: drop_take add.commute min_absorb1)
  also have "\<dots> = concat (map bits8 (take (v - u) (drop u ns)))"
    unfolding T_def by (rule slice_of_bits [OF arith(1,2)])
  finally have rest: "take (6 * (j - i) - 2 * a - b) (drop (2 * a) (take (6 * (j - i)) (drop (6 * i) T))) =
      concat (map bits8 (take (v - u) (drop u ns)))" .
  have bytes: "bits_to_bytes (concat (map bits8 (take (v - u) (drop u ns)))) = take (v - u) (drop u bs)"
    using ns by (subst bits_to_bytes_bits8) (auto simp: ns_def take_map drop_map comp_def dest!: in_set_takeD in_set_dropD)
  have whole: "length (concat (map bits8 (take (v - u) (drop u ns)))) mod 8 = 0"
    by (simp add: concat_blocks_length [of _ bits8 8])
  have d: "length (drop (2 * a) (take (6 * (j - i)) (drop (6 * i) T))) = 6 * (j - i) - 2 * a"
    by (simp only: length_drop lT)
  have c: "(length s < 2) = False" "a mod 4 = a" "(a = 3) = False" "((j - 1) mod 4 = 0) = False"
    using assms(1) a ends(3) \<open>j \<noteq> 0\<close> by (simp_all add: ls)
  have "decodeBase64URL p s a = Inr (p_decode p (take (v - u) (drop u bs)))"
    by (simp only: decodeBase64URL_def c bits rbind.simps Let_def last if_False d rest [unfolded b_def] whole bytes simp_thms)
  then show ?thesis by (simp only: s_def u_def v_def a_def)
qed

text \<open>C15: A part of a base64url text that begins and ends on whole bytes decodes to the bytes it covers; the index of its
  first character modulo 4 is all the decoder needs.\<close>

theorem decode_slice:
  assumes "i + 2 \<le> j" "j \<le> length (base64url bs)" "i mod 4 \<noteq> 3" "j mod 4 \<noteq> 1"
  shows "decodeBase64URL p (take (j - i) (drop i (base64url bs))) (i mod 4) =
    Inr (p_decode p (take (6 * j div 8 - (6 * i + 7) div 8) (drop ((6 * i + 7) div 8) bs)))"
  by (rule decode_part [OF assms])

lemma decode_slice_witness:
  "\<forall>p. decodeBase64URL p (take (7 - 2) (drop 2 (base64url [1, 2, 3, 4, 5, 6]))) (2 mod 4) =
    Inr (p_decode p (take (6 * 7 div 8 - (6 * 2 + 7) div 8) (drop ((6 * 2 + 7) div 8) [1, 2, 3, 4, 5, 6])))"
  by (rule allI, rule decode_slice) (simp_all add: base64url_def bit_chars_def)

lemma bits_left:
  assumes "2 \<le> n" "i mod 4 = a" "(i + n - 1) mod 4 = l" "a \<noteq> 3" "l \<noteq> (0 :: nat)"
  shows "(6 * n - 2 * a - 2 * (3 - l)) mod 8 = 0"
proof -
  obtain q where q: "i = 4 * q + a" using assms(2) by (metis mult_div_mod_eq)
  obtain q' where q': "i + n - 1 = 4 * q' + l" using assms(3) by (metis mult_div_mod_eq)
  have "l \<le> 3" "a \<le> 2" using assms(2-4) by linarith+
  then have "q \<le> q'" using q q' assms(1) by linarith
  then obtain d where d: "q' = q + d" using le_Suc_ex by blast
  have n: "n + a = 4 * d + l + 1" using q q' d assms(1) by linarith
  have "6 * n - 2 * a - 2 * (3 - l) = 8 * (3 * d + l - a)" using n \<open>l \<le> 3\<close> \<open>a \<le> 2\<close> assms(1) by linarith
  then show ?thesis by simp
qed

text \<open>The decoder succeeds exactly on texts of at least two base64url characters that begin and end on whole bytes; its
  last error is never thrown.\<close>

theorem decode_total:
  "(\<exists>t. decodeBase64URL p s i = Inr t) \<longleftrightarrow>
   2 \<le> length s \<and> set s \<subseteq> set base64UrlCharacterSet \<and> i mod 4 \<noteq> 3 \<and> (i + length s - 1) mod 4 \<noteq> 0"
proof (cases "\<exists>xs. list_all (\<lambda>i. i < 64) xs \<and> s = bit_chars xs")
  case True
  then obtain xs where xs: "list_all (\<lambda>i. i < 64) xs" "s = bit_chars xs" by blast
  have chars: "set s \<subseteq> set base64UrlCharacterSet"
    using xs nth_mem [of _ base64UrlCharacterSet] distinct_set(2) by (auto simp: bit_chars_def list_all_iff)
  have bits: "base64UrlStringToBitVector s = Inr (concat (map bits6 xs))" unfolding xs(2) by (rule bit_vector [OF xs(1)])
  have len: "length (concat (map bits6 xs)) = 6 * length s"
    by (simp add: xs(2) bit_chars_def concat_blocks_length [of _ bits6 6])
  define a l where "a = i mod 4" and "l = (i + length s - 1) mod 4"
  have "(\<exists>t. decodeBase64URL p s i = Inr t) \<longleftrightarrow> 2 \<le> length s \<and> a \<noteq> 3 \<and> l \<noteq> 0" if "\<not> length s < 2"
  proof (cases "a = 3 \<or> l = 0")
    case True
    then show ?thesis using that by (auto simp: decodeBase64URL_def bits a_def l_def Let_def)
  next
    case False
    have "length (take (6 * length s - 2 * a - 2 * (3 - l)) (drop (2 * a) (concat (map bits6 xs)))) mod 8 = 0"
    proof -
      have "length (take (6 * length s - 2 * a - 2 * (3 - l)) (drop (2 * a) (concat (map bits6 xs)))) =
          6 * length s - 2 * a - 2 * (3 - l)" by (simp only: length_take length_drop len min_absorb2 [OF diff_le_self])
      moreover have "2 \<le> length s" using that by simp
      from bits_left [OF this a_def [symmetric] l_def [symmetric]] have "(6 * length s - 2 * a - 2 * (3 - l)) mod 8 = 0"
        using False by blast
      ultimately show ?thesis by (simp only:)
    qed
    moreover have "(length s < 2) = False" "(a = 3) = False" "(l = 0) = False" using that False by auto
    ultimately have "decodeBase64URL p s i = Inr (p_decode p (bits_to_bytes
        (take (6 * length s - 2 * a - 2 * (3 - l)) (drop (2 * a) (concat (map bits6 xs))))))"
      by (simp only: decodeBase64URL_def bits rbind.simps Let_def length_drop len a_def [symmetric] l_def [symmetric]
          if_False simp_thms)
    then show ?thesis using that False by auto
  qed
  moreover have "\<not> (\<exists>t. decodeBase64URL p s i = Inr t)" if "length s < 2" using that by (simp add: decodeBase64URL_def)
  ultimately show ?thesis using chars unfolding a_def l_def by (cases "length s < 2") simp_all
next
  case False
  then have no: "\<not> (\<exists>bits. base64UrlStringToBitVector s = Inr bits)" by (auto simp: bit_vector_iff)
  have "\<not> set s \<subseteq> set base64UrlCharacterSet"
  proof
    assume sub: "set s \<subseteq> set base64UrlCharacterSet"
    have "\<forall>c\<in>set s. \<exists>i<64. c = base64UrlCharacterSet ! i" using sub distinct_set(2) by (auto simp: set_conv_nth [of base64UrlCharacterSet])
    then obtain f where f: "\<forall>c\<in>set s. f c < 64 \<and> c = base64UrlCharacterSet ! f c" by metis
    then have "list_all (\<lambda>i. i < 64) (map f s)" "s = bit_chars (map f s)"
      by (auto simp: list_all_iff bit_chars_def intro!: map_idI [symmetric])
    then show False using False by blast
  qed
  moreover have "\<not> (\<exists>t. decodeBase64URL p s i = Inr t)"
    using no by (auto simp: decodeBase64URL_def res_simps split: if_splits)
  ultimately show ?thesis by blast
qed

subsection \<open>The nonce\<close>

lemma length_btoa_sextets: "length (btoa_sextets ns) = (4 * length ns + 2) div 3"
  by (induction ns rule: btoa_sextets.induct) simp_all

text \<open>A nonce is computed exactly when the epoch and the randomness are field elements; it is the base64url text of the
  last 20 bytes of the Poseidon hash, so that the check of its length never fails.\<close>

theorem generateNonce_iff:
  assumes "hexadecimal (hexToBytes k) (bytesToHex k)" "\<And>bs. base64urlnopad k bs = base64url bs"
    and "\<And>xs. in_field (poseidon k xs)" "length pk \<le> 47"
  shows "generateNonce k pk maxEpoch randomness = Inr nonce \<longleftrightarrow>
    in_field maxEpoch \<and> (\<exists>r. to_bigint randomness = Inr r \<and> in_field r \<and>
      nonce = base64url (rev (le_bytes 20 (nat (poseidon k
        [int (le_val (rev pk)) div 2 ^ 128, int (le_val (rev pk)) mod 2 ^ 128, maxEpoch, r])))))"
proof -
  let ?x = "int (le_val (rev pk))"
  have "le_val (rev pk) < 256 ^ length pk" using le_val_bound [of "rev pk"] by simp
  also have "\<dots> \<le> (256 :: nat) ^ 47" using assms(4) by (intro power_increasing) simp_all
  finally have "?x < int (256 ^ 47)" by (simp only: of_nat_less_iff)
  moreover have "int (256 ^ 47) = 2 ^ 248 * 2 ^ 128" by simp
  ultimately have x: "?x < 2 ^ 248 * 2 ^ 128" by (simp only:)
  have "?x div 2 ^ 128 < 2 ^ 248"
  proof (rule ccontr)
    assume "\<not> ?x div 2 ^ 128 < 2 ^ 248"
    then have "2 ^ 248 * 2 ^ 128 \<le> ?x div 2 ^ 128 * 2 ^ 128" by (intro mult_right_mono) (simp_all only: not_less zero_le_power zero_le_numeral)
    also have "\<dots> \<le> ?x" using pos_mod_sign [of "2 ^ 128" ?x] minus_mod_eq_div_mult [of ?x "2 ^ 128"] by simp
    finally show False using x by simp
  qed
  then have d: "in_field (?x div 2 ^ 128)" by (simp add: in_field_def BN254_FIELD_SIZE_def pos_imp_zdiv_nonneg_iff)
  have "?x mod 2 ^ 128 < 2 ^ 128" "0 \<le> ?x mod 2 ^ 128" by simp_all
  moreover have "(2 :: int) ^ 128 < BN254_FIELD_SIZE" by (simp add: BN254_FIELD_SIZE_def)
  ultimately have "in_field (?x mod 2 ^ 128)" unfolding in_field_def by (meson order_less_trans)
  define h l where "h = ?x div 2 ^ 128" and "l = ?x mod 2 ^ 128"
  have hash: "poseidonHash k [h, l, maxEpoch, r] = Inr y \<longleftrightarrow>
      in_field maxEpoch \<and> in_field r \<and> y = poseidon k [h, l, maxEpoch, r]" for r y
    using d \<open>in_field (?x mod 2 ^ 128)\<close> unfolding h_def [symmetric] l_def [symmetric] by (subst poseidonHash.simps) auto
  have pad: "toPaddedBigEndianBytes k (poseidon k xs) 20 = Inr (rev (le_bytes 20 (nat (poseidon k xs))))" for xs
    using toPadded_bytes [OF assms(1), of "poseidon k xs" 20] assms(3) [of xs] by (simp add: in_field_def)
  have len: "length (base64url (rev (le_bytes 20 n))) = 27" for n
    by (simp add: base64url_def bit_chars_def length_btoa_sextets)
  show ?thesis
    unfolding generateNonce_def toBigIntBE_val rbind.simps h_def [symmetric] l_def [symmetric]
    by (auto simp: res_simps hash pad assms(2) len NONCE_LENGTH_def Let_def)
qed

subsection \<open>An example\<close>

text \<open>Packages with the hexadecimal and base64url of this development. Their hash keeps the first 32 bytes; a signature is
  valid when it is the message followed by the key.\<close>

definition example_packages :: packages where
  "example_packages =
     \<lparr>hexToBytes = fromHex, bytesToHex = toHex, blake2b = (\<lambda>bs. take 32 (bs @ replicate 32 0)), sha256 = (\<lambda>bs. bs),
      poseidon = (\<lambda>xs. if list_all in_field xs then fold max xs 0 else 0), base64urlnopad = base64url,
      ed25519_verify = (\<lambda>sig msg pk. Inr (sig = msg @ pk)), secp256k1_verify = (\<lambda>sig msg pk. Inr (sig = msg @ pk)),
      secp256r1_verify = (\<lambda>sig msg pk. Inr (sig = msg @ pk)),
      json_parse = (\<lambda>s. Inr (JObj [(''iss'', JStr s)])), decodeURIComponent = Inr\<rparr>"

lemma fold_max_in_field: "list_all in_field xs \<Longrightarrow> in_field a \<Longrightarrow> in_field (fold max xs a)"
  by (induction xs arbitrary: a) (auto simp: max_def)

lemma example_poseidon: "in_field (poseidon example_packages xs)"
proof -
  have "in_field 0" by (simp add: in_field_def BN254_FIELD_SIZE_def)
  then show ?thesis by (simp add: example_packages_def fold_max_in_field)
qed

lemma example_hex: "hexadecimal (hexToBytes example_packages) (bytesToHex example_packages)"
  using utils_hex.hexadecimal_axioms by (simp add: example_packages_def)

lemma genAddressSeed_iff_witness:
  "genAddressSeed example_packages (JStr ''7'') ''sub'' ''me'' ''you'' = Inr 7 \<longleftrightarrow>
    (length ''sub'' \<le> 32 \<and> length ''me'' \<le> 115 \<and> length ''you'' \<le> 145 \<and>
     (\<exists>n v a s. pack_string ''sub'' 32 = Inr n \<and> pack_string ''me'' 115 = Inr v \<and> pack_string ''you'' 145 = Inr a \<and>
        to_bigint (JStr ''7'') = Inr s \<and> in_field s \<and>
        7 = poseidon example_packages [poseidon example_packages n, poseidon example_packages v, poseidon example_packages a,
              poseidon example_packages [s]]))"
  by (rule genAddressSeed_iff) (rule example_poseidon)

lemma generateNonce_iff_witness:
  "\<forall>nonce. generateNonce example_packages (replicate 33 1) 5 (JNum 9) = Inr nonce \<longleftrightarrow>
    in_field 5 \<and> (\<exists>r. to_bigint (JNum 9) = Inr r \<and> in_field r \<and>
      nonce = base64url (rev (le_bytes 20 (nat (poseidon example_packages
        [int (le_val (rev (replicate 33 1))) div 2 ^ 128, int (le_val (rev (replicate 33 1))) mod 2 ^ 128, 5, r])))))"
  by (rule allI, rule generateNonce_iff [OF example_hex _ example_poseidon]) (simp_all add: example_packages_def)

lemma pack_string_inj_witness: "pack_string ''sub'' 32 \<noteq> pack_string ''sua'' 32"
proof
  assume "pack_string ''sub'' 32 = pack_string ''sua'' 32"
  then have "''sub'' = ''sua''" by (rule pack_string_inj) (code_simp+)
  then show False by simp
qed

end
