(* ===== verification/Zk_Login.thy ===== *)
theory Zk_Login
  imports Zk_Props Bcs_Carries
begin

text \<open>
  zkLogin: the claims of \<open>jwt-utils.ts\<close> and \<open>jwt-decode.ts\<close>, the signatures of \<open>bcs.ts\<close> and \<open>signature.ts\<close>, the
  public identifiers of \<open>publickey.ts\<close> and the addresses of \<open>address.ts\<close>.

  Claims and salts keep their JavaScript values. A claim of a token that the code uses as a text and that is
  another value throws here.
\<close>

subsection \<open>Claims\<close>

text \<open>The argument of \<open>JSON.parse\<close> begins with a brace, so the result is an object.\<close>

definition verifyExtendedClaim :: "packages \<Rightarrow> string \<Rightarrow> (string \<times> jsval) res" where
  "verifyExtendedClaim k claim =
     (if \<not> (slice_last 1 claim = ''}'' \<or> slice_last 1 claim = '','') then Inl (Error ''Invalid claim'')
      else rbind (json_parse k (''{'' @ butlast claim @ ''}'')) (\<lambda>json.
        case entries json of [(key, v)] \<Rightarrow> Inr (key, v) | _ \<Rightarrow> Inl (Error ''Invalid claim'')))"

text \<open>A claim is an object with a text and a byte, as the schema reads it.\<close>

definition js_index :: "jsval \<Rightarrow> nat res" where
  "js_index v = (case v of JNum n \<Rightarrow> if n < 0 then Inl (TypeError ''not an index'') else Inr (nat n)
     | _ \<Rightarrow> Inl (TypeError ''not an index''))"

definition extractClaimValue :: "packages \<Rightarrow> platform \<Rightarrow> jsval \<Rightarrow> string \<Rightarrow> jsval res" where
  "extractClaimValue k p claim claimName =
     rbind (rbind (get_prop claim ''value'') js_text) (\<lambda>s.
     rbind (rbind (get_prop claim ''indexMod4'') js_index) (\<lambda>i.
     rbind (decodeBase64URL p s i) (\<lambda>extendedClaim.
     rbind (verifyExtendedClaim k extendedClaim) (\<lambda>(name, v).
       if name \<noteq> claimName then Inl (Error ''Invalid field name'') else Inr v))))"

subsection \<open>Tokens\<close>

definition upper_hex :: "char \<Rightarrow> char" where
  "upper_hex c = (let n = (of_char c :: nat) in if 97 \<le> n \<and> n \<le> 102 then char_of (n - 32) else c)"

text \<open>The dot of the regular expression matches every character but the ends of lines.\<close>

definition percent :: "nat \<Rightarrow> string" where
  "percent n = (if n = 10 \<or> n = 13 then [char_of n] else CHR ''%'' # padStart 2 CHR ''0'' (map upper_hex (show_base 16 n)))"

definition b64DecodeUnicode :: "packages \<Rightarrow> string \<Rightarrow> string res" where
  "b64DecodeUnicode k str = rbind (atob str) (\<lambda>units. decodeURIComponent k (concat (map percent units)))"

definition url_char :: "char \<Rightarrow> char" where
  "url_char c = (if c = CHR ''-'' then CHR ''+'' else if c = CHR ''_'' then CHR ''/'' else c)"

definition base64UrlDecode :: "packages \<Rightarrow> string \<Rightarrow> string res" where
  "base64UrlDecode k str =
     (let output = map url_char str in
      if length output mod 4 = 1 then Inl (Error ''base64 string is not of the correct length'')
      else let output = output @ (if length output mod 4 = 2 then ''=='' else if length output mod 4 = 3 then ''='' else [])
           in case b64DecodeUnicode k output of
                Inr s \<Rightarrow> Inr s
              | Inl _ \<Rightarrow> rmap (map char_of) (atob output))"

text \<open>\<open>jwtDecode\<close> without options: the payload of a token.\<close>

definition jwtDecode :: "packages \<Rightarrow> string \<Rightarrow> jsval res" where
  "jwtDecode k token =
     (case split_char CHR ''.'' token of
        _ # part # _ \<Rightarrow>
          (case base64UrlDecode k part of
             Inl e \<Rightarrow> Inl (Error ''Invalid token specified: invalid base64 for part #2'')
           | Inr decoded \<Rightarrow>
               (case json_parse k decoded of
                  Inl e \<Rightarrow> Inl (Error ''Invalid token specified: invalid json for part #2'')
                | Inr v \<Rightarrow> Inr v))
      | _ \<Rightarrow> Inl (Error ''Invalid token specified: missing part #2''))"

record decoded_jwt =
  jwt_iss :: string
  jwt_rawIss :: string
  jwt_aud :: string
  jwt_sub :: string

definition decodeJwt :: "packages \<Rightarrow> string \<Rightarrow> decoded_jwt res" where
  "decodeJwt k jwt =
     rbind (jwtDecode k jwt) (\<lambda>decoded.
     rbind (get_prop decoded ''iss'') (\<lambda>iss.
     rbind (get_prop decoded ''aud'') (\<lambda>aud.
     rbind (get_prop decoded ''sub'') (\<lambda>sub.
       if \<not> truthy sub \<or> \<not> truthy iss \<or> \<not> truthy aud then Inl (Error ''Missing jwt data'')
       else if (case aud of JArr _ \<Rightarrow> True | _ \<Rightarrow> False) then Inl (Error ''Not supported aud. Aud is an array, string was expected.'')
       else rbind (js_text iss) (\<lambda>iss. rbind (js_text aud) (\<lambda>aud. rmap (\<lambda>sub.
              \<lparr>jwt_iss = normalizeZkLoginIssuer iss, jwt_rawIss = iss, jwt_aud = aud, jwt_sub = sub\<rparr>) (js_text sub)))))))"

subsection \<open>Public identifiers\<close>

definition zk_flag :: byte where
  "zk_flag = 5"

record zk_identifier =
  zk_data :: "byte list"
  zk_legacy :: bool

text \<open>\<open>PublicKeyInitData\<close>: base64 text, bytes or numbers.\<close>

definition init_bytes :: "jsval \<Rightarrow> byte list res" where
  "init_bytes v = (case v of JStr s \<Rightarrow> fromBase64 s | _ \<Rightarrow> new_Uint8Array v)"

text \<open>\<open>bytes[0] + 1\<close> of no bytes is \<open>NaN\<close>, which \<open>slice\<close> takes as 0.\<close>

definition normalizeZkLoginPublicKeyBytes :: "packages \<Rightarrow> byte list \<Rightarrow> bool \<Rightarrow> byte list res" where
  "normalizeZkLoginPublicKeyBytes k bytes legacyAddress =
     (let issByteLength = (case bytes of [] \<Rightarrow> 0 | b # _ \<Rightarrow> unat b + 1) in
      rbind (bigint_of_string (''0x'' @ toHex (drop issByteLength bytes))) (\<lambda>addressSeed.
      rmap (\<lambda>seedBytes. take issByteLength bytes @ seedBytes)
        (if legacyAddress then toBigEndianBytes k addressSeed 32 else toPaddedBigEndianBytes k addressSeed 32)))"

definition new_ZkLoginPublicIdentifier :: "packages \<Rightarrow> jsval \<Rightarrow> zk_identifier res" where
  "new_ZkLoginPublicIdentifier k v =
     rbind (init_bytes v) (\<lambda>data.
       let legacyAddress = (case data of [] \<Rightarrow> True | b # _ \<Rightarrow> length data \<noteq> unat b + 1 + 32)
       in if legacyAddress
          then rmap (\<lambda>d. \<lparr>zk_data = d, zk_legacy = True\<rparr>) (normalizeZkLoginPublicKeyBytes k data False)
          else Inr \<lparr>zk_data = data, zk_legacy = False\<rparr>)"

text \<open>The address of the bytes of a key with its flag.\<close>

definition address_of_bytes :: "packages \<Rightarrow> byte list \<Rightarrow> string" where
  "address_of_bytes k mysoBytes =
     normalizeMySoAddress (take (MYSO_ADDRESS_LENGTH * 2) (bytesToHex k (blake2b k mysoBytes))) False"

definition zk_toLegacyAddress :: "packages \<Rightarrow> zk_identifier \<Rightarrow> string res" where
  "zk_toLegacyAddress k z =
     rmap (\<lambda>legacyBytes. address_of_bytes k (zk_flag # legacyBytes)) (normalizeZkLoginPublicKeyBytes k (zk_data z) True)"

definition zk_toMySoAddress :: "packages \<Rightarrow> zk_identifier \<Rightarrow> string res" where
  "zk_toMySoAddress k z =
     (if zk_legacy z then zk_toLegacyAddress k z else Inr (address_of_bytes k (zk_flag # zk_data z)))"

definition zk_verifyAddress :: "packages \<Rightarrow> zk_identifier \<Rightarrow> string \<Rightarrow> bool res" where
  "zk_verifyAddress k z address =
     (if address = address_of_bytes k (zk_flag # zk_data z) then Inr True
      else rmap (\<lambda>a. address = a) (zk_toLegacyAddress k z))"

definition zk_fromBytes :: "packages \<Rightarrow> byte list \<Rightarrow> string option \<Rightarrow> bool option \<Rightarrow> zk_identifier res" where
  "zk_fromBytes k bytes address legacyAddress =
     (let normalized = (\<lambda>legacy. rbind (normalizeZkLoginPublicKeyBytes k bytes legacy)
                          (\<lambda>b. new_ZkLoginPublicIdentifier k (JBytes b))) in
      rbind (case (legacyAddress, address) of
          (Some legacy, _) \<Rightarrow> normalized legacy
        | (None, Some (c # cs)) \<Rightarrow>
            rbind (normalized False) (\<lambda>publicKey.
            rbind (zk_toMySoAddress k publicKey) (\<lambda>a. if a \<noteq> c # cs then normalized True else Inr publicKey))
        | _ \<Rightarrow> new_ZkLoginPublicIdentifier k (JBytes bytes)) (\<lambda>publicKey.
      case address of
        Some (c # cs) \<Rightarrow> rbind (zk_toMySoAddress k publicKey) (\<lambda>a.
          if a \<noteq> c # cs then Inl (Error ''Public key bytes do not match the provided address'') else Inr publicKey)
      | _ \<Rightarrow> Inr publicKey))"

text \<open>\<open>tmp.set([issBytes.length])\<close> keeps the length modulo 256.\<close>

definition toZkLoginPublicIdentifier :: "packages \<Rightarrow> platform \<Rightarrow> int \<Rightarrow> string \<Rightarrow> bool \<Rightarrow> zk_identifier res" where
  "toZkLoginPublicIdentifier k p addressSeed iss legacyAddress =
     rbind (if legacyAddress then toBigEndianBytes k addressSeed 32 else toPaddedBigEndianBytes k addressSeed 32)
       (\<lambda>addressSeedBytesBigEndian.
         let issBytes = p_encode p (normalizeZkLoginIssuer iss)
         in new_ZkLoginPublicIdentifier k
              (JBytes (word_of_nat (length issBytes) # issBytes @ addressSeedBytesBigEndian)))"

text \<open>\<open>fromProof\<close> on the inputs of a signature.\<close>

definition zk_fromProof :: "packages \<Rightarrow> platform \<Rightarrow> string \<Rightarrow> jsval \<Rightarrow> zk_identifier res" where
  "zk_fromProof k p address proof_inputs =
     rbind (get_prop proof_inputs ''issBase64Details'') (\<lambda>details.
     rbind (get_prop proof_inputs ''addressSeed'') (\<lambda>seed.
     rbind (rbind (extractClaimValue k p details ''iss'') js_text) (\<lambda>iss.
     rbind (to_bigint seed) (\<lambda>addressSeed.
     rbind (toZkLoginPublicIdentifier k p addressSeed iss True) (\<lambda>legacyPublicKey.
     rbind (zk_toMySoAddress k legacyPublicKey) (\<lambda>a.
       if a = address then Inr legacyPublicKey
       else rbind (toZkLoginPublicIdentifier k p addressSeed iss False) (\<lambda>publicKey.
            rbind (zk_toMySoAddress k publicKey) (\<lambda>b.
              if b \<noteq> address then Inl (Error ''Proof does not match address'') else Inr publicKey))))))))"

subsection \<open>Signatures\<close>

definition zkLoginSignature :: "platform \<Rightarrow> bcs_type" where
  "zkLoginSignature p = BcsStruct ''ZkLoginSignature''
     [(''inputs'', BcsStruct ''ZkLoginSignatureInputs''
        [(''proofPoints'', BcsStruct ''ZkLoginSignatureInputsProofPoints''
           [(''a'', vector (bcs_string p) no_opts), (''b'', vector (vector (bcs_string p) no_opts) no_opts),
            (''c'', vector (bcs_string p) no_opts)] no_opts),
         (''issBase64Details'', BcsStruct ''ZkLoginSignatureInputsClaim''
           [(''value'', bcs_string p), (''indexMod4'', bcs_u8 no_opts)] no_opts),
         (''headerBase64'', bcs_string p), (''addressSeed'', bcs_string p)] no_opts),
      (''maxEpoch'', bcs_u64 no_opts), (''userSignature'', bcs_byteVector no_opts)] no_opts"

definition getZkLoginSignatureBytes :: "platform \<Rightarrow> jsval \<Rightarrow> jsval \<Rightarrow> jsval \<Rightarrow> byte list res" where
  "getZkLoginSignatureBytes p inputs maxEpoch userSignature =
     rbind (base64_input userSignature) (\<lambda>sig.
       type_serialize (zkLoginSignature p)
         (JObj [(''inputs'', inputs), (''maxEpoch'', maxEpoch), (''userSignature'', sig)])
         (no_options\<lparr>o_maxSize := Some 2048\<rparr>))"

definition getZkLoginSignature :: "platform \<Rightarrow> jsval \<Rightarrow> jsval \<Rightarrow> jsval \<Rightarrow> string res" where
  "getZkLoginSignature p inputs maxEpoch userSignature =
     rmap (\<lambda>bytes. toBase64 (zk_flag # bytes)) (getZkLoginSignatureBytes p inputs maxEpoch userSignature)"

definition parseZkLoginSignature :: "platform \<Rightarrow> jsval \<Rightarrow> jsval res" where
  "parseZkLoginSignature p signature =
     rbind (init_bytes signature) (\<lambda>bytes. type_parse (zkLoginSignature p) (uint8array_of bytes))"

record zk_parsed =
  zp_serialized :: string
  zp_inputs :: jsval
  zp_maxEpoch :: jsval
  zp_userSignature :: jsval
  zp_iss :: string
  zp_addressSeed :: int
  zp_signature :: "byte list"
  zp_publicKey :: "byte list"

definition parseSerializedZkLoginSignature :: "packages \<Rightarrow> platform \<Rightarrow> jsval \<Rightarrow> zk_parsed res" where
  "parseSerializedZkLoginSignature k p signature =
     rbind (init_bytes signature) (\<lambda>bytes.
       if bytes = [] \<or> hd bytes \<noteq> zk_flag then Inl (Error ''Invalid signature scheme'')
       else rbind (parseZkLoginSignature p (JBytes (drop 1 bytes))) (\<lambda>parsed.
            rbind (get_prop parsed ''inputs'') (\<lambda>inputs.
            rbind (get_prop parsed ''maxEpoch'') (\<lambda>maxEpoch.
            rbind (get_prop parsed ''userSignature'') (\<lambda>userSignature.
            rbind (get_prop inputs ''issBase64Details'') (\<lambda>details.
            rbind (get_prop inputs ''addressSeed'') (\<lambda>seed.
            rbind (rbind (extractClaimValue k p details ''iss'') js_text) (\<lambda>iss.
            rbind (to_bigint seed) (\<lambda>addressSeed.
            rmap (\<lambda>publicIdentifier.
              \<lparr>zp_serialized = toBase64 bytes, zp_inputs = inputs, zp_maxEpoch = maxEpoch,
               zp_userSignature = userSignature, zp_iss = iss, zp_addressSeed = addressSeed, zp_signature = bytes,
               zp_publicKey = zk_data publicIdentifier\<rparr>)
              (toZkLoginPublicIdentifier k p addressSeed iss False))))))))))"

subsection \<open>Verification by a client\<close>

text \<open>\<open>client.core.verifyZkLoginSignature\<close> on bytes, signature, scope and address: success and the list of errors.\<close>

type_synonym zk_client = "string \<Rightarrow> string \<Rightarrow> string \<Rightarrow> string \<Rightarrow> (bool \<times> string list) res"

definition graphqlVerifyZkLoginSignature :: "zk_client option \<Rightarrow> string \<Rightarrow> string \<Rightarrow> string \<Rightarrow> string \<Rightarrow> bool res" where
  "graphqlVerifyZkLoginSignature client address bytes signature intentScope =
     (case client of
        None \<Rightarrow> Inl (Error ''A MySo Client (GRPC, GraphQL, or JSON RPC) is required to verify zkLogin signatures'')
      | Some verify \<Rightarrow> rmap (\<lambda>(success, errors). success \<and> errors = []) (verify bytes signature intentScope address))"

definition zk_verify_scope ::
  "packages \<Rightarrow> platform \<Rightarrow> zk_client option \<Rightarrow> string \<Rightarrow> byte list \<Rightarrow> jsval \<Rightarrow> bool res" where
  "zk_verify_scope k p client intentScope message signature =
     rbind (parseSerializedZkLoginSignature k p signature) (\<lambda>parsed.
     rbind (new_ZkLoginPublicIdentifier k (JBytes (zp_publicKey parsed))) (\<lambda>z.
     rbind (zk_toMySoAddress k z) (\<lambda>address.
       graphqlVerifyZkLoginSignature client address (toBase64 message) (zp_serialized parsed) intentScope)))"

definition zk_verifyPersonalMessage :: "packages \<Rightarrow> platform \<Rightarrow> zk_client option \<Rightarrow> byte list \<Rightarrow> jsval \<Rightarrow> bool res" where
  "zk_verifyPersonalMessage k p client = zk_verify_scope k p client ''PersonalMessage''"

definition zk_verifyTransaction :: "packages \<Rightarrow> platform \<Rightarrow> zk_client option \<Rightarrow> byte list \<Rightarrow> jsval \<Rightarrow> bool res" where
  "zk_verifyTransaction k p client = zk_verify_scope k p client ''TransactionData''"

subsection \<open>Addresses\<close>

definition computeZkLoginAddressFromSeed :: "packages \<Rightarrow> platform \<Rightarrow> int \<Rightarrow> string \<Rightarrow> bool \<Rightarrow> string res" where
  "computeZkLoginAddressFromSeed k p addressSeed iss legacyAddress =
     rmap (\<lambda>addressSeedBytesBigEndian.
        let addressParamBytes = p_encode p (normalizeZkLoginIssuer iss)
        in address_of_bytes k
             (zk_flag # word_of_nat (length addressParamBytes) # addressParamBytes @ addressSeedBytesBigEndian))
       (if legacyAddress then toBigEndianBytes k addressSeed 32 else toPaddedBigEndianBytes k addressSeed 32)"

definition computeZkLoginAddress ::
  "packages \<Rightarrow> platform \<Rightarrow> string \<Rightarrow> string \<Rightarrow> string \<Rightarrow> string \<Rightarrow> jsval \<Rightarrow> bool \<Rightarrow> string res" where
  "computeZkLoginAddress k p claimName claimValue iss aud userSalt legacyAddress =
     rbind (genAddressSeed k userSalt claimName claimValue aud) (\<lambda>seed.
       computeZkLoginAddressFromSeed k p seed iss legacyAddress)"

definition jwtToAddress :: "packages \<Rightarrow> platform \<Rightarrow> string \<Rightarrow> jsval \<Rightarrow> bool \<Rightarrow> string res" where
  "jwtToAddress k p jwt userSalt legacyAddress =
     rbind (lengthChecks jwt) (\<lambda>_.
     rbind (decodeJwt k jwt) (\<lambda>decodedJWT.
       computeZkLoginAddress k p ''sub'' (jwt_sub decodedJWT) (jwt_iss decodedJWT) (jwt_aud decodedJWT) userSalt legacyAddress))"

end
