(* ===== verification/Zk_Login_Props.thy ===== *)
theory Zk_Login_Props
  imports Zk_Login
begin

subsection \<open>Identifiers of a seed and an issuer\<close>

lemma le_val_zeros: "le_val (xs @ replicate n 0) = le_val xs"
proof -
  have "le_val (replicate n 0 :: byte list) = 0" by (induction n) simp_all
  then show ?thesis by (simp add: le_val_append)
qed

lemma drop_zeros: "le_val (rev (dropWhile (\<lambda>b. b = 0) bs)) = le_val (rev bs)"
proof -
  have "takeWhile (\<lambda>b. b = 0) bs = replicate (length (takeWhile (\<lambda>b. b = 0) bs)) 0"
    by (rule replicate_eqI [symmetric, THEN sym]) (auto dest: set_takeWhileD)
  then have "rev bs = rev (dropWhile (\<lambda>b. b = 0) bs) @ replicate (length (takeWhile (\<lambda>b. b = 0) bs)) 0"
    by (metis rev_append rev_replicate takeWhile_dropWhile_id)
  then show ?thesis by (metis le_val_zeros)
qed

definition seed_ok :: "int \<Rightarrow> bool" where
  "seed_ok n \<longleftrightarrow> 0 \<le> n \<and> n < 2 ^ 256"

definition long_bytes :: "nat \<Rightarrow> byte list" where
  "long_bytes n = rev (le_bytes 32 n)"

lemma length_long [simp]: "length (long_bytes n) = 32" "long_bytes n \<noteq> []"
proof -
  show l: "length (long_bytes n) = 32" by (simp add: long_bytes_def)
  then show "long_bytes n \<noteq> []" by (metis list.size(3) zero_neq_numeral)
qed

lemma short_bytes_alt: "short_bytes n = (let bs = dropWhile (\<lambda>b. b = 0) (long_bytes n) in if bs = [] then [0] else bs)"
  by (simp add: short_bytes_def long_bytes_def)

lemma short_bytes_nonempty [simp]: "short_bytes n \<noteq> []"
  by (simp add: short_bytes_alt Let_def)

lemma value_long: "n < 2 ^ 256 \<Longrightarrow> le_val (rev (long_bytes n)) = n"
  by (simp add: long_bytes_def le_val_le_bytes)

lemma value_short: "n < 2 ^ 256 \<Longrightarrow> le_val (rev (short_bytes n)) = n"
proof -
  assume n: "n < 2 ^ 256"
  have "le_val (rev (dropWhile (\<lambda>b. b = 0) (long_bytes n))) = n" using n by (simp only: drop_zeros value_long)
  then show ?thesis
    by (cases "dropWhile (\<lambda>b. b = 0) (long_bytes n) = []") (simp_all add: short_bytes_alt Let_def del: dropWhile_eq_Nil_conv)
qed

lemma short_full: "length (short_bytes n) = 32 \<Longrightarrow> short_bytes n = long_bytes n"
proof -
  assume l: "length (short_bytes n) = 32"
  let ?d = "dropWhile (\<lambda>b. b = 0) (long_bytes n)"
  have "?d = short_bytes n" using l by (auto simp: short_bytes_alt Let_def split: if_splits)
  then have "length ?d = length (long_bytes n)" using l by simp
  then have "takeWhile (\<lambda>b. b = 0) (long_bytes n) = []"
    by (metis add_cancel_left_left length_0_conv length_append takeWhile_dropWhile_id)
  then show ?thesis using \<open>?d = short_bytes n\<close> takeWhile_dropWhile_id by (metis append_Nil)
qed

definition issuer_bytes :: "platform \<Rightarrow> string \<Rightarrow> byte list" where
  "issuer_bytes p iss = p_encode p (normalizeZkLoginIssuer iss)"

definition issuer_prefix :: "platform \<Rightarrow> string \<Rightarrow> byte list" where
  "issuer_prefix p iss = word_of_nat (length (issuer_bytes p iss)) # issuer_bytes p iss"

definition issuer_ok :: "platform \<Rightarrow> string \<Rightarrow> bool" where
  "issuer_ok p iss \<longleftrightarrow> length (issuer_bytes p iss) < 256"

lemma prefix_head:
  assumes "issuer_ok p iss"
  shows "issuer_prefix p iss = b # bs \<Longrightarrow> unat b + 1 = length (issuer_prefix p iss)"
  using assms by (auto simp: issuer_prefix_def issuer_ok_def)

lemma prefix_cases:
  assumes "issuer_ok p iss"
  obtains b bs where "issuer_prefix p iss = b # bs" "unat b = length bs"
  using assms that by (auto simp: issuer_prefix_def issuer_ok_def)

lemma normalize_prefix:
  assumes "hexadecimal (hexToBytes k) (bytesToHex k)" "issuer_ok p iss" "seed \<noteq> []" "le_val (rev seed) = n"
  shows "normalizeZkLoginPublicKeyBytes k (issuer_prefix p iss @ seed) legacy =
    Inr (issuer_prefix p iss @ (if legacy then short_bytes n else long_bytes n))"
proof -
  obtain b bs where p: "issuer_prefix p iss = b # bs" "unat b = length bs" using prefix_cases [OF assms(2)] .
  have "bigint_of_string (''0x'' @ hex_of seed) = Inr (int n)" using bigint_hex_of [OF assms(3)] assms(4) by simp
  then show ?thesis
    using toBig_bytes [OF assms(1), of "int n"] toPadded_bytes [OF assms(1), of "int n" 32]
    by (simp add: normalizeZkLoginPublicKeyBytes_def p toHex_hex_of long_bytes_def Let_def)
qed

lemma new_identifier_long:
  assumes "issuer_ok p iss"
  shows "new_ZkLoginPublicIdentifier k (JBytes (issuer_prefix p iss @ long_bytes n)) =
    Inr \<lparr>zk_data = issuer_prefix p iss @ long_bytes n, zk_legacy = False\<rparr>"
proof -
  obtain b bs where p: "issuer_prefix p iss = b # bs" "unat b = length bs" using prefix_cases [OF assms] .
  then show ?thesis by (simp add: new_ZkLoginPublicIdentifier_def init_bytes_def)
qed

lemma new_identifier_short:
  assumes "hexadecimal (hexToBytes k) (bytesToHex k)" "issuer_ok p iss" "n < 2 ^ 256"
  shows "new_ZkLoginPublicIdentifier k (JBytes (issuer_prefix p iss @ short_bytes n)) =
    Inr \<lparr>zk_data = issuer_prefix p iss @ long_bytes n, zk_legacy = length (short_bytes n) \<noteq> 32\<rparr>"
proof (cases "length (short_bytes n) = 32")
  case True
  then show ?thesis using new_identifier_long [OF assms(2)] by (simp add: short_full)
next
  case False
  obtain b bs where p: "issuer_prefix p iss = b # bs" "unat b = length bs" using prefix_cases [OF assms(2)] .
  then show ?thesis
    using False normalize_prefix [OF assms(1,2) short_bytes_nonempty value_short [OF assms(3)], of False]
    by (simp add: new_ZkLoginPublicIdentifier_def init_bytes_def)
qed

lemma identifier_of_seed:
  assumes "hexadecimal (hexToBytes k) (bytesToHex k)" "issuer_ok p iss" "seed_ok seed"
  shows "toZkLoginPublicIdentifier k p seed iss legacy =
    Inr \<lparr>zk_data = issuer_prefix p iss @ long_bytes (nat seed),
      zk_legacy = (legacy \<and> length (short_bytes (nat seed)) \<noteq> 32)\<rparr>"
proof -
  have n: "nat seed < 2 ^ 256" using assms(3) by (auto simp: seed_ok_def)
  then show ?thesis
    using toBig_bytes [OF assms(1), of seed] toPadded_bytes [OF assms(1), of seed 32] assms(3)
      new_identifier_long [OF assms(2)] new_identifier_short [OF assms(1,2) n]
    by (auto simp: toZkLoginPublicIdentifier_def seed_ok_def long_bytes_def issuer_prefix_def issuer_bytes_def Let_def)
qed

lemma address_of_seed:
  assumes "hexadecimal (hexToBytes k) (bytesToHex k)" "seed_ok seed"
  shows "computeZkLoginAddressFromSeed k p seed iss legacy =
    Inr (address_of_bytes k (zk_flag # issuer_prefix p iss @ (if legacy then short_bytes (nat seed) else long_bytes (nat seed))))"
  using toBig_bytes [OF assms(1), of seed] toPadded_bytes [OF assms(1), of seed 32] assms(2)
  by (simp add: computeZkLoginAddressFromSeed_def seed_ok_def long_bytes_def issuer_prefix_def issuer_bytes_def Let_def)

lemma legacy_address_of_seed:
  assumes "hexadecimal (hexToBytes k) (bytesToHex k)" "issuer_ok p iss" "seed_ok seed"
    and "zk_data z = issuer_prefix p iss @ long_bytes (nat seed)"
  shows "zk_toLegacyAddress k z = computeZkLoginAddressFromSeed k p seed iss True"
proof -
  have "nat seed < 2 ^ 256" using assms(3) by (auto simp: seed_ok_def)
  then have "le_val (rev (long_bytes (nat seed))) = nat seed" by (rule value_long)
  from normalize_prefix [OF assms(1,2) length_long(2) this, of True]
  show ?thesis by (simp add: zk_toLegacyAddress_def assms(4) address_of_seed [OF assms(1,3)])
qed

lemma zk_address_of_identifier:
  assumes "hexadecimal (hexToBytes k) (bytesToHex k)" "issuer_ok p iss" "seed_ok seed"
  shows "rbind (toZkLoginPublicIdentifier k p seed iss legacy) (zk_toMySoAddress k) =
    computeZkLoginAddressFromSeed k p seed iss legacy"
proof -
  let ?z = "\<lparr>zk_data = issuer_prefix p iss @ long_bytes (nat seed),
      zk_legacy = (legacy \<and> length (short_bytes (nat seed)) \<noteq> 32)\<rparr>"
  have "zk_toLegacyAddress k ?z = computeZkLoginAddressFromSeed k p seed iss True"
    by (rule legacy_address_of_seed [OF assms]) simp
  then show ?thesis
    using short_full [of "nat seed"]
    by (auto simp: identifier_of_seed [OF assms] address_of_seed [OF assms(1,3)] zk_toMySoAddress_def)
qed

text \<open>C14: The address computed from a seed and an issuer is the address of the public identifier made of them, in the padded
  and in the legacy form.\<close>

theorem zk_address_equiv:
  assumes "hexadecimal (hexToBytes k) (bytesToHex k)" "issuer_ok p iss" "seed_ok seed"
  shows "rbind (toZkLoginPublicIdentifier k p seed iss legacy) (zk_toMySoAddress k) =
    computeZkLoginAddressFromSeed k p seed iss legacy"
  by (rule zk_address_of_identifier [OF assms])

text \<open>An identifier made of a seed and an issuer has the same bytes in both forms, and verifies exactly the two addresses
  of the seed and the issuer.\<close>

theorem zk_verifyAddress_iff:
  assumes "hexadecimal (hexToBytes k) (bytesToHex k)" "issuer_ok p iss" "seed_ok seed"
    and "toZkLoginPublicIdentifier k p seed iss legacy = Inr z"
  shows "zk_verifyAddress k z address = Inr (\<exists>l. computeZkLoginAddressFromSeed k p seed iss l = Inr address)"
proof -
  have z: "zk_data z = issuer_prefix p iss @ long_bytes (nat seed)"
    using assms(4) by (auto simp: identifier_of_seed [OF assms(1-3)])
  have "zk_verifyAddress k z address = Inr (address = address_of_bytes k (zk_flag # zk_data z) \<or>
      Inr address = computeZkLoginAddressFromSeed k p seed iss True)"
    using legacy_address_of_seed [OF assms(1-3) z] by (auto simp: zk_verifyAddress_def address_of_seed [OF assms(1,3)])
  then show ?thesis
    by (auto simp: z address_of_seed [OF assms(1,3)] ex_bool_eq)
qed

text \<open>C19: A proof gives an identifier exactly for the legacy and the padded address of its seed and issuer, and the identifier
  has that address.\<close>

theorem zk_fromProof_address:
  assumes "hexadecimal (hexToBytes k) (bytesToHex k)" "issuer_ok p iss" "seed_ok seed"
    and "get_prop inputs ''issBase64Details'' = Inr details" "extractClaimValue k p details ''iss'' = Inr (JStr iss)"
    and "get_prop inputs ''addressSeed'' = Inr s" "to_bigint s = Inr seed"
  shows "case zk_fromProof k p address inputs of
     Inr z \<Rightarrow> zk_toMySoAddress k z = Inr address \<and> (\<exists>l. computeZkLoginAddressFromSeed k p seed iss l = Inr address)
   | Inl e \<Rightarrow> \<not> (\<exists>l. computeZkLoginAddressFromSeed k p seed iss l = Inr address)"
proof -
  obtain z where z: "\<And>l. toZkLoginPublicIdentifier k p seed iss l = Inr (z l)"
    using that [OF identifier_of_seed [OF assms(1-3)]] by blast
  obtain a where a: "\<And>l. computeZkLoginAddressFromSeed k p seed iss l = Inr (a l)"
    using that [OF address_of_seed [OF assms(1,3)]] by blast
  have za: "zk_toMySoAddress k (z l) = Inr (a l)" for l
    using zk_address_of_identifier [OF assms(1-3), of l] by (simp add: z a)
  have "js_text (JStr iss) = Inr iss" by (simp add: js_text_def)
  then have "zk_fromProof k p address inputs =
      (if a True = address then Inr (z True)
       else if a False \<noteq> address then Inl (Error ''Proof does not match address'') else Inr (z False))"
    by (simp add: zk_fromProof_def assms(4-7) z za)
  then show ?thesis by (auto simp: za a ex_bool_eq)
qed

subsection \<open>Signatures\<close>

record zk_proof =
  pf_a :: "string list"
  pf_b :: "string list list"
  pf_c :: "string list"
  pf_claim :: string
  pf_indexMod4 :: nat
  pf_header :: string
  pf_seed :: string

text \<open>The inputs of a signature as an object, and which can be written.\<close>

definition js_proof :: "zk_proof \<Rightarrow> jsval" where
  "js_proof f = JObj
     [(''proofPoints'', JObj [(''a'', JArr (map JStr (pf_a f))), (''b'', JArr (map (\<lambda>ss. JArr (map JStr ss)) (pf_b f))),
         (''c'', JArr (map JStr (pf_c f)))]),
      (''issBase64Details'', JObj [(''value'', JStr (pf_claim f)), (''indexMod4'', JNum (int (pf_indexMod4 f)))]),
      (''headerBase64'', JStr (pf_header f)), (''addressSeed'', JStr (pf_seed f))]"

definition strings_ok :: "platform \<Rightarrow> string list \<Rightarrow> bool" where
  "strings_ok p ss \<longleftrightarrow> length ss < 2 ^ 32 \<and> list_all (string_ok p) ss"

definition proof_ok :: "platform \<Rightarrow> zk_proof \<Rightarrow> bool" where
  "proof_ok p f \<longleftrightarrow> strings_ok p (pf_a f) \<and> length (pf_b f) < 2 ^ 32 \<and> list_all (strings_ok p) (pf_b f) \<and>
     strings_ok p (pf_c f) \<and> string_ok p (pf_claim f) \<and> pf_indexMod4 f < 256 \<and> string_ok p (pf_header f) \<and>
     string_ok p (pf_seed f)"

lemma carries_string_list: "strings_ok p ss \<Longrightarrow> carries (vector (bcs_string p) no_opts) (JArr (map JStr ss)) (JArr (map JStr ss))"
  by (rule carries_map) (auto simp: strings_ok_def list_all_iff carries_string)

lemma carries_u8: "n < 256 \<Longrightarrow> carries (bcs_u8 no_opts) (JNum (int n)) (JNum (int n))"
  using codec_u8 [of "JNum (int n)" n] by (auto intro: codec_carries)

lemma carries_signature:
  assumes "proof_ok p f" "to_bigint maxEpoch = Inr e" "0 \<le> e" "e < 2 ^ 64" "length sig \<le> MAX_SAFE_INTEGER"
  shows "carries (zkLoginSignature p) (JObj [(''inputs'', js_proof f), (''maxEpoch'', maxEpoch), (''userSignature'', JBytes sig)])
    (JObj [(''inputs'', js_proof f), (''maxEpoch'', JStr (show_base 10 (nat e))), (''userSignature'', JBytes sig)])"
proof -
  have bs: "carries (vector (vector (bcs_string p) no_opts) no_opts) (JArr (map (\<lambda>ss. JArr (map JStr ss)) (pf_b f)))
      (JArr (map (\<lambda>ss. JArr (map JStr ss)) (pf_b f)))"
    by (rule carries_map) (use assms(1) in \<open>auto simp: proof_ok_def list_all_iff carries_string_list\<close>)
  have sig: "carries (bcs_byteVector no_opts) (JBytes sig) (JBytes sig)"
    by (rule codec_carries [OF codec_byteVector]) (simp_all add: assms(5))
  have e: "carries (bcs_u64 no_opts) maxEpoch (JStr (show_base 10 (nat e)))"
    using codec_u64 [of maxEpoch "nat e"] assms(2-4) by (auto simp: nat_less_iff intro: codec_carries)
  have p: "strings_ok p (pf_a f)" "strings_ok p (pf_c f)" "string_ok p (pf_claim f)" "pf_indexMod4 f < 256"
    "string_ok p (pf_header f)" "string_ok p (pf_seed f)" using assms(1) by (simp_all add: proof_ok_def)
  have "carries (BcsStruct ''ZkLoginSignatureInputsProofPoints''
           [(''a'', vector (bcs_string p) no_opts), (''b'', vector (vector (bcs_string p) no_opts) no_opts),
            (''c'', vector (bcs_string p) no_opts)] no_opts)
      (JObj [(''a'', JArr (map JStr (pf_a f))), (''b'', JArr (map (\<lambda>ss. JArr (map JStr ss)) (pf_b f))), (''c'', JArr (map JStr (pf_c f)))])
      (JObj [(''a'', JArr (map JStr (pf_a f))), (''b'', JArr (map (\<lambda>ss. JArr (map JStr ss)) (pf_b f))), (''c'', JArr (map JStr (pf_c f)))])"
    by (rule carries_struct) (simp_all add: get_prop_def bs carries_string_list p)
  moreover have "carries (BcsStruct ''ZkLoginSignatureInputsClaim''
           [(''value'', bcs_string p), (''indexMod4'', bcs_u8 no_opts)] no_opts)
      (JObj [(''value'', JStr (pf_claim f)), (''indexMod4'', JNum (int (pf_indexMod4 f)))])
      (JObj [(''value'', JStr (pf_claim f)), (''indexMod4'', JNum (int (pf_indexMod4 f)))])"
    by (rule carries_struct) (simp_all add: get_prop_def carries_string carries_u8 p)
  ultimately show ?thesis
    unfolding zkLoginSignature_def js_proof_def
    by (intro carries_struct) (simp_all add: get_prop_def carries_string p e sig carries_struct)
qed

definition signature_value :: "zk_proof \<Rightarrow> jsval \<Rightarrow> byte list \<Rightarrow> jsval" where
  "signature_value f maxEpoch sig = JObj [(''inputs'', js_proof f), (''maxEpoch'', maxEpoch), (''userSignature'', JBytes sig)]"

text \<open>C18: A signature is made unless it takes more than 2048 bytes, and it is parsed to the same inputs, epoch and user
  signature, with the identifier of the issuer and the seed it names.\<close>

theorem zk_signature_roundtrip:
  assumes "proof_ok p f" "to_bigint maxEpoch = Inr e" "0 \<le> e" "e < 2 ^ 64" "length sig \<le> MAX_SAFE_INTEGER"
    and "rbind (decodeBase64URL p (pf_claim f) (pf_indexMod4 f)) (verifyExtendedClaim k) = Inr (''iss'', JStr iss)"
    and "bigint_of_string (pf_seed f) = Inr seed" "toZkLoginPublicIdentifier k p seed iss False = Inr z"
  shows "case getZkLoginSignature p (js_proof f) maxEpoch (JBytes sig) of
     Inl err \<Rightarrow> \<exists>bs. type_serialize (zkLoginSignature p) (signature_value f maxEpoch sig) no_options = Inr bs \<and> 2048 < length bs
   | Inr str \<Rightarrow> \<exists>parsed. parseSerializedZkLoginSignature k p (JStr str) = Inr parsed \<and> zp_serialized parsed = str \<and>
       zp_inputs parsed = js_proof f \<and> zp_maxEpoch parsed = JStr (show_base 10 (nat e)) \<and>
       zp_userSignature parsed = JBytes sig \<and> zp_iss parsed = iss \<and> zp_addressSeed parsed = seed \<and>
       zp_publicKey parsed = zk_data z"
proof -
  let ?x = "JObj [(''inputs'', js_proof f), (''maxEpoch'', JStr (show_base 10 (nat e))), (''userSignature'', JBytes sig)]"
  let ?opts = "no_options\<lparr>o_maxSize := Some 2048\<rparr>"
  obtain bs where c: "codec (zkLoginSignature p) (signature_value f maxEpoch sig) ?x bs"
    using carries_signature [OF assms(1-5)] by (auto simp: carries_def signature_value_def)
  have ser: "type_serialize (zkLoginSignature p) (signature_value f maxEpoch sig) no_options = Inr bs"
    by (rule codec_type_serialize [OF c]) (simp add: no_options_def)
  have parsed: "parseZkLoginSignature p (JBytes bs) = Inr ?x"
    using codec_parse [OF c, of "[]"] by (simp add: parseZkLoginSignature_def init_bytes_def)
  have claim: "extractClaimValue k p (JObj [(''value'', JStr (pf_claim f)), (''indexMod4'', JNum (int (pf_indexMod4 f)))]) ''iss'' = Inr (JStr iss)"
    using assms(6) by (auto simp: extractClaimValue_def get_prop_def js_text_def js_index_def res_simps)
  have get: "getZkLoginSignature p (js_proof f) maxEpoch (JBytes sig) =
      rmap (\<lambda>bytes. toBase64 (zk_flag # bytes)) (type_serialize (zkLoginSignature p) (signature_value f maxEpoch sig) ?opts)"
    by (simp add: getZkLoginSignature_def getZkLoginSignatureBytes_def base64_input_def signature_value_def)
  note bounded = struct_serialize_bounded [OF c [unfolded zkLoginSignature_def], of ?opts, folded zkLoginSignature_def]
  show ?thesis
  proof (cases "type_serialize (zkLoginSignature p) (signature_value f maxEpoch sig) ?opts")
    case (Inl err)
    then show ?thesis using bounded ser by (simp add: get)
  next
    case (Inr bs')
    then have str: "getZkLoginSignature p (js_proof f) maxEpoch (JBytes sig) = Inr (toBase64 (zk_flag # bs))"
      using bounded by (simp add: get)
    have props: "get_prop (js_proof f) ''issBase64Details'' =
        Inr (JObj [(''value'', JStr (pf_claim f)), (''indexMod4'', JNum (int (pf_indexMod4 f)))])"
      "get_prop (js_proof f) ''addressSeed'' = Inr (JStr (pf_seed f))" by (simp_all add: js_proof_def get_prop_def)
    have outer: "get_prop ?x ''inputs'' = Inr (js_proof f)" "get_prop ?x ''maxEpoch'' = Inr (JStr (show_base 10 (nat e)))"
      "get_prop ?x ''userSignature'' = Inr (JBytes sig)" by (simp_all add: get_prop_def)
    show ?thesis
      by (simp add: str parseSerializedZkLoginSignature_def init_bytes_def fromBase64_toBase64 parsed props outer claim js_text_def
          assms(7,8))
  qed
qed

subsection \<open>Examples\<close>

definition example_claim :: string where
  "example_claim = base64url (latin1 ''ab}'')"

definition example_proof :: zk_proof where
  "example_proof = \<lparr>pf_a = [''1''], pf_b = [[''2'', ''3'']], pf_c = [], pf_claim = example_claim, pf_indexMod4 = 0,
     pf_header = ''h'', pf_seed = ''7''\<rparr>"

lemma example_decode: "decodeBase64URL example_platform example_claim 0 = Inr ''ab}''"
proof -
  have l: "length (latin1 ''ab}'') = 3" by (simp add: latin1_def)
  then have len: "length (base64url (latin1 ''ab}'')) = 4" by (simp add: base64url_def bit_chars_def length_btoa_sextets)
  have "decodeBase64URL example_platform (take (4 - 0) (drop 0 (base64url (latin1 ''ab}'')))) (0 mod 4) =
      Inr (p_decode example_platform (take (6 * 4 div 8 - (6 * 0 + 7) div 8) (drop ((6 * 0 + 7) div 8) (latin1 ''ab}''))))"
    by (rule decode_part) (simp_all add: len)
  then show ?thesis using l len by (simp add: example_claim_def example_platform_def unlatin1_latin1)
qed

lemma example_verify_claim: "verifyExtendedClaim example_packages ''ab}'' = Inr (''iss'', JStr ''{ab}'')"
  by (simp add: verifyExtendedClaim_def slice_last_def example_packages_def)

lemma example_issuer_ok: "length iss < 200 \<Longrightarrow> issuer_ok example_platform iss"
  by (auto simp: issuer_ok_def issuer_bytes_def example_platform_def latin1_def normalizeZkLoginIssuer_def)

lemma example_seed_ok: "seed_ok 7"
  by (simp add: seed_ok_def)

lemma example_strings_ok: "length ss < 1000 \<Longrightarrow> list_all (\<lambda>s. length s < 1000) ss \<Longrightarrow> strings_ok example_platform ss"
  by (auto simp: strings_ok_def list_all_iff string_ok_example)

lemma example_proof_ok: "proof_ok example_platform example_proof"
  by (simp add: proof_ok_def example_proof_def example_strings_ok string_ok_example example_claim_def base64url_def
      bit_chars_def length_btoa_sextets latin1_def)

lemma example_bigint_7: "bigint_of_string ''7'' = Inr 7"
  using bigint_of_string_decimal [of 7] by (simp add: show_base.simps [of 10 7] digit_char_def)

lemma zk_address_equiv_witness:
  "rbind (toZkLoginPublicIdentifier example_packages example_platform 7 ''iss'' True) (zk_toMySoAddress example_packages) =
    computeZkLoginAddressFromSeed example_packages example_platform 7 ''iss'' True"
  by (rule zk_address_equiv [OF example_hex example_issuer_ok example_seed_ok]) simp

lemma zk_verifyAddress_iff_witness:
  "\<exists>z. toZkLoginPublicIdentifier example_packages example_platform 7 ''iss'' True = Inr z \<and>
    zk_verifyAddress example_packages z ''0x1'' =
      Inr (\<exists>l. computeZkLoginAddressFromSeed example_packages example_platform 7 ''iss'' l = Inr ''0x1'')"
proof -
  have i: "issuer_ok example_platform ''iss''" by (simp add: example_issuer_ok)
  from identifier_of_seed [OF example_hex i example_seed_ok, of True] obtain z where
    z: "toZkLoginPublicIdentifier example_packages example_platform 7 ''iss'' True = Inr z" by blast
  with zk_verifyAddress_iff [OF example_hex i example_seed_ok z, of "''0x1''"] show ?thesis by blast
qed

lemma zk_fromProof_address_witness:
  "case zk_fromProof example_packages example_platform ''0x1'' (js_proof example_proof) of
     Inr z \<Rightarrow> zk_toMySoAddress example_packages z = Inr ''0x1'' \<and>
       (\<exists>l. computeZkLoginAddressFromSeed example_packages example_platform 7 ''{ab}'' l = Inr ''0x1'')
   | Inl e \<Rightarrow> \<not> (\<exists>l. computeZkLoginAddressFromSeed example_packages example_platform 7 ''{ab}'' l = Inr ''0x1'')"
proof (rule zk_fromProof_address [OF example_hex example_issuer_ok example_seed_ok])
  show "extractClaimValue example_packages example_platform
      (JObj [(''value'', JStr example_claim), (''indexMod4'', JNum 0)]) ''iss'' = Inr (JStr ''{ab}'')"
    by (simp add: extractClaimValue_def get_prop_def js_text_def js_index_def example_decode example_verify_claim)
  show "to_bigint (JStr ''7'') = Inr 7" by (simp only: to_bigint.simps example_bigint_7)
qed (simp_all add: js_proof_def example_proof_def get_prop_def)

lemma zk_signature_roundtrip_witness:
  "\<exists>z. toZkLoginPublicIdentifier example_packages example_platform 7 ''{ab}'' False = Inr z \<and>
   (case getZkLoginSignature example_platform (js_proof example_proof) (JNum 5) (JBytes [1, 2]) of
     Inl err \<Rightarrow> \<exists>bs. type_serialize (zkLoginSignature example_platform) (signature_value example_proof (JNum 5) [1, 2]) no_options
         = Inr bs \<and> 2048 < length bs
   | Inr str \<Rightarrow> \<exists>parsed. parseSerializedZkLoginSignature example_packages example_platform (JStr str) = Inr parsed \<and>
       zp_serialized parsed = str \<and> zp_inputs parsed = js_proof example_proof \<and>
       zp_maxEpoch parsed = JStr (show_base 10 (nat 5)) \<and> zp_userSignature parsed = JBytes [1, 2] \<and>
       zp_iss parsed = ''{ab}'' \<and> zp_addressSeed parsed = 7 \<and> zp_publicKey parsed = zk_data z)"
proof -
  have i: "issuer_ok example_platform ''{ab}''" by (simp add: example_issuer_ok)
  from identifier_of_seed [OF example_hex i example_seed_ok, of False] obtain z where
    z: "toZkLoginPublicIdentifier example_packages example_platform 7 ''{ab}'' False = Inr z" by blast
  have e: "to_bigint (JNum 5) = Inr 5" "0 \<le> (5 :: int)" "5 < (2 ^ 64 :: int)" "length [1, 2 :: byte] \<le> MAX_SAFE_INTEGER"
    by (simp_all add: MAX_SAFE_INTEGER_def)
  have claim: "rbind (decodeBase64URL example_platform (pf_claim example_proof) (pf_indexMod4 example_proof))
      (verifyExtendedClaim example_packages) = Inr (''iss'', JStr ''{ab}'')"
    by (simp add: example_proof_def example_decode example_verify_claim)
  have seed: "bigint_of_string (pf_seed example_proof) = Inr 7" by (simp add: example_proof_def example_bigint_7)
  from zk_signature_roundtrip [OF example_proof_ok e claim seed z] z show ?thesis by blast
qed

end
