(* ===== verification/Signatures.thy ===== *)
theory Signatures
  imports Zk_Login
begin

text \<open>
  Public keys and signatures of one key: \<open>cryptography/signature-scheme.ts\<close>, \<open>publickey.ts\<close>, \<open>signature.ts\<close>,
  \<open>intent.ts\<close>, \<open>keypair.ts\<close>, the public keys of \<open>keypairs\<close>, the passkey signer, and the structure of a multisig.

  \<open>key\<close> is a \<open>PublicKey\<close> of one of the five schemes a multisig may hold; each method of the class is a
  function on it. A \<open>Uint8Array | string\<close> that holds a signature is a \<open>signature_input\<close>.
\<close>

subsection \<open>Schemes\<close>

datatype scheme = ED25519 | Secp256k1 | Secp256r1 | MultiSigScheme | ZkLogin | Passkey

fun SIGNATURE_SCHEME_TO_FLAG :: "scheme \<Rightarrow> byte" where
  "SIGNATURE_SCHEME_TO_FLAG ED25519 = 0"
| "SIGNATURE_SCHEME_TO_FLAG Secp256k1 = 1"
| "SIGNATURE_SCHEME_TO_FLAG Secp256r1 = 2"
| "SIGNATURE_SCHEME_TO_FLAG MultiSigScheme = 3"
| "SIGNATURE_SCHEME_TO_FLAG ZkLogin = 5"
| "SIGNATURE_SCHEME_TO_FLAG Passkey = 6"

text \<open>Only the schemes of keypairs have a size in the table that the code reads.\<close>

fun SIGNATURE_SCHEME_TO_SIZE :: "scheme \<Rightarrow> nat option" where
  "SIGNATURE_SCHEME_TO_SIZE ED25519 = Some 32"
| "SIGNATURE_SCHEME_TO_SIZE Secp256k1 = Some 33"
| "SIGNATURE_SCHEME_TO_SIZE Secp256r1 = Some 33"
| "SIGNATURE_SCHEME_TO_SIZE Passkey = Some 33"
| "SIGNATURE_SCHEME_TO_SIZE _ = None"

definition SIGNATURE_FLAG_TO_SCHEME :: "byte \<Rightarrow> scheme option" where
  "SIGNATURE_FLAG_TO_SCHEME flag =
     (if flag = 0 then Some ED25519 else if flag = 1 then Some Secp256k1 else if flag = 2 then Some Secp256r1
      else if flag = 3 then Some MultiSigScheme else if flag = 5 then Some ZkLogin
      else if flag = 6 then Some Passkey else None)"

text \<open>The scheme of the first byte of a signature or key; there is none without a first byte.\<close>

definition scheme_of_bytes :: "byte list \<Rightarrow> scheme option" where
  "scheme_of_bytes bytes = (case bytes of [] \<Rightarrow> None | flag # _ \<Rightarrow> SIGNATURE_FLAG_TO_SCHEME flag)"

fun scheme_name :: "scheme \<Rightarrow> string" where
  "scheme_name ED25519 = ''ED25519''"
| "scheme_name Secp256k1 = ''Secp256k1''"
| "scheme_name Secp256r1 = ''Secp256r1''"
| "scheme_name MultiSigScheme = ''MultiSig''"
| "scheme_name ZkLogin = ''ZkLogin''"
| "scheme_name Passkey = ''Passkey''"

definition scheme_named :: "string \<Rightarrow> scheme option" where
  "scheme_named s =
     find (\<lambda>c. scheme_name c = s) [ED25519, Secp256k1, Secp256r1, MultiSigScheme, ZkLogin, Passkey]"

fun bytesEqual_from :: "byte list \<Rightarrow> byte list \<Rightarrow> bool" where
  "bytesEqual_from (a # as) (b # bs) = (if a \<noteq> b then False else bytesEqual_from as bs)"
| "bytesEqual_from _ _ = True"

definition bytesEqual :: "byte list \<Rightarrow> byte list \<Rightarrow> bool" where
  "bytesEqual a b = (if length a \<noteq> length b then False else bytesEqual_from a b)"

text \<open>\<open>slice(start, end)\<close> with an end that may be negative, which counts from the end of the array.\<close>

definition slice_to :: "nat \<Rightarrow> int \<Rightarrow> 'a list \<Rightarrow> 'a list" where
  "slice_to start stop xs =
     (let n = int (length xs); finish = nat (if stop < 0 then max (n + stop) 0 else min stop n)
      in take (finish - start) (drop start xs))"

subsection \<open>Intents\<close>

definition messageWithIntent :: "string \<Rightarrow> byte list \<Rightarrow> byte list res" where
  "messageWithIntent scope message =
     type_serialize (IntentMessage (bcs_bytes (length message) no_opts))
       (JObj [(''intent'', JObj [(''scope'', JObj [(scope, JBool True)]), (''version'', JObj [(''V0'', JBool True)]),
                                (''appId'', JObj [(''MySo'', JBool True)])]),
              (''value'', JBytes message)]) no_options"

definition intent_digest :: "packages \<Rightarrow> string \<Rightarrow> byte list \<Rightarrow> byte list res" where
  "intent_digest k intent bytes = rmap (blake2b k) (messageWithIntent intent bytes)"

definition personal_message_bytes :: "byte list \<Rightarrow> byte list res" where
  "personal_message_bytes message = type_serialize (bcs_byteVector no_opts) (JBytes message) no_options"

subsection \<open>Serialized signatures\<close>

datatype signature_input = SigText string | SigBytes "byte list"

definition toSerializedSignature :: "byte list \<Rightarrow> scheme \<Rightarrow> byte list \<Rightarrow> string" where
  "toSerializedSignature signature signatureScheme pubKeyBytes =
     toBase64 (SIGNATURE_SCHEME_TO_FLAG signatureScheme # signature @ pubKeyBytes)"

record keypair_parsed =
  kp_serialized :: string
  kp_scheme :: scheme
  kp_signature :: "byte list"
  kp_publicKey :: "byte list"
  kp_bytes :: "byte list"

definition parseSerializedKeypairSignature :: "string \<Rightarrow> keypair_parsed res" where
  "parseSerializedKeypairSignature serializedSignature =
     rbind (fromBase64 serializedSignature) (\<lambda>bytes.
       let parsed = (\<lambda>signatureScheme.
             case SIGNATURE_SCHEME_TO_SIZE signatureScheme of
               None \<Rightarrow> Inl (Error ''Unsupported signature scheme'')
             | Some keySize \<Rightarrow>
                 let signature = slice_to 1 (int (length bytes) - int keySize) bytes
                 in Inr \<lparr>kp_serialized = serializedSignature, kp_scheme = signatureScheme, kp_signature = signature,
                         kp_publicKey = drop (1 + length signature) bytes, kp_bytes = bytes\<rparr>)
       in case scheme_of_bytes bytes of
            Some ED25519 \<Rightarrow> parsed ED25519
          | Some Secp256k1 \<Rightarrow> parsed Secp256k1
          | Some Secp256r1 \<Rightarrow> parsed Secp256r1
          | _ \<Rightarrow> Inl (Error ''Unsupported signature scheme''))"

definition PASSKEY_SIGNATURE_SIZE :: nat where
  "PASSKEY_SIGNATURE_SIZE = 64"

record passkey_parsed =
  pp_serialized :: string
  pp_signature :: "byte list"
  pp_authenticatorData :: "byte list"
  pp_clientDataJson :: string
  pp_userSignature :: "byte list"
  pp_publicKey :: "byte list"

definition parseSerializedPasskeySignature :: "platform \<Rightarrow> signature_input \<Rightarrow> passkey_parsed res" where
  "parseSerializedPasskeySignature p signature =
     rbind (case signature of SigText s \<Rightarrow> fromBase64 s | SigBytes bs \<Rightarrow> Inr bs) (\<lambda>bytes.
       if bytes = [] \<or> hd bytes \<noteq> SIGNATURE_SCHEME_TO_FLAG Passkey then Inl (Error ''Invalid signature scheme'')
       else rbind (type_parse (PasskeyAuthenticator p) (uint8array_of (drop 1 bytes))) (\<lambda>dec.
            rbind (rbind (get_prop dec ''authenticatorData'') new_Uint8Array) (\<lambda>authenticatorData.
            rbind (rbind (get_prop dec ''clientDataJson'') js_text) (\<lambda>clientDataJson.
            rbind (rbind (get_prop dec ''userSignature'') new_Uint8Array) (\<lambda>userSignature.
              Inr \<lparr>pp_serialized = toBase64 bytes, pp_signature = bytes, pp_authenticatorData = authenticatorData,
                   pp_clientDataJson = clientDataJson, pp_userSignature = userSignature,
                   pp_publicKey = drop (1 + PASSKEY_SIGNATURE_SIZE) userSignature\<rparr>)))))"

subsection \<open>The structure of a multisig\<close>

text \<open>
  \<open>CompressedSignature\<close> and \<open>PublicKeyEnum\<close>: one scheme with its bytes. The functions to and from JavaScript
  values are those at the schemas of \<open>bcs.ts\<close>; \<open>enum_entry\<close> is the first entry that is not \<open>$kind\<close>.
\<close>

type_synonym scheme_bytes = "scheme \<times> byte list"

record multisig_pk =
  pk_map :: "(scheme_bytes \<times> int) list"
  threshold :: int

record multisig_sig =
  sigs :: "scheme_bytes list"
  bitmap :: int
  multisig_pk :: multisig_pk

definition js_scheme_bytes :: "scheme_bytes \<Rightarrow> jsval" where
  "js_scheme_bytes e = JObj [(scheme_name (fst e), JBytes (snd e))]"

definition js_pk_pair :: "scheme_bytes \<times> int \<Rightarrow> jsval" where
  "js_pk_pair q = JObj [(''pubKey'', js_scheme_bytes (fst q)), (''weight'', JNum (snd q))]"

definition js_multisig_pk :: "multisig_pk \<Rightarrow> jsval" where
  "js_multisig_pk m = JObj [(''pk_map'', JArr (map js_pk_pair (pk_map m))), (''threshold'', JNum (threshold m))]"

definition js_multisig :: "multisig_sig \<Rightarrow> jsval" where
  "js_multisig m = JObj [(''sigs'', JArr (map js_scheme_bytes (sigs m))), (''bitmap'', JNum (bitmap m)),
     (''multisig_pk'', js_multisig_pk (multisig_pk m))]"

definition js_number :: "jsval \<Rightarrow> int res" where
  "js_number v = (case v of JNum n \<Rightarrow> Inr n | _ \<Rightarrow> Inl (TypeError ''not a number''))"

definition enum_entry :: "jsval \<Rightarrow> scheme_bytes res" where
  "enum_entry v =
     (case filter (\<lambda>(name, _). name \<noteq> ''$kind'') (entries v) of
        [] \<Rightarrow> Inl (TypeError ''undefined is not iterable'')
      | (name, bytes) # _ \<Rightarrow>
          (case scheme_named name of
             None \<Rightarrow> Inl (Error ''Unsupported signature scheme'')
           | Some c \<Rightarrow> rmap (\<lambda>bs. (c, bs)) (new_Uint8Array bytes)))"

definition pk_pair_of :: "jsval \<Rightarrow> (scheme_bytes \<times> int) res" where
  "pk_pair_of v =
     rbind (rbind (get_prop v ''pubKey'') enum_entry) (\<lambda>e.
     rmap (\<lambda>w. (e, w)) (rbind (get_prop v ''weight'') js_number))"

definition multisig_pk_of :: "jsval \<Rightarrow> multisig_pk res" where
  "multisig_pk_of v =
     rbind (rbind (get_prop v ''pk_map'') (\<lambda>a. rmapM pk_pair_of (js_elements a))) (\<lambda>ps.
     rmap (\<lambda>t. \<lparr>pk_map = ps, threshold = t\<rparr>) (rbind (get_prop v ''threshold'') js_number))"

definition multisig_of :: "jsval \<Rightarrow> multisig_sig res" where
  "multisig_of v =
     rbind (rbind (get_prop v ''sigs'') (\<lambda>a. rmapM enum_entry (js_elements a))) (\<lambda>ss.
     rbind (rbind (get_prop v ''bitmap'') js_number) (\<lambda>b.
     rmap (\<lambda>m. \<lparr>sigs = ss, bitmap = b, multisig_pk = m\<rparr>) (rbind (get_prop v ''multisig_pk'') multisig_pk_of)))"

subsection \<open>Parsing any signature\<close>

datatype parsed_signature =
  KeypairParsed keypair_parsed
| MultiSigParsed string multisig_sig "byte list"
| ZkLoginParsed zk_parsed
| PasskeyParsed passkey_parsed

definition parseSerializedSignature :: "packages \<Rightarrow> platform \<Rightarrow> string \<Rightarrow> parsed_signature res" where
  "parseSerializedSignature k p serializedSignature =
     rbind (fromBase64 serializedSignature) (\<lambda>bytes.
       case scheme_of_bytes bytes of
         Some Passkey \<Rightarrow> rmap PasskeyParsed (parseSerializedPasskeySignature p (SigText serializedSignature))
       | Some MultiSigScheme \<Rightarrow>
           rbind (type_parse MultiSig (uint8array_of (drop 1 bytes))) (\<lambda>v.
             rmap (\<lambda>multisig. MultiSigParsed serializedSignature multisig bytes) (multisig_of v))
       | Some ZkLogin \<Rightarrow> rmap ZkLoginParsed (parseSerializedZkLoginSignature k p (JStr serializedSignature))
       | Some _ \<Rightarrow> rmap KeypairParsed (parseSerializedKeypairSignature serializedSignature)
       | None \<Rightarrow> Inl (Error ''Unsupported signature scheme''))"

subsection \<open>Public keys\<close>

datatype key =
  Ed25519PublicKey "byte list"
| Secp256k1PublicKey "byte list"
| Secp256r1PublicKey "byte list"
| PasskeyPublicKey "byte list"
| ZkLoginPublicIdentifier zk_identifier "zk_client option"

text \<open>The constructors take base64 text, bytes or numbers and check the length.\<close>

definition sized_key :: "nat \<Rightarrow> (byte list \<Rightarrow> key) \<Rightarrow> jsval \<Rightarrow> key res" where
  "sized_key keySize constr v =
     rbind (init_bytes v) (\<lambda>data.
       if length data \<noteq> keySize then Inl (Error ''Invalid public key input'') else Inr (constr data))"

definition new_Ed25519PublicKey :: "jsval \<Rightarrow> key res" where
  "new_Ed25519PublicKey = sized_key 32 Ed25519PublicKey"

definition new_Secp256k1PublicKey :: "jsval \<Rightarrow> key res" where
  "new_Secp256k1PublicKey = sized_key 33 Secp256k1PublicKey"

definition new_Secp256r1PublicKey :: "jsval \<Rightarrow> key res" where
  "new_Secp256r1PublicKey = sized_key 33 Secp256r1PublicKey"

definition PASSKEY_PUBLIC_KEY_SIZE :: nat where
  "PASSKEY_PUBLIC_KEY_SIZE = 33"

definition new_PasskeyPublicKey :: "jsval \<Rightarrow> key res" where
  "new_PasskeyPublicKey = sized_key PASSKEY_PUBLIC_KEY_SIZE PasskeyPublicKey"

fun toRawBytes :: "key \<Rightarrow> byte list" where
  "toRawBytes (Ed25519PublicKey data) = data"
| "toRawBytes (Secp256k1PublicKey data) = data"
| "toRawBytes (Secp256r1PublicKey data) = data"
| "toRawBytes (PasskeyPublicKey data) = data"
| "toRawBytes (ZkLoginPublicIdentifier z _) = zk_data z"

fun key_scheme :: "key \<Rightarrow> scheme" where
  "key_scheme (Ed25519PublicKey _) = ED25519"
| "key_scheme (Secp256k1PublicKey _) = Secp256k1"
| "key_scheme (Secp256r1PublicKey _) = Secp256r1"
| "key_scheme (PasskeyPublicKey _) = Passkey"
| "key_scheme (ZkLoginPublicIdentifier _ _) = ZkLogin"

definition key_flag :: "key \<Rightarrow> byte" where
  "key_flag publicKey = SIGNATURE_SCHEME_TO_FLAG (key_scheme publicKey)"

definition key_equals :: "key \<Rightarrow> key \<Rightarrow> bool" where
  "key_equals a b = bytesEqual (toRawBytes a) (toRawBytes b)"

definition toMySoBytes :: "key \<Rightarrow> byte list" where
  "toMySoBytes publicKey = key_flag publicKey # toRawBytes publicKey"

definition toMySoPublicKey :: "key \<Rightarrow> string" where
  "toMySoPublicKey publicKey = toBase64 (toMySoBytes publicKey)"

fun toMySoAddress :: "packages \<Rightarrow> key \<Rightarrow> string res" where
  "toMySoAddress k (ZkLoginPublicIdentifier z _) = zk_toMySoAddress k z"
| "toMySoAddress k publicKey = Inr (address_of_bytes k (toMySoBytes publicKey))"

fun key_verifyAddress :: "packages \<Rightarrow> key \<Rightarrow> string \<Rightarrow> bool res" where
  "key_verifyAddress k (ZkLoginPublicIdentifier z _) address = zk_verifyAddress k z address"
| "key_verifyAddress k publicKey address = rmap (\<lambda>a. a = address) (toMySoAddress k publicKey)"

subsection \<open>Verification\<close>

definition keypair_verify ::
  "(string \<Rightarrow> keypair_parsed res) \<Rightarrow> (byte list \<Rightarrow> byte list \<Rightarrow> byte list \<Rightarrow> bool res) \<Rightarrow> scheme \<Rightarrow> byte list
   \<Rightarrow> byte list \<Rightarrow> signature_input \<Rightarrow> bool res" where
  "keypair_verify parse curve_check signatureScheme data message signature =
     rbind (case signature of
         SigText s \<Rightarrow> rbind (parse s) (\<lambda>parsed.
           if kp_scheme parsed \<noteq> signatureScheme then Inl (Error ''Invalid signature scheme'')
           else if \<not> bytesEqual data (kp_publicKey parsed) then Inl (Error ''Signature does not match public key'')
           else Inr (kp_signature parsed))
       | SigBytes bytes \<Rightarrow> Inr bytes) (\<lambda>bytes. curve_check bytes message data)"

text \<open>Keys of secp256r1 parse any signature and look at its scheme afterwards.\<close>

definition parse_for_secp256r1 :: "packages \<Rightarrow> platform \<Rightarrow> string \<Rightarrow> keypair_parsed res" where
  "parse_for_secp256r1 k p s =
     rbind (parseSerializedSignature k p s) (\<lambda>parsed.
       case parsed of KeypairParsed kp \<Rightarrow> Inr kp | _ \<Rightarrow> Inl (Error ''Invalid signature scheme''))"

definition ed25519_key_verify :: "packages \<Rightarrow> byte list \<Rightarrow> byte list \<Rightarrow> signature_input \<Rightarrow> bool res" where
  "ed25519_key_verify k = keypair_verify parseSerializedKeypairSignature (ed25519_verify k) ED25519"

definition secp256k1_key_verify :: "packages \<Rightarrow> byte list \<Rightarrow> byte list \<Rightarrow> signature_input \<Rightarrow> bool res" where
  "secp256k1_key_verify k = keypair_verify parseSerializedKeypairSignature (secp256k1_verify k) Secp256k1"

definition secp256r1_key_verify :: "packages \<Rightarrow> platform \<Rightarrow> byte list \<Rightarrow> byte list \<Rightarrow> signature_input \<Rightarrow> bool res" where
  "secp256r1_key_verify k p = keypair_verify (parse_for_secp256r1 k p) (secp256r1_verify k) Secp256r1"

definition challenge_bytes :: "jsval \<Rightarrow> byte list res" where
  "challenge_bytes clientDataJSON =
     rbind (rbind (get_prop clientDataJSON ''challenge'') js_text) (\<lambda>challenge. fromBase64 (map url_char challenge))"

definition passkey_verify :: "packages \<Rightarrow> platform \<Rightarrow> byte list \<Rightarrow> byte list \<Rightarrow> signature_input \<Rightarrow> bool res" where
  "passkey_verify k p data message signature =
     rbind (parseSerializedPasskeySignature p signature) (\<lambda>parsed.
     rbind (json_parse k (pp_clientDataJson parsed)) (\<lambda>clientDataJSON.
     rbind (get_prop clientDataJSON ''type'') (\<lambda>ty.
       if ty \<noteq> JStr ''webauthn.get'' then Inr False
       else rbind (challenge_bytes clientDataJSON) (\<lambda>parsedChallenge.
         if \<not> bytesEqual message parsedChallenge then Inr False
         else let pk = drop (1 + PASSKEY_SIGNATURE_SIZE) (pp_userSignature parsed)
              in if \<not> bytesEqual data pk then Inr False
                 else let payload = pp_authenticatorData parsed @ sha256 k (p_encode p (pp_clientDataJson parsed));
                          sig = take PASSKEY_SIGNATURE_SIZE (drop 1 (pp_userSignature parsed))
                      in secp256r1_verify k sig payload pk))))"

fun key_verify :: "packages \<Rightarrow> platform \<Rightarrow> key \<Rightarrow> byte list \<Rightarrow> signature_input \<Rightarrow> bool res" where
  "key_verify k p (Ed25519PublicKey data) message signature =
     ed25519_key_verify k data message signature"
| "key_verify k p (Secp256k1PublicKey data) message signature =
     secp256k1_key_verify k data message signature"
| "key_verify k p (Secp256r1PublicKey data) message signature =
     secp256r1_key_verify k p data message signature"
| "key_verify k p (PasskeyPublicKey data) message signature = passkey_verify k p data message signature"
| "key_verify k p (ZkLoginPublicIdentifier _ _) message signature = Inl (Error ''does not support'')"

definition js_signature :: "signature_input \<Rightarrow> jsval" where
  "js_signature s = (case s of SigText t \<Rightarrow> JStr t | SigBytes bs \<Rightarrow> JBytes bs)"

definition verifyWithIntent ::
  "packages \<Rightarrow> platform \<Rightarrow> key \<Rightarrow> byte list \<Rightarrow> signature_input \<Rightarrow> string \<Rightarrow> bool res" where
  "verifyWithIntent k p publicKey bytes signature intent =
     rbind (intent_digest k intent bytes) (\<lambda>digest. key_verify k p publicKey digest signature)"

fun key_verifyPersonalMessage :: "packages \<Rightarrow> platform \<Rightarrow> key \<Rightarrow> byte list \<Rightarrow> signature_input \<Rightarrow> bool res" where
  "key_verifyPersonalMessage k p (ZkLoginPublicIdentifier z client) message signature =
     zk_verifyPersonalMessage k p client message (js_signature signature)"
| "key_verifyPersonalMessage k p publicKey message signature =
     rbind (personal_message_bytes message) (\<lambda>bytes. verifyWithIntent k p publicKey bytes signature ''PersonalMessage'')"

fun key_verifyTransaction :: "packages \<Rightarrow> platform \<Rightarrow> key \<Rightarrow> byte list \<Rightarrow> signature_input \<Rightarrow> bool res" where
  "key_verifyTransaction k p (ZkLoginPublicIdentifier z client) transaction signature =
     zk_verifyTransaction k p client transaction (js_signature signature)"
| "key_verifyTransaction k p publicKey transaction signature =
     verifyWithIntent k p publicKey transaction signature ''TransactionData''"

end
