(* ===== verification/Multisig.thy ===== *)
theory Multisig
  imports Signatures
begin

text \<open>
  Multisig keys and the verification of any signature: \<open>multisig/publickey.ts\<close>, \<open>multisig/signer.ts\<close> and
  \<open>verify/verify.ts\<close>.

  A multisig key holds keys of other schemes only: its constructor has serialized its structure, which names no
  \<open>MultiSig\<close> key, before it makes the keys. So \<open>publicKeyFromRawBytes\<close> is split into \<open>single_from_raw\<close>,
  for the schemes of one key, and the case of a multisig.
\<close>

unbundle bit_operations_syntax

definition MAX_SIGNER_IN_MULTISIG :: nat where
  "MAX_SIGNER_IN_MULTISIG = 10"

definition MIN_SIGNER_IN_MULTISIG :: nat where
  "MIN_SIGNER_IN_MULTISIG = 1"

definition single_from_raw ::
  "packages \<Rightarrow> zk_client option \<Rightarrow> string option \<Rightarrow> scheme \<Rightarrow> byte list \<Rightarrow> key res" where
  "single_from_raw k client address signatureScheme bytes =
     (case signatureScheme of
        ED25519 \<Rightarrow> new_Ed25519PublicKey (JBytes bytes)
      | Secp256k1 \<Rightarrow> new_Secp256k1PublicKey (JBytes bytes)
      | Secp256r1 \<Rightarrow> new_Secp256r1PublicKey (JBytes bytes)
      | Passkey \<Rightarrow> new_PasskeyPublicKey (JBytes bytes)
      | ZkLogin \<Rightarrow> rmap (\<lambda>z. ZkLoginPublicIdentifier z client) (zk_fromBytes k bytes address None)
      | MultiSigScheme \<Rightarrow> Inl (Error ''Unsupported signature scheme''))"

subsection \<open>Multisig keys\<close>

record multisig_key =
  ms_rawBytes :: "byte list"
  ms_struct :: multisig_pk
  ms_publicKeys :: "(key \<times> int) list"

datatype multisig_value = MsText string | MsBytes "byte list" | MsStruct multisig_pk

text \<open>The keys of a structure with their weights, and the bytes seen before.\<close>

fun register_keys ::
  "packages \<Rightarrow> zk_client option \<Rightarrow> byte list list \<Rightarrow> (scheme_bytes \<times> int) list \<Rightarrow> (key \<times> int) list res" where
  "register_keys k client seen [] = Inr []"
| "register_keys k client seen (((scheme, bytes), weight) # rest) =
     (if bytes \<in> set seen then Inl (Error ''Multisig does not support duplicate public keys'')
      else if weight < 1 then Inl (Error ''Invalid weight'')
      else rbind (single_from_raw k client None scheme bytes) (\<lambda>publicKey.
           rmap (\<lambda>ks. (publicKey, weight) # ks) (register_keys k client (bytes # seen) rest)))"

definition multisig_pk_bytes :: "multisig_pk \<Rightarrow> byte list res" where
  "multisig_pk_bytes m = type_serialize MultiSigPublicKey (js_multisig_pk m) no_options"

definition parse_multisig_pk :: "byte list \<Rightarrow> multisig_pk res" where
  "parse_multisig_pk bytes = rbind (type_parse MultiSigPublicKey (uint8array_of bytes)) multisig_pk_of"

definition total_weight :: "('a \<times> int) list \<Rightarrow> int" where
  "total_weight ks = sum_list (map snd ks)"

definition new_MultiSigPublicKey :: "packages \<Rightarrow> zk_client option \<Rightarrow> multisig_value \<Rightarrow> multisig_key res" where
  "new_MultiSigPublicKey k client v =
     rbind (case v of
         MsText s \<Rightarrow> rbind (fromBase64 s) (\<lambda>bytes. rmap (\<lambda>m. (bytes, m)) (parse_multisig_pk bytes))
       | MsBytes bytes \<Rightarrow> rmap (\<lambda>m. (bytes, m)) (parse_multisig_pk bytes)
       | MsStruct m \<Rightarrow> rmap (\<lambda>bytes. (bytes, m)) (multisig_pk_bytes m)) (\<lambda>(rawBytes, m).
       if threshold m < 1 then Inl (Error ''Invalid threshold'')
       else rbind (register_keys k client [] (pk_map m)) (\<lambda>publicKeys.
         if threshold m > total_weight publicKeys then Inl (Error ''Unreachable threshold'')
         else if length publicKeys > MAX_SIGNER_IN_MULTISIG then Inl (Error ''Max number of signers in a multisig is 10'')
         else if length publicKeys < MIN_SIGNER_IN_MULTISIG then Inl (Error ''Min number of signers in a multisig is 1'')
         else Inr \<lparr>ms_rawBytes = rawBytes, ms_struct = m, ms_publicKeys = publicKeys\<rparr>))"

datatype public_key = SingleKey key | MultiSigKey multisig_key

fun public_scheme :: "public_key \<Rightarrow> scheme" where
  "public_scheme (SingleKey publicKey) = key_scheme publicKey"
| "public_scheme (MultiSigKey _) = MultiSigScheme"

fun public_raw :: "public_key \<Rightarrow> byte list" where
  "public_raw (SingleKey publicKey) = toRawBytes publicKey"
| "public_raw (MultiSigKey m) = ms_rawBytes m"

definition fromPublicKeys :: "packages \<Rightarrow> int \<Rightarrow> (public_key \<times> int) list \<Rightarrow> multisig_key res" where
  "fromPublicKeys k t publicKeys =
     new_MultiSigPublicKey k None
       (MsStruct \<lparr>pk_map = map (\<lambda>(publicKey, weight). ((public_scheme publicKey, public_raw publicKey), weight)) publicKeys,
                  threshold = t\<rparr>)"

text \<open>The bytes written to the buffer so far; \<open>set\<close> throws when they do not fit.\<close>

definition buffer_set :: "nat \<Rightarrow> byte list \<Rightarrow> byte list \<Rightarrow> byte list res" where
  "buffer_set maxLength tmp bytes =
     (if length tmp + length bytes > maxLength then Inl (RangeError ''offset is out of bounds'') else Inr (tmp @ bytes))"

fun address_keys :: "nat \<Rightarrow> byte list \<Rightarrow> (key \<times> int) list \<Rightarrow> byte list res" where
  "address_keys maxLength tmp [] = Inr tmp"
| "address_keys maxLength tmp ((publicKey, weight) # ks) =
     rbind (buffer_set maxLength tmp (toMySoBytes publicKey)) (\<lambda>tmp.
     rbind (buffer_set maxLength tmp [word_of_int weight]) (\<lambda>tmp. address_keys maxLength tmp ks))"

definition multisig_address_length :: nat where
  "multisig_address_length = 1 + (64 + 1) * MAX_SIGNER_IN_MULTISIG + 2"

definition multisig_address_bytes :: "multisig_key \<Rightarrow> byte list res" where
  "multisig_address_bytes m =
     rbind (type_serialize (bcs_u16 no_opts) (JNum (threshold (ms_struct m))) no_options) (\<lambda>t.
       address_keys multisig_address_length (SIGNATURE_SCHEME_TO_FLAG MultiSigScheme # t) (ms_publicKeys m))"

definition multisig_toMySoAddress :: "packages \<Rightarrow> multisig_key \<Rightarrow> string res" where
  "multisig_toMySoAddress k m =
     rmap (\<lambda>tmp. normalizeMySoAddress (bytesToHex k (blake2b k tmp)) False) (multisig_address_bytes m)"

subsection \<open>Partial signatures\<close>

definition asIndices :: "int \<Rightarrow> nat list res" where
  "asIndices b =
     (if b < 0 \<or> b > 1024 then Inl (Error ''Invalid bitmap'')
      else Inr (filter (\<lambda>i. b AND push_bit i 1 \<noteq> 0) [0..<10]))"

record partial_signature =
  ps_scheme :: scheme
  ps_signature :: "byte list"
  ps_publicKey :: key
  ps_weight :: int

definition parse_partial ::
  "packages \<Rightarrow> zk_client option \<Rightarrow> multisig_sig \<Rightarrow> nat \<times> scheme_bytes \<Rightarrow> partial_signature res" where
  "parse_partial k client multisig q =
     (case q of (i, (signatureScheme, signature)) \<Rightarrow>
       rbind (asIndices (bitmap multisig)) (\<lambda>indices.
         if i < length indices \<and> indices ! i < length (pk_map (multisig_pk multisig))
         then (case pk_map (multisig_pk multisig) ! (indices ! i) of ((_, pkBytes), weight) \<Rightarrow>
           if signatureScheme = MultiSigScheme then Inl (Error ''MultiSig is not supported inside MultiSig'')
           else rmap (\<lambda>publicKey. \<lparr>ps_scheme = signatureScheme, ps_signature = signature, ps_publicKey = publicKey,
                                   ps_weight = weight\<rparr>)
                  (single_from_raw k client None signatureScheme pkBytes))
         else Inl (TypeError ''Cannot read properties of undefined'')))"

definition parsePartialSignatures :: "packages \<Rightarrow> zk_client option \<Rightarrow> multisig_sig \<Rightarrow> partial_signature list res" where
  "parsePartialSignatures k client multisig = rmapM (parse_partial k client multisig) (enumerate 0 (sigs multisig))"

text \<open>The loop of \<open>verify\<close>: the weight of the signatures, \<open>None\<close> where it returns false.\<close>

fun verify_partials :: "packages \<Rightarrow> platform \<Rightarrow> byte list \<Rightarrow> partial_signature list \<Rightarrow> int \<Rightarrow> int option res" where
  "verify_partials k p message [] signatureWeight = Inr (Some signatureWeight)"
| "verify_partials k p message (s # rest) signatureWeight =
     rbind (key_verify k p (ps_publicKey s) message (SigBytes (ps_signature s))) (\<lambda>valid.
       if \<not> valid then Inr None else verify_partials k p message rest (signatureWeight + ps_weight s))"

definition multisig_verify :: "packages \<Rightarrow> platform \<Rightarrow> multisig_key \<Rightarrow> byte list \<Rightarrow> string \<Rightarrow> bool res" where
  "multisig_verify k p m message multisigSignature =
     rbind (parseSerializedSignature k p multisigSignature) (\<lambda>parsed.
       case parsed of
         MultiSigParsed _ multisig _ \<Rightarrow>
           rbind (multisig_pk_bytes (ms_struct m)) (\<lambda>own.
           rbind (multisig_pk_bytes (multisig_pk multisig)) (\<lambda>other.
             if \<not> bytesEqual own other then Inr False
             else rbind (parsePartialSignatures k None multisig) (\<lambda>partials.
                  rmap (\<lambda>w. case w of None \<Rightarrow> False | Some signatureWeight \<Rightarrow> signatureWeight \<ge> threshold (ms_struct m))
                    (verify_partials k p message partials 0))))
       | _ \<Rightarrow> Inl (Error ''Invalid signature scheme''))"

subsection \<open>Combining signatures\<close>

text \<open>The signature of a multisig and the bytes of the key it is looked up by.\<close>

definition compress :: "packages \<Rightarrow> platform \<Rightarrow> string \<Rightarrow> (scheme_bytes \<times> byte list) res" where
  "compress k p s =
     rbind (parseSerializedSignature k p s) (\<lambda>parsed.
       case parsed of
         MultiSigParsed _ _ _ \<Rightarrow> Inl (Error ''MultiSig is not supported inside MultiSig'')
       | ZkLoginParsed z \<Rightarrow>
           rmap (\<lambda>publicKey. ((ZkLogin, zp_signature z), zk_data publicKey))
             (toZkLoginPublicIdentifier k p (zp_addressSeed z) (zp_iss z) False)
       | KeypairParsed q \<Rightarrow> Inr ((kp_scheme q, kp_signature q), kp_publicKey q)
       | PasskeyParsed q \<Rightarrow> Inr ((Passkey, pp_signature q), pp_publicKey q))"

fun key_index :: "byte list \<Rightarrow> nat \<Rightarrow> (key \<times> int) list \<Rightarrow> nat option" where
  "key_index publicKey j [] = None"
| "key_index publicKey j ((key, _) # ks) =
     (if bytesEqual publicKey (toRawBytes key) then Some j else key_index publicKey (j + 1) ks)"

fun combine_loop ::
  "packages \<Rightarrow> platform \<Rightarrow> (key \<times> int) list \<Rightarrow> string list \<Rightarrow> int \<Rightarrow> (int \<times> scheme_bytes list) res" where
  "combine_loop k p publicKeys [] b = Inr (b, [])"
| "combine_loop k p publicKeys (s # signatures) b =
     rbind (compress k p s) (\<lambda>(compressed, publicKey).
       case key_index publicKey 0 publicKeys of
         None \<Rightarrow> Inl (Error ''Received signature from unknown public key'')
       | Some j \<Rightarrow>
           if b AND push_bit j 1 \<noteq> 0 then Inl (Error ''Received multiple signatures from the same public key'')
           else rmap (\<lambda>(b, cs). (b, compressed # cs)) (combine_loop k p publicKeys signatures (b OR push_bit j 1)))"

definition serialize_multisig :: "multisig_sig \<Rightarrow> string res" where
  "serialize_multisig multisig =
     rmap (\<lambda>bytes. toBase64 (SIGNATURE_SCHEME_TO_FLAG MultiSigScheme # bytes))
       (type_serialize MultiSig (js_multisig multisig) (no_options\<lparr>o_maxSize := Some 8192\<rparr>))"

definition combinePartialSignatures :: "packages \<Rightarrow> platform \<Rightarrow> multisig_key \<Rightarrow> string list \<Rightarrow> string res" where
  "combinePartialSignatures k p m signatures =
     (if length signatures > MAX_SIGNER_IN_MULTISIG then Inl (Error ''Max number of signatures in a multisig is 10'')
      else rbind (combine_loop k p (ms_publicKeys m) signatures 0) (\<lambda>(b, compressedSignatures).
             serialize_multisig \<lparr>sigs = compressedSignatures, bitmap = b, multisig_pk = ms_struct m\<rparr>))"

subsection \<open>Verifying any signature\<close>

fun public_toMySoAddress :: "packages \<Rightarrow> public_key \<Rightarrow> string res" where
  "public_toMySoAddress k (SingleKey publicKey) = toMySoAddress k publicKey"
| "public_toMySoAddress k (MultiSigKey m) = multisig_toMySoAddress k m"

definition publicKeyFromRawBytes ::
  "packages \<Rightarrow> zk_client option \<Rightarrow> string option \<Rightarrow> scheme option \<Rightarrow> byte list \<Rightarrow> public_key res" where
  "publicKeyFromRawBytes k client address signatureScheme bytes =
     rbind (case signatureScheme of
         None \<Rightarrow> Inl (Error ''Unsupported signature scheme'')
       | Some MultiSigScheme \<Rightarrow> rmap MultiSigKey (new_MultiSigPublicKey k None (MsBytes bytes))
       | Some s \<Rightarrow> rmap SingleKey (single_from_raw k client address s bytes)) (\<lambda>publicKey.
       case address of
         Some (c # cs) \<Rightarrow> rbind (public_toMySoAddress k publicKey) (\<lambda>a.
           if a \<noteq> c # cs then Inl (Error ''Public key bytes do not match the provided address'') else Inr publicKey)
       | _ \<Rightarrow> Inr publicKey)"

definition publicKeyFromMySoBytes ::
  "packages \<Rightarrow> zk_client option \<Rightarrow> string option \<Rightarrow> signature_input \<Rightarrow> public_key res" where
  "publicKeyFromMySoBytes k client address publicKey =
     rbind (case publicKey of SigText s \<Rightarrow> fromBase64 s | SigBytes bs \<Rightarrow> Inr bs) (\<lambda>bytes.
       publicKeyFromRawBytes k client address (scheme_of_bytes bytes) (drop 1 bytes))"

text \<open>The key of a signature, and the signature as the parser has serialized it.\<close>

definition parseSignature ::
  "packages \<Rightarrow> platform \<Rightarrow> zk_client option \<Rightarrow> string option \<Rightarrow> string \<Rightarrow> (public_key \<times> string) res" where
  "parseSignature k p client address signature =
     rbind (parseSerializedSignature k p signature) (\<lambda>parsed.
       case parsed of
         MultiSigParsed s multisig _ \<Rightarrow>
           rmap (\<lambda>m. (MultiSigKey m, s)) (new_MultiSigPublicKey k None (MsStruct (multisig_pk multisig)))
       | KeypairParsed q \<Rightarrow>
           rmap (\<lambda>pk. (pk, kp_serialized q)) (publicKeyFromRawBytes k client address (Some (kp_scheme q)) (kp_publicKey q))
       | ZkLoginParsed z \<Rightarrow>
           rmap (\<lambda>pk. (pk, zp_serialized z)) (publicKeyFromRawBytes k client address (Some ZkLogin) (zp_publicKey z))
       | PasskeyParsed q \<Rightarrow>
           rmap (\<lambda>pk. (pk, pp_serialized q)) (publicKeyFromRawBytes k client address (Some Passkey) (pp_publicKey q)))"

fun public_verify :: "packages \<Rightarrow> platform \<Rightarrow> public_key \<Rightarrow> byte list \<Rightarrow> string \<Rightarrow> bool res" where
  "public_verify k p (SingleKey publicKey) bytes s = key_verify k p publicKey bytes (SigText s)"
| "public_verify k p (MultiSigKey m) bytes s = multisig_verify k p m bytes s"

fun public_verifyPersonalMessage :: "packages \<Rightarrow> platform \<Rightarrow> public_key \<Rightarrow> byte list \<Rightarrow> string \<Rightarrow> bool res" where
  "public_verifyPersonalMessage k p (SingleKey publicKey) message s =
     key_verifyPersonalMessage k p publicKey message (SigText s)"
| "public_verifyPersonalMessage k p (MultiSigKey m) message s =
     rbind (personal_message_bytes message) (\<lambda>bytes.
     rbind (intent_digest k ''PersonalMessage'' bytes) (\<lambda>digest. multisig_verify k p m digest s))"

fun public_verifyTransaction :: "packages \<Rightarrow> platform \<Rightarrow> public_key \<Rightarrow> byte list \<Rightarrow> string \<Rightarrow> bool res" where
  "public_verifyTransaction k p (SingleKey publicKey) transaction s =
     key_verifyTransaction k p publicKey transaction (SigText s)"
| "public_verifyTransaction k p (MultiSigKey m) transaction s =
     rbind (intent_digest k ''TransactionData'' transaction) (\<lambda>digest. multisig_verify k p m digest s)"

fun public_verifyAddress :: "packages \<Rightarrow> public_key \<Rightarrow> string \<Rightarrow> bool res" where
  "public_verifyAddress k (SingleKey publicKey) address = key_verifyAddress k publicKey address"
| "public_verifyAddress k (MultiSigKey m) address = rmap (\<lambda>a. a = address) (multisig_toMySoAddress k m)"

text \<open>What the three functions share: the signature must be valid for the data and, when one is given, the address.\<close>

definition verify_with ::
  "packages \<Rightarrow> (public_key \<Rightarrow> string \<Rightarrow> bool res) \<Rightarrow> string \<Rightarrow> (public_key \<times> string) res \<Rightarrow> string option \<Rightarrow> public_key res" where
  "verify_with k valid_for what parsed address =
     rbind parsed (\<lambda>(publicKey, serializedSignature).
     rbind (valid_for publicKey serializedSignature) (\<lambda>valid.
       if \<not> valid then Inl (Error (''Signature is not valid for the provided '' @ what))
       else case address of
         Some (c # cs) \<Rightarrow> rbind (public_verifyAddress k publicKey (c # cs)) (\<lambda>ok.
           if \<not> ok then Inl (Error ''Signature is not valid for the provided address'') else Inr publicKey)
       | _ \<Rightarrow> Inr publicKey))"

definition verifySignature :: "packages \<Rightarrow> platform \<Rightarrow> byte list \<Rightarrow> string \<Rightarrow> string option \<Rightarrow> public_key res" where
  "verifySignature k p bytes signature address =
     verify_with k (\<lambda>publicKey. public_verify k p publicKey bytes) ''data'' (parseSignature k p None None signature) address"

definition verifyPersonalMessageSignature ::
  "packages \<Rightarrow> platform \<Rightarrow> byte list \<Rightarrow> string \<Rightarrow> zk_client option \<Rightarrow> string option \<Rightarrow> public_key res" where
  "verifyPersonalMessageSignature k p message signature client address =
     verify_with k (\<lambda>publicKey. public_verifyPersonalMessage k p publicKey message) ''message''
       (parseSignature k p client address signature) address"

definition verifyTransactionSignature ::
  "packages \<Rightarrow> platform \<Rightarrow> byte list \<Rightarrow> string \<Rightarrow> zk_client option \<Rightarrow> string option \<Rightarrow> public_key res" where
  "verifyTransactionSignature k p transaction signature client address =
     verify_with k (\<lambda>publicKey. public_verifyTransaction k p publicKey transaction) ''Transaction''
       (parseSignature k p client address signature) address"

subsection \<open>Signers\<close>

text \<open>A signer of one key: its address, and what it signs.\<close>

record member_signer =
  s_address :: string
  s_signTransaction :: "byte list \<Rightarrow> string res"
  s_signPersonalMessage :: "byte list \<Rightarrow> string res"

record multisig_signer =
  mss_pubkey :: multisig_key
  mss_signers :: "member_signer list"

text \<open>The loop over the signers: the addresses seen and the combined weight.\<close>

fun check_signers :: "(int \<times> string) list \<Rightarrow> string list \<Rightarrow> string list \<Rightarrow> int \<Rightarrow> int res" where
  "check_signers weights [] uniqueKeys combinedWeight = Inr combinedWeight"
| "check_signers weights (address # rest) uniqueKeys combinedWeight =
     (if address \<in> set uniqueKeys then Inl (Error ''Can't create MultiSigSigner with duplicate signers'')
      else case find (\<lambda>w. snd w = address) weights of
             None \<Rightarrow> Inl (Error ''Signer is not part of the MultiSig public key'')
           | Some w \<Rightarrow>
               if fst w = 0 then Inl (Error ''Signer is not part of the MultiSig public key'')
               else check_signers weights rest (address # uniqueKeys) (combinedWeight + fst w))"

definition new_MultiSigSigner :: "packages \<Rightarrow> multisig_key \<Rightarrow> member_signer list \<Rightarrow> multisig_signer res" where
  "new_MultiSigSigner k pubkey signers =
     rbind (rmapM (\<lambda>(publicKey, weight). rmap (\<lambda>address. (weight, address)) (toMySoAddress k publicKey)) (ms_publicKeys pubkey))
       (\<lambda>weights. rbind (check_signers weights (map s_address signers) [] 0) (\<lambda>combinedWeight.
         if combinedWeight < threshold (ms_struct pubkey) then Inl (Error ''Combined weight of signers is less than threshold'')
         else Inr \<lparr>mss_pubkey = pubkey, mss_signers = signers\<rparr>))"

definition multisig_signTransaction :: "packages \<Rightarrow> platform \<Rightarrow> multisig_signer \<Rightarrow> byte list \<Rightarrow> (string \<times> string) res" where
  "multisig_signTransaction k p s bytes =
     rbind (rmapM (\<lambda>signer. s_signTransaction signer bytes) (mss_signers s)) (\<lambda>signatures.
     rmap (\<lambda>signature. (signature, toBase64 bytes)) (combinePartialSignatures k p (mss_pubkey s) signatures))"

definition multisig_signPersonalMessage :: "packages \<Rightarrow> platform \<Rightarrow> multisig_signer \<Rightarrow> byte list \<Rightarrow> (string \<times> string) res" where
  "multisig_signPersonalMessage k p s bytes =
     rbind (rmapM (\<lambda>signer. s_signPersonalMessage signer bytes) (mss_signers s)) (\<lambda>signatures.
     rmap (\<lambda>signature. (signature, toBase64 bytes)) (combinePartialSignatures k p (mss_pubkey s) signatures))"

end
