(* ===== verification/Multisig_Bcs.thy ===== *)
theory Multisig_Bcs
  imports Multisig
begin

text \<open>
  The structures of a multisig on the wire. \<open>multisig_pk_ok\<close> says that a structure fits its schema: the structures
  that are written are those, the structures that are read are those, and each is read as it was written.
\<close>

subsection \<open>Schemes\<close>

lemma bytesEqual_from_eq: "length a = length b \<Longrightarrow> bytesEqual_from a b = (a = b)"
  by (induction a b rule: bytesEqual_from.induct) auto

lemma bytesEqual_iff [simp]: "bytesEqual a b \<longleftrightarrow> a = b"
  by (auto simp: bytesEqual_def bytesEqual_from_eq)

lemma scheme_named_name [simp]: "scheme_named (scheme_name s) = Some s"
  by (cases s) (simp_all add: scheme_named_def)

lemma scheme_named_iff: "scheme_named n = Some s \<longleftrightarrow> n = scheme_name s"
proof
  assume "scheme_named n = Some s"
  then have "\<exists>i<length [ED25519, Secp256k1, Secp256r1, MultiSigScheme, ZkLogin, Passkey].
      scheme_name ([ED25519, Secp256k1, Secp256r1, MultiSigScheme, ZkLogin, Passkey] ! i) = n \<and>
      s = [ED25519, Secp256k1, Secp256r1, MultiSigScheme, ZkLogin, Passkey] ! i"
    unfolding scheme_named_def find_Some_iff by blast
  then show "n = scheme_name s" by blast
qed (simp only: scheme_named_name)

lemma scheme_name_inj [simp]: "scheme_name s = scheme_name t \<longleftrightarrow> s = t"
  by (metis option.inject scheme_named_name)

lemma scheme_name_not_kind [simp]: "scheme_name s \<noteq> ''$kind''"
  by (cases s) simp_all

lemma flag_to_scheme [simp]: "SIGNATURE_FLAG_TO_SCHEME (SIGNATURE_SCHEME_TO_FLAG s) = Some s"
  by (cases s) (simp_all add: SIGNATURE_FLAG_TO_SCHEME_def)

lemma flag_inj [simp]: "SIGNATURE_SCHEME_TO_FLAG s = SIGNATURE_SCHEME_TO_FLAG t \<longleftrightarrow> s = t"
  by (metis option.inject flag_to_scheme)

lemma scheme_of_flag [simp]: "scheme_of_bytes (SIGNATURE_SCHEME_TO_FLAG s # bytes) = Some s"
  by (simp add: scheme_of_bytes_def)

subsection \<open>Structures that fit\<close>

fun pk_size_ok :: "scheme \<Rightarrow> nat \<Rightarrow> bool" where
  "pk_size_ok ED25519 n = (n = 32)"
| "pk_size_ok ZkLogin n = (n \<le> MAX_SAFE_INTEGER)"
| "pk_size_ok MultiSigScheme n = False"
| "pk_size_ok _ n = (n = 33)"

fun sig_size_ok :: "scheme \<Rightarrow> nat \<Rightarrow> bool" where
  "sig_size_ok MultiSigScheme n = False"
| "sig_size_ok ZkLogin n = (n \<le> MAX_SAFE_INTEGER)"
| "sig_size_ok Passkey n = (n \<le> MAX_SAFE_INTEGER)"
| "sig_size_ok _ n = (n = 64)"

definition pk_pair_ok :: "scheme_bytes \<times> int \<Rightarrow> bool" where
  "pk_pair_ok q \<longleftrightarrow> pk_size_ok (fst (fst q)) (length (snd (fst q))) \<and> 0 \<le> snd q \<and> snd q < 256"

definition multisig_pk_ok :: "multisig_pk \<Rightarrow> bool" where
  "multisig_pk_ok m \<longleftrightarrow> list_all pk_pair_ok (pk_map m) \<and> length (pk_map m) < 2 ^ 32 \<and> u16_ok (threshold m)"

definition multisig_ok :: "multisig_sig \<Rightarrow> bool" where
  "multisig_ok m \<longleftrightarrow> list_all (\<lambda>e. sig_size_ok (fst e) (length (snd e))) (sigs m) \<and> length (sigs m) < 2 ^ 32 \<and>
     u16_ok (bitmap m) \<and> multisig_pk_ok (multisig_pk m)"

subsection \<open>Written and read back\<close>

definition out_scheme_bytes :: "scheme_bytes \<Rightarrow> jsval" where
  "out_scheme_bytes e = js_kind (scheme_name (fst e)) (JBytes (snd e))"

definition out_pk_pair :: "scheme_bytes \<times> int \<Rightarrow> jsval" where
  "out_pk_pair q = JObj [(''pubKey'', out_scheme_bytes (fst q)), (''weight'', JNum (snd q))]"

definition out_multisig_pk :: "multisig_pk \<Rightarrow> jsval" where
  "out_multisig_pk m = JObj [(''pk_map'', JArr (map out_pk_pair (pk_map m))), (''threshold'', JNum (threshold m))]"

definition out_multisig :: "multisig_sig \<Rightarrow> jsval" where
  "out_multisig m = JObj [(''sigs'', JArr (map out_scheme_bytes (sigs m))), (''bitmap'', JNum (bitmap m)),
     (''multisig_pk'', out_multisig_pk (multisig_pk m))]"

lemma enum_entry_out [simp]: "enum_entry (out_scheme_bytes e) = Inr e"
  by (simp add: enum_entry_def out_scheme_bytes_def js_kind_def)

lemma pk_pair_of_out [simp]: "pk_pair_of (out_pk_pair q) = Inr q"
  by (simp add: pk_pair_of_def out_pk_pair_def get_prop_def js_number_def)

lemma multisig_pk_of_out [simp]: "multisig_pk_of (out_multisig_pk m) = Inr m"
proof -
  have "rmapM pk_pair_of (map out_pk_pair ps) = Inr ps" for ps by (induction ps) simp_all
  then show ?thesis by (simp add: multisig_pk_of_def out_multisig_pk_def get_prop_def js_number_def js_elements_def)
qed

lemma multisig_of_out [simp]: "multisig_of (out_multisig m) = Inr m"
proof -
  have "rmapM enum_entry (map out_scheme_bytes es) = Inr es" for es by (induction es) simp_all
  then show ?thesis by (simp add: multisig_of_def out_multisig_def get_prop_def js_number_def js_elements_def)
qed

lemma out_not_nullish [simp]: "\<not> is_nullish (out_scheme_bytes e)" "\<not> is_nullish (out_multisig_pk m)"
  by (simp_all add: out_scheme_bytes_def js_kind_def out_multisig_pk_def)

lemma carries_u8_int: "0 \<le> i \<Longrightarrow> i < 256 \<Longrightarrow> carries (bcs_u8 no_opts) (JNum i) (JNum i)"
  using codec_u8 [of "JNum i" "nat i"] by (auto simp: nat_less_iff intro: codec_carries)

lemma carries_fixed_bytes: "length bs = n \<Longrightarrow> carries (bcs_bytes n no_opts) (JBytes bs) (JBytes bs)"
  using codec_bytes [of "JBytes bs" bs n] by (simp add: codec_carries)

lemma carries_byteVector: "length bs \<le> MAX_SAFE_INTEGER \<Longrightarrow> carries (bcs_byteVector no_opts) (JBytes bs) (JBytes bs)"
  using codec_byteVector [of "JBytes bs" bs] by (simp add: codec_carries)

lemma carries_variant:
  "enum_names flds \<Longrightarrow> map_of flds (scheme_name s) = Some (Some t) \<Longrightarrow> carries t (JBytes bs) (JBytes bs) \<Longrightarrow>
   carries (BcsEnum n flds no_opts) (js_scheme_bytes (s, bs)) (out_scheme_bytes (s, bs))"
  unfolding js_scheme_bytes_def out_scheme_bytes_def fst_conv snd_conv by (rule carries_kind) simp_all

lemma carries_PublicKey:
  assumes "pk_size_ok s (length bs)"
  shows "carries PublicKey (js_scheme_bytes (s, bs)) (out_scheme_bytes (s, bs))"
  unfolding PublicKey_def
  by (cases s; rule carries_variant)
    (use assms in \<open>auto simp: enum_names_def MAX_SAFE_INTEGER_def intro!: carries_fixed_bytes carries_byteVector\<close>)

lemma carries_CompressedSignature:
  assumes "sig_size_ok s (length bs)"
  shows "carries CompressedSignature (js_scheme_bytes (s, bs)) (out_scheme_bytes (s, bs))"
  unfolding CompressedSignature_def
  by (cases s; rule carries_variant)
    (use assms in \<open>auto simp: enum_names_def MAX_SAFE_INTEGER_def intro!: carries_fixed_bytes carries_byteVector\<close>)

lemma carries_MultiSigPkMap: "pk_pair_ok q \<Longrightarrow> carries MultiSigPkMap (js_pk_pair q) (out_pk_pair q)"
  unfolding MultiSigPkMap_def js_pk_pair_def out_pk_pair_def
  by (rule carries_struct)
    (use carries_PublicKey [of "fst (fst q)" "snd (fst q)"] in
      \<open>simp_all add: get_prop_def pk_pair_ok_def carries_u8_int\<close>)

lemma carries_MultiSigPublicKey:
  "multisig_pk_ok m \<Longrightarrow> carries MultiSigPublicKey (js_multisig_pk m) (out_multisig_pk m)"
  unfolding MultiSigPublicKey_def js_multisig_pk_def out_multisig_pk_def
  by (rule carries_struct)
    (simp_all add: get_prop_def multisig_pk_ok_def carries_u16 carries_map carries_MultiSigPkMap list_all_iff)

lemma carries_MultiSig: "multisig_ok m \<Longrightarrow> carries MultiSig (js_multisig m) (out_multisig m)"
  unfolding MultiSig_def js_multisig_def out_multisig_def
  by (rule carries_struct)
    (auto simp: get_prop_def multisig_ok_def carries_u16 carries_MultiSigPublicKey list_all_iff
      intro!: carries_map carries_CompressedSignature)

subsection \<open>What is read fits\<close>

definition readable :: "bcs_type \<Rightarrow> jsval \<Rightarrow> bool" where
  "readable t v \<longleftrightarrow> (\<exists>r r'. t_read t r = Inr (v, r'))"

lemma type_parse_readable: "type_parse t u = Inr v \<Longrightarrow> readable t v"
  by (auto simp: type_parse_def readable_def res_simps)

lemma readable_bytes: "readable (bcs_bytes n no_opts) v \<Longrightarrow> \<exists>bs. v = JBytes bs \<and> length bs = n"
  by (auto simp: readable_def bcs_bytes_def fixedSizeBcsType_def BcsType_new_def readBytes_def res_simps Let_def
      split: if_splits)

lemma readULEB_safe: "readULEB r = Inr (n, r') \<Longrightarrow> n \<le> MAX_SAFE_INTEGER"
  by (auto simp: readULEB_def ulebDecode_def res_simps Let_def split: if_splits)

lemma readable_byteVector:
  "readable (bcs_byteVector no_opts) v \<Longrightarrow> \<exists>bs. v = JBytes bs \<and> length bs \<le> MAX_SAFE_INTEGER"
  by (auto simp: readable_def bcs_byteVector_def BcsType_new_def readBytes_def res_simps Let_def
      dest!: readULEB_safe split: if_splits)

lemma readable_uInt:
  assumes "readable (uIntBcsType name k rd wr m opts) v" "\<And>r n r'. rd r = Inr (n, r') \<Longrightarrow> n < b"
  shows "\<exists>n. v = JNum (int n) \<and> n < b"
  using assms by (fastforce simp: readable_def uIntBcsType_def fixedSizeBcsType_def BcsType_new_def res_simps)

lemma get_view_length: "get_view r n = Inr bs \<Longrightarrow> length bs \<le> n"
  by (auto simp: get_view_def Let_def split: if_splits)

lemma le_val_short: "length bs \<le> n \<Longrightarrow> le_val bs < 256 ^ n"
  using le_val_bound [of bs] power_increasing [of "length bs" n "256 :: nat"] by linarith

lemma readable_u8: "readable (bcs_u8 no_opts) v \<Longrightarrow> \<exists>n. v = JNum (int n) \<and> n < 256"
  unfolding bcs_u8_def
  by (erule readable_uInt) (use le_val_short [of _ 1] in \<open>auto simp: read8_def res_simps dest!: get_view_length\<close>)

lemma readable_u16: "readable (bcs_u16 no_opts) v \<Longrightarrow> \<exists>n. v = JNum (int n) \<and> n < 2 ^ 16"
  unfolding bcs_u16_def
  by (erule readable_uInt) (use le_val_short [of _ 2] in \<open>auto simp: read16_def res_simps dest!: get_view_length\<close>)

lemma struct_read_readable:
  "struct_read flds r = Inr (ps, r') \<Longrightarrow> list_all2 (\<lambda>f q. fst q = fst f \<and> readable (snd f) (snd q)) flds ps"
proof (induction flds r arbitrary: ps r' rule: struct_read.induct)
  case (2 field type fs r)
  then show ?case by (auto simp: res_simps readable_def) blast
qed simp

lemma readable_struct:
  "readable (BcsStruct name flds no_opts) v \<Longrightarrow>
   \<exists>ps. v = JObj ps \<and> list_all2 (\<lambda>f q. fst q = fst f \<and> readable (snd f) (snd q)) flds ps"
  unfolding readable_def [of "BcsStruct name flds no_opts"]
  by (auto simp: BcsStruct_def BcsType_new_def res_simps dest!: struct_read_readable)

lemma read_loop_readable:
  "read_loop (\<lambda>r _. t_read t r) i n r = Inr (xs, r') \<Longrightarrow> length xs = n \<and> (\<forall>x\<in>set xs. readable t x)"
  by (induction n arbitrary: i r xs r') (fastforce simp: res_simps readable_def)+

lemma readable_vector:
  "readable (vector t no_opts) v \<Longrightarrow> \<exists>xs. v = JArr xs \<and> length xs < 2 ^ 32 \<and> (\<forall>x\<in>set xs. readable t x)"
  unfolding readable_def [of "vector t no_opts"]
  by (auto simp: vector_def BcsType_new_def res_simps new_Array_def dest!: read_loop_readable split: if_splits)

lemma readable_enum:
  assumes "readable (BcsEnum name flds no_opts) v"
  shows "\<exists>k type x. (k, type) \<in> set flds \<and> v = variant_object k x \<and>
    (case type of None \<Rightarrow> x = JUndefined | Some t \<Rightarrow> readable t x)"
proof -
  from assms obtain r r' where "enum_read flds r = Inr (v, r')"
    by (auto simp: readable_def BcsEnum_def BcsType_new_def)
  then obtain i r1 where i: "i < length flds" and v: "(case flds ! i of (kind, type) \<Rightarrow>
      rmap (\<lambda>(x, r). (variant_object kind x, r))
        (case type of None \<Rightarrow> Inr (JUndefined, r1) | Some t \<Rightarrow> t_read t r1)) = Inr (v, r')"
    by (auto simp: enum_read_def res_simps split: if_splits)
  obtain k type where ft: "flds ! i = (k, type)" by fastforce
  then have "(k, type) \<in> set flds" using i by (metis nth_mem)
  moreover obtain x where "v = variant_object k x" "case type of None \<Rightarrow> x = JUndefined | Some t \<Rightarrow> readable t x"
    using v by (cases type) (auto simp: ft res_simps readable_def)
  ultimately show ?thesis by blast
qed

definition variants :: "(scheme \<times> bcs_type) list \<Rightarrow> (string \<times> bcs_type option) list" where
  "variants ts = map (\<lambda>(s, t). (scheme_name s, Some t)) ts"

lemma variant_entry: "enum_entry (variant_object (scheme_name s) (JBytes bs)) = Inr (s, bs)"
  by (simp add: variant_object_kind js_kind_def enum_entry_def)

lemma readable_variants:
  assumes "readable (BcsEnum name (variants ts) no_opts) v" "enum_entry v = Inr e"
    and "\<forall>(s, t)\<in>set ts. \<forall>x. readable t x \<longrightarrow> (\<exists>bs. x = JBytes bs \<and> size_ok s (length bs))"
  shows "size_ok (fst e) (length (snd e))"
proof -
  from readable_enum [OF assms(1)] obtain s t x where st: "(s, t) \<in> set ts" "v = variant_object (scheme_name s) x"
    "readable t x" by (auto simp: variants_def)
  then obtain bs where "x = JBytes bs" "size_ok s (length bs)" using assms(3) by fastforce
  then show ?thesis using st(2) assms(2) by (auto simp: variant_entry)
qed

lemma PublicKey_variants: "PublicKey = BcsEnum ''PublicKey''
   (variants [(ED25519, bcs_bytes 32 no_opts), (Secp256k1, bcs_bytes 33 no_opts), (Secp256r1, bcs_bytes 33 no_opts),
     (ZkLogin, bcs_byteVector no_opts), (Passkey, bcs_bytes 33 no_opts)]) no_opts"
  by (simp add: PublicKey_def variants_def)

lemma CompressedSignature_variants: "CompressedSignature = BcsEnum ''CompressedSignature''
   (variants [(ED25519, bcs_bytes 64 no_opts), (Secp256k1, bcs_bytes 64 no_opts), (Secp256r1, bcs_bytes 64 no_opts),
     (ZkLogin, bcs_byteVector no_opts), (Passkey, bcs_byteVector no_opts)]) no_opts"
  by (simp add: CompressedSignature_def variants_def)

lemma readable_PublicKey: "readable PublicKey v \<Longrightarrow> enum_entry v = Inr e \<Longrightarrow> pk_size_ok (fst e) (length (snd e))"
  unfolding PublicKey_variants
  by (erule (1) readable_variants) (use readable_bytes readable_byteVector in fastforce)

lemma readable_CompressedSignature:
  "readable CompressedSignature v \<Longrightarrow> enum_entry v = Inr e \<Longrightarrow> sig_size_ok (fst e) (length (snd e))"
  unfolding CompressedSignature_variants
  by (erule (1) readable_variants) (use readable_bytes readable_byteVector in fastforce)

lemma rmapM_readable:
  assumes "rmapM f xs = Inr ys" "\<forall>x\<in>set xs. readable t x" "\<And>x y. readable t x \<Longrightarrow> f x = Inr y \<Longrightarrow> P y"
  shows "list_all P ys"
  using assms(1,2)
proof (induction xs arbitrary: ys)
  case (Cons x xs)
  then obtain y zs where "f x = Inr y" "rmapM f xs = Inr zs" "ys = y # zs" by (auto simp: res_simps)
  with Cons assms(3) [of x y] show ?case by simp
qed simp

lemma readable_MultiSigPkMap: "readable MultiSigPkMap v \<Longrightarrow> pk_pair_of v = Inr q \<Longrightarrow> pk_pair_ok q"
  unfolding MultiSigPkMap_def
  by (auto dest!: readable_struct readable_PublicKey readable_u8
      simp: list_all2_Cons1 pk_pair_of_def get_prop_def res_simps js_number_def pk_pair_ok_def)

lemma pairs_ok:
  "rmapM pk_pair_of xs = Inr ps \<Longrightarrow> \<forall>x\<in>set xs. readable MultiSigPkMap x \<Longrightarrow> list_all pk_pair_ok ps"
  by (erule (1) rmapM_readable) (rule readable_MultiSigPkMap)

lemma sigs_ok:
  "rmapM enum_entry xs = Inr es \<Longrightarrow> \<forall>x\<in>set xs. readable CompressedSignature x \<Longrightarrow>
   list_all (\<lambda>e. sig_size_ok (fst e) (length (snd e))) es"
  by (erule (1) rmapM_readable) (rule readable_CompressedSignature)

lemma readable_MultiSigPublicKey: "readable MultiSigPublicKey v \<Longrightarrow> multisig_pk_of v = Inr m \<Longrightarrow> multisig_pk_ok m"
  unfolding MultiSigPublicKey_def
  by (auto dest!: readable_struct readable_vector readable_u16
      simp: list_all2_Cons1 multisig_pk_of_def get_prop_def res_simps js_number_def js_elements_def multisig_pk_ok_def
        u16_ok_def rmapM_length pairs_ok)

lemma readable_MultiSig: "readable MultiSig v \<Longrightarrow> multisig_of v = Inr m \<Longrightarrow> multisig_ok m"
  unfolding MultiSig_def
  by (auto dest!: readable_struct readable_vector readable_u16
      simp: list_all2_Cons1 multisig_of_def get_prop_def res_simps js_number_def js_elements_def multisig_ok_def
        u16_ok_def rmapM_length readable_MultiSigPublicKey sigs_ok)

subsection \<open>What is written fits\<close>

definition writable :: "bcs_type \<Rightarrow> jsval \<Rightarrow> bool" where
  "writable t v \<longleftrightarrow> (\<exists>w w'. type_write t v w = Inr w')"

lemma writableI: "type_write t v w = Inr w' \<Longrightarrow> writable t v"
  by (auto simp: writable_def)

lemma writable_validate: "writable t v \<Longrightarrow> t_validate t v = Inr ()"
  by (auto simp: writable_def type_write_def res_simps)

lemma writable_bytes: "writable (bcs_bytes n no_opts) (JBytes bs) \<Longrightarrow> length bs = n"
  by (drule writable_validate)
    (simp add: bcs_bytes_def fixedSizeBcsType_def BcsType_new_def run_validate_def no_opts_def check_length_def check_def
      js_length_def split: if_splits)

lemma writable_u8: "writable (bcs_u8 no_opts) (JNum i) \<Longrightarrow> 0 \<le> i \<and> i < 256"
  by (drule writable_validate)
    (auto simp: bcs_u8_def uIntBcsType_def fixedSizeBcsType_def BcsType_new_def run_validate_def no_opts_def check_def
      split: if_splits)

lemma writable_u16: "writable (bcs_u16 no_opts) (JNum i) \<Longrightarrow> u16_ok i"
  by (drule writable_validate)
    (auto simp: bcs_u16_def uIntBcsType_def fixedSizeBcsType_def BcsType_new_def run_validate_def no_opts_def check_def
      u16_ok_def split: if_splits)

lemma rfold_step: "rfold f s xs = Inr s' \<Longrightarrow> x \<in> set xs \<Longrightarrow> \<exists>t t'. f t x = Inr t'"
  by (induction xs arbitrary: s) (auto simp: res_simps)

lemma writable_vector:
  assumes "writable (vector t no_opts) (JArr xs)" "x \<in> set xs"
  shows "writable t x"
proof -
  from assms(1) obtain w w' where "rfold (\<lambda>w x. type_write t x w) w xs = Inr w'"
    by (auto simp: writable_def type_write_def [of "vector t no_opts"] res_simps)
      (auto simp: vector_def BcsType_new_def iterate_def res_simps)
  then show ?thesis using assms(2) by (auto dest!: rfold_step intro: writableI)
qed

lemma writable_struct:
  assumes "writable (BcsStruct name flds no_opts) v" "(f, t) \<in> set flds"
  shows "\<exists>x. get_prop v f = Inr x \<and> writable t x"
proof -
  from assms(1) obtain w w' where "struct_write flds v w = Inr w'"
    by (auto simp: writable_def type_write_def BcsStruct_def BcsType_new_def res_simps)
  then have "\<exists>w w'. rbind (get_prop v f) (\<lambda>x. type_write t x w) = Inr w'"
    using rfold_step [OF _ assms(2)] unfolding struct_write_def by fastforce
  then show ?thesis by (auto simp: res_simps intro: writableI)
qed

lemma enum_write_loop_variants:
  "enum_write_loop (variants ts) i (scheme_name s) y w = Inr w' \<Longrightarrow> s \<in> fst ` set ts \<Longrightarrow>
   \<exists>t. (s, t) \<in> set ts \<and> writable t y"
proof (induction ts arbitrary: i)
  case (Cons q ts)
  obtain c t where q: "q = (c, t)" by fastforce
  show ?case
  proof (cases "c = s")
    case True
    then have "writable t y" using Cons.prems(1) by (auto simp: variants_def q res_simps intro: writableI)
    then show ?thesis using True q by auto
  next
    case False
    then show ?thesis using Cons.prems Cons.IH [of "i + 1"] by (auto simp: variants_def q)
  qed
qed simp

lemma writable_variants:
  assumes "writable (BcsEnum name (variants ts) no_opts) (js_scheme_bytes (s, bs))"
  shows "\<exists>t. (s, t) \<in> set ts \<and> writable t (JBytes bs)"
proof -
  have own: "has_own (variants ts) (scheme_name s) \<longleftrightarrow> s \<in> fst ` set ts"
    by (force simp: has_own_def variants_def)
  have "has_own (variants ts) (scheme_name s)"
    using writable_validate [OF assms]
    by (auto simp: BcsEnum_def BcsType_new_def run_validate_def no_opts_def check_def js_scheme_bytes_def split: if_splits)
  moreover from assms obtain w w' where "enum_write (variants ts) (js_scheme_bytes (s, bs)) w = Inr w'"
    by (auto simp: writable_def type_write_def BcsEnum_def BcsType_new_def res_simps)
  ultimately show ?thesis
    using enum_write_loop_variants own by (auto simp: enum_write_def js_scheme_bytes_def)
qed

text \<open>Byte arrays are as long as JavaScript allows. It matters for zkLogin keys, which have no size of their own.\<close>

definition js_sized :: "multisig_pk \<Rightarrow> bool" where
  "js_sized m \<longleftrightarrow> list_all (\<lambda>q. fst (fst q) = ZkLogin \<longrightarrow> length (snd (fst q)) \<le> MAX_SAFE_INTEGER) (pk_map m)"

lemma writable_PublicKey:
  "writable PublicKey (js_scheme_bytes (s, bs)) \<Longrightarrow> (s = ZkLogin \<Longrightarrow> length bs \<le> MAX_SAFE_INTEGER) \<Longrightarrow>
   pk_size_ok s (length bs)"
  unfolding PublicKey_variants by (drule writable_variants) (auto dest: writable_bytes)

lemma writable_MultiSigPkMap:
  "writable MultiSigPkMap (js_pk_pair q) \<Longrightarrow> (fst (fst q) = ZkLogin \<Longrightarrow> length (snd (fst q)) \<le> MAX_SAFE_INTEGER) \<Longrightarrow>
   pk_pair_ok q"
  using writable_PublicKey [of "fst (fst q)" "snd (fst q)"] writable_u8 [of "snd q"]
  unfolding MultiSigPkMap_def pk_pair_ok_def
  by (auto simp: js_pk_pair_def get_prop_def
      dest: writable_struct [of _ _ _ "''pubKey''" PublicKey] writable_struct [of _ _ _ "''weight''" "bcs_u8 no_opts"])

lemma writable_MultiSigPublicKey:
  "writable MultiSigPublicKey (js_multisig_pk m) \<Longrightarrow> js_sized m \<Longrightarrow> length (pk_map m) < 2 ^ 32 \<Longrightarrow> multisig_pk_ok m"
  unfolding MultiSigPublicKey_def multisig_pk_ok_def js_sized_def
  using writable_vector [of MultiSigPkMap "map js_pk_pair (pk_map m)"] writable_u16 [of "threshold m"]
  by (auto simp: js_multisig_pk_def get_prop_def list_all_iff
      dest: writable_struct [of _ _ _ "''pk_map''" "vector MultiSigPkMap no_opts"]
        writable_struct [of _ _ _ "''threshold''" "bcs_u16 no_opts"] intro!: writable_MultiSigPkMap)

text \<open>A structure is written exactly when it fits, and two structures that are written the same are the same.\<close>

lemma multisig_pk_bytes_ok: "multisig_pk_bytes m = Inr bs \<Longrightarrow> js_sized m \<Longrightarrow> length (pk_map m) < 2 ^ 32 \<Longrightarrow> multisig_pk_ok m"
  by (rule writable_MultiSigPublicKey)
    (auto simp: multisig_pk_bytes_def type_serialize_def MultiSigPublicKey_def BcsStruct_def BcsType_new_def
      default_serialize_def Let_def res_simps writable_def type_write_def)

lemma multisig_pk_roundtrip:
  assumes "multisig_pk_ok m"
  obtains bs where "multisig_pk_bytes m = Inr bs" "\<And>rest. parse_multisig_pk (bs @ rest) = Inr m"
proof -
  from carries_parse [OF carries_MultiSigPublicKey [OF assms]] obtain bs where
    "type_serialize MultiSigPublicKey (js_multisig_pk m) no_options = Inr bs"
    "\<And>rest. type_parse MultiSigPublicKey (uint8array_of (bs @ rest)) = Inr (out_multisig_pk m)" by blast
  then show ?thesis by (intro that [of bs]) (simp_all add: multisig_pk_bytes_def parse_multisig_pk_def)
qed

lemma multisig_pk_bytes_inj:
  "multisig_pk_ok m \<Longrightarrow> multisig_pk_ok n \<Longrightarrow> multisig_pk_bytes m = multisig_pk_bytes n \<Longrightarrow> m = n"
  by (elim multisig_pk_roundtrip) (metis Inr_inject)

end
