(* ===== verification/Signature_Props.thy ===== *)
theory Signature_Props
  imports Multisig_Bcs
begin

text \<open>
  Intent messages, signatures of keypairs and the functions of \<open>verify/verify.ts\<close> on them.
\<close>

subsection \<open>Intent messages\<close>

definition scopes :: "string list" where
  "scopes = [''TransactionData'', ''TransactionEffects'', ''CheckpointSummary'', ''PersonalMessage'']"

lemma codec_unit:
  assumes "enum_names flds" "i < length flds" "flds ! i = (k, None)" "i \<le> MAX_SAFE_INTEGER"
  shows "codec (BcsEnum ename flds no_opts) (JObj [(k, JBool True)]) (js_kind k (JBool True)) (ulebEncode (int i))"
proof -
  have k: "k \<in> set (map fst flds)" using assms(2,3) by (metis fst_conv in_set_conv_nth length_map nth_map)
  then have "k \<noteq> ''$kind''" using assms(1) by (force simp: enum_names_def)
  moreover have "variant_input flds (JObj [(k, JBool True)]) k (JBool True)"
    using k by (simp add: variant_input_def has_own_def)
  ultimately show ?thesis
    using codec_enum [of flds i k None "JObj [(k, JBool True)]" "(JBool True, JUndefined, [])" ename] assms
    by (simp add: enum_names_def variant_object_kind)
qed

definition scope_fields :: "(string \<times> bcs_type option) list" where
  "scope_fields = map (\<lambda>s. (s, None)) scopes"

lemma IntentScope_fields: "IntentScope = BcsEnum ''IntentScope'' scope_fields no_opts"
  by (simp add: IntentScope_def scope_fields_def scopes_def)

lemma scope_fields_names: "enum_names scope_fields"
  by (simp add: enum_names_def scope_fields_def scopes_def MAX_SAFE_INTEGER_def)

lemma length_scopes: "length scopes = 4"
  by (simp add: scopes_def)

lemma codec_IntentScope:
  assumes "i < 4"
  shows "codec IntentScope (JObj [(scopes ! i, JBool True)]) (js_kind (scopes ! i) (JBool True)) [word_of_nat i]"
proof -
  have "codec IntentScope (JObj [(scopes ! i, JBool True)]) (js_kind (scopes ! i) (JBool True)) (ulebEncode (int i))"
    unfolding IntentScope_fields
    by (rule codec_unit [OF scope_fields_names])
      (use assms in \<open>simp_all add: scope_fields_def length_scopes MAX_SAFE_INTEGER_def\<close>)
  moreover have "ulebEncode (int i) = [word_of_nat i]"
    using assms ulebEncode_loop_small [of i] by (cases i) (simp_all add: ulebEncode_def)
  ultimately show ?thesis by simp
qed

lemma codec_Intent:
  assumes "i < 4"
  shows "\<exists>x. codec Intent_bcs
    (JObj [(''scope'', JObj [(scopes ! i, JBool True)]), (''version'', JObj [(''V0'', JBool True)]),
           (''appId'', JObj [(''MySo'', JBool True)])]) x [word_of_nat i, 0, 0]"
proof -
  have zero: "ulebEncode 0 = [0]" by (simp add: ulebEncode_def)
  have v: "codec IntentVersion (JObj [(''V0'', JBool True)]) (js_kind ''V0'' (JBool True)) [0]"
    using codec_unit [of "[(''V0'', None)]" 0 "''V0''" "''IntentVersion''"]
    by (simp add: IntentVersion_def enum_names_def MAX_SAFE_INTEGER_def zero)
  have a: "codec AppId (JObj [(''MySo'', JBool True)]) (js_kind ''MySo'' (JBool True)) [0]"
    using codec_unit [of "[(''MySo'', None)]" 0 "''MySo''" "''AppId''"]
    by (simp add: AppId_def enum_names_def MAX_SAFE_INTEGER_def zero)
  let ?v = "JObj [(''scope'', JObj [(scopes ! i, JBool True)]), (''version'', JObj [(''V0'', JBool True)]),
           (''appId'', JObj [(''MySo'', JBool True)])]"
  let ?fs = "[(''scope'', IntentScope, JObj [(scopes ! i, JBool True)], js_kind (scopes ! i) (JBool True), [word_of_nat i]),
    (''version'', IntentVersion, JObj [(''V0'', JBool True)], js_kind ''V0'' (JBool True), [0]),
    (''appId'', AppId, JObj [(''MySo'', JBool True)], js_kind ''MySo'' (JBool True), [0])]"
  have "codec Intent_bcs ?v (JObj (map (\<lambda>f. (fst f, i_out (f_item f))) ?fs)) (concat (map (\<lambda>f. i_bytes (f_item f)) ?fs))"
    unfolding Intent_bcs_def
    by (rule codec_struct)
      (use codec_IntentScope [OF assms] v a in
        \<open>auto simp: codec_field_def codec_item_def has_fields_def get_prop_def f_type_def\<close>)
  then show ?thesis by auto
qed

lemma intent_bytes:
  assumes "i < 4"
  shows "messageWithIntent (scopes ! i) message = Inr ([word_of_nat i, 0, 0] @ message)"
proof -
  let ?iv = "JObj [(''scope'', JObj [(scopes ! i, JBool True)]), (''version'', JObj [(''V0'', JBool True)]),
           (''appId'', JObj [(''MySo'', JBool True)])]"
  let ?v = "JObj [(''intent'', ?iv), (''value'', JBytes message)]"
  obtain x where x: "codec Intent_bcs ?iv x [word_of_nat i, 0, 0]" using codec_Intent [OF assms] by blast
  have m: "codec (bcs_bytes (length message) no_opts) (JBytes message) (JBytes message) message"
    by (rule codec_bytes) simp_all
  let ?fs = "[(''intent'', Intent_bcs, ?iv, x, [word_of_nat i, 0, 0]),
    (''value'', bcs_bytes (length message) no_opts, JBytes message, JBytes message, message)]"
  have "codec (IntentMessage (bcs_bytes (length message) no_opts)) ?v
      (JObj (map (\<lambda>f. (fst f, i_out (f_item f))) ?fs)) (concat (map (\<lambda>f. i_bytes (f_item f)) ?fs))"
    unfolding IntentMessage_def
    by (rule codec_struct)
      (use x m in \<open>auto simp: codec_field_def codec_item_def has_fields_def get_prop_def f_type_def\<close>)
  then show ?thesis by (simp add: messageWithIntent_def codec_type_serialize no_options_def)
qed

lemma scope_index: "scope \<in> set scopes \<Longrightarrow> \<exists>i<4. scope = scopes ! i"
  by (metis in_set_conv_nth length_scopes)

lemma byte_inj_small: "i < 256 \<Longrightarrow> j < 256 \<Longrightarrow> (word_of_nat i :: byte) = word_of_nat j \<Longrightarrow> i = j"
  by (metis mod_less unat_byte_of_nat)

text \<open>C25: The bytes that are signed determine the scope and the message: a signature over one scope is never one over
  another.\<close>

theorem intent_separates:
  assumes "scope \<in> set scopes" "scope' \<in> set scopes"
  shows "messageWithIntent scope message = messageWithIntent scope' message' \<longleftrightarrow> scope = scope' \<and> message = message'"
proof
  obtain i where i: "i < 4" "scope = scopes ! i" using scope_index [OF assms(1)] by blast
  obtain j where j: "j < 4" "scope' = scopes ! j" using scope_index [OF assms(2)] by blast
  assume "messageWithIntent scope message = messageWithIntent scope' message'"
  then have "(word_of_nat i :: byte) = word_of_nat j \<and> message = message'" using i j by (simp add: intent_bytes)
  then show "scope = scope' \<and> message = message'" using byte_inj_small [of i j] i j by simp
qed simp

lemma intent_separates_witness:
  "messageWithIntent ''TransactionData'' [1] \<noteq> messageWithIntent ''PersonalMessage'' [1]"
  using intent_separates [of "''TransactionData''" "''PersonalMessage''" "[1]" "[1]"] by (simp add: scopes_def)

subsection \<open>Keys and their signatures\<close>

text \<open>What the classes of public keys of a fixed size share.\<close>

locale sized_public_key =
  fixes new :: "jsval \<Rightarrow> key res" and constr :: "byte list \<Rightarrow> key" and c :: scheme and n :: nat
  assumes new_bytes: "length bs = n \<Longrightarrow> new (JBytes bs) = Inr (constr bs)"
    and raw_bytes: "toRawBytes (constr bs) = bs"
    and scheme_of: "key_scheme (constr bs) = c"
    and address_of: "toMySoAddress k (constr bs) = Inr (address_of_bytes k (toMySoBytes (constr bs)))"
    and verifies_address: "key_verifyAddress k (constr bs) a = rmap (\<lambda>b. b = a) (toMySoAddress k (constr bs))"
    and from_raw: "single_from_raw k client address c bs = new (JBytes bs)"
begin

lemma key_from_raw: "length bs = n \<Longrightarrow> single_from_raw k client address c bs = Inr (constr bs)"
  by (simp add: from_raw new_bytes)

lemma from_raw_address:
  assumes "length bs = n" "c \<noteq> MultiSigScheme"
  shows "publicKeyFromRawBytes k client address (Some c) bs =
    (if address \<in> {None, Some [], Some (address_of_bytes k (toMySoBytes (constr bs)))} then Inr (SingleKey (constr bs))
     else Inl (Error ''Public key bytes do not match the provided address''))"
proof -
  have "publicKeyFromRawBytes k client address (Some c) bs =
      rbind (Inr (SingleKey (constr bs))) (\<lambda>publicKey. case address of
         Some (x # xs) \<Rightarrow> rbind (public_toMySoAddress k publicKey) (\<lambda>a.
           if a \<noteq> x # xs then Inl (Error ''Public key bytes do not match the provided address'') else Inr publicKey)
       | _ \<Rightarrow> Inr publicKey)"
    using assms(2) key_from_raw [OF assms(1), of k client address]
    unfolding publicKeyFromRawBytes_def by (cases c) simp_all
  then show ?thesis by (auto simp: address_of split: option.splits list.splits)
qed

lemma from_myso_bytes:
  "length bs = n \<Longrightarrow> c \<noteq> MultiSigScheme \<Longrightarrow>
   publicKeyFromMySoBytes k client None (SigText (toMySoPublicKey (constr bs))) = Inr (SingleKey (constr bs))"
  by (simp add: publicKeyFromMySoBytes_def toMySoPublicKey_def toMySoBytes_def key_flag_def scheme_of raw_bytes
      fromBase64_toBase64 from_raw_address)

end

locale keypair_public_key = sized_public_key +
  fixes curve_check :: "packages \<Rightarrow> byte list \<Rightarrow> byte list \<Rightarrow> byte list \<Rightarrow> bool res"
    and parse :: "packages \<Rightarrow> platform \<Rightarrow> string \<Rightarrow> keypair_parsed res"
  assumes keypair_scheme: "c \<in> {ED25519, Secp256k1, Secp256r1}"
    and size_of: "SIGNATURE_SCHEME_TO_SIZE c = Some n"
    and verify_key: "key_verify k p (constr bs) message s = keypair_verify (parse k p) (curve_check k) c bs message s"
    and parse_own: "parseSerializedKeypairSignature txt = Inr q \<Longrightarrow> scheme_of_bytes (kp_bytes q) = Some c \<Longrightarrow>
      fromBase64 txt = Inr (kp_bytes q) \<Longrightarrow> parse k p txt = Inr q"
    and not_zk: "key_verifyPersonalMessage k p (constr bs) message s =
      rbind (personal_message_bytes message) (\<lambda>bytes. verifyWithIntent k p (constr bs) bytes s ''PersonalMessage'')"
      "key_verifyTransaction k p (constr bs) message s = verifyWithIntent k p (constr bs) message s ''TransactionData''"
begin

definition parsed_own :: "byte list \<Rightarrow> byte list \<Rightarrow> keypair_parsed" where
  "parsed_own signature bs = \<lparr>kp_serialized = toSerializedSignature signature c bs, kp_scheme = c, kp_signature = signature,
     kp_publicKey = bs, kp_bytes = SIGNATURE_SCHEME_TO_FLAG c # signature @ bs\<rparr>"

lemma own_bytes: "fromBase64 (toSerializedSignature signature c bs) = Inr (SIGNATURE_SCHEME_TO_FLAG c # signature @ bs)"
  by (simp add: toSerializedSignature_def fromBase64_toBase64)

lemma parse_keypair:
  assumes "length bs = n"
  shows "parseSerializedKeypairSignature (toSerializedSignature signature c bs) = Inr (parsed_own signature bs)"
proof -
  have "slice_to 1 (int (length (f # signature @ bs)) - int n) (f # signature @ bs) = signature" for f :: byte
    using assms by (simp add: slice_to_def Let_def)
  then show ?thesis
    using keypair_scheme size_of unfolding parseSerializedKeypairSignature_def own_bytes
    by (auto simp: Let_def parsed_own_def)
qed

lemma parse_signature:
  assumes "length bs = n"
  shows "parseSerializedSignature k p (toSerializedSignature signature c bs) = Inr (KeypairParsed (parsed_own signature bs))"
  using keypair_scheme parse_keypair [OF assms] unfolding parseSerializedSignature_def own_bytes by auto

lemma verify_serialized:
  assumes "length bs = n"
  shows "key_verify k p (constr bs) message (SigText (toSerializedSignature signature c bs)) =
    curve_check k signature message bs"
proof -
  have "parse k p (toSerializedSignature signature c bs) = Inr (parsed_own signature bs)"
    by (rule parse_own) (simp_all add: parse_keypair [OF assms] own_bytes parsed_own_def)
  then show ?thesis by (simp add: verify_key keypair_verify_def parsed_own_def)
qed

lemma verify_raw: "key_verify k p (constr bs) message (SigBytes signature) = curve_check k signature message bs"
  by (simp add: verify_key keypair_verify_def)

lemma parse_own_key:
  assumes "length bs = n"
  shows "parseSignature k p client address (toSerializedSignature signature c bs) =
    rmap (\<lambda>pk. (pk, toSerializedSignature signature c bs)) (publicKeyFromRawBytes k client address (Some c) bs)"
  by (simp add: parseSignature_def parse_signature [OF assms] parsed_own_def)

definition accepted :: "packages \<Rightarrow> string option \<Rightarrow> byte list \<Rightarrow> bool res \<Rightarrow> public_key \<Rightarrow> bool" where
  "accepted k address bs valid pk \<longleftrightarrow> pk = SingleKey (constr bs) \<and> valid = Inr True \<and>
     address \<in> {None, Some [], Some (address_of_bytes k (toMySoBytes (constr bs)))}"

lemma c_not_multisig: "c \<noteq> MultiSigScheme"
  using keypair_scheme by auto

lemma verify_with_own:
  assumes "length bs = n" "valid_for (SingleKey (constr bs)) (toSerializedSignature signature c bs) = valid"
    and "address' \<in> {None, address}"
  shows "verify_with k valid_for what (parseSignature k p client address' (toSerializedSignature signature c bs)) address =
    Inr pk \<longleftrightarrow> accepted k address bs valid pk"
  using assms(2,3) unfolding verify_with_def parse_own_key [OF assms(1)] from_raw_address [OF assms(1) c_not_multisig] accepted_def
  by (cases valid) (auto simp: verifies_address address_of split: option.splits list.splits)

lemma verifySignature_own:
  "length bs = n \<Longrightarrow> verifySignature k p message (toSerializedSignature signature c bs) address = Inr pk \<longleftrightarrow>
   accepted k address bs (curve_check k signature message bs) pk"
  unfolding verifySignature_def by (rule verify_with_own) (simp_all add: verify_serialized)

lemma verifyTransaction_own:
  "length bs = n \<Longrightarrow> verifyTransactionSignature k p message (toSerializedSignature signature c bs) client address = Inr pk \<longleftrightarrow>
   accepted k address bs (rbind (intent_digest k ''TransactionData'' message) (\<lambda>d. curve_check k signature d bs)) pk"
  unfolding verifyTransactionSignature_def
  by (rule verify_with_own) (simp_all add: not_zk verifyWithIntent_def verify_serialized)

lemma verifyPersonalMessage_own:
  "length bs = n \<Longrightarrow>
   verifyPersonalMessageSignature k p message (toSerializedSignature signature c bs) client address = Inr pk \<longleftrightarrow>
   accepted k address bs (rbind (personal_message_bytes message) (\<lambda>m.
     rbind (intent_digest k ''PersonalMessage'' m) (\<lambda>d. curve_check k signature d bs))) pk"
  unfolding verifyPersonalMessageSignature_def
  by (rule verify_with_own) (simp_all add: not_zk verifyWithIntent_def verify_serialized)

end

interpretation ed25519: keypair_public_key new_Ed25519PublicKey Ed25519PublicKey ED25519 32
    ed25519_verify "\<lambda>_ _. parseSerializedKeypairSignature"
  by unfold_locales
    (simp_all add: new_Ed25519PublicKey_def sized_key_def init_bytes_def single_from_raw_def ed25519_key_verify_def)

interpretation secp256k1: keypair_public_key new_Secp256k1PublicKey Secp256k1PublicKey Secp256k1 33
    secp256k1_verify "\<lambda>_ _. parseSerializedKeypairSignature"
  by unfold_locales
    (simp_all add: new_Secp256k1PublicKey_def sized_key_def init_bytes_def single_from_raw_def secp256k1_key_verify_def)

interpretation secp256r1: keypair_public_key new_Secp256r1PublicKey Secp256r1PublicKey Secp256r1 33
    secp256r1_verify parse_for_secp256r1
  by unfold_locales
    (simp_all add: new_Secp256r1PublicKey_def sized_key_def init_bytes_def single_from_raw_def secp256r1_key_verify_def parse_for_secp256r1_def
      parseSerializedSignature_def)

interpretation passkey: sized_public_key new_PasskeyPublicKey PasskeyPublicKey Passkey PASSKEY_PUBLIC_KEY_SIZE
  by unfold_locales (simp_all add: new_PasskeyPublicKey_def sized_key_def init_bytes_def single_from_raw_def)

fun keypair_key :: "key \<Rightarrow> bool" where
  "keypair_key (Ed25519PublicKey bs) = (length bs = 32)"
| "keypair_key (Secp256k1PublicKey bs) = (length bs = 33)"
| "keypair_key (Secp256r1PublicKey bs) = (length bs = 33)"
| "keypair_key _ = False"

fun curve_verify :: "packages \<Rightarrow> key \<Rightarrow> byte list \<Rightarrow> byte list \<Rightarrow> bool res" where
  "curve_verify k (Ed25519PublicKey bs) signature message = ed25519_verify k signature message bs"
| "curve_verify k (Secp256k1PublicKey bs) signature message = secp256k1_verify k signature message bs"
| "curve_verify k (Secp256r1PublicKey bs) signature message = secp256r1_verify k signature message bs"
| "curve_verify k _ signature message = Inr False"

definition address_fits :: "packages \<Rightarrow> key \<Rightarrow> string option \<Rightarrow> bool" where
  "address_fits k key address \<longleftrightarrow> address \<in> {None, Some [], Some (address_of_bytes k (toMySoBytes key))}"

lemma transaction_digest: "intent_digest k ''TransactionData'' message = Inr (blake2b k ([0, 0, 0] @ message))"
  using intent_bytes [of 0 message] by (simp add: intent_digest_def scopes_def)

lemma personal_digest:
  assumes "length message \<le> MAX_SAFE_INTEGER"
  shows "rbind (personal_message_bytes message) (\<lambda>m. rbind (intent_digest k ''PersonalMessage'' m) f) =
    f (blake2b k ([3, 0, 0] @ ulebEncode (int (length message)) @ message))"
proof -
  have "personal_message_bytes message = Inr (ulebEncode (int (length message)) @ message)"
    using codec_byteVector [of "JBytes message" message] assms
    by (simp add: personal_message_bytes_def codec_type_serialize no_options_def)
  then show ?thesis using intent_bytes [of 3] by (simp add: intent_digest_def scopes_def)
qed

lemma keypair_accepts:
  assumes "keypair_key key" "length message \<le> MAX_SAFE_INTEGER"
    and "serialized = toSerializedSignature signature (key_scheme key) (toRawBytes key)"
  shows "(verifySignature k p message serialized address = Inr pk \<longleftrightarrow>
      pk = SingleKey key \<and> curve_verify k key signature message = Inr True \<and> address_fits k key address) \<and>
    (verifyTransactionSignature k p message serialized client address = Inr pk \<longleftrightarrow>
      pk = SingleKey key \<and> curve_verify k key signature (blake2b k ([0, 0, 0] @ message)) = Inr True \<and>
      address_fits k key address) \<and>
    (verifyPersonalMessageSignature k p message serialized client address = Inr pk \<longleftrightarrow>
      pk = SingleKey key \<and>
      curve_verify k key signature (blake2b k ([3, 0, 0] @ ulebEncode (int (length message)) @ message)) = Inr True \<and>
      address_fits k key address)"
proof (cases key)
  case (Ed25519PublicKey bs)
  then show ?thesis
    using assms(1) ed25519.verifySignature_own [of bs] ed25519.verifyTransaction_own [of bs]
      ed25519.verifyPersonalMessage_own [of bs]
    by (simp add: assms(3) ed25519.accepted_def transaction_digest personal_digest [OF assms(2)] address_fits_def)
next
  case (Secp256k1PublicKey bs)
  then show ?thesis
    using assms(1) secp256k1.verifySignature_own [of bs] secp256k1.verifyTransaction_own [of bs]
      secp256k1.verifyPersonalMessage_own [of bs]
    by (simp add: assms(3) secp256k1.accepted_def transaction_digest personal_digest [OF assms(2)] address_fits_def)
next
  case (Secp256r1PublicKey bs)
  then show ?thesis
    using assms(1) secp256r1.verifySignature_own [of bs] secp256r1.verifyTransaction_own [of bs]
      secp256r1.verifyPersonalMessage_own [of bs]
    by (simp add: assms(3) secp256r1.accepted_def transaction_digest personal_digest [OF assms(2)] address_fits_def)
qed (use assms(1) in simp_all)

text \<open>C8: A serialized signature of a keypair is accepted exactly when the curve accepts the signature over the data,
  the digest of the transaction or that of the message, and the address given, if any, is the key's; the key that
  is returned is the signer's.\<close>

theorem keypair_signature_accepted:
  assumes "keypair_key key" "length message \<le> MAX_SAFE_INTEGER"
    and "serialized = toSerializedSignature signature (key_scheme key) (toRawBytes key)"
  shows "(verifySignature k p message serialized address = Inr pk \<longleftrightarrow>
      pk = SingleKey key \<and> curve_verify k key signature message = Inr True \<and> address_fits k key address) \<and>
    (verifyTransactionSignature k p message serialized client address = Inr pk \<longleftrightarrow>
      pk = SingleKey key \<and> curve_verify k key signature (blake2b k ([0, 0, 0] @ message)) = Inr True \<and>
      address_fits k key address) \<and>
    (verifyPersonalMessageSignature k p message serialized client address = Inr pk \<longleftrightarrow>
      pk = SingleKey key \<and>
      curve_verify k key signature (blake2b k ([3, 0, 0] @ ulebEncode (int (length message)) @ message)) = Inr True \<and>
      address_fits k key address)"
  by (rule keypair_accepts [OF assms])

lemma keypair_signature_accepted_witness:
  "verifySignature example_packages example_platform [7]
     (toSerializedSignature (7 # replicate 32 1) ED25519 (replicate 32 1)) None = Inr (SingleKey (Ed25519PublicKey (replicate 32 1)))"
  using keypair_signature_accepted [where key = "Ed25519PublicKey (replicate 32 1)" and message = "[7]"
      and signature = "7 # replicate 32 1" and k = example_packages and p = example_platform and address = None
      and pk = "SingleKey (Ed25519PublicKey (replicate 32 1))" and client = None, OF _ _ refl]
  by (simp add: MAX_SAFE_INTEGER_def example_packages_def address_fits_def)

end
