(* ===== verification/Multisig_Props.thy ===== *)
theory Multisig_Props
  imports Signature_Props
begin

text \<open>
  Multisig keys: when one can be made, what its signatures prove, how they are combined, its address and its signer.
\<close>

subsection \<open>Making a key\<close>

definition make_key :: "packages \<Rightarrow> zk_client option \<Rightarrow> scheme_bytes \<times> int \<Rightarrow> (key \<times> int) res" where
  "make_key k client q = rmap (\<lambda>key. (key, snd q)) (single_from_raw k client None (fst (fst q)) (snd (fst q)))"

abbreviation pair_bytes :: "scheme_bytes \<times> int \<Rightarrow> byte list" where
  "pair_bytes q \<equiv> snd (fst q)"

lemma register_keys_iff:
  "register_keys k client seen ps = Inr ks \<longleftrightarrow>
    distinct (map pair_bytes ps) \<and> set (map pair_bytes ps) \<inter> set seen = {} \<and> (\<forall>q\<in>set ps. 1 \<le> snd q) \<and>
    rmapM (make_key k client) ps = Inr ks"
proof (induction ps arbitrary: seen ks)
  case (Cons q ps)
  obtain c bs w where q: "q = ((c, bs), w)" by (metis prod.exhaust)
  show ?case by (auto simp: q res_simps Cons.IH make_key_def not_less)
qed auto

lemma make_key_weights: "rmapM (make_key k client) ps = Inr ks \<Longrightarrow> map snd ks = map snd ps"
  by (induction ps arbitrary: ks) (auto simp: res_simps make_key_def)

definition multisig_terms_ok :: "multisig_pk \<Rightarrow> bool" where
  "multisig_terms_ok m \<longleftrightarrow> 1 \<le> threshold m \<and> threshold m \<le> total_weight (pk_map m) \<and>
     (\<forall>q\<in>set (pk_map m). 1 \<le> snd q) \<and> distinct (map pair_bytes (pk_map m)) \<and> length (pk_map m) \<le> 10"

lemma new_multisig_common:
  "(if threshold m < 1 then Inl (Error ''Invalid threshold'')
       else rbind (register_keys k client [] (pk_map m)) (\<lambda>publicKeys.
         if threshold m > total_weight publicKeys then Inl (Error ''Unreachable threshold'')
         else if length publicKeys > MAX_SIGNER_IN_MULTISIG then Inl (Error ''Max number of signers in a multisig is 10'')
         else if length publicKeys < MIN_SIGNER_IN_MULTISIG then Inl (Error ''Min number of signers in a multisig is 1'')
         else Inr \<lparr>ms_rawBytes = raw, ms_struct = m, ms_publicKeys = publicKeys\<rparr>)) = Inr q \<longleftrightarrow>
   multisig_terms_ok m \<and> rmapM (make_key k client) (pk_map m) = Inr (ms_publicKeys q) \<and>
   ms_rawBytes q = raw \<and> ms_struct q = m"
  (is "?new = Inr q \<longleftrightarrow> ?ok")
proof -
  have tw: "total_weight ks = total_weight (pk_map m)" "length ks = length (pk_map m)"
    if "rmapM (make_key k client) (pk_map m) = Inr ks" for ks
    using make_key_weights [OF that] rmapM_length [OF that] by (simp_all add: total_weight_def)
  have none: "pk_map m \<noteq> []" if "1 \<le> threshold m" "threshold m \<le> total_weight (pk_map m)"
    using that by (auto simp: total_weight_def)
  show ?thesis
  proof
    assume "?new = Inr q"
    then show ?ok
      by (auto simp: res_simps register_keys_iff multisig_terms_ok_def tw MAX_SIGNER_IN_MULTISIG_def split: if_splits)
  next
    assume ok: ?ok
    then have "register_keys k client [] (pk_map m) = Inr (ms_publicKeys q)"
      by (simp add: register_keys_iff multisig_terms_ok_def)
    moreover have "1 \<le> length (pk_map m)" using none ok by (simp add: multisig_terms_ok_def Suc_le_eq)
    ultimately show "?new = Inr q"
      using ok tw [of "ms_publicKeys q"]
      by (auto simp: multisig_terms_ok_def MAX_SIGNER_IN_MULTISIG_def MIN_SIGNER_IN_MULTISIG_def)
  qed
qed

text \<open>A key that has been made: its structure fits the schema and the terms, and its keys are those of the structure.\<close>

definition multisig_made :: "packages \<Rightarrow> zk_client option \<Rightarrow> multisig_key \<Rightarrow> bool" where
  "multisig_made k client q \<longleftrightarrow> multisig_pk_ok (ms_struct q) \<and> multisig_terms_ok (ms_struct q) \<and>
     rmapM (make_key k client) (pk_map (ms_struct q)) = Inr (ms_publicKeys q)"

lemma new_multisig_struct:
  assumes "js_sized m"
  shows "new_MultiSigPublicKey k client (MsStruct m) = Inr q \<longleftrightarrow>
    multisig_made k client q \<and> ms_struct q = m \<and> multisig_pk_bytes m = Inr (ms_rawBytes q)"
proof -
  have "new_MultiSigPublicKey k client (MsStruct m) = Inr q \<longleftrightarrow>
      (\<exists>raw. multisig_pk_bytes m = Inr raw \<and> multisig_terms_ok m \<and>
        rmapM (make_key k client) (pk_map m) = Inr (ms_publicKeys q) \<and> ms_rawBytes q = raw \<and> ms_struct q = m)"
    by (cases "multisig_pk_bytes m")
      (simp_all add: new_MultiSigPublicKey_def new_multisig_common)
  moreover have "multisig_pk_ok m" if "multisig_pk_bytes m = Inr raw" "multisig_terms_ok m" for raw
    by (rule multisig_pk_bytes_ok [OF that(1) assms]) (use that(2) in \<open>simp add: multisig_terms_ok_def\<close>)
  ultimately show ?thesis by (auto simp: multisig_made_def)
qed

text \<open>Keys of a fixed size can be made.\<close>

definition fixed_pair :: "scheme_bytes \<times> int \<Rightarrow> bool" where
  "fixed_pair q \<longleftrightarrow> SIGNATURE_SCHEME_TO_SIZE (fst (fst q)) = Some (length (snd (fst q)))"

lemma fixed_pair_ok: "fst (fst q) \<noteq> ZkLogin \<Longrightarrow> pk_pair_ok q \<longleftrightarrow> fixed_pair q \<and> 0 \<le> snd q \<and> snd q < 256"
  by (cases "fst (fst q)") (auto simp: pk_pair_ok_def fixed_pair_def)

fun single_key :: "scheme \<Rightarrow> byte list \<Rightarrow> key" where
  "single_key Secp256k1 bs = Secp256k1PublicKey bs"
| "single_key Secp256r1 bs = Secp256r1PublicKey bs"
| "single_key Passkey bs = PasskeyPublicKey bs"
| "single_key _ bs = Ed25519PublicKey bs"

lemma fixed_key_made:
  assumes "SIGNATURE_SCHEME_TO_SIZE c = Some (length bs)"
  shows "single_from_raw k client address c bs = Inr (single_key c bs)"
  using assms ed25519.key_from_raw [of bs] secp256k1.key_from_raw [of bs] secp256r1.key_from_raw [of bs]
    passkey.key_from_raw [of bs]
  by (cases c) (simp_all add: PASSKEY_PUBLIC_KEY_SIZE_def)

lemma fixed_keys_made:
  "\<forall>q\<in>set ps. fixed_pair q \<Longrightarrow> rmapM (make_key k client) ps = Inr (map (\<lambda>q. (single_key (fst (fst q)) (pair_bytes q), snd q)) ps)"
  by (rule rmapM_Inr) (simp add: make_key_def fixed_pair_def fixed_key_made)

lemma new_multisig_fixed:
  assumes "\<forall>q\<in>set (pk_map m). fst (fst q) \<noteq> ZkLogin"
  shows "(\<exists>q. new_MultiSigPublicKey k client (MsStruct m) = Inr q) \<longleftrightarrow>
    (\<forall>q\<in>set (pk_map m). SIGNATURE_SCHEME_TO_SIZE (fst (fst q)) = Some (length (snd (fst q))) \<and> 1 \<le> snd q \<and> snd q < 256) \<and>
    distinct (map (\<lambda>q. snd (fst q)) (pk_map m)) \<and> length (pk_map m) \<le> 10 \<and>
    1 \<le> threshold m \<and> threshold m < 2 ^ 16 \<and> threshold m \<le> sum_list (map snd (pk_map m))"
  (is "_ \<longleftrightarrow> ?ok")
proof -
  have sized: "js_sized m" using assms by (auto simp: js_sized_def list_all_iff)
  have pairs: "list_all pk_pair_ok (pk_map m) \<longleftrightarrow>
      (\<forall>q\<in>set (pk_map m). SIGNATURE_SCHEME_TO_SIZE (fst (fst q)) = Some (length (snd (fst q))) \<and> 0 \<le> snd q \<and> snd q < 256)"
    unfolding list_all_iff
    by (rule ball_cong) (use assms in \<open>simp_all only: fixed_pair_ok [unfolded fixed_pair_def] simp_thms\<close>)
  have len: "length (pk_map m) \<le> 10 \<Longrightarrow> length (pk_map m) < 2 ^ 32" by simp
  have weights: "(\<forall>q\<in>set (pk_map m). SIGNATURE_SCHEME_TO_SIZE (fst (fst q)) = Some (length (snd (fst q))) \<and> 0 \<le> snd q \<and> snd q < 256) \<and>
      (\<forall>q\<in>set (pk_map m). 1 \<le> snd q) \<longleftrightarrow>
      (\<forall>q\<in>set (pk_map m). SIGNATURE_SCHEME_TO_SIZE (fst (fst q)) = Some (length (snd (fst q))) \<and> 1 \<le> snd q \<and> snd q < 256)"
    by force
  have pos: "1 \<le> threshold m \<Longrightarrow> 0 \<le> threshold m" by linarith
  have ok: "multisig_pk_ok m \<and> multisig_terms_ok m \<longleftrightarrow> ?ok"
    unfolding multisig_pk_ok_def multisig_terms_ok_def total_weight_def u16_ok_def pairs weights [symmetric]
    using len pos by blast
  have "\<exists>q. new_MultiSigPublicKey k client (MsStruct m) = Inr q" if "?ok"
  proof -
    have m: "multisig_pk_ok m" "multisig_terms_ok m" using iffD2 [OF ok that] by (rule conjunct1, rule conjunct2)
    obtain raw where raw: "multisig_pk_bytes m = Inr raw" using multisig_pk_roundtrip [OF m(1)] by blast
    have "\<forall>q\<in>set (pk_map m). fixed_pair q" using conjunct1 [OF that] by (simp add: fixed_pair_def)
    then have "multisig_made k client \<lparr>ms_rawBytes = raw, ms_struct = m,
        ms_publicKeys = map (\<lambda>q. (single_key (fst (fst q)) (pair_bytes q), snd q)) (pk_map m)\<rparr>" (is "multisig_made k client ?q")
      by (simp add: multisig_made_def m fixed_keys_made)
    then show ?thesis unfolding new_multisig_struct [OF sized] by (intro exI [of _ ?q] conjI) (simp_all add: raw)
  qed
  moreover have "?ok" if "\<exists>q. new_MultiSigPublicKey k client (MsStruct m) = Inr q"
  proof -
    from that obtain q where "multisig_made k client q" "ms_struct q = m" unfolding new_multisig_struct [OF sized] by blast
    then have "multisig_pk_ok m \<and> multisig_terms_ok m" by (auto simp: multisig_made_def)
    then show ?ok by (rule iffD1 [OF ok])
  qed
  ultimately show ?thesis by blast
qed

definition example_pk :: multisig_pk where
  "example_pk = \<lparr>pk_map = [((ED25519, replicate 32 1), 1), ((Secp256k1, replicate 33 2), 2)], threshold = 2\<rparr>"

text \<open>C9: A multisig key is made of a structure of keys of fixed size exactly when every key has the size of its scheme,
  the weights are 1 to 255, the keys differ, there are at most ten, and the threshold is 1 to 65535 and within the
  total weight.\<close>

theorem new_multisig_iff:
  assumes "\<forall>q\<in>set (pk_map m). fst (fst q) \<noteq> ZkLogin"
  shows "(\<exists>q. new_MultiSigPublicKey k client (MsStruct m) = Inr q) \<longleftrightarrow>
    (\<forall>q\<in>set (pk_map m). SIGNATURE_SCHEME_TO_SIZE (fst (fst q)) = Some (length (snd (fst q))) \<and> 1 \<le> snd q \<and> snd q < 256) \<and>
    distinct (map (\<lambda>q. snd (fst q)) (pk_map m)) \<and> length (pk_map m) \<le> 10 \<and>
    1 \<le> threshold m \<and> threshold m < 2 ^ 16 \<and> threshold m \<le> sum_list (map snd (pk_map m))"
  by (rule new_multisig_fixed [OF assms])

lemma new_multisig_iff_witness: "\<exists>q. new_MultiSigPublicKey example_packages None (MsStruct example_pk) = Inr q"
  by (rule new_multisig_iff [THEN iffD2]) (simp_all add: example_pk_def numeral_eq_Suc)

text \<open>Every key that can be made is such a key, also when it is made of bytes or base64.\<close>

fun value_sized :: "multisig_value \<Rightarrow> bool" where
  "value_sized (MsStruct m) = js_sized m"
| "value_sized _ = True"

lemma parsed_pk_ok: "parse_multisig_pk bytes = Inr m \<Longrightarrow> multisig_pk_ok m"
  by (auto simp: parse_multisig_pk_def res_simps intro: readable_MultiSigPublicKey type_parse_readable)

lemma new_multisig_made:
  assumes "new_MultiSigPublicKey k client v = Inr q" "value_sized v"
  shows "multisig_made k client q"
proof (cases v)
  case (MsStruct m)
  then show ?thesis using assms new_multisig_struct by auto
next
  case (MsText s)
  then show ?thesis using assms(1)
    by (auto simp: new_MultiSigPublicKey_def rbind_eq_Inr [of "fromBase64 s"] rbind_eq_Inr [of "rbind (fromBase64 s) _"]
        rmap_eq_Inr new_multisig_common multisig_made_def parsed_pk_ok)
next
  case (MsBytes bytes)
  then show ?thesis using assms(1)
    by (auto simp: new_MultiSigPublicKey_def rbind_eq_Inr [of "rmap _ (parse_multisig_pk bytes)"] rmap_eq_Inr
        new_multisig_common multisig_made_def parsed_pk_ok)
qed

subsection \<open>What a valid signature proves\<close>

lemma bit_test: "(b AND push_bit i 1 \<noteq> 0) = bit (b :: int) i"
  using and_exp_eq_0_iff_not_bit [of b i] by (simp add: push_bit_eq_mult)

lemma asIndices_iff: "asIndices b = Inr is \<longleftrightarrow> 0 \<le> b \<and> b \<le> 1024 \<and> is = filter (bit b) [0..<10]"
  unfolding asIndices_def bit_test by (auto simp: not_less)

lemma verify_partials_iff:
  "verify_partials k p message ss w = Inr (Some u) \<longleftrightarrow>
   (\<forall>s\<in>set ss. key_verify k p (ps_publicKey s) message (SigBytes (ps_signature s)) = Inr True) \<and>
   u = w + sum_list (map ps_weight ss)"
proof (induction ss arbitrary: w)
  case (Cons s ss)
  show ?case
    by (cases "key_verify k p (ps_publicKey s) message (SigBytes (ps_signature s))") (auto simp: Cons.IH)
qed auto

text \<open>A key of the bytes, of the scheme of one of the signatures, verifies this signature.\<close>

definition verified_by :: "packages \<Rightarrow> platform \<Rightarrow> byte list \<Rightarrow> scheme_bytes list \<Rightarrow> byte list \<Rightarrow> bool" where
  "verified_by k p message sgs bytes \<longleftrightarrow>
     (\<exists>c signature key. (c, signature) \<in> set sgs \<and> single_from_raw k None None c bytes = Inr key \<and>
        key_verify k p key message (SigBytes signature) = Inr True)"

lemma parse_partial_Inr:
  "parse_partial k client ms (i, c, sg) = Inr s \<longleftrightarrow>
    (\<exists>is. asIndices (bitmap ms) = Inr is \<and> i < length is \<and> is ! i < length (pk_map (multisig_pk ms)) \<and>
      c \<noteq> MultiSigScheme \<and> ps_scheme s = c \<and> ps_signature s = sg \<and>
      ps_weight s = snd (pk_map (multisig_pk ms) ! (is ! i)) \<and>
      single_from_raw k client None c (pair_bytes (pk_map (multisig_pk ms) ! (is ! i))) = Inr (ps_publicKey s))"
proof (cases "asIndices (bitmap ms)")
  case (Inr js)
  obtain e bs w where pair: "pk_map (multisig_pk ms) ! (js ! i) = ((e, bs), w)" by (metis prod.exhaust)
  show ?thesis
    by (cases s; cases "single_from_raw k client None c bs")
      (auto simp: parse_partial_def Inr pair)
qed (simp add: parse_partial_def)

lemma partials_nth:
  assumes "parsePartialSignatures k client ms = Inr ss" "i < length (sigs ms)"
  shows "parse_partial k client ms (i, fst (sigs ms ! i), snd (sigs ms ! i)) = Inr (ss ! i)"
  using rmapM_nth [OF assms(1) [unfolded parsePartialSignatures_def], of i] assms(2)
  by (simp add: nth_enumerate_eq)

lemma partials_length: "parsePartialSignatures k client ms = Inr ss \<Longrightarrow> length ss = length (sigs ms)"
  by (auto simp: parsePartialSignatures_def dest: rmapM_length)

lemma partials_signers:
  assumes ss: "parsePartialSignatures k None ms = Inr ss"
    and valid: "\<forall>s\<in>set ss. key_verify k p (ps_publicKey s) message (SigBytes (ps_signature s)) = Inr True"
  shows "\<exists>S\<subseteq>{..<length (pk_map (multisig_pk ms))}.
    (\<Sum>i\<in>S. snd (pk_map (multisig_pk ms) ! i)) = sum_list (map ps_weight ss) \<and>
    (\<forall>i\<in>S. verified_by k p message (sigs ms) (pair_bytes (pk_map (multisig_pk ms) ! i)))"
proof -
  let ?pk = "pk_map (multisig_pk ms)"
  define js where "js = take (length (sigs ms)) (filter (bit (bitmap ms)) [0..<10])"
  have js: "i < length js \<and> js ! i < length ?pk \<and> ps_weight (ss ! i) = snd (?pk ! (js ! i)) \<and>
      single_from_raw k None None (ps_scheme (ss ! i)) (pair_bytes (?pk ! (js ! i))) = Inr (ps_publicKey (ss ! i)) \<and>
      (ps_scheme (ss ! i), ps_signature (ss ! i)) = sigs ms ! i"
    if "i < length (sigs ms)" for i
    using partials_nth [OF ss that, unfolded parse_partial_Inr] that by (auto simp: asIndices_iff js_def)
  have len: "length js = length ss"
    using js partials_length [OF ss] by (cases "length (sigs ms)") (force simp: js_def)+
  have dist: "distinct js" by (simp add: js_def)
  have "sum_list (map ps_weight ss) = sum_list (map (\<lambda>j. snd (?pk ! j)) js)"
    by (rule arg_cong [where f = sum_list], rule nth_equalityI) (use js len partials_length [OF ss] in auto)
  then have "(\<Sum>i\<in>set js. snd (?pk ! i)) = sum_list (map ps_weight ss)"
    by (simp add: sum_list_distinct_conv_sum_set [OF dist])
  moreover have "set js \<subseteq> {..<length ?pk}"
    using js len partials_length [OF ss] by (auto simp: in_set_conv_nth)
  moreover have "verified_by k p message (sigs ms) (pair_bytes (?pk ! j))" if "j \<in> set js" for j
  proof -
    from that obtain i where i: "i < length (sigs ms)" "js ! i = j"
      using len partials_length [OF ss] by (auto simp: in_set_conv_nth)
    then have "key_verify k p (ps_publicKey (ss ! i)) message (SigBytes (ps_signature (ss ! i))) = Inr True"
      using valid partials_length [OF ss] by simp
    then show ?thesis using js [OF i(1)] i nth_mem [OF i(1)] unfolding verified_by_def by metis
  qed
  ultimately show ?thesis by blast
qed

lemma parsed_multisig_ok:
  assumes "parseSerializedSignature k p s = Inr (MultiSigParsed t ms bs)"
  shows "multisig_ok ms"
proof -
  obtain a where a: "fromBase64 s = Inr a" using assms by (cases "fromBase64 s") (simp_all add: parseSerializedSignature_def)
  have "\<exists>v. type_parse MultiSig (uint8array_of (drop 1 a)) = Inr v \<and> multisig_of v = Inr ms"
  proof (cases "scheme_of_bytes a")
    case (Some c)
    then show ?thesis using assms by (cases c) (auto simp: parseSerializedSignature_def a res_simps)
  qed (use assms in \<open>simp add: parseSerializedSignature_def a\<close>)
  then show ?thesis by (auto intro: readable_MultiSig type_parse_readable)
qed

lemma multisig_verify_Inr:
  assumes "multisig_pk_ok (ms_struct q)" "multisig_verify k p q message s = Inr True"
  obtains t ms bs ss where "parseSerializedSignature k p s = Inr (MultiSigParsed t ms bs)" "multisig_pk ms = ms_struct q"
    "parsePartialSignatures k None ms = Inr ss"
    "\<forall>s\<in>set ss. key_verify k p (ps_publicKey s) message (SigBytes (ps_signature s)) = Inr True"
    "threshold (ms_struct q) \<le> sum_list (map ps_weight ss)"
proof -
  from assms(2) obtain parsed where parsed: "parseSerializedSignature k p s = Inr parsed"
    by (cases "parseSerializedSignature k p s") (simp_all add: multisig_verify_def)
  with assms(2) obtain t ms bs where ms: "parsed = MultiSigParsed t ms bs"
    by (cases parsed) (simp_all add: multisig_verify_def)
  with parsed assms(2) obtain own where own: "multisig_pk_bytes (ms_struct q) = Inr own" "multisig_pk_bytes (multisig_pk ms) = Inr own"
    and rest: "rbind (parsePartialSignatures k None ms) (\<lambda>partials.
        rmap (\<lambda>w. case w of None \<Rightarrow> False | Some signatureWeight \<Rightarrow> signatureWeight \<ge> threshold (ms_struct q))
          (verify_partials k p message partials 0)) = Inr True"
    by (cases "multisig_pk_bytes (ms_struct q)"; cases "multisig_pk_bytes (multisig_pk ms)")
      (auto simp: multisig_verify_def split: if_split_asm)
  note parsed = parsed [unfolded ms]
  have "multisig_pk ms = ms_struct q"
    using multisig_pk_bytes_inj [of "multisig_pk ms" "ms_struct q"] parsed_multisig_ok [OF parsed] assms(1) own
    by (simp add: multisig_ok_def)
  with that [OF parsed] rest show thesis
    by (auto simp: res_simps verify_partials_iff split: option.splits)
qed

subsection \<open>Combining signatures\<close>

text \<open>\<open>s\<close> is a signature of the member \<open>key\<close> over the message, and \<open>e\<close> is what a multisig keeps of it.\<close>

definition signed_by :: "packages \<Rightarrow> platform \<Rightarrow> byte list \<Rightarrow> key \<Rightarrow> string \<Rightarrow> scheme_bytes \<Rightarrow> bool" where
  "signed_by k p message key s e \<longleftrightarrow> compress k p s = Inr (e, toRawBytes key) \<and> fst e = key_scheme key \<and>
     sig_size_ok (fst e) (length (snd e)) \<and> key_verify k p key message (SigBytes (snd e)) = Inr True"

type_synonym member_signature = "nat \<times> string \<times> scheme_bytes"

definition members_signed ::
  "packages \<Rightarrow> platform \<Rightarrow> byte list \<Rightarrow> (key \<times> int) list \<Rightarrow> member_signature list \<Rightarrow> bool" where
  "members_signed k p message keys ms \<longleftrightarrow>
     (\<forall>(j, s, e)\<in>set ms. j < length keys \<and> signed_by k p message (fst (keys ! j)) s e)"

lemma key_index_nth:
  "distinct (map (\<lambda>q. toRawBytes (fst q)) ks) \<Longrightarrow> j < length ks \<Longrightarrow> key_index (toRawBytes (fst (ks ! j))) n ks = Some (n + j)"
proof (induction ks arbitrary: j n)
  case (Cons q ks)
  obtain key w where q: "q = (key, w)" by fastforce
  show ?case
  proof (cases j)
    case (Suc i)
    have "toRawBytes (fst (ks ! i)) \<in> (\<lambda>q. toRawBytes (fst q)) ` set ks"
      using Cons.prems(2) Suc nth_mem [of i ks] by simp
    moreover have "toRawBytes key \<notin> (\<lambda>q. toRawBytes (fst q)) ` set ks" using Cons.prems(1) by (simp add: q)
    ultimately have "toRawBytes (fst (ks ! i)) \<noteq> toRawBytes key" by metis
    then show ?thesis using Cons.IH [of i "n + 1"] Cons.prems Suc by (simp add: q)
  qed (simp add: q)
qed simp

definition set_bits :: "nat list \<Rightarrow> int \<Rightarrow> int" where
  "set_bits js b = fold (\<lambda>j b. b OR push_bit j 1) js b"

lemma bit_set_one: "bit (b OR push_bit j 1 :: int) i \<longleftrightarrow> bit b i \<or> i = j"
  by (auto simp: bit_or_iff push_bit_eq_mult bit_exp_iff)

lemma bit_set_exp: "bit (b OR 2 ^ j :: int) i \<longleftrightarrow> bit b i \<or> i = j"
  by (auto simp: bit_or_iff bit_exp_iff)

lemma bit_set_bits: "bit (set_bits js b) i \<longleftrightarrow> bit b i \<or> i \<in> set js"
proof (induction js arbitrary: b)
  case (Cons j js)
  have "set_bits (j # js) b = set_bits js (b OR push_bit j 1)" by (simp add: set_bits_def)
  then show ?case by (simp only: Cons.IH bit_set_one list.set insert_iff) blast
qed (simp add: set_bits_def)

lemma set_bits_nonneg: "0 \<le> b \<Longrightarrow> 0 \<le> set_bits js b"
  unfolding set_bits_def
proof (induction js arbitrary: b)
  case (Cons j js)
  have "0 \<le> b OR push_bit j 1" by (simp only: or_nonnegative_int_iff push_bit_nonnegative_int_iff Cons.prems) simp
  then show ?case using Cons.IH by simp
qed simp

lemma set_bits_bound:
  assumes "\<forall>j\<in>set js. j < 10"
  shows "set_bits js 0 < 1024"
proof -
  have "take_bit 10 (set_bits js 0) = set_bits js 0"
    by (rule bit_eqI) (use assms in \<open>auto simp: bit_take_bit_iff bit_set_bits\<close>)
  then show ?thesis using take_bit_int_less_exp [of 10 "set_bits js 0"] by simp
qed

lemma asIndices_set_bits:
  assumes "sorted_wrt (<) js" "\<forall>j\<in>set js. j < 10"
  shows "asIndices (set_bits js 0) = Inr js"
proof -
  have "filter (bit (set_bits js 0)) [0..<10] = js"
    by (rule sorted_distinct_set_unique)
      (use assms in \<open>auto simp: bit_set_bits strict_sorted_iff sorted_wrt_filter\<close>)
  then show ?thesis using set_bits_bound [OF assms(2)] set_bits_nonneg [of 0 js] by (simp add: asIndices_iff)
qed

lemma combine_loop_members:
  assumes "distinct (map (\<lambda>q. toRawBytes (fst q)) keys)" "members_signed k p message keys ms" "distinct (map fst ms)"
    and "\<forall>j\<in>set (map fst ms). \<not> bit b j"
  shows "combine_loop k p keys (map (\<lambda>m. fst (snd m)) ms) b = Inr (set_bits (map fst ms) b, map (\<lambda>m. snd (snd m)) ms)"
  using assms(2-4)
proof (induction ms arbitrary: b)
  case (Cons m ms)
  obtain j s e where m: "m = (j, s, e)" by (metis prod.exhaust)
  have "j < length keys" "compress k p s = Inr (e, toRawBytes (fst (keys ! j)))"
    using Cons.prems(1) by (auto simp: members_signed_def signed_by_def m)
  moreover have "\<not> bit b j" using Cons.prems(3) m by simp
  moreover have "combine_loop k p keys (map (\<lambda>m. fst (snd m)) ms) (b OR push_bit j 1) =
      Inr (set_bits (map fst ms) (b OR push_bit j 1), map (\<lambda>m. snd (snd m)) ms)"
    by (rule Cons.IH) (use Cons.prems in \<open>auto simp: members_signed_def m bit_set_one bit_set_exp\<close>)
  ultimately show ?case
    using key_index_nth [OF assms(1), of j 0] bit_test [of b j] by (simp add: m set_bits_def)
qed (simp add: set_bits_def)

text \<open>A member of a scheme that can verify is made of its bytes without the client.\<close>

lemma single_from_raw_scheme:
  assumes "single_from_raw k client None c bs = Inr key"
  shows "key_scheme key = c" "c \<noteq> ZkLogin \<Longrightarrow> single_from_raw k client' None c bs = Inr key"
proof -
  show "key_scheme key = c" using assms
    by (cases c) (auto simp: single_from_raw_def new_Ed25519PublicKey_def new_Secp256k1PublicKey_def new_Secp256r1PublicKey_def
      new_PasskeyPublicKey_def sized_key_def res_simps split: if_split_asm)
  show "c \<noteq> ZkLogin \<Longrightarrow> single_from_raw k client' None c bs = Inr key" using assms
    by (cases c) (simp_all add: single_from_raw_def)
qed

lemma made_member:
  assumes "multisig_made k client q" "j < length (ms_publicKeys q)"
  shows "j < length (pk_map (ms_struct q))"
    and "snd (pk_map (ms_struct q) ! j) = snd (ms_publicKeys q ! j)"
    and "single_from_raw k client None (key_scheme (fst (ms_publicKeys q ! j))) (pair_bytes (pk_map (ms_struct q) ! j)) =
      Inr (fst (ms_publicKeys q ! j))"
proof -
  have keys: "rmapM (make_key k client) (pk_map (ms_struct q)) = Inr (ms_publicKeys q)"
    using assms(1) by (simp add: multisig_made_def)
  show j: "j < length (pk_map (ms_struct q))" using assms(2) rmapM_length [OF keys] by simp
  obtain key where key: "single_from_raw k client None (fst (fst (pk_map (ms_struct q) ! j))) (pair_bytes (pk_map (ms_struct q) ! j))
      = Inr key" "ms_publicKeys q ! j = (key, snd (pk_map (ms_struct q) ! j))"
    using rmapM_nth [OF keys j] by (auto simp: make_key_def res_simps)
  then show "snd (pk_map (ms_struct q) ! j) = snd (ms_publicKeys q ! j)"
    "single_from_raw k client None (key_scheme (fst (ms_publicKeys q ! j))) (pair_bytes (pk_map (ms_struct q) ! j)) =
      Inr (fst (ms_publicKeys q ! j))"
    using single_from_raw_scheme(1) [OF key(1)] by simp_all
qed

lemma members_distinct: "sorted_wrt (<) (map fst ms) \<Longrightarrow> distinct (map fst (ms :: member_signature list))"
  by (simp add: strict_sorted_iff)

lemma members_few:
  assumes "members_signed k p message keys ms" "sorted_wrt (<) (map fst ms)"
  shows "length ms \<le> length keys"
proof -
  have "set (map fst ms) \<subseteq> {..<length keys}" using assms(1) by (auto simp: members_signed_def)
  then have "card (set (map fst ms)) \<le> length keys" using card_mono [of "{..<length keys}"] by simp
  then show ?thesis using distinct_card [OF members_distinct [OF assms(2)]] by simp
qed

definition combined :: "multisig_key \<Rightarrow> member_signature list \<Rightarrow> multisig_sig" where
  "combined q ms = \<lparr>sigs = map (\<lambda>m. snd (snd m)) ms, bitmap = set_bits (map fst ms) 0, multisig_pk = ms_struct q\<rparr>"

lemma made_few: "multisig_made k client q \<Longrightarrow> length (ms_publicKeys q) \<le> 10"
  by (auto simp: multisig_made_def multisig_terms_ok_def dest!: rmapM_length)

lemma members_below_ten:
  assumes "multisig_made k client q" "members_signed k p message (ms_publicKeys q) ms"
  shows "\<forall>j\<in>set (map fst ms). j < 10"
  using assms(2) made_few [OF assms(1)] by (fastforce simp: members_signed_def)

lemma combined_ok:
  assumes "multisig_made k client q" "sorted_wrt (<) (map fst ms)" "members_signed k p message (ms_publicKeys q) ms"
  shows "multisig_ok (combined q ms)"
proof -
  have "length ms \<le> 10" using members_few [OF assms(3,2)] made_few [OF assms(1)] by simp
  moreover have "\<forall>e\<in>set (map (\<lambda>m. snd (snd m)) ms). sig_size_ok (fst e) (length (snd e))"
    using assms(3) by (auto simp: members_signed_def signed_by_def)
  moreover have "u16_ok (set_bits (map fst ms) 0)"
    using set_bits_bound [OF members_below_ten [OF assms(1,3)]] set_bits_nonneg [of 0] by (simp add: u16_ok_def)
  ultimately show ?thesis using assms(1) by (simp add: multisig_ok_def combined_def list_all_iff multisig_made_def)
qed

lemma signed_by_scheme:
  assumes "signed_by k p message key s (c, sg)"
  shows "c = key_scheme key" "c \<noteq> MultiSigScheme" "c \<noteq> ZkLogin"
proof -
  show c: "c = key_scheme key" using assms by (simp add: signed_by_def)
  show "c \<noteq> MultiSigScheme" using assms by (cases c) (simp_all add: signed_by_def)
  show "c \<noteq> ZkLogin" using assms unfolding c by (cases key) (simp_all add: signed_by_def)
qed

lemma combined_partials:
  assumes "multisig_made k client q" "sorted_wrt (<) (map fst ms)" "members_signed k p message (ms_publicKeys q) ms"
  shows "parsePartialSignatures k None (combined q ms) = Inr (map (\<lambda>(j, s, e). \<lparr>ps_scheme = fst e, ps_signature = snd e,
    ps_publicKey = fst (ms_publicKeys q ! j), ps_weight = snd (ms_publicKeys q ! j)\<rparr>) ms)"
proof -
  let ?g = "\<lambda>(i, e). (case ms ! i of (j, _, _) \<Rightarrow> \<lparr>ps_scheme = fst e, ps_signature = snd e,
    ps_publicKey = fst (ms_publicKeys q ! j), ps_weight = snd (ms_publicKeys q ! j)\<rparr>)"
  have "parse_partial k None (combined q ms) x = Inr (?g x)" if "x \<in> set (enumerate 0 (sigs (combined q ms)))" for x
  proof -
    obtain i where i: "i < length ms" "x = (i, snd (snd (ms ! i)))"
      using \<open>x \<in> _\<close> by (auto simp: in_set_enumerate_eq combined_def)
    obtain j s c sg where m: "ms ! i = (j, s, c, sg)" by (metis prod.exhaust)
    have "ms ! i \<in> set ms" using i(1) by simp
    from bspec [OF assms(3) [unfolded members_signed_def] this]
    have j: "j < length (ms_publicKeys q)" "signed_by k p message (fst (ms_publicKeys q ! j)) s (c, sg)"
      by (simp_all add: m)
    have c: "c = key_scheme (fst (ms_publicKeys q ! j))" "c \<noteq> MultiSigScheme" "c \<noteq> ZkLogin"
      using signed_by_scheme [OF j(2)] by simp_all
    have "single_from_raw k None None c (pair_bytes (pk_map (ms_struct q) ! j)) = Inr (fst (ms_publicKeys q ! j))"
      by (rule single_from_raw_scheme(2) [OF made_member(3) [OF assms(1) j(1), folded c(1)] c(3)])
    then show ?thesis
      using made_member(1,2) [OF assms(1) j(1)] c(2)
      by (simp add: i m parse_partial_Inr asIndices_set_bits [OF assms(2) members_below_ten [OF assms(1,3)]] combined_def)
  qed
  then have "parsePartialSignatures k None (combined q ms) = Inr (map ?g (enumerate 0 (sigs (combined q ms))))"
    unfolding parsePartialSignatures_def by (rule rmapM_Inr)
  moreover have "map ?g (enumerate 0 (sigs (combined q ms))) = map (\<lambda>(j, s, e). \<lparr>ps_scheme = fst e, ps_signature = snd e,
    ps_publicKey = fst (ms_publicKeys q ! j), ps_weight = snd (ms_publicKeys q ! j)\<rparr>) ms"
    by (rule nth_equalityI) (auto simp: combined_def nth_enumerate_eq split: prod.split)
  ultimately show ?thesis by simp
qed

lemma combined_serialized:
  assumes "multisig_ok m"
  shows "case serialize_multisig m of
      Inr t \<Rightarrow> \<exists>bs. parseSerializedSignature k p t = Inr (MultiSigParsed t m bs)
    | Inl e \<Rightarrow> \<exists>bs. type_serialize MultiSig (js_multisig m) no_options = Inr bs \<and> 8192 < length bs"
proof -
  obtain bs where bs: "codec MultiSig (js_multisig m) (out_multisig m) bs"
    using carries_MultiSig [OF assms] by (auto simp: carries_def)
  let ?r = "type_serialize MultiSig (js_multisig m) (no_options\<lparr>o_maxSize := Some 8192\<rparr>)"
  have r: "case ?r of Inr bs' \<Rightarrow> bs' = bs | Inl e \<Rightarrow> 8192 < length bs"
    using struct_serialize_bounded [of "''MultiSig''" _ "js_multisig m" "out_multisig m" bs "no_options\<lparr>o_maxSize := Some 8192\<rparr>"] bs
    unfolding MultiSig_def by (fastforce split: sum.splits)
  show ?thesis
  proof (cases ?r)
    case (Inl e)
    then show ?thesis using r codec_type_serialize [OF bs, of no_options]
      by (simp add: serialize_multisig_def no_options_def)
  next
    case (Inr bs')
    moreover have "type_parse MultiSig (uint8array_of bs) = Inr (out_multisig m)" using codec_parse [OF bs, of "[]"] by simp
    ultimately show ?thesis using r scheme_of_flag [of MultiSigScheme bs]
      by (auto simp: serialize_multisig_def parseSerializedSignature_def fromBase64_toBase64)
  qed
qed

lemma members_verified:
  assumes "members_signed k p message keys ms"
  shows "verify_partials k p message (map (\<lambda>(j, s, e). \<lparr>ps_scheme = fst e, ps_signature = snd e,
      ps_publicKey = fst (keys ! j), ps_weight = snd (keys ! j)\<rparr>) ms) 0 =
    Inr (Some (sum_list (map (\<lambda>m. snd (keys ! fst m)) ms)))"
  unfolding verify_partials_iff
  using assms by (auto simp: members_signed_def signed_by_def comp_def case_prod_unfold)

lemma combined_accepted:
  assumes "multisig_made k client q" "sorted_wrt (<) (map fst ms)" "members_signed k p message (ms_publicKeys q) ms"
    and "threshold (ms_struct q) \<le> sum_list (map (\<lambda>m. snd (ms_publicKeys q ! fst m)) ms)"
    and "parseSerializedSignature k p t = Inr (MultiSigParsed t (combined q ms) bs)"
  shows "multisig_verify k p q message t = Inr True"
proof -
  obtain own where "multisig_pk_bytes (ms_struct q) = Inr own"
    using multisig_pk_roundtrip [of "ms_struct q"] assms(1) by (auto simp: multisig_made_def)
  then show ?thesis
    using assms(4,5) combined_partials [OF assms(1-3)] members_verified [OF assms(3)]
    by (simp add: multisig_verify_def combined_def)
qed

text \<open>C7: Signatures of members whose weights reach the threshold, given in the order of the keys, combine to a signature
  that the multisig key accepts; combining fails only when the result takes more than 8192 bytes.\<close>

theorem combine_verify:
  assumes "new_MultiSigPublicKey k client v = Inr q" "value_sized v"
    and "distinct (map (\<lambda>m. toRawBytes (fst m)) (ms_publicKeys q))"
    and "members_signed k p message (ms_publicKeys q) ms" "sorted_wrt (<) (map fst ms)"
    and "threshold (ms_struct q) \<le> sum_list (map (\<lambda>m. snd (ms_publicKeys q ! fst m)) ms)"
  shows "case combinePartialSignatures k p q (map (\<lambda>m. fst (snd m)) ms) of
      Inr t \<Rightarrow> multisig_verify k p q message t = Inr True
    | Inl e \<Rightarrow> \<exists>bs. type_serialize MultiSig (js_multisig (combined q ms)) no_options = Inr bs \<and> 8192 < length bs"
proof -
  have made: "multisig_made k client q" by (rule new_multisig_made [OF assms(1,2)])
  have combine: "combinePartialSignatures k p q (map (\<lambda>m. fst (snd m)) ms) = serialize_multisig (combined q ms)"
    using members_few [OF assms(4,5)] made_few [OF made]
      combine_loop_members [OF assms(3,4) members_distinct [OF assms(5)], of 0]
    by (simp add: combinePartialSignatures_def combined_def MAX_SIGNER_IN_MULTISIG_def)
  have "multisig_verify k p q message t = Inr True"
    if "parseSerializedSignature k p t = Inr (MultiSigParsed t (combined q ms) bs)" for t bs
    by (rule combined_accepted [OF made assms(5,4,6) that])
  then show ?thesis
    using combined_serialized [OF combined_ok [OF made assms(5,4)], of k p] unfolding combine
    by (auto split: sum.splits)
qed

lemma compress_secp256k1:
  "length bs = 33 \<Longrightarrow> compress k p (toSerializedSignature signature Secp256k1 bs) = Inr ((Secp256k1, signature), bs)"
  by (simp add: compress_def secp256k1.parse_signature secp256k1.parsed_own_def)

definition example_key :: multisig_key where
  "example_key = \<lparr>ms_rawBytes = (case multisig_pk_bytes example_pk of Inr bs \<Rightarrow> bs), ms_struct = example_pk,
     ms_publicKeys = [(Ed25519PublicKey (replicate 32 1), 1), (Secp256k1PublicKey (replicate 33 2), 2)]\<rparr>"

definition example_members :: "member_signature list" where
  "example_members = [(1, toSerializedSignature (replicate 31 7 @ replicate 33 2) Secp256k1 (replicate 33 2),
     (Secp256k1, replicate 31 7 @ replicate 33 2))]"

lemma example_sized: "js_sized example_pk"
  by (simp add: js_sized_def example_pk_def)

lemma example_made: "multisig_made k client example_key"
proof -
  have "rmapM (make_key k client) (pk_map example_pk) = Inr (ms_publicKeys example_key)"
    using fixed_keys_made [of "pk_map example_pk" k client]
    by (simp add: example_pk_def example_key_def fixed_pair_def)
  moreover have "multisig_pk_ok example_pk"
    by (simp add: example_pk_def multisig_pk_ok_def pk_pair_ok_def u16_ok_def)
  moreover have "multisig_terms_ok example_pk"
    by (simp add: example_pk_def multisig_terms_ok_def total_weight_def numeral_eq_Suc)
  ultimately show ?thesis by (simp add: multisig_made_def example_key_def)
qed

lemma example_new: "new_MultiSigPublicKey k client (MsStruct example_pk) = Inr example_key"
proof -
  obtain bs where "multisig_pk_bytes example_pk = Inr bs"
    using multisig_pk_roundtrip [of example_pk] example_made [of k client] by (auto simp: multisig_made_def example_key_def)
  then show ?thesis
    using example_made [of k client] new_multisig_struct [OF example_sized, of k client example_key]
    by (simp add: example_key_def)
qed

lemma example_signed:
  "members_signed example_packages example_platform (replicate 31 7) (ms_publicKeys example_key) example_members"
  by (simp add: members_signed_def example_members_def example_key_def signed_by_def compress_secp256k1 secp256k1.verify_raw
      example_packages_def del: key_verify.simps)

lemma combine_verify_witness:
  "case combinePartialSignatures example_packages example_platform example_key (map (\<lambda>m. fst (snd m)) example_members) of
      Inr t \<Rightarrow> multisig_verify example_packages example_platform example_key (replicate 31 7) t = Inr True
    | Inl e \<Rightarrow> \<exists>bs. type_serialize MultiSig (js_multisig (combined example_key example_members)) no_options = Inr bs \<and>
        8192 < length bs"
  by (rule combine_verify [OF example_new _ _ example_signed], simp add: example_sized)
    (simp_all add: example_key_def example_members_def example_pk_def numeral_eq_Suc)

lemma example_accepted: "\<exists>t. multisig_verify example_packages example_platform example_key (replicate 31 7) t = Inr True"
proof -
  have sorted: "sorted_wrt (<) (map fst example_members)" by (simp add: example_members_def)
  have ok: "multisig_ok (combined example_key example_members)"
    by (rule combined_ok [OF example_made sorted example_signed])
  obtain bs where bs: "codec MultiSig (js_multisig (combined example_key example_members))
      (out_multisig (combined example_key example_members)) bs"
    using carries_MultiSig [OF ok] by (auto simp: carries_def)
  let ?t = "toBase64 (SIGNATURE_SCHEME_TO_FLAG MultiSigScheme # bs)"
  have "parseSerializedSignature example_packages example_platform ?t =
      Inr (MultiSigParsed ?t (combined example_key example_members) (SIGNATURE_SCHEME_TO_FLAG MultiSigScheme # bs))"
    using codec_parse [OF bs, of "[]"] scheme_of_flag [of MultiSigScheme bs]
    by (simp add: parseSerializedSignature_def fromBase64_toBase64)
  then show ?thesis
    using combined_accepted [OF example_made sorted example_signed]
    by (fastforce simp: example_key_def example_members_def example_pk_def)
qed

text \<open>A member that verifies is the registered one, or another key of the same bytes and not of an ed25519 member.\<close>

lemma single_from_raw_size:
  assumes "single_from_raw k client None c bs = Inr key" "c \<noteq> ZkLogin"
  shows "SIGNATURE_SCHEME_TO_SIZE c = Some (length bs)" "toRawBytes key = bs"
  using assms
  by (cases c; auto simp: single_from_raw_def new_Ed25519PublicKey_def new_Secp256k1PublicKey_def new_Secp256r1PublicKey_def
      new_PasskeyPublicKey_def sized_key_def init_bytes_def PASSKEY_PUBLIC_KEY_SIZE_def split: if_split_asm)+

lemma verified_member:
  assumes "multisig_made k client q" "i < length (ms_publicKeys q)"
    and "verified_by k p message sgs (pair_bytes (pk_map (ms_struct q) ! i))"
  shows "\<exists>key signature. (key_scheme key, signature) \<in> set sgs \<and> key_verify k p key message (SigBytes signature) = Inr True \<and>
    (key = fst (ms_publicKeys q ! i) \<or>
     key_scheme (fst (ms_publicKeys q ! i)) \<notin> {key_scheme key, ED25519} \<and>
     toRawBytes key = snd (fst (pk_map (ms_struct q) ! i)))"
proof -
  let ?bs = "pair_bytes (pk_map (ms_struct q) ! i)" and ?own = "fst (ms_publicKeys q ! i)"
  obtain c sg key where key: "(c, sg) \<in> set sgs" "single_from_raw k None None c ?bs = Inr key"
    "key_verify k p key message (SigBytes sg) = Inr True"
    using assms(3) by (auto simp: verified_by_def)
  note c = single_from_raw_scheme(1) [OF key(2)]
  have zk: "c \<noteq> ZkLogin" using key(3) c by (cases key) auto
  note own = made_member(3) [OF assms(1,2)]
  have "key = ?own" if "key_scheme ?own = c"
    using single_from_raw_scheme(2) [OF own, of None] that zk key(2) by simp
  moreover have "key_scheme ?own = c" if "key_scheme ?own = ED25519"
    using single_from_raw_size(1) [OF own] single_from_raw_size(1) [OF key(2) zk] that by (cases c) simp_all
  ultimately show ?thesis using key(1,3) single_from_raw_size(2) [OF key(2) zk] c by blast
qed

text \<open>C6: What a multisig key accepts carries signatures of enough of its members: there are members, each counted
  once, whose weights reach the threshold, and for each of them a signature in the multisig over the message. What
  verifies it is the registered key of the member, always if that is an ed25519 key; else it may also be the key of the same
  bytes under another scheme, the one of the signature, since the code takes the scheme from the signature.\<close>

theorem multisig_verify_sound:
  assumes "new_MultiSigPublicKey k client v = Inr q" "value_sized v" "multisig_verify k p q message s = Inr True"
  shows "\<exists>t ms bs S. parseSerializedSignature k p s = Inr (MultiSigParsed t ms bs) \<and>
    S \<subseteq> {..<length (ms_publicKeys q)} \<and> threshold (ms_struct q) \<le> (\<Sum>i\<in>S. snd (ms_publicKeys q ! i)) \<and>
    (\<forall>i\<in>S. \<exists>key signature. (key_scheme key, signature) \<in> set (sigs ms) \<and>
       key_verify k p key message (SigBytes signature) = Inr True \<and>
       (key = fst (ms_publicKeys q ! i) \<or>
        key_scheme (fst (ms_publicKeys q ! i)) \<notin> {key_scheme key, ED25519} \<and>
        toRawBytes key = snd (fst (pk_map (ms_struct q) ! i))))"
proof -
  have made: "multisig_made k client q" by (rule new_multisig_made [OF assms(1,2)])
  then have "multisig_pk_ok (ms_struct q)" by (simp add: multisig_made_def)
  then obtain t ms bs ss where ms: "parseSerializedSignature k p s = Inr (MultiSigParsed t ms bs)" "multisig_pk ms = ms_struct q"
    "parsePartialSignatures k None ms = Inr ss"
    "\<forall>s\<in>set ss. key_verify k p (ps_publicKey s) message (SigBytes (ps_signature s)) = Inr True"
    "threshold (ms_struct q) \<le> sum_list (map ps_weight ss)"
    using assms(3) by (rule multisig_verify_Inr)
  have len: "length (pk_map (ms_struct q)) = length (ms_publicKeys q)"
    using made rmapM_length by (fastforce simp: multisig_made_def)
  obtain S where S: "S \<subseteq> {..<length (ms_publicKeys q)}"
    "(\<Sum>i\<in>S. snd (pk_map (ms_struct q) ! i)) = sum_list (map ps_weight ss)"
    "\<forall>i\<in>S. verified_by k p message (sigs ms) (pair_bytes (pk_map (ms_struct q) ! i))"
    using partials_signers [OF ms(3,4)] unfolding ms(2) len by blast
  have "(\<Sum>i\<in>S. snd (pk_map (ms_struct q) ! i)) = (\<Sum>i\<in>S. snd (ms_publicKeys q ! i))"
    by (rule sum.cong [OF refl]) (use S(1) made_member(2) [OF made] in auto)
  then have "threshold (ms_struct q) \<le> (\<Sum>i\<in>S. snd (ms_publicKeys q ! i))" using S(2) ms(5) by simp
  moreover have "\<exists>key signature. (key_scheme key, signature) \<in> set (sigs ms) \<and>
       key_verify k p key message (SigBytes signature) = Inr True \<and>
       (key = fst (ms_publicKeys q ! i) \<or>
        key_scheme (fst (ms_publicKeys q ! i)) \<notin> {key_scheme key, ED25519} \<and>
        toRawBytes key = snd (fst (pk_map (ms_struct q) ! i)))" if "i \<in> S" for i
    by (rule verified_member [OF made]) (use S(1,3) that in auto)
  ultimately show ?thesis using ms(1) S(1) by metis
qed

text \<open>In the example the weight of the first member does not reach the threshold, so the second one has signed.\<close>

lemma multisig_verify_sound_witness:
  "\<exists>s t ms bs S. multisig_verify example_packages example_platform example_key (replicate 31 7) s = Inr True \<and>
    parseSerializedSignature example_packages example_platform s = Inr (MultiSigParsed t ms bs) \<and>
    S \<subseteq> {..<2} \<and> 2 \<le> (\<Sum>i\<in>S. snd (ms_publicKeys example_key ! i)) \<and> 1 \<in> S"
proof -
  obtain s where s: "multisig_verify example_packages example_platform example_key (replicate 31 7) s = Inr True"
    using example_accepted by blast
  have sized: "value_sized (MsStruct example_pk)" by (simp add: example_sized)
  obtain t ms bs S where S: "parseSerializedSignature example_packages example_platform s = Inr (MultiSigParsed t ms bs)"
    "S \<subseteq> {..<2}" "2 \<le> (\<Sum>i\<in>S. snd (ms_publicKeys example_key ! i))"
    using multisig_verify_sound [OF example_new sized s]
    by (auto simp: example_key_def example_pk_def numeral_eq_Suc)
  have "1 \<in> S"
  proof (rule ccontr)
    assume "1 \<notin> S"
    with S(2) have "S \<subseteq> {0}" by (auto simp: lessThan_nat_numeral lessThan_Suc)
    then have "S = {} \<or> S = {0}" by blast
    then show False using S(3) by (auto simp: example_key_def)
  qed
  with s S show ?thesis by blast
qed

text \<open>The scheme a key was registered with is not looked at: a signature is checked under its own scheme.\<close>

lemma partials_ignore_scheme:
  assumes "map (\<lambda>q. (pair_bytes q, snd q)) (pk_map m) = map (\<lambda>q. (pair_bytes q, snd q)) (pk_map n)"
  shows "parsePartialSignatures k client (ms\<lparr>multisig_pk := m\<rparr>) = parsePartialSignatures k client (ms\<lparr>multisig_pk := n\<rparr>)"
proof -
  have len: "length (pk_map m) = length (pk_map n)" using map_eq_imp_length_eq [OF assms] .
  have nth: "pair_bytes (pk_map m ! i) = pair_bytes (pk_map n ! i) \<and> snd (pk_map m ! i) = snd (pk_map n ! i)"
    if "i < length (pk_map n)" for i
    using arg_cong [OF assms, of "\<lambda>xs. xs ! i"] that len by simp
  have "parse_partial k client (ms\<lparr>multisig_pk := m\<rparr>) (i, c, sg) = parse_partial k client (ms\<lparr>multisig_pk := n\<rparr>) (i, c, sg)"
    for i c sg
  proof (cases "asIndices (bitmap ms)")
    case (Inr js)
    show ?thesis
    proof (cases "i < length js \<and> js ! i < length (pk_map n)")
      case True
      then show ?thesis using nth [of "js ! i"] by (simp add: parse_partial_def Inr len case_prod_unfold)
    next
      case False
      then show ?thesis by (auto simp: parse_partial_def Inr len)
    qed
  qed (simp add: parse_partial_def)
  then have "parse_partial k client (ms\<lparr>multisig_pk := m\<rparr>) = parse_partial k client (ms\<lparr>multisig_pk := n\<rparr>)"
    by (intro ext) (metis prod.collapse)
  then show ?thesis by (simp add: parsePartialSignatures_def)
qed

subsection \<open>The address\<close>

definition address_part :: "key \<times> int \<Rightarrow> byte list" where
  "address_part q = toMySoBytes (fst q) @ [word_of_int (snd q)]"

lemma address_keys_eq:
  "length tmp \<le> n \<Longrightarrow> address_keys n tmp ks =
   (if length (tmp @ concat (map address_part ks)) \<le> n then Inr (tmp @ concat (map address_part ks))
    else Inl (RangeError ''offset is out of bounds''))"
proof (induction ks arbitrary: tmp)
  case (Cons q ks)
  obtain key w where q: "q = (key, w)" by fastforce
  let ?tmp = "tmp @ address_part q"
  show ?case
  proof (cases "length ?tmp \<le> n")
    case True
    then have "address_keys n tmp (q # ks) = address_keys n ?tmp ks" by (simp add: q buffer_set_def address_part_def)
    then show ?thesis using Cons.IH [OF True] by simp
  next
    case False
    then have "address_keys n tmp (q # ks) = Inl (RangeError ''offset is out of bounds'')"
      by (auto simp: q buffer_set_def address_part_def)
    then show ?thesis using False by simp
  qed
qed simp

lemma address_bytes:
  assumes "multisig_made k client q"
  shows "multisig_address_bytes q =
    (if length (concat (map address_part (ms_publicKeys q))) \<le> 650
     then Inr (3 # le_bytes 2 (nat (threshold (ms_struct q))) @ concat (map address_part (ms_publicKeys q)))
     else Inl (RangeError ''offset is out of bounds''))"
proof -
  have "u16_ok (threshold (ms_struct q))" using assms by (simp add: multisig_made_def multisig_pk_ok_def)
  then have "codec (bcs_u16 no_opts) (JNum (threshold (ms_struct q))) (JNum (int (nat (threshold (ms_struct q)))))
      (le_bytes 2 (nat (threshold (ms_struct q))))"
    by (intro codec_u16) (auto simp: u16_ok_def nat_less_iff)
  then have t: "type_serialize (bcs_u16 no_opts) (JNum (threshold (ms_struct q))) no_options =
      Inr (le_bytes 2 (nat (threshold (ms_struct q))))"
    by (rule codec_type_serialize) (simp add: no_options_def)
  show ?thesis
    unfolding multisig_address_bytes_def t rbind.simps
    by (subst address_keys_eq) (simp_all add: multisig_address_length_def MAX_SIGNER_IN_MULTISIG_def)
qed

text \<open>C22: The address of a multisig key is that of its flag, threshold, keys and weights, in at most 653 bytes; longer
  ones, which need zkLogin keys, throw a range error.\<close>

theorem multisig_address:
  assumes "new_MultiSigPublicKey k client v = Inr q" "value_sized v"
  shows "multisig_toMySoAddress k q =
    (if sum_list (map (\<lambda>(key, w). length (toRawBytes key) + 2) (ms_publicKeys q)) \<le> 650
     then Inr (normalizeMySoAddress (bytesToHex k (blake2b k (3 # le_bytes 2 (nat (threshold (ms_struct q))) @
       concat (map (\<lambda>(key, w). key_flag key # toRawBytes key @ [word_of_int w]) (ms_publicKeys q))))) False)
     else Inl (RangeError ''offset is out of bounds'')) \<and>
    ((\<forall>(key, w)\<in>set (ms_publicKeys q). key_scheme key \<noteq> ZkLogin) \<longrightarrow> (\<exists>a. multisig_toMySoAddress k q = Inr a))"
proof -
  have made: "multisig_made k client q" by (rule new_multisig_made [OF assms])
  have part: "address_part = (\<lambda>(key, w). key_flag key # toRawBytes key @ [word_of_int w])"
    by (auto simp: address_part_def toMySoBytes_def)
  have size: "length (concat (map address_part ks)) = sum_list (map (\<lambda>(key, w). length (toRawBytes key) + 2) ks)" for ks
    by (induction ks) (auto simp: address_part_def toMySoBytes_def)
  have short: "length (toRawBytes key) \<le> 33" if key: "(key, w) \<in> set (ms_publicKeys q)" "key_scheme key \<noteq> ZkLogin" for key w
  proof -
    obtain j where j: "j < length (ms_publicKeys q)" "ms_publicKeys q ! j = (key, w)"
      using key(1) by (auto simp: in_set_conv_nth)
    have "single_from_raw k client None (key_scheme key) (pair_bytes (pk_map (ms_struct q) ! j)) = Inr key"
      using made_member(3) [OF made j(1)] j(2) by simp
    then show ?thesis using key(2)
      by (cases key) (auto simp: single_from_raw_def new_Ed25519PublicKey_def new_Secp256k1PublicKey_def
        new_Secp256r1PublicKey_def new_PasskeyPublicKey_def sized_key_def PASSKEY_PUBLIC_KEY_SIZE_def res_simps
        split: if_split_asm)
  qed
  have "sum_list (map (\<lambda>(key, w). length (toRawBytes key) + 2) (ms_publicKeys q)) \<le> 650"
    if "\<forall>(key, w)\<in>set (ms_publicKeys q). key_scheme key \<noteq> ZkLogin"
  proof -
    have "sum_list (map (\<lambda>(key, w). length (toRawBytes key) + 2) (ms_publicKeys q)) \<le>
        sum_list (map (\<lambda>_. 35) (ms_publicKeys q))"
      by (rule sum_list_mono) (use short that in \<open>fastforce\<close>)
    then show ?thesis using made_few [OF made] by (simp add: sum_list_triv)
  qed
  then show ?thesis
    unfolding multisig_toMySoAddress_def address_bytes [OF made] size part [symmetric] by simp
qed

lemma multisig_address_witness:
  "multisig_toMySoAddress example_packages example_key =
    Inr (normalizeMySoAddress (bytesToHex example_packages (blake2b example_packages (3 # le_bytes 2 2 @
      (0 # replicate 32 1 @ [1]) @ (1 # replicate 33 2 @ [2])))) False)"
  using multisig_address [OF example_new [of example_packages None]]
  by (simp add: example_sized) (simp add: example_key_def example_pk_def key_flag_def)

subsection \<open>The signer\<close>

lemma check_signers_iff:
  "check_signers weights as seen c = Inr t \<longleftrightarrow>
    distinct as \<and> set as \<inter> set seen = {} \<and>
    (\<forall>a\<in>set as. \<exists>w. find (\<lambda>w. snd w = a) weights = Some w \<and> fst w \<noteq> 0) \<and>
    t = c + sum_list (map (\<lambda>a. fst (the (find (\<lambda>w. snd w = a) weights))) as)"
proof (induction as arbitrary: seen c)
  case (Cons a as)
  show ?case
  proof (cases "find (\<lambda>w. snd w = a) weights")
    case (Some w)
    then show ?thesis by (auto simp: Cons.IH simp del: split_paired_Ex)
  qed simp
qed auto

lemma find_distinct:
  "distinct (map snd weights) \<Longrightarrow> find (\<lambda>w. snd w = a) weights = Some w \<longleftrightarrow> w \<in> set weights \<and> snd w = a"
  by (rule find_distinct_key)

lemma member_weight_pos:
  assumes "multisig_made k client q" "rmapM (\<lambda>(key, w). rmap (\<lambda>a. (w, a)) (toMySoAddress k key)) (ms_publicKeys q) = Inr members"
    and "m \<in> set members"
  shows "1 \<le> fst m"
proof -
  obtain j where j: "j < length members" "members ! j = m" using assms(3) by (auto simp: in_set_conv_nth)
  then have len: "j < length (ms_publicKeys q)" using rmapM_length [OF assms(2)] by simp
  obtain a where "(snd (ms_publicKeys q ! j), a) = m"
    using rmapM_nth [OF assms(2) len] j(2) by (auto simp: res_simps case_prod_unfold)
  then have "fst m = snd (ms_publicKeys q ! j)" by (metis fst_conv)
  moreover have "\<forall>q\<in>set (pk_map (ms_struct q)). 1 \<le> snd q"
    using assms(1) by (simp add: multisig_made_def multisig_terms_ok_def)
  then have "1 \<le> snd (pk_map (ms_struct q) ! j)" using made_member(1) [OF assms(1) len] nth_mem by blast
  ultimately show ?thesis using made_member(2) [OF assms(1) len] by simp
qed

text \<open>The weights looked up for a list of known addresses are those of the members at these addresses.\<close>

lemma sum_found_weights:
  fixes members :: "(int \<times> 'a) list"
  assumes "distinct (map snd members)" "distinct as" "set as \<subseteq> set (map snd members)"
  shows "sum_list (map (\<lambda>a. fst (the (find (\<lambda>w. snd w = a) members))) as) =
    (\<Sum>(w, a)\<in>{m \<in> set members. snd m \<in> set as}. w)"
proof -
  have find: "find (\<lambda>w. snd w = snd m) members = Some m" if "m \<in> set members" for m
    using that find_distinct [OF assms(1)] by simp
  have inj: "inj_on snd {m \<in> set members. snd m \<in> set as}"
    using assms(1) by (auto simp: distinct_map intro: inj_on_subset)
  have img: "snd ` {m \<in> set members. snd m \<in> set as} = set as" using assms(3) by auto
  have "(\<Sum>a\<in>snd ` {m \<in> set members. snd m \<in> set as}. fst (the (find (\<lambda>w. snd w = a) members))) =
      (\<Sum>m\<in>{m \<in> set members. snd m \<in> set as}. fst m)"
    unfolding sum.reindex [OF inj] by (rule sum.cong) (simp_all add: find)
  then show ?thesis by (simp add: img sum_list_distinct_conv_sum_set [OF assms(2)] case_prod_unfold)
qed

text \<open>C23: A multisig signer is made exactly for different members of the key, in any order, whose weights reach the
  threshold (keys whose members have different addresses).\<close>

theorem new_signer_iff:
  assumes "new_MultiSigPublicKey k client v = Inr q" "value_sized v"
    and "rmapM (\<lambda>(key, w). rmap (\<lambda>a. (w, a)) (toMySoAddress k key)) (ms_publicKeys q) = Inr members"
    and "distinct (map snd members)"
  shows "new_MultiSigSigner k q signers = Inr s \<longleftrightarrow>
    s = \<lparr>mss_pubkey = q, mss_signers = signers\<rparr> \<and> distinct (map s_address signers) \<and>
    set (map s_address signers) \<subseteq> set (map snd members) \<and>
    threshold (ms_struct q) \<le> (\<Sum>(w, a)\<in>{m \<in> set members. snd m \<in> s_address ` set signers}. w)"
proof -
  have made: "multisig_made k client q" by (rule new_multisig_made [OF assms(1,2)])
  have find: "find (\<lambda>w. snd w = snd m) members = Some m" if "m \<in> set members" for m
    using that find_distinct [OF assms(4)] by simp
  have known: "(\<exists>w. find (\<lambda>w. snd w = a) members = Some w \<and> fst w \<noteq> 0) \<longleftrightarrow> a \<in> set (map snd members)" for a
  proof
    assume "a \<in> set (map snd members)"
    then obtain m where m: "m \<in> set members" "snd m = a" by auto
    then show "\<exists>w. find (\<lambda>w. snd w = a) members = Some w \<and> fst w \<noteq> 0"
      using find [OF m(1)] member_weight_pos [OF made assms(3) m(1)] by (intro exI [of _ m]) simp
  next
    assume "\<exists>w. find (\<lambda>w. snd w = a) members = Some w \<and> fst w \<noteq> 0"
    then obtain m where "m \<in> set members" "snd m = a" unfolding find_distinct [OF assms(4)] by blast
    then show "a \<in> set (map snd members)" by auto
  qed
  have check: "check_signers members as [] 0 = Inr t \<longleftrightarrow> distinct as \<and> set as \<subseteq> set (map snd members) \<and>
      t = (\<Sum>(w, a)\<in>{m \<in> set members. snd m \<in> set as}. w)" for as t
    unfolding check_signers_iff known using sum_found_weights [OF assms(4), of as] by (auto simp del: set_map)
  have "new_MultiSigSigner k q signers = Inr s \<longleftrightarrow> (\<exists>t. check_signers members (map s_address signers) [] 0 = Inr t \<and>
      threshold (ms_struct q) \<le> t \<and> s = \<lparr>mss_pubkey = q, mss_signers = signers\<rparr>)"
    unfolding new_MultiSigSigner_def assms(3) rbind.simps
    by (cases "check_signers members (map s_address signers) [] 0") auto
  then show ?thesis unfolding check by auto
qed

definition example_signer :: member_signer where
  "example_signer = \<lparr>s_address = address_of_bytes example_packages (1 # replicate 33 2),
     s_signTransaction = (\<lambda>_. Inr []), s_signPersonalMessage = (\<lambda>_. Inr [])\<rparr>"

lemma example_addresses:
  "address_of_bytes example_packages (0 # replicate 32 1) \<noteq> address_of_bytes example_packages (1 # replicate 33 2)"
  by code_simp

lemma new_signer_iff_witness:
  "new_MultiSigSigner example_packages example_key [example_signer] =
   Inr \<lparr>mss_pubkey = example_key, mss_signers = [example_signer]\<rparr>"
proof (rule new_signer_iff [OF example_new [of example_packages None], where s = "\<lparr>mss_pubkey = example_key,
    mss_signers = [example_signer]\<rparr>" and members = "[(1, address_of_bytes example_packages (0 # replicate 32 1)),
      (2, address_of_bytes example_packages (1 # replicate 33 2))]", THEN iffD2])
  let ?members = "[(1, address_of_bytes example_packages (0 # replicate 32 1)),
      (2 :: int, address_of_bytes example_packages (1 # replicate 33 2))]"
  show "rmapM (\<lambda>(key, w). rmap (\<lambda>a. (w, a)) (toMySoAddress example_packages key)) (ms_publicKeys example_key) = Inr ?members"
    by (simp add: example_key_def toMySoBytes_def key_flag_def del: replicate.simps)
  show "distinct (map snd ?members)" using example_addresses by (simp del: replicate.simps)
  have "{m \<in> set ?members. snd m \<in> s_address ` set [example_signer]} =
      {(2, address_of_bytes example_packages (1 # replicate 33 2))}"
    using example_addresses by (auto simp: example_signer_def simp del: replicate.simps)
  then show "\<lparr>mss_pubkey = example_key, mss_signers = [example_signer]\<rparr> = \<lparr>mss_pubkey = example_key, mss_signers = [example_signer]\<rparr> \<and>
    distinct (map s_address [example_signer]) \<and> set (map s_address [example_signer]) \<subseteq> set (map snd ?members) \<and>
    threshold (ms_struct example_key) \<le>
      (\<Sum>(w, a)\<in>{m \<in> set ?members. snd m \<in> s_address ` set [example_signer]}. w)"
    by (simp only: case_prod_unfold) (simp add: example_signer_def example_key_def example_pk_def del: replicate.simps)
qed (simp add: example_sized)

end
