(* ===== verification/Keypairs.thy ===== *)
theory Keypairs
  imports Signature_Props
begin

text \<open>
  Signers of one key: \<open>Signer\<close> and the private keys of \<open>cryptography/keypair.ts\<close>, the keypairs of
  \<open>keypairs/ed25519\<close>, \<open>secp256k1\<close> and \<open>secp256r1\<close>, the derivation of ed25519 keys (\<open>ed25519-hd-key.ts\<close>), the paths of
  \<open>mnemonics.ts\<close> and the passkey signer.

  Parameters: \<open>curve\<close> holds the functions of a noble curve, \<open>bech32\<close> those of scure's codec, \<open>hmac\<close> is HMAC-SHA512, the
  seeds of mnemonics and the keys of \<open>HDKey\<close> are arguments, and \<open>authenticator\<close> is what the platform's passkey returns.
\<close>

record curve =
  getPublicKey :: "byte list \<Rightarrow> byte list res"
  curve_sign :: "byte list \<Rightarrow> byte list \<Rightarrow> byte list res"
  validation_sign :: "byte list \<Rightarrow> byte list \<Rightarrow> byte list res"
  validation_verify :: "byte list \<Rightarrow> byte list \<Rightarrow> byte list \<Rightarrow> bool res"

record bech32 =
  bech32_decode :: "string \<Rightarrow> (string \<times> nat list) res"
  bech32_fromWords :: "nat list \<Rightarrow> byte list res"
  bech32_toWords :: "byte list \<Rightarrow> nat list"
  bech32_encode :: "string \<Rightarrow> nat list \<Rightarrow> string res"

subsection \<open>Private keys\<close>

definition PRIVATE_KEY_SIZE :: nat where
  "PRIVATE_KEY_SIZE = 32"

definition MYSO_PRIVATE_KEY_PREFIX :: string where
  "MYSO_PRIVATE_KEY_PREFIX = ''mysoprivkey''"

definition decodeMySoPrivateKey :: "bech32 \<Rightarrow> string \<Rightarrow> (scheme option \<times> byte list) res" where
  "decodeMySoPrivateKey b v =
     rbind (bech32_decode b v) (\<lambda>(prefix, words).
       if prefix \<noteq> MYSO_PRIVATE_KEY_PREFIX then Inl (Error ''invalid private key prefix'')
       else rmap (\<lambda>extendedSecretKey. (scheme_of_bytes extendedSecretKey, drop 1 extendedSecretKey))
              (bech32_fromWords b words))"

definition encodeMySoPrivateKey :: "bech32 \<Rightarrow> byte list \<Rightarrow> scheme \<Rightarrow> string res" where
  "encodeMySoPrivateKey b bytes s =
     (if length bytes \<noteq> PRIVATE_KEY_SIZE then Inl (Error ''Invalid bytes length'')
      else bech32_encode b MYSO_PRIVATE_KEY_PREFIX (bech32_toWords b (SIGNATURE_SCHEME_TO_FLAG s # bytes)))"

subsection \<open>Keypairs\<close>

record keypair =
  kp_publicBytes :: "byte list"
  kp_secretKey :: "byte list"

definition new_Ed25519Keypair :: "byte list \<Rightarrow> byte list \<Rightarrow> keypair" where
  "new_Ed25519Keypair publicKey secretKey = \<lparr>kp_publicBytes = publicKey, kp_secretKey = take 32 secretKey\<rparr>"

text \<open>A secret key is bytes, or text that is decoded first and must be of the scheme.\<close>

definition secret_bytes :: "bech32 \<Rightarrow> scheme \<Rightarrow> signature_input \<Rightarrow> byte list res" where
  "secret_bytes b s secretKey =
     (case secretKey of
        SigText t \<Rightarrow> rbind (decodeMySoPrivateKey b t) (\<lambda>(decodedScheme, key).
          if decodedScheme \<noteq> Some s then Inl (Error (''Expected a '' @ scheme_name s @ '' keypair'')) else Inr key)
      | SigBytes key \<Rightarrow> Inr key)"

definition validate_secret ::
  "platform \<Rightarrow> curve \<Rightarrow> (byte list \<Rightarrow> byte list) \<Rightarrow> string \<Rightarrow> byte list \<Rightarrow> byte list \<Rightarrow> unit res" where
  "validate_secret p c msgHash msg secretKey publicKey =
     (let signData = msgHash (p_encode p ''myso validation'') in
      rbind (validation_sign c signData secretKey) (\<lambda>signature.
      rbind (validation_verify c signature signData publicKey) (\<lambda>valid.
        if \<not> valid then Inl (Error msg) else Inr ())))"

definition ed25519_fromSecretKey :: "platform \<Rightarrow> bech32 \<Rightarrow> curve \<Rightarrow> signature_input \<Rightarrow> bool \<Rightarrow> keypair res" where
  "ed25519_fromSecretKey p b c secretKey skipValidation =
     rbind (secret_bytes b ED25519 secretKey) (\<lambda>secretKey.
       if length secretKey \<noteq> PRIVATE_KEY_SIZE then Inl (Error ''Wrong secretKey size'')
       else rbind (getPublicKey c secretKey) (\<lambda>publicKey.
            rmap (\<lambda>_. new_Ed25519Keypair publicKey secretKey)
              (if skipValidation then Inr () else validate_secret p c (\<lambda>m. m) ''provided secretKey is invalid'' secretKey publicKey)))"

definition secp256k1_fromSecretKey ::
  "packages \<Rightarrow> platform \<Rightarrow> bech32 \<Rightarrow> curve \<Rightarrow> signature_input \<Rightarrow> bool \<Rightarrow> keypair res" where
  "secp256k1_fromSecretKey k p b c secretKey skipValidation =
     rbind (secret_bytes b Secp256k1 secretKey) (\<lambda>secretKey.
     rbind (getPublicKey c secretKey) (\<lambda>publicKey.
       rmap (\<lambda>_. \<lparr>kp_publicBytes = publicKey, kp_secretKey = secretKey\<rparr>)
         (if skipValidation then Inr () else validate_secret p c (blake2b k) ''Provided secretKey is invalid'' secretKey publicKey)))"

definition secp256r1_fromSecretKey ::
  "packages \<Rightarrow> platform \<Rightarrow> bech32 \<Rightarrow> curve \<Rightarrow> signature_input \<Rightarrow> bool \<Rightarrow> keypair res" where
  "secp256r1_fromSecretKey k p b c secretKey skipValidation =
     rbind (secret_bytes b Secp256r1 secretKey) (\<lambda>secretKey.
     rbind (getPublicKey c secretKey) (\<lambda>publicKey.
       rmap (\<lambda>_. \<lparr>kp_publicBytes = publicKey, kp_secretKey = secretKey\<rparr>)
         (if skipValidation then Inr () else validate_secret p c (blake2b k) ''Provided secretKey is invalid'' secretKey publicKey)))"

definition secp_fromSeed :: "curve \<Rightarrow> byte list \<Rightarrow> keypair res" where
  "secp_fromSeed c seed = rmap (\<lambda>publicKey. \<lparr>kp_publicBytes = publicKey, kp_secretKey = seed\<rparr>) (getPublicKey c seed)"

definition keypair_getPublicKey :: "scheme \<Rightarrow> keypair \<Rightarrow> key res" where
  "keypair_getPublicKey s kp =
     (case s of
        ED25519 \<Rightarrow> new_Ed25519PublicKey (JBytes (kp_publicBytes kp))
      | Secp256k1 \<Rightarrow> new_Secp256k1PublicKey (JBytes (kp_publicBytes kp))
      | Secp256r1 \<Rightarrow> new_Secp256r1PublicKey (JBytes (kp_publicBytes kp))
      | _ \<Rightarrow> Inl (Error ''Unsupported signature scheme''))"

definition keypair_getSecretKey :: "bech32 \<Rightarrow> scheme \<Rightarrow> keypair \<Rightarrow> string res" where
  "keypair_getSecretKey b s kp =
     encodeMySoPrivateKey b (if s = ED25519 then take PRIVATE_KEY_SIZE (kp_secretKey kp) else kp_secretKey kp) s"

definition keypair_sign :: "curve \<Rightarrow> keypair \<Rightarrow> byte list \<Rightarrow> byte list res" where
  "keypair_sign c kp data = curve_sign c data (kp_secretKey kp)"

subsection \<open>Signing\<close>

text \<open>The methods of \<open>Signer\<close> on what its subclass provides: its signature of bytes, scheme and public key. They return the
  signature and the base64 text of the bytes.\<close>

record signer =
  sg_sign :: "byte list \<Rightarrow> byte list res"
  sg_scheme :: scheme
  sg_publicKey :: "key res"

definition signWithIntent :: "packages \<Rightarrow> signer \<Rightarrow> byte list \<Rightarrow> string \<Rightarrow> (string \<times> string) res" where
  "signWithIntent k s bytes intent =
     rbind (intent_digest k intent bytes) (\<lambda>digest.
     rbind (sg_sign s digest) (\<lambda>signature.
     rmap (\<lambda>publicKey. (toSerializedSignature signature (sg_scheme s) (toRawBytes publicKey), toBase64 bytes))
       (sg_publicKey s)))"

definition signTransaction :: "packages \<Rightarrow> signer \<Rightarrow> byte list \<Rightarrow> (string \<times> string) res" where
  "signTransaction k s bytes = signWithIntent k s bytes ''TransactionData''"

definition signPersonalMessage :: "packages \<Rightarrow> signer \<Rightarrow> byte list \<Rightarrow> (string \<times> string) res" where
  "signPersonalMessage k s bytes =
     rbind (personal_message_bytes bytes) (\<lambda>message.
     rmap (\<lambda>(signature, _). (signature, toBase64 bytes)) (signWithIntent k s message ''PersonalMessage''))"

definition signer_toMySoAddress :: "packages \<Rightarrow> signer \<Rightarrow> string res" where
  "signer_toMySoAddress k s = rbind (sg_publicKey s) (toMySoAddress k)"

definition keypair_signer :: "scheme \<Rightarrow> curve \<Rightarrow> keypair \<Rightarrow> signer" where
  "keypair_signer s c kp = \<lparr>sg_sign = keypair_sign c kp, sg_scheme = s, sg_publicKey = keypair_getPublicKey s kp\<rparr>"

subsection \<open>Derivation paths\<close>

definition quote_char :: char where
  "quote_char = char_of (39 :: nat)"

definition is_digits :: "string \<Rightarrow> bool" where
  "is_digits s \<longleftrightarrow> s \<noteq> [] \<and> list_all is_digit s"

text \<open>\<open>[0-9]+'\<close> and \<open>[0-9]+'+\<close>.\<close>

definition hardened_segment :: "string \<Rightarrow> bool" where
  "hardened_segment s \<longleftrightarrow> s \<noteq> [] \<and> last s = quote_char \<and> is_digits (butlast s)"

definition quoted_segment :: "string \<Rightarrow> bool" where
  "quoted_segment s \<longleftrightarrow> is_digits (takeWhile is_digit s) \<and>
     dropWhile is_digit s \<noteq> [] \<and> list_all (\<lambda>c. c = quote_char) (dropWhile is_digit s)"

definition isValidHardenedPath :: "string \<Rightarrow> bool" where
  "isValidHardenedPath path \<longleftrightarrow>
     (case split_char CHR ''/'' path of
        [m, purpose, coin, account, change, address_index] \<Rightarrow>
          m = ''m'' \<and> purpose = ''44'' @ [quote_char] \<and> coin = ''6976'' @ [quote_char] \<and>
          hardened_segment account \<and> hardened_segment change \<and> quoted_segment address_index
      | _ \<Rightarrow> False)"

definition isValidBIP32Path :: "string \<Rightarrow> bool" where
  "isValidBIP32Path path \<longleftrightarrow>
     (case split_char CHR ''/'' path of
        [m, purpose, coin, account, change, address_index] \<Rightarrow>
          m = ''m'' \<and> purpose \<in> {''54'' @ [quote_char], ''74'' @ [quote_char]} \<and> coin = ''6976'' @ [quote_char] \<and>
          hardened_segment account \<and> is_digits change \<and> is_digits address_index
      | _ \<Rightarrow> False)"

subsection \<open>Keys derived from a seed\<close>

record hd_keys =
  hd_key :: "byte list"
  hd_chainCode :: "byte list"

definition split_digest :: "byte list \<Rightarrow> hd_keys" where
  "split_digest d = \<lparr>hd_key = take 32 d, hd_chainCode = drop 32 d\<rparr>"

definition getMasterKeyFromSeed :: "(byte list \<Rightarrow> byte list \<Rightarrow> byte list) \<Rightarrow> platform \<Rightarrow> string \<Rightarrow> hd_keys res" where
  "getMasterKeyFromSeed hmac p seed = rmap (\<lambda>bs. split_digest (hmac (p_encode p ''ed25519 seed'') bs)) (fromHex seed)"

text \<open>\<open>setUint32(0, index)\<close> writes the index modulo 2^32, the high byte first.\<close>

definition CKDPriv :: "(byte list \<Rightarrow> byte list \<Rightarrow> byte list) \<Rightarrow> hd_keys \<Rightarrow> nat \<Rightarrow> hd_keys" where
  "CKDPriv hmac parent index = split_digest (hmac (hd_chainCode parent) (0 # hd_key parent @ rev (le_bytes 4 index)))"

definition HARDENED_OFFSET :: nat where
  "HARDENED_OFFSET = 2 ^ 31"

definition replaceDerive :: "string \<Rightarrow> string" where
  "replaceDerive val = takeWhile (\<lambda>c. c \<noteq> quote_char) val @ drop 1 (dropWhile (\<lambda>c. c \<noteq> quote_char) val)"

text \<open>The regular expression leaves digits before the quote, so that no segment is \<open>NaN\<close>.\<close>

definition isValidPath :: "string \<Rightarrow> bool" where
  "isValidPath path \<longleftrightarrow>
     (case split_char CHR ''/'' path of
        m # segments \<Rightarrow> m = ''m'' \<and> segments \<noteq> [] \<and> list_all hardened_segment segments
      | [] \<Rightarrow> False)"

definition path_segment :: "string \<Rightarrow> nat" where
  "path_segment s = (case parse_nat 10 (replaceDerive s) of None \<Rightarrow> 0 | Some n \<Rightarrow> nearest_double n)"

definition derivePath :: "(byte list \<Rightarrow> byte list \<Rightarrow> byte list) \<Rightarrow> platform \<Rightarrow> string \<Rightarrow> string \<Rightarrow> hd_keys res" where
  "derivePath hmac p path seed =
     (if \<not> isValidPath path then Inl (Error ''Invalid derivation path'')
      else rmap (\<lambda>master. foldl (\<lambda>parentKeys segment. CKDPriv hmac parentKeys (nearest_double (segment + HARDENED_OFFSET))) master
                  (map path_segment (drop 1 (split_char CHR ''/'' path))))
             (getMasterKeyFromSeed hmac p seed))"

definition DEFAULT_ED25519_DERIVATION_PATH :: string where
  "DEFAULT_ED25519_DERIVATION_PATH = join ''/'' [''m'', ''44'' @ [quote_char], ''6976'' @ [quote_char], ''0'' @ [quote_char],
     ''0'' @ [quote_char], ''0'' @ [quote_char]]"

definition deriveKeypairFromSeed ::
  "(byte list \<Rightarrow> byte list \<Rightarrow> byte list) \<Rightarrow> platform \<Rightarrow> bech32 \<Rightarrow> curve \<Rightarrow> string \<Rightarrow> string option \<Rightarrow> keypair res" where
  "deriveKeypairFromSeed hmac p b c seedHex path =
     (let path = (case path of None \<Rightarrow> DEFAULT_ED25519_DERIVATION_PATH | Some s \<Rightarrow> s) in
      if \<not> isValidHardenedPath path then Inl (Error ''Invalid derivation path'')
      else rbind (derivePath hmac p path seedHex) (\<lambda>keys.
             ed25519_fromSecretKey p b c (SigBytes (hd_key keys)) False))"

definition deriveKeypair ::
  "(byte list \<Rightarrow> byte list \<Rightarrow> byte list) \<Rightarrow> platform \<Rightarrow> bech32 \<Rightarrow> curve \<Rightarrow> (string \<Rightarrow> byte list res) \<Rightarrow> string \<Rightarrow> string option
   \<Rightarrow> keypair res" where
  "deriveKeypair hmac p b c mnemonicToSeed mnemonics path =
     (let path = (case path of None \<Rightarrow> DEFAULT_ED25519_DERIVATION_PATH | Some s \<Rightarrow> s) in
      if \<not> isValidHardenedPath path then Inl (Error ''Invalid derivation path'')
      else rbind (mnemonicToSeed mnemonics) (\<lambda>seed.
           rbind (derivePath hmac p path (toHex seed)) (\<lambda>keys.
             ed25519_fromSecretKey p b c (SigBytes (hd_key keys)) False)))"

text \<open>The keys of a path of \<open>HDKey\<close>, public and private, which may be missing.\<close>

type_synonym hd_derive = "byte list \<Rightarrow> string \<Rightarrow> (byte list option \<times> byte list option) res"

definition DEFAULT_SECP256K1_DERIVATION_PATH :: string where
  "DEFAULT_SECP256K1_DERIVATION_PATH =
     join ''/'' [''m'', ''54'' @ [quote_char], ''6976'' @ [quote_char], ''0'' @ [quote_char], ''0'', ''0'']"

definition secp256k1_deriveKeypair :: "hd_derive \<Rightarrow> (string \<Rightarrow> byte list res) \<Rightarrow> string \<Rightarrow> string option \<Rightarrow> keypair res" where
  "secp256k1_deriveKeypair derive mnemonicToSeed mnemonics path =
     (let path = (case path of None \<Rightarrow> DEFAULT_SECP256K1_DERIVATION_PATH | Some s \<Rightarrow> s) in
      if \<not> isValidBIP32Path path then Inl (Error ''Invalid derivation path'')
      else rbind (mnemonicToSeed mnemonics) (\<lambda>seed. rbind (derive seed path) (\<lambda>keys.
        case keys of
          (Some publicKey, Some privateKey) \<Rightarrow> Inr \<lparr>kp_publicBytes = publicKey, kp_secretKey = privateKey\<rparr>
        | _ \<Rightarrow> Inl (Error ''Invalid key''))))"

definition DEFAULT_SECP256R1_DERIVATION_PATH :: string where
  "DEFAULT_SECP256R1_DERIVATION_PATH =
     join ''/'' [''m'', ''74'' @ [quote_char], ''6976'' @ [quote_char], ''0'' @ [quote_char], ''0'', ''0'']"

definition secp256r1_deriveKeypair ::
  "packages \<Rightarrow> platform \<Rightarrow> bech32 \<Rightarrow> curve \<Rightarrow> hd_derive \<Rightarrow> (string \<Rightarrow> byte list res) \<Rightarrow> string \<Rightarrow> string option \<Rightarrow> keypair res" where
  "secp256r1_deriveKeypair k p b c derive mnemonicToSeed mnemonics path =
     (let path = (case path of None \<Rightarrow> DEFAULT_SECP256R1_DERIVATION_PATH | Some s \<Rightarrow> s) in
      if \<not> isValidBIP32Path path then Inl (Error ''Invalid derivation path'')
      else rbind (mnemonicToSeed mnemonics) (\<lambda>seed. rbind (derive seed path) (\<lambda>(_, privateKey).
        case privateKey of
          None \<Rightarrow> Inl (TypeError ''expected Uint8Array'')
        | Some privateKey \<Rightarrow> secp256r1_fromSecretKey k p b c (SigBytes privateKey) False)))"

subsection \<open>Passkeys\<close>

record authenticator_response =
  ar_authenticatorData :: "byte list"
  ar_clientDataJSON :: "byte list"
  ar_signature :: "byte list"

text \<open>Noble's signatures as pairs of \<open>r\<close> and \<open>s\<close>, and its points as bytes.\<close>

record p256 =
  sig_fromDer :: "byte list \<Rightarrow> (int \<times> int) res"
  hasHighS :: "int \<times> int \<Rightarrow> bool"
  Fn_neg :: "int \<Rightarrow> int"
  sig_toCompact :: "int \<times> int \<Rightarrow> byte list"
  point_compress :: "byte list \<Rightarrow> byte list res"
  recoverPublicKey :: "int \<times> int \<Rightarrow> nat \<Rightarrow> byte list \<Rightarrow> byte list res"

record passkey_provider =
  pr_create :: "byte list option res"
  pr_get :: "byte list \<Rightarrow> authenticator_response res"

definition PASSKEY_UNCOMPRESSED_PUBLIC_KEY_SIZE :: nat where
  "PASSKEY_UNCOMPRESSED_PUBLIC_KEY_SIZE = 65"

definition SECP256R1_SPKI_HEADER :: "byte list" where
  "SECP256R1_SPKI_HEADER =
     [0x30, 0x59, 0x30, 0x13, 0x06, 0x07, 0x2a, 0x86, 0x48, 0xce, 0x3d, 0x02, 0x01, 0x06, 0x08, 0x2a, 0x86, 0x48, 0xce, 0x3d,
      0x03, 0x01, 0x07, 0x03, 0x42, 0x00]"

definition parseDerSPKI :: "byte list \<Rightarrow> byte list res" where
  "parseDerSPKI derBytes =
     (if length derBytes \<noteq> length SECP256R1_SPKI_HEADER + PASSKEY_UNCOMPRESSED_PUBLIC_KEY_SIZE
      then Inl (Error ''Invalid DER length'')
      else if \<not> list_all (\<lambda>i. derBytes ! i = SECP256R1_SPKI_HEADER ! i) [0..<length SECP256R1_SPKI_HEADER]
      then Inl (Error ''Invalid spki header'')
      else if derBytes ! length SECP256R1_SPKI_HEADER \<noteq> 0x04 then Inl (Error ''Invalid point marker'')
      else Inr (drop (length SECP256R1_SPKI_HEADER) derBytes))"

text \<open>\<open>getPasskeyInstance\<close>: the compressed public key of a new passkey.\<close>

definition passkey_create :: "p256 \<Rightarrow> passkey_provider \<Rightarrow> byte list res" where
  "passkey_create c provider =
     rbind (pr_create provider) (\<lambda>der.
       case der of
         None \<Rightarrow> Inl (Error ''Invalid credential create response'')
       | Some derSPKI \<Rightarrow> rbind (parseDerSPKI derSPKI) (point_compress c))"

definition normalize_s :: "p256 \<Rightarrow> int \<times> int \<Rightarrow> int \<times> int" where
  "normalize_s c sig = (if hasHighS c sig then (fst sig, Fn_neg c (snd sig)) else sig)"

definition passkey_sign :: "platform \<Rightarrow> p256 \<Rightarrow> passkey_provider \<Rightarrow> byte list \<Rightarrow> byte list \<Rightarrow> byte list res" where
  "passkey_sign p c provider publicKey data =
     rbind (pr_get provider data) (\<lambda>response.
     rbind (sig_fromDer c (ar_signature response)) (\<lambda>sig.
       let normalized = sig_toCompact c (normalize_s c sig) in
       if length normalized \<noteq> PASSKEY_SIGNATURE_SIZE \<or> length publicKey \<noteq> PASSKEY_PUBLIC_KEY_SIZE
       then Inl (Error ''Invalid signature or public key length'')
       else type_serialize (PasskeyAuthenticator p)
              (JObj [(''authenticatorData'', JBytes (ar_authenticatorData response)),
                     (''clientDataJson'', JStr (p_decode p (ar_clientDataJSON response))),
                     (''userSignature'', JBytes (SIGNATURE_SCHEME_TO_FLAG Secp256r1 # normalized @ publicKey))]) no_options))"

definition passkey_signWithIntent ::
  "packages \<Rightarrow> platform \<Rightarrow> p256 \<Rightarrow> passkey_provider \<Rightarrow> byte list \<Rightarrow> byte list \<Rightarrow> string \<Rightarrow> (string \<times> string) res" where
  "passkey_signWithIntent k p c provider publicKey bytes intent =
     rbind (intent_digest k intent bytes) (\<lambda>digest.
     rmap (\<lambda>signature. (toBase64 (SIGNATURE_SCHEME_TO_FLAG Passkey # signature), toBase64 bytes))
       (passkey_sign p c provider publicKey digest))"

definition messageFromAssertionResponse :: "packages \<Rightarrow> authenticator_response \<Rightarrow> byte list" where
  "messageFromAssertionResponse k response = ar_authenticatorData response @ sha256 k (ar_clientDataJSON response)"

text \<open>The loop over the recovery bits skips those that throw.\<close>

definition signAndRecover :: "packages \<Rightarrow> p256 \<Rightarrow> passkey_provider \<Rightarrow> byte list \<Rightarrow> key list res" where
  "signAndRecover k c provider message =
     rbind (pr_get provider message) (\<lambda>response.
     rmap (\<lambda>sig. let msgHash = sha256 k (messageFromAssertionResponse k response) in
         concat (map (\<lambda>i. case rbind (recoverPublicKey c sig i msgHash) (\<lambda>bs. new_PasskeyPublicKey (JBytes bs)) of
                          Inl _ \<Rightarrow> [] | Inr pk \<Rightarrow> [pk]) [0..<4]))
       (sig_fromDer c (ar_signature response)))"

definition findCommonPublicKey :: "key list \<Rightarrow> key list \<Rightarrow> key res" where
  "findCommonPublicKey arr1 arr2 =
     (case concat (map (\<lambda>pubkey1. concat (map (\<lambda>pubkey2. if key_equals pubkey1 pubkey2 then [pubkey1] else []) arr2)) arr1) of
        [pk] \<Rightarrow> Inr pk
      | _ \<Rightarrow> Inl (Error ''No unique public key found''))"

end
