(* ===== verification/Keypair_Props.thy ===== *)
theory Keypair_Props
  imports Keypairs
begin

text \<open>
  What a signer signs, its public key accepts; private keys in text form; derivation paths.
\<close>

subsection \<open>Keypairs\<close>

definition keypair_key_of :: "scheme \<Rightarrow> keypair \<Rightarrow> key" where
  "keypair_key_of s kp =
     (case s of Secp256k1 \<Rightarrow> Secp256k1PublicKey (kp_publicBytes kp)
      | Secp256r1 \<Rightarrow> Secp256r1PublicKey (kp_publicBytes kp)
      | _ \<Rightarrow> Ed25519PublicKey (kp_publicBytes kp))"

text \<open>The public bytes have the size of the scheme, and the curve accepts what the secret key signs.\<close>

definition keypair_ok :: "packages \<Rightarrow> curve \<Rightarrow> scheme \<Rightarrow> keypair \<Rightarrow> bool" where
  "keypair_ok k c s kp \<longleftrightarrow> s \<in> {ED25519, Secp256k1, Secp256r1} \<and>
     SIGNATURE_SCHEME_TO_SIZE s = Some (length (kp_publicBytes kp)) \<and>
     (\<forall>m signature. keypair_sign c kp m = Inr signature \<longrightarrow> curve_verify k (keypair_key_of s kp) signature m = Inr True)"

lemma keypair_ok_key:
  assumes "keypair_ok k c s kp"
  shows "keypair_getPublicKey s kp = Inr (keypair_key_of s kp)" "keypair_key (keypair_key_of s kp)"
    "key_scheme (keypair_key_of s kp) = s" "toMySoAddress k (keypair_key_of s kp) =
      Inr (address_of_bytes k (toMySoBytes (keypair_key_of s kp)))"
  using assms
  by (auto simp: keypair_ok_def keypair_getPublicKey_def keypair_key_of_def ed25519.new_bytes secp256k1.new_bytes
      secp256r1.new_bytes)

lemma signWithIntent_keypair:
  assumes "keypair_ok k c s kp" "signWithIntent k (keypair_signer s c kp) bytes intent = Inr (t, b)"
  obtains digest signature where "intent_digest k intent bytes = Inr digest" "keypair_sign c kp digest = Inr signature"
    "t = toSerializedSignature signature s (toRawBytes (keypair_key_of s kp))" "b = toBase64 bytes"
  using assms(2) keypair_ok_key(1) [OF assms(1)] that
  by (auto simp: signWithIntent_def keypair_signer_def res_simps)

text \<open>C20: What a keypair signs, transactions and personal messages, is verified under its address, and the verified
  key is the keypair's.\<close>

theorem keypair_sign_verify:
  assumes "keypair_ok k c s kp" "length bytes \<le> MAX_SAFE_INTEGER"
    and "signer_toMySoAddress k (keypair_signer s c kp) = Inr address"
  shows "(\<forall>t b. signTransaction k (keypair_signer s c kp) bytes = Inr (t, b) \<longrightarrow>
      b = toBase64 bytes \<and>
      verifyTransactionSignature k p bytes t client (Some address) = Inr (SingleKey (keypair_key_of s kp))) \<and>
    (\<forall>t b. signPersonalMessage k (keypair_signer s c kp) bytes = Inr (t, b) \<longrightarrow>
      b = toBase64 bytes \<and>
      verifyPersonalMessageSignature k p bytes t client (Some address) = Inr (SingleKey (keypair_key_of s kp)))"
proof -
  let ?key = "keypair_key_of s kp"
  note key = keypair_ok_key [OF assms(1)]
  have fits: "address_fits k ?key (Some address)"
    using assms(3) key by (auto simp: signer_toMySoAddress_def keypair_signer_def address_fits_def)
  have valid: "curve_verify k ?key signature m = Inr True" if "keypair_sign c kp m = Inr signature" for m signature
    using assms(1) that by (auto simp: keypair_ok_def)
  have tx: "verifyTransactionSignature k p bytes t client (Some address) = Inr (SingleKey ?key) \<and> b = toBase64 bytes"
    if "signTransaction k (keypair_signer s c kp) bytes = Inr (t, b)" for t b
  proof -
    from signWithIntent_keypair [OF assms(1) that [unfolded signTransaction_def]] obtain digest signature where
      "intent_digest k ''TransactionData'' bytes = Inr digest" "keypair_sign c kp digest = Inr signature"
      "t = toSerializedSignature signature s (toRawBytes ?key)" "b = toBase64 bytes" by metis
    moreover from this(1) have "digest = blake2b k ([0, 0, 0] @ bytes)" by (simp add: transaction_digest)
    ultimately show ?thesis
      using keypair_accepts [OF key(2) assms(2), of t signature] fits valid key(3) by simp
  qed
  have pm: "verifyPersonalMessageSignature k p bytes t client (Some address) = Inr (SingleKey ?key) \<and> b = toBase64 bytes"
    if pm: "signPersonalMessage k (keypair_signer s c kp) bytes = Inr (t, b)" for t b
  proof -
    obtain m b' where m: "personal_message_bytes bytes = Inr m" "b = toBase64 bytes"
      "signWithIntent k (keypair_signer s c kp) m ''PersonalMessage'' = Inr (t, b')"
      using pm by (auto simp: signPersonalMessage_def res_simps)
    from signWithIntent_keypair [OF assms(1) m(3)] obtain digest signature where
      "intent_digest k ''PersonalMessage'' m = Inr digest" "keypair_sign c kp digest = Inr signature"
      "t = toSerializedSignature signature s (toRawBytes ?key)" by metis
    moreover from this(1) have "Inr digest = Inr (blake2b k ([3, 0, 0] @ ulebEncode (int (length bytes)) @ bytes))"
      using personal_digest [OF assms(2), of k Inr] m(1) by simp
    ultimately show ?thesis
      using keypair_accepts [OF key(2) assms(2), of t signature] fits valid key(3) m(2) by simp
  qed
  show ?thesis using tx pm by blast
qed

definition example_curve :: curve where
  "example_curve = \<lparr>getPublicKey = (\<lambda>sk. Inr sk), curve_sign = (\<lambda>m sk. Inr (m @ sk)),
     validation_sign = (\<lambda>m sk. Inr (m @ sk)), validation_verify = (\<lambda>sig m pk. Inr (sig = m @ pk))\<rparr>"

definition example_keypair :: keypair where
  "example_keypair = \<lparr>kp_publicBytes = replicate 32 1, kp_secretKey = replicate 32 1\<rparr>"

lemma example_keypair_ok: "keypair_ok example_packages example_curve ED25519 example_keypair"
  by (simp add: keypair_ok_def example_keypair_def keypair_sign_def example_curve_def keypair_key_of_def example_packages_def)

lemma keypair_sign_verify_witness:
  "\<exists>t address. signTransaction example_packages (keypair_signer ED25519 example_curve example_keypair) [7] = Inr (t, toBase64 [7]) \<and>
     verifyTransactionSignature example_packages example_platform [7] t None (Some address) =
       Inr (SingleKey (Ed25519PublicKey (replicate 32 1)))"
proof -
  let ?s = "keypair_signer ED25519 example_curve example_keypair"
  note key = keypair_ok_key [OF example_keypair_ok]
  obtain a where a: "signer_toMySoAddress example_packages ?s = Inr a"
    using key by (simp add: signer_toMySoAddress_def keypair_signer_def)
  have "\<exists>t. signTransaction example_packages ?s [7] = Inr (t, toBase64 [7])"
    using key(1) by (simp add: signTransaction_def signWithIntent_def transaction_digest keypair_signer_def keypair_sign_def
        example_curve_def)
  then obtain t where t: "signTransaction example_packages ?s [7] = Inr (t, toBase64 [7])" ..
  show ?thesis
    using keypair_sign_verify [OF example_keypair_ok _ a, of "[7]" example_platform None] t
    by (auto simp: MAX_SAFE_INTEGER_def keypair_key_of_def example_keypair_def)
qed

subsection \<open>Private keys\<close>

definition bech32_laws :: "bech32 \<Rightarrow> bool" where
  "bech32_laws b \<longleftrightarrow> (\<forall>prefix words t. bech32_encode b prefix words = Inr t \<longrightarrow> bech32_decode b t = Inr (prefix, words)) \<and>
     (\<forall>bs. bech32_fromWords b (bech32_toWords b bs) = Inr bs)"

lemma private_key_text:
  assumes "bech32_laws b" "encodeMySoPrivateKey b key s = Inr t"
  shows "decodeMySoPrivateKey b t = Inr (Some s, key) \<and> length key = 32"
  using assms by (auto simp: bech32_laws_def encodeMySoPrivateKey_def decodeMySoPrivateKey_def PRIVATE_KEY_SIZE_def
      split: if_split_asm)

text \<open>A keypair that was made of a secret key is made again of the text of its secret key, under its own scheme; under
  another scheme the text is rejected.\<close>

theorem secret_key_roundtrip:
  assumes "bech32_laws b" "keypair_getSecretKey b s kp = Inr t"
  shows "(s = ED25519 \<longrightarrow> ed25519_fromSecretKey p b c (SigBytes sk) skip = Inr kp \<longrightarrow>
      ed25519_fromSecretKey p b c (SigText t) skip = Inr kp) \<and>
    (s = Secp256k1 \<longrightarrow> secp256k1_fromSecretKey k p b c (SigBytes sk) skip = Inr kp \<longrightarrow>
      secp256k1_fromSecretKey k p b c (SigText t) skip = Inr kp) \<and>
    (s = Secp256r1 \<longrightarrow> secp256r1_fromSecretKey k p b c (SigBytes sk) skip = Inr kp \<longrightarrow>
      secp256r1_fromSecretKey k p b c (SigText t) skip = Inr kp) \<and>
    (\<forall>s'. s' \<noteq> s \<longrightarrow> secret_bytes b s' (SigText t) = Inl (Error (''Expected a '' @ scheme_name s' @ '' keypair'')))"
proof -
  let ?sk = "if s = ED25519 then take PRIVATE_KEY_SIZE (kp_secretKey kp) else kp_secretKey kp"
  have "decodeMySoPrivateKey b t = Inr (Some s, ?sk)"
    using private_key_text [OF assms(1) assms(2) [unfolded keypair_getSecretKey_def]] by simp
  then have secret: "secret_bytes b s' (SigText t) =
      (if s' = s then Inr ?sk else Inl (Error (''Expected a '' @ scheme_name s' @ '' keypair'')))" for s'
    by (simp add: secret_bytes_def)
  show ?thesis
  proof (intro conjI impI)
    assume s: "s = ED25519" and e: "ed25519_fromSecretKey p b c (SigBytes sk) skip = Inr kp"
    then have "length sk = 32" "kp_secretKey kp = sk"
      by (auto simp: ed25519_fromSecretKey_def secret_bytes_def PRIVATE_KEY_SIZE_def new_Ed25519Keypair_def res_simps
          split: if_split_asm)
    then show "ed25519_fromSecretKey p b c (SigText t) skip = Inr kp"
      using e s secret [of s] by (simp add: ed25519_fromSecretKey_def secret_bytes_def PRIVATE_KEY_SIZE_def)
  next
    assume s: "s = Secp256k1" and e: "secp256k1_fromSecretKey k p b c (SigBytes sk) skip = Inr kp"
    then have "kp_secretKey kp = sk" by (auto simp: secp256k1_fromSecretKey_def secret_bytes_def res_simps)
    then show "secp256k1_fromSecretKey k p b c (SigText t) skip = Inr kp"
      using e s secret [of s] by (simp add: secp256k1_fromSecretKey_def secret_bytes_def)
  next
    assume s: "s = Secp256r1" and e: "secp256r1_fromSecretKey k p b c (SigBytes sk) skip = Inr kp"
    then have "kp_secretKey kp = sk" by (auto simp: secp256r1_fromSecretKey_def secret_bytes_def res_simps)
    then show "secp256r1_fromSecretKey k p b c (SigText t) skip = Inr kp"
      using e s secret [of s] by (simp add: secp256r1_fromSecretKey_def secret_bytes_def)
  qed (use secret in auto)
qed

text \<open>A codec whose words are the bytes themselves.\<close>

definition example_bech32 :: bech32 where
  "example_bech32 = \<lparr>bech32_decode = (\<lambda>t. case t of [] \<Rightarrow> Inl (Error ''empty'')
       | n # cs \<Rightarrow> Inr (take (of_char n) cs, map of_char (drop (of_char n) cs))),
     bech32_fromWords = (\<lambda>ws. Inr (map word_of_nat ws)), bech32_toWords = map unat,
     bech32_encode = (\<lambda>prefix ws. if length prefix < 256 \<and> list_all (\<lambda>w. w < 256) ws
       then Inr (char_of (length prefix) # prefix @ map char_of ws) else Inl (Error ''invalid''))\<rparr>"

lemma example_bech32_laws: "bech32_laws example_bech32"
proof -
  have "map (of_char \<circ> char_of) ws = ws" if "list_all (\<lambda>w. w < 256) ws" for ws :: "nat list"
    using that by (induction ws) simp_all
  then show ?thesis by (auto simp: bech32_laws_def example_bech32_def comp_def)
qed

lemma secret_key_roundtrip_witness:
  "\<exists>t. keypair_getSecretKey example_bech32 ED25519 example_keypair = Inr t \<and>
     ed25519_fromSecretKey example_platform example_bech32 example_curve (SigText t) False = Inr example_keypair"
proof -
  have "list_all (\<lambda>w. w < 256) (map unat (bs :: byte list))" for bs by (simp add: list_all_iff)
  then obtain t where t: "keypair_getSecretKey example_bech32 ED25519 example_keypair = Inr t"
    by (simp add: keypair_getSecretKey_def encodeMySoPrivateKey_def example_keypair_def PRIVATE_KEY_SIZE_def
        example_bech32_def MYSO_PRIVATE_KEY_PREFIX_def del: replicate.simps map_replicate)
  have "ed25519_fromSecretKey example_platform example_bech32 example_curve (SigBytes (replicate 32 1)) False = Inr example_keypair"
    by (simp add: ed25519_fromSecretKey_def secret_bytes_def PRIVATE_KEY_SIZE_def example_curve_def validate_secret_def Let_def
        new_Ed25519Keypair_def example_keypair_def)
  with secret_key_roundtrip [OF example_bech32_laws t, of example_platform example_curve "replicate 32 1" False example_packages] t
  show ?thesis by blast
qed

subsection \<open>Derivation paths\<close>

text \<open>The path of hardened segments.\<close>

definition path_text :: "nat list \<Rightarrow> string" where
  "path_text ns = join ''/'' (''m'' # map (\<lambda>n. show_base 10 n @ [quote_char]) ns)"

lemma decimal_digits: "list_all (\<lambda>d. is_digit (digit_char d)) [0..<10]"
  by code_simp

lemma digit_of_show: "c \<in> set (show_base 10 n) \<Longrightarrow> is_digit c"
  using show_base_chars [of 10 c n] decimal_digits by (auto simp: list_all_iff)

lemma show_base_digits: "is_digits (show_base 10 n)"
  using digit_of_show by (auto simp: is_digits_def list_all_iff)

lemma quote_not_digit: "\<not> is_digit quote_char" "quote_char \<noteq> CHR ''/''"
  by code_simp+

lemma hardened_show: "hardened_segment (show_base 10 n @ [quote_char])"
  using show_base_digits by (simp add: hardened_segment_def)

lemma segment_of_show: "n < 2 ^ 53 \<Longrightarrow> path_segment (show_base 10 n @ [quote_char]) = n"
proof -
  assume n: "n < 2 ^ 53"
  have other: "c \<noteq> quote_char" if "c \<in> set (show_base 10 n)" for c
    using digit_of_show [OF that] quote_not_digit by auto
  have "takeWhile (\<lambda>c. c \<noteq> quote_char) (show_base 10 n @ [quote_char]) = show_base 10 n"
    "dropWhile (\<lambda>c. c \<noteq> quote_char) (show_base 10 n @ [quote_char]) = [quote_char]"
    using other by (simp_all add: takeWhile_append2 dropWhile_append2)
  then show ?thesis using n by (simp add: path_segment_def replaceDerive_def nearest_double_small)
qed

lemma split_char_no: "c \<notin> set x \<Longrightarrow> split_char c x = [x]"
  by (induction x) auto

lemma split_char_sep: "c \<notin> set x \<Longrightarrow> split_char c (x @ c # rest) = x # split_char c rest"
  by (induction x) auto

lemma split_char_join: "ps \<noteq> [] \<Longrightarrow> \<forall>x\<in>set ps. c \<notin> set x \<Longrightarrow> split_char c (join [c] ps) = ps"
proof (induction ps)
  case (Cons x ps)
  then show ?case by (cases ps) (simp_all add: join_Cons split_char_no split_char_sep)
qed simp

lemma slash_not_digit: "\<not> is_digit CHR ''/''"
  by (simp add: is_digit_def)

lemma split_path: "split_char CHR ''/'' (path_text ns) = ''m'' # map (\<lambda>n. show_base 10 n @ [quote_char]) ns"
  unfolding path_text_def
  by (rule split_char_join) (use digit_of_show slash_not_digit quote_not_digit in \<open>fastforce simp: list_all_iff\<close>)+

lemma path_valid: "ns \<noteq> [] \<Longrightarrow> isValidPath (path_text ns)"
  by (simp add: isValidPath_def split_path list_all_iff hardened_show)

lemma path_segments: "list_all (\<lambda>n. n < 2 ^ 53) ns \<Longrightarrow> map path_segment (drop 1 (split_char CHR ''/'' (path_text ns))) = ns"
  by (induction ns) (simp_all add: split_path segment_of_show comp_def)

lemma CKDPriv_mod: "CKDPriv hmac parent (index mod 2 ^ 32) = CKDPriv hmac parent index"
proof -
  have "le_bytes 4 (index mod 2 ^ 32) = le_bytes 4 index"
    by (rule le_val_inj) (simp_all add: le_val_le_bytes)
  then show ?thesis by (simp add: CKDPriv_def)
qed

text \<open>C24: A hardened path derives the keys of its numbers step by step, each with 2^31 added; an index is taken modulo 2^32,
  so that a number of 2^31 or more derives the key of a path that is not hardened.\<close>

theorem derive_path_steps:
  assumes "ns \<noteq> []" "list_all (\<lambda>n. n + 2 ^ 31 < 2 ^ 53) ns"
  shows "derivePath hmac p (path_text ns) seed =
      rmap (\<lambda>master. foldl (\<lambda>parent n. CKDPriv hmac parent ((n + 2 ^ 31) mod 2 ^ 32)) master ns) (getMasterKeyFromSeed hmac p seed)"
proof -
  have "list_all (\<lambda>n. n < 2 ^ 53) ns" using assms(2) by (auto simp: list_all_iff)
  then have segments: "map path_segment (drop 1 (split_char CHR ''/'' (path_text ns))) = ns" by (rule path_segments)
  have "foldl (\<lambda>parent n. CKDPriv hmac parent (nearest_double (n + HARDENED_OFFSET))) master ns =
      foldl (\<lambda>parent n. CKDPriv hmac parent ((n + 2 ^ 31) mod 2 ^ 32)) master ns" for master
    by (rule foldl_cong) (use assms(2) in \<open>auto simp: list_all_iff nearest_double_small HARDENED_OFFSET_def CKDPriv_mod
      simp del: power_numeral\<close>)
  then show ?thesis using path_valid [OF assms(1)] segments by (simp only: derivePath_def if_True not_False_eq_True) simp
qed

lemma derive_path_steps_witness:
  "derivePath (\<lambda>key data. take 64 (key @ data)) example_platform (path_text [44, 6976, 2147483648]) ''00'' =
    rmap (\<lambda>master. foldl (\<lambda>parent n. CKDPriv (\<lambda>key data. take 64 (key @ data)) parent ((n + 2 ^ 31) mod 2 ^ 32)) master
        [44, 6976, 2147483648])
      (getMasterKeyFromSeed (\<lambda>key data. take 64 (key @ data)) example_platform ''00'')"
  by (rule derive_path_steps) simp_all

text \<open>The check of a path lets more quotes through at its end, which the derivation rejects, and the paths of secp256r1 for
  both curves.\<close>

lemma hardened_path_quotes:
  "isValidHardenedPath (DEFAULT_ED25519_DERIVATION_PATH @ [quote_char])"
  "derivePath hmac p (DEFAULT_ED25519_DERIVATION_PATH @ [quote_char]) seed = Inl (Error ''Invalid derivation path'')"
proof -
  have "\<not> isValidPath (DEFAULT_ED25519_DERIVATION_PATH @ [quote_char])" by code_simp
  then show "derivePath hmac p (DEFAULT_ED25519_DERIVATION_PATH @ [quote_char]) seed = Inl (Error ''Invalid derivation path'')"
    by (simp add: derivePath_def)
qed code_simp

lemma bip32_path_purposes:
  "isValidBIP32Path DEFAULT_SECP256K1_DERIVATION_PATH" "isValidBIP32Path DEFAULT_SECP256R1_DERIVATION_PATH"
  "isValidHardenedPath DEFAULT_ED25519_DERIVATION_PATH"
  by code_simp+

subsection \<open>Passkeys\<close>

text \<open>An authenticator that answers a challenge: its client data are a text that names the challenge in base64url, and
  its signature, with a low \<open>s\<close>, is one the curve accepts over the data the verifier puts together.\<close>

definition passkey_answers ::
  "packages \<Rightarrow> platform \<Rightarrow> p256 \<Rightarrow> passkey_provider \<Rightarrow> byte list \<Rightarrow> byte list \<Rightarrow> bool" where
  "passkey_answers k p c provider pk challenge \<longleftrightarrow>
     (\<exists>r sig client ch. pr_get provider challenge = Inr r \<and> sig_fromDer c (ar_signature r) = Inr sig \<and>
        length (sig_toCompact c (normalize_s c sig)) = PASSKEY_SIGNATURE_SIZE \<and>
        length (ar_authenticatorData r) \<le> MAX_SAFE_INTEGER \<and>
        string_ok p (p_decode p (ar_clientDataJSON r)) \<and> p_encode p (p_decode p (ar_clientDataJSON r)) = ar_clientDataJSON r \<and>
        json_parse k (p_decode p (ar_clientDataJSON r)) = Inr client \<and>
        get_prop client ''type'' = Inr (JStr ''webauthn.get'') \<and> get_prop client ''challenge'' = Inr (JStr ch) \<and>
        fromBase64 (map url_char ch) = Inr challenge \<and>
        secp256r1_verify k (sig_toCompact c (normalize_s c sig)) (messageFromAssertionResponse k r) pk = Inr True)"

definition passkey_value :: "byte list \<Rightarrow> string \<Rightarrow> byte list \<Rightarrow> jsval" where
  "passkey_value ad client us =
     JObj [(''authenticatorData'', JBytes ad), (''clientDataJson'', JStr client), (''userSignature'', JBytes us)]"

lemma carries_PasskeyAuthenticator:
  "length ad \<le> MAX_SAFE_INTEGER \<Longrightarrow> string_ok p client \<Longrightarrow> length us \<le> MAX_SAFE_INTEGER \<Longrightarrow>
   carries (PasskeyAuthenticator p) (passkey_value ad client us) (passkey_value ad client us)"
  unfolding PasskeyAuthenticator_def passkey_value_def
  by (rule carries_struct) (simp_all add: get_prop_def carries_byteVector carries_string)

definition passkey_parsed_of :: "byte list \<Rightarrow> byte list \<Rightarrow> string \<Rightarrow> byte list \<Rightarrow> passkey_parsed" where
  "passkey_parsed_of bytes ad client us =
     \<lparr>pp_serialized = toBase64 bytes, pp_signature = bytes, pp_authenticatorData = ad, pp_clientDataJson = client,
      pp_userSignature = us, pp_publicKey = drop (1 + PASSKEY_SIGNATURE_SIZE) us\<rparr>"

lemma passkey_serialized:
  assumes "length ad \<le> MAX_SAFE_INTEGER" "string_ok p client" "length us \<le> MAX_SAFE_INTEGER"
  obtains bs where "type_serialize (PasskeyAuthenticator p) (passkey_value ad client us) no_options = Inr bs"
    "parseSerializedPasskeySignature p (SigText (toBase64 (6 # bs))) = Inr (passkey_parsed_of (6 # bs) ad client us)"
proof -
  from carries_parse [OF carries_PasskeyAuthenticator [OF assms]] obtain bs where
    w: "type_serialize (PasskeyAuthenticator p) (passkey_value ad client us) no_options = Inr bs" and
    r: "\<And>rest. type_parse (PasskeyAuthenticator p) (uint8array_of (bs @ rest)) = Inr (passkey_value ad client us)" by blast
  have "parseSerializedPasskeySignature p (SigText (toBase64 (6 # bs))) = Inr (passkey_parsed_of (6 # bs) ad client us)"
    using r [of "[]"]
    by (simp add: parseSerializedPasskeySignature_def fromBase64_toBase64 passkey_value_def get_prop_def js_text_def
        passkey_parsed_of_def)
  with w show thesis by (rule that)
qed

lemma passkey_signed:
  assumes "passkey_answers k p c provider pk challenge" "length pk = PASSKEY_PUBLIC_KEY_SIZE"
  obtains bs q where "passkey_sign p c provider pk challenge = Inr bs"
    "parseSerializedSignature k p (toBase64 (6 # bs)) = Inr (PasskeyParsed q)"
    "pp_publicKey q = pk" "pp_serialized q = toBase64 (6 # bs)"
    "passkey_verify k p pk challenge (SigText (toBase64 (6 # bs))) = Inr True"
proof -
  from assms(1) obtain r sig client ch where
    get: "pr_get provider challenge = Inr r" "sig_fromDer c (ar_signature r) = Inr sig"
    and len: "length (sig_toCompact c (normalize_s c sig)) = PASSKEY_SIGNATURE_SIZE"
    and ad: "length (ar_authenticatorData r) \<le> MAX_SAFE_INTEGER"
    and cd: "string_ok p (p_decode p (ar_clientDataJSON r))" "p_encode p (p_decode p (ar_clientDataJSON r)) = ar_clientDataJSON r"
    and json: "json_parse k (p_decode p (ar_clientDataJSON r)) = Inr client"
      "get_prop client ''type'' = Inr (JStr ''webauthn.get'')" "get_prop client ''challenge'' = Inr (JStr ch)"
      "fromBase64 (map url_char ch) = Inr challenge"
    and valid: "secp256r1_verify k (sig_toCompact c (normalize_s c sig)) (messageFromAssertionResponse k r) pk = Inr True"
    unfolding passkey_answers_def by blast
  define sg where "sg = sig_toCompact c (normalize_s c sig)"
  have us: "length (2 # sg @ pk) \<le> MAX_SAFE_INTEGER"
    using len assms(2) by (simp add: sg_def PASSKEY_SIGNATURE_SIZE_def PASSKEY_PUBLIC_KEY_SIZE_def MAX_SAFE_INTEGER_def)
  obtain bs where bs: "type_serialize (PasskeyAuthenticator p)
      (passkey_value (ar_authenticatorData r) (p_decode p (ar_clientDataJSON r)) (2 # sg @ pk)) no_options = Inr bs"
    and parsed: "parseSerializedPasskeySignature p (SigText (toBase64 (6 # bs))) =
      Inr (passkey_parsed_of (6 # bs) (ar_authenticatorData r) (p_decode p (ar_clientDataJSON r)) (2 # sg @ pk))"
    using passkey_serialized [OF ad cd(1) us] by blast
  show thesis
  proof (rule that)
    show "passkey_sign p c provider pk challenge = Inr bs"
      using get len assms(2) bs by (simp add: passkey_sign_def Let_def passkey_value_def sg_def)
    show "parseSerializedSignature k p (toBase64 (6 # bs)) = Inr (PasskeyParsed
        (passkey_parsed_of (6 # bs) (ar_authenticatorData r) (p_decode p (ar_clientDataJSON r)) (2 # sg @ pk)))"
      using parsed scheme_of_flag [of Passkey bs] by (simp add: parseSerializedSignature_def fromBase64_toBase64)
    show "passkey_verify k p pk challenge (SigText (toBase64 (6 # bs))) = Inr True"
      using json valid cd(2) len
      by (simp add: passkey_verify_def parsed passkey_parsed_of_def challenge_bytes_def js_text_def sg_def
          messageFromAssertionResponse_def Let_def)
  qed (use len in \<open>simp_all add: passkey_parsed_of_def sg_def\<close>)
qed

lemma passkey_from_raw:
  assumes "length pk = PASSKEY_PUBLIC_KEY_SIZE"
  shows "publicKeyFromRawBytes k client (Some (address_of_bytes k (toMySoBytes (PasskeyPublicKey pk)))) (Some Passkey) pk =
    Inr (SingleKey (PasskeyPublicKey pk))"
  using passkey.from_raw_address [OF assms] by simp

text \<open>C21: What a passkey signs for a transaction, when its authenticator answers the challenge, is verified under the
  passkey's address, and the verified key is the passkey's.\<close>

theorem passkey_sign_verify:
  assumes "passkey_answers k p c provider pk (blake2b k ([0, 0, 0] @ bytes))" "length pk = PASSKEY_PUBLIC_KEY_SIZE"
  shows "\<exists>t. passkey_signWithIntent k p c provider pk bytes ''TransactionData'' = Inr (t, toBase64 bytes) \<and>
    verifyTransactionSignature k p bytes t client (Some (address_of_bytes k (toMySoBytes (PasskeyPublicKey pk)))) =
      Inr (SingleKey (PasskeyPublicKey pk))"
proof -
  obtain bs q where signed: "passkey_sign p c provider pk (blake2b k ([0, 0, 0] @ bytes)) = Inr bs"
    and parsed: "parseSerializedSignature k p (toBase64 (6 # bs)) = Inr (PasskeyParsed q)"
      "pp_publicKey q = pk" "pp_serialized q = toBase64 (6 # bs)"
    and valid: "passkey_verify k p pk (blake2b k ([0, 0, 0] @ bytes)) (SigText (toBase64 (6 # bs))) = Inr True"
    using passkey_signed [OF assms] by blast
  have "passkey_signWithIntent k p c provider pk bytes ''TransactionData'' = Inr (toBase64 (6 # bs), toBase64 bytes)"
    using signed by (simp add: passkey_signWithIntent_def transaction_digest)
  moreover have "parseSignature k p client (Some (address_of_bytes k (toMySoBytes (PasskeyPublicKey pk)))) (toBase64 (6 # bs)) =
      Inr (SingleKey (PasskeyPublicKey pk), toBase64 (6 # bs))"
    using parsed passkey_from_raw [OF assms(2)] by (simp add: parseSignature_def)
  ultimately show ?thesis
    using valid
    by (auto simp: verifyTransactionSignature_def verify_with_def verifyWithIntent_def transaction_digest
        split: list.splits)
qed

text \<open>An authenticator whose client data are the challenge itself in base64, and packages that read them so.\<close>

definition passkey_packages :: packages where
  "passkey_packages = example_packages\<lparr>sha256 := take 31,
     json_parse := (\<lambda>s. Inr (JObj [(''type'', JStr ''webauthn.get''), (''challenge'', JStr s)]))\<rparr>"

definition example_challenge :: "byte list" where
  "example_challenge = [0, 0, 0, 7] @ replicate 28 0"

definition example_client_data :: "byte list" where
  "example_client_data = latin1 (toBase64 example_challenge)"

definition example_provider :: passkey_provider where
  "example_provider = \<lparr>pr_create = Inr None, pr_get = (\<lambda>challenge. Inr \<lparr>ar_authenticatorData = [],
     ar_clientDataJSON = example_client_data, ar_signature = []\<rparr>)\<rparr>"

definition example_p256 :: p256 where
  "example_p256 = \<lparr>sig_fromDer = (\<lambda>_. Inr (1, 1)), hasHighS = (\<lambda>_. False), Fn_neg = uminus,
     sig_toCompact = (\<lambda>_. take 31 example_client_data @ replicate 33 3), point_compress = Inr,
     recoverPublicKey = (\<lambda>_ _ _. Inl (Error ''no key''))\<rparr>"

lemma example_client_text: "unlatin1 example_client_data = toBase64 example_challenge"
  unfolding example_client_data_def by code_simp

lemma example_client_length: "length example_client_data = 44"
  by code_simp

lemma example_challenge_read: "fromBase64 (map url_char (toBase64 example_challenge)) = Inr example_challenge"
  by code_simp

lemma example_encoded: "latin1 (toBase64 example_challenge) = example_client_data"
  by (simp add: example_client_data_def)

lemma example_text_short: "length (toBase64 example_challenge) < 1000"
  by code_simp

lemma example_answers:
  "passkey_answers passkey_packages example_platform example_p256 example_provider (replicate 33 3) example_challenge"
  unfolding passkey_answers_def
  using string_ok_example [OF example_text_short] example_client_length
  by (intro exI [of _ "\<lparr>ar_authenticatorData = [], ar_clientDataJSON = example_client_data, ar_signature = []\<rparr>"]
      exI [of _ "(1, 1)"] exI [of _ "JObj [(''type'', JStr ''webauthn.get''), (''challenge'', JStr (toBase64 example_challenge))]"]
      exI [of _ "toBase64 example_challenge"])
    (simp add: example_provider_def example_p256_def PASSKEY_SIGNATURE_SIZE_def example_platform_def example_client_text
      example_encoded passkey_packages_def get_prop_def example_challenge_read messageFromAssertionResponse_def normalize_s_def
      example_packages_def del: replicate.simps)

lemma passkey_sign_verify_witness:
  "\<exists>t. passkey_signWithIntent passkey_packages example_platform example_p256 example_provider (replicate 33 3) [7] ''TransactionData''
       = Inr (t, toBase64 [7]) \<and>
    verifyTransactionSignature passkey_packages example_platform [7] t None
      (Some (address_of_bytes passkey_packages (toMySoBytes (PasskeyPublicKey (replicate 33 3))))) =
      Inr (SingleKey (PasskeyPublicKey (replicate 33 3)))"
proof (rule passkey_sign_verify)
  have "blake2b passkey_packages ([0, 0, 0] @ [7]) = example_challenge"
    by (simp add: passkey_packages_def example_packages_def example_challenge_def numeral_eq_Suc)
  then show "passkey_answers passkey_packages example_platform example_p256 example_provider (replicate 33 3)
      (blake2b passkey_packages ([0, 0, 0] @ [7]))" using example_answers by simp
qed (simp add: PASSKEY_PUBLIC_KEY_SIZE_def)

text \<open>The common key of two lists is the key of the only pair that agrees; keys that occur twice make it fail.\<close>

lemma findCommonPublicKey_Inr:
  "findCommonPublicKey as bs = Inr pk \<longleftrightarrow>
    concat (map (\<lambda>a. map (\<lambda>_. a) (filter (\<lambda>b. toRawBytes a = toRawBytes b) bs)) as) = [pk]"
proof -
  have "concat (map (\<lambda>b. if key_equals a b then [a] else []) bs) = map (\<lambda>_. a) (filter (\<lambda>b. toRawBytes a = toRawBytes b) bs)" for a
    by (induction bs) (simp_all add: key_equals_def)
  then have same: "concat (map (\<lambda>a. concat (map (\<lambda>b. if key_equals a b then [a] else []) bs)) as) =
      concat (map (\<lambda>a. map (\<lambda>_. a) (filter (\<lambda>b. toRawBytes a = toRawBytes b) bs)) as)" by simp
  show ?thesis unfolding findCommonPublicKey_def same by (auto simp del: concat_eq_Nil_conv split: list.split)
qed

end
