(* ===== verification/Executor.thy ===== *)
theory Executor
  imports Prelude
begin

text \<open>
  \<open>packages/myso/src/transactions/executor/queue.ts\<close> and the scheduling of
  \<open>executor/parallel.ts\<close> (\<open>ParallelTransactionExecutor.executeTransaction\<close> and the \<open>finally\<close> of \<open>#execute\<close>):
  which transactions run at the same time. The calls of \<open>executeTransaction\<close> are numbered in the
  order in which they enter the queues; a callback is the number of its call. What a transaction does
  while it runs is not part of the state: a step of the relation is one synchronous piece of code.
\<close>

subsection \<open>The serial queue\<close>

text \<open>\<open>SerialQueue\<close>: the queue holds the running task and those behind it; \<open>sq_started\<close> is the history of the
  tasks in the order they were started.\<close>

record serial_queue =
  sq_queue :: "nat list"
  sq_started :: "nat list"

definition sq_start :: "nat \<Rightarrow> serial_queue \<Rightarrow> serial_queue" where
  "sq_start task q = q\<lparr>sq_started := sq_started q @ [task]\<rparr>"

definition sq_runTask :: "nat \<Rightarrow> serial_queue \<Rightarrow> serial_queue" where
  "sq_runTask task q =
     (let q = q\<lparr>sq_queue := sq_queue q @ [task]\<rparr>
      in if length (sq_queue q) = 1 then sq_start (hd (sq_queue q)) q else q)"

definition sq_finally :: "serial_queue \<Rightarrow> serial_queue" where
  "sq_finally q =
     (let q = q\<lparr>sq_queue := tl (sq_queue q)\<rparr>
      in if length (sq_queue q) > 0 then sq_start (hd (sq_queue q)) q else q)"

text \<open>The states of a serial queue, with the tasks in the order they were handed in and the number of tasks
  that have ended.\<close>

inductive sq_run :: "serial_queue \<Rightarrow> nat list \<Rightarrow> nat \<Rightarrow> bool" where
  start: "sq_run \<lparr>sq_queue = [], sq_started = []\<rparr> [] 0"
| submit: "sq_run q ts k \<Longrightarrow> sq_run (sq_runTask t q) (ts @ [t]) k"
| ends: "sq_run q ts k \<Longrightarrow> sq_queue q \<noteq> [] \<Longrightarrow> sq_run (sq_finally q) ts (k + 1)"

text \<open>A serial queue starts the tasks in the order they were handed in, each one when the one before it
  has ended, so that at most one runs at a time and none is forgotten.\<close>

theorem serial_queue_order:
  assumes "sq_run q ts k"
  shows "k \<le> length ts \<and> sq_queue q = drop k ts \<and> sq_started q = take (k + 1) ts"
  using assms
proof (induction rule: sq_run.induct)
  case (submit q ts k t)
  then show ?case by (cases "k = length ts") (auto simp: sq_runTask_def sq_start_def Let_def)
next
  case (ends q ts k)
  then have k: "k < length ts" "tl (sq_queue q) = drop (Suc k) ts" by (simp_all add: tl_drop drop_Suc)
  show ?case
  proof (cases "Suc k < length ts")
    case True
    then have "drop (Suc k) ts = ts ! Suc k # drop (Suc (Suc k)) ts" by (simp add: Cons_nth_drop_Suc)
    then show ?thesis using ends k True by (simp add: sq_finally_def sq_start_def take_Suc_conv_app_nth [OF True])
  qed (use ends k in \<open>simp add: sq_finally_def\<close>)
qed simp

lemma serial_queue_order_witness:
  "1 \<le> length [5, 7 :: nat] \<and>
   sq_queue (sq_finally (sq_runTask 7 (sq_runTask 5 \<lparr>sq_queue = [], sq_started = []\<rparr>))) = drop 1 [5, 7] \<and>
   sq_started (sq_finally (sq_runTask 7 (sq_runTask 5 \<lparr>sq_queue = [], sq_started = []\<rparr>))) = take (1 + 1) [5, 7]"
proof (rule serial_queue_order)
  have "sq_run (sq_runTask 7 (sq_runTask 5 \<lparr>sq_queue = [], sq_started = []\<rparr>)) (([] @ [5]) @ [7]) 0"
    by (intro sq_run.intros)
  from sq_run.ends [OF this] show "sq_run (sq_finally (sq_runTask 7 (sq_runTask 5 \<lparr>sq_queue = [], sq_started = []\<rparr>))) [5, 7] 1"
    by (simp add: sq_runTask_def sq_start_def Let_def)
qed

subsection \<open>The parallel queue and the object locks\<close>

record executor =
  uses :: "string list list"
  objectIdQueues :: "string \<rightharpoonup> nat list"
  conflicts :: "nat \<Rightarrow> string set"
  execQueue :: "nat list"
  activeTasks :: nat
  running :: "nat list"
  ended :: "nat list"

text \<open>
  \<open>uses\<close> has the used objects of every call, \<open>running\<close> the transactions in \<open>#execute\<close>, and \<open>ended\<close> those that have
  left it and whose place in the parallel queue is still to be given back.
\<close>

definition new_executor :: executor where
  "new_executor = \<lparr>uses = [], objectIdQueues = Map.empty, conflicts = (\<lambda>_. {}), execQueue = [], activeTasks = 0,
     running = [], ended = []\<rparr>"

text \<open>\<open>ParallelQueue.runTask\<close> and the \<open>finally\<close> of its tasks.\<close>

definition pq_runTask :: "nat \<Rightarrow> nat \<Rightarrow> executor \<Rightarrow> executor" where
  "pq_runTask maxTasks tx e =
     (if activeTasks e < maxTasks then e\<lparr>activeTasks := activeTasks e + 1, running := running e @ [tx]\<rparr>
      else e\<lparr>execQueue := execQueue e @ [tx]\<rparr>)"

definition pq_finally :: "executor \<Rightarrow> executor" where
  "pq_finally e =
     (case execQueue e of
        tx # rest \<Rightarrow> e\<lparr>execQueue := rest, running := running e @ [tx]\<rparr>
      | [] \<Rightarrow> e\<lparr>activeTasks := activeTasks e - 1\<rparr>)"

definition lock_object :: "nat \<Rightarrow> executor \<Rightarrow> string \<Rightarrow> executor" where
  "lock_object tx e obj =
     (case objectIdQueues e obj of
        Some queue \<Rightarrow> e\<lparr>conflicts := (conflicts e)(tx := insert obj (conflicts e tx)),
                        objectIdQueues := (objectIdQueues e)(obj \<mapsto> queue @ [tx])\<rparr>
      | None \<Rightarrow> e\<lparr>objectIdQueues := (objectIdQueues e)(obj \<mapsto> [])\<rparr>)"

definition executeTransaction :: "nat \<Rightarrow> string list \<Rightarrow> executor \<Rightarrow> executor" where
  "executeTransaction maxTasks usedObjects e =
     (let tx = length (uses e);
          e = foldl (lock_object tx) (e\<lparr>uses := uses e @ [usedObjects]\<rparr>) usedObjects
      in if conflicts e tx = {} then pq_runTask maxTasks tx e else e)"

definition release_object :: "nat \<Rightarrow> executor \<Rightarrow> string \<Rightarrow> executor" where
  "release_object maxTasks e obj =
     (case objectIdQueues e obj of
        None \<Rightarrow> e
      | Some [] \<Rightarrow> e\<lparr>objectIdQueues := (objectIdQueues e)(obj := None)\<rparr>
      | Some (tx # queue) \<Rightarrow>
          (let e = e\<lparr>objectIdQueues := (objectIdQueues e)(obj \<mapsto> queue),
                     conflicts := (conflicts e)(tx := conflicts e tx - {obj})\<rparr>
           in if conflicts e tx = {} then pq_runTask maxTasks tx e else e))"

definition finish :: "nat \<Rightarrow> nat \<Rightarrow> executor \<Rightarrow> executor" where
  "finish maxTasks tx e =
     (let e = foldl (release_object maxTasks) e (uses e ! tx)
      in e\<lparr>running := remove1 tx (running e), ended := tx # ended e\<rparr>)"

definition give_back :: "nat \<Rightarrow> executor \<Rightarrow> executor" where
  "give_back tx e = pq_finally (e\<lparr>ended := remove1 tx (ended e)\<rparr>)"

text \<open>The states an executor can reach, with the transactions that have finished.\<close>

inductive exec_run :: "nat \<Rightarrow> executor \<Rightarrow> nat set \<Rightarrow> bool" for maxTasks where
  start: "exec_run maxTasks new_executor {}"
| submit: "exec_run maxTasks e F \<Longrightarrow> distinct objs \<Longrightarrow> exec_run maxTasks (executeTransaction maxTasks objs e) F"
| finish: "exec_run maxTasks e F \<Longrightarrow> tx \<in> set (running e) \<Longrightarrow> exec_run maxTasks (finish maxTasks tx e) (insert tx F)"
| give_back: "exec_run maxTasks e F \<Longrightarrow> tx \<in> set (ended e) \<Longrightarrow> exec_run maxTasks (give_back tx e) F"

subsection \<open>The lines of the objects\<close>

text \<open>
  The abstract view: the unfinished transactions in the order of their calls. The line of an object
  is those of them that use it; the first one holds the object.
\<close>

definition line :: "string list list \<Rightarrow> nat list \<Rightarrow> string \<Rightarrow> nat list" where
  "line us A obj = filter (\<lambda>tx. obj \<in> set (us ! tx)) A"

definition locks :: "(string \<Rightarrow> nat list) \<Rightarrow> executor \<Rightarrow> bool" where
  "locks ln e \<longleftrightarrow>
     (\<forall>obj. objectIdQueues e obj = (case ln obj of [] \<Rightarrow> None | h # q \<Rightarrow> Some q)) \<and>
     (\<forall>tx obj. obj \<in> conflicts e tx \<longleftrightarrow> tx \<in> set (tl (ln obj)))"

text \<open>The places of the parallel queue.\<close>

definition places :: "nat \<Rightarrow> executor \<Rightarrow> bool" where
  "places maxTasks e \<longleftrightarrow> activeTasks e = length (running e) + length (ended e) \<and> activeTasks e \<le> maxTasks \<and>
     (execQueue e \<noteq> [] \<longrightarrow> activeTasks e = maxTasks)"

definition started :: "nat list \<Rightarrow> executor \<Rightarrow> bool" where
  "started A e \<longleftrightarrow> distinct (running e @ execQueue e) \<and>
     set (running e @ execQueue e) = {tx \<in> set A. conflicts e tx = {}}"

lemma pq_runTask_fields [simp]:
  "uses (pq_runTask m tx e) = uses e" "objectIdQueues (pq_runTask m tx e) = objectIdQueues e"
  "conflicts (pq_runTask m tx e) = conflicts e" "ended (pq_runTask m tx e) = ended e"
  "locks ln (pq_runTask m tx e) = locks ln e"
  "places m e \<Longrightarrow> places m (pq_runTask m tx e)"
  "set (running (pq_runTask m tx e)) \<union> set (execQueue (pq_runTask m tx e)) = insert tx (set (running e) \<union> set (execQueue e))"
  "tx \<notin> set (running e) \<union> set (execQueue e) \<Longrightarrow>
   distinct (running (pq_runTask m tx e) @ execQueue (pq_runTask m tx e)) = distinct (running e @ execQueue e)"
  "running e \<noteq> [] \<Longrightarrow> set (running e) \<subseteq> set (running (pq_runTask m tx e))"
  by (auto simp: pq_runTask_def locks_def places_def)

lemma lock_object_locks:
  assumes "locks ln e" "tx \<notin> set (ln obj)"
  shows "locks (ln(obj := ln obj @ [tx])) (lock_object tx e obj)"
  using assms by (cases "ln obj") (auto simp: locks_def lock_object_def)

lemma lock_object_fields [simp]:
  "uses (lock_object tx e obj) = uses e" "running (lock_object tx e obj) = running e"
  "execQueue (lock_object tx e obj) = execQueue e" "ended (lock_object tx e obj) = ended e"
  "activeTasks (lock_object tx e obj) = activeTasks e"
  by (simp_all add: lock_object_def split: option.split)

lemma lock_objects_fields [simp]:
  "uses (foldl (lock_object tx) e objs) = uses e" "running (foldl (lock_object tx) e objs) = running e"
  "execQueue (foldl (lock_object tx) e objs) = execQueue e" "ended (foldl (lock_object tx) e objs) = ended e"
  "activeTasks (foldl (lock_object tx) e objs) = activeTasks e"
  by (induction objs arbitrary: e) simp_all

lemma lock_objects_locks:
  "distinct objs \<Longrightarrow> locks ln e \<Longrightarrow> (\<And>obj. tx \<notin> set (ln obj)) \<Longrightarrow>
   locks (\<lambda>obj. if obj \<in> set objs then ln obj @ [tx] else ln obj) (foldl (lock_object tx) e objs)"
proof (induction objs rule: rev_induct)
  case (snoc obj objs)
  let ?ln = "\<lambda>obj. if obj \<in> set objs then ln obj @ [tx] else ln obj"
  have obj: "obj \<notin> set objs" using snoc.prems(1) by simp
  have "locks (?ln(obj := ?ln obj @ [tx])) (lock_object tx (foldl (lock_object tx) e objs) obj)"
    by (rule lock_object_locks) (use snoc obj in auto)
  moreover have "?ln(obj := ?ln obj @ [tx]) = (\<lambda>o'. if o' \<in> set (objs @ [obj]) then ln o' @ [tx] else ln o')"
    using obj by (auto simp: fun_eq_iff)
  ultimately show ?case by simp
qed simp


text \<open>Releasing an object takes the first transaction out of its line and starts the next one if it waits
  for no other object.\<close>

lemma release_object_line:
  assumes "locks ln e" "places m e" "started A e" "ln obj = h # rest" "distinct (ln obj)" "set (ln obj) \<subseteq> set A"
  shows "locks (ln(obj := rest)) (release_object m e obj) \<and> places m (release_object m e obj) \<and>
    started A (release_object m e obj) \<and> uses (release_object m e obj) = uses e \<and>
    ended (release_object m e obj) = ended e \<and> set (running e) \<subseteq> set (running (release_object m e obj))"
proof (cases rest)
  case Nil
  then have "release_object m e obj = e\<lparr>objectIdQueues := (objectIdQueues e)(obj := None)\<rparr>"
    using assms(1,4) by (simp add: locks_def release_object_def)
  then show ?thesis using assms Nil by (auto simp: locks_def places_def started_def)
next
  case (Cons t q)
  let ?e = "e\<lparr>objectIdQueues := (objectIdQueues e)(obj \<mapsto> q), conflicts := (conflicts e)(t := conflicts e t - {obj})\<rparr>"
  have rel: "release_object m e obj = (if conflicts ?e t = {} then pq_runTask m t ?e else ?e)"
    using assms(1,4) Cons by (simp add: locks_def release_object_def Let_def)
  have obj: "obj \<in> conflicts e t" using assms(1,4) Cons by (simp add: locks_def)
  have t: "t \<notin> set q" "t \<in> set A" using assms(4-6) Cons by auto
  have locks: "locks (ln(obj := rest)) ?e" using assms(1,4) t(1) Cons by (auto simp: locks_def)
  have new: "t \<notin> set (running e) \<union> set (execQueue e)"
    using assms(3) obj by (auto simp: started_def)
  have "set (running e) \<union> set (execQueue e) = {tx \<in> set A. conflicts e tx = {}}" "distinct (running e @ execQueue e)"
    using assms(3) by (auto simp: started_def)
  then have start: "started A (if conflicts ?e t = {} then pq_runTask m t ?e else ?e)"
    using new t(2) obj by (auto simp: started_def simp del: distinct_append)
  show ?thesis
    unfolding rel using locks start assms(2) by (auto simp: places_def pq_runTask_def locks_def)
qed

lemma release_objects_lines:
  assumes "locks ln e" "places m e" "started A e" "\<And>obj. distinct (ln obj)" "\<And>obj. set (ln obj) \<subseteq> set A"
  shows "distinct objs \<Longrightarrow> (\<And>obj. obj \<in> set objs \<Longrightarrow> ln obj \<noteq> []) \<Longrightarrow>
    locks (\<lambda>obj. if obj \<in> set objs then tl (ln obj) else ln obj) (foldl (release_object m) e objs) \<and>
    places m (foldl (release_object m) e objs) \<and> started A (foldl (release_object m) e objs) \<and>
    uses (foldl (release_object m) e objs) = uses e \<and> ended (foldl (release_object m) e objs) = ended e \<and>
    set (running e) \<subseteq> set (running (foldl (release_object m) e objs))"
proof (induction objs rule: rev_induct)
  case (snoc obj objs)
  let ?ln = "\<lambda>obj. if obj \<in> set objs then tl (ln obj) else ln obj" and ?e = "foldl (release_object m) e objs"
  have obj: "obj \<notin> set objs" using snoc.prems(1) by simp
  obtain h rest where ln: "ln obj = h # rest" using snoc.prems(2) [of obj] by (cases "ln obj") auto
  have IH: "locks ?ln ?e" "places m ?e" "started A ?e" "uses ?e = uses e" "ended ?e = ended e" "set (running e) \<subseteq> set (running ?e)"
    using snoc by auto
  have "?ln obj = h # rest" using obj ln by simp
  note step = release_object_line [OF IH(1-3) this]
  have "?ln(obj := rest) = (\<lambda>o'. if o' \<in> set (objs @ [obj]) then tl (ln o') else ln o')"
    using obj ln by (auto simp: fun_eq_iff)
  then show ?case using step IH obj assms(4,5) [of obj] by (simp split del: if_split) auto
qed (use assms in simp)


subsection \<open>The invariant\<close>

definition exec_inv :: "nat \<Rightarrow> nat list \<Rightarrow> executor \<Rightarrow> bool" where
  "exec_inv m A e \<longleftrightarrow> sorted_wrt (<) A \<and> set A \<subseteq> {..<length (uses e)} \<and> (\<forall>us \<in> set (uses e). distinct us) \<and>
     locks (line (uses e) A) e \<and> places m e \<and> started A e"

lemma sorted_distinct: "sorted_wrt (<) A \<Longrightarrow> distinct A" for A :: "nat list"
  by (induction A) auto

lemma line_props: "sorted_wrt (<) A \<Longrightarrow> distinct (line us A obj)" "set (line us A obj) \<subseteq> set A"
  by (auto simp: line_def sorted_distinct)

lemma submit_inv:
  assumes inv: "exec_inv m A e" and objs: "distinct objs"
  shows "exec_inv m (A @ [length (uses e)]) (executeTransaction m objs e)"
proof -
  let ?n = "length (uses e)" and ?us = "uses e @ [objs]"
  let ?e = "foldl (lock_object ?n) (e\<lparr>uses := ?us\<rparr>) objs"
  have A: "sorted_wrt (<) A" "set A \<subseteq> {..<?n}" and lk: "locks (line (uses e) A) e" and st: "started A e" and pl: "places m e"
    and us: "\<forall>us \<in> set (uses e). distinct us" using inv by (auto simp: exec_inv_def)
  have "line ?us A obj = line (uses e) A obj" for obj
    unfolding line_def using A(2) by (intro filter_cong refl) (auto simp: nth_append)
  then have line: "line ?us (A @ [?n]) = (\<lambda>obj. if obj \<in> set objs then line (uses e) A obj @ [?n] else line (uses e) A obj)"
    by (auto simp: fun_eq_iff line_def)
  have "?n \<notin> set (line (uses e) A obj)" for obj using A(2) line_props(2) by fastforce
  then have lk': "locks (line ?us (A @ [?n])) ?e"
    unfolding line using lk by (intro lock_objects_locks objs) (auto simp: locks_def)
  have conf: "conflicts ?e tx = conflicts e tx" if "tx \<in> set A" for tx
  proof (rule set_eqI)
    fix obj
    have "tx \<noteq> ?n" using that A(2) by auto
    then have "tx \<in> set (tl (line ?us (A @ [?n]) obj)) \<longleftrightarrow> tx \<in> set (tl (line (uses e) A obj))"
      unfolding line by (cases "line (uses e) A obj") auto
    then show "obj \<in> conflicts ?e tx \<longleftrightarrow> obj \<in> conflicts e tx" using lk lk' by (simp add: locks_def)
  qed
  have old: "distinct (running e @ execQueue e)" "set (running e) \<union> set (execQueue e) = {tx \<in> set A. conflicts e tx = {}}"
    using st by (auto simp: started_def)
  have new: "?n \<notin> set (running ?e) \<union> set (execQueue ?e)" using old(2) A(2) by auto
  let ?r = "if conflicts ?e ?n = {} then pq_runTask m ?n ?e else ?e"
  have "started (A @ [?n]) ?r"
    using old new conf by (auto simp: started_def simp del: distinct_append)
  moreover have "places m ?r" using pl by (auto simp: places_def pq_runTask_def)
  ultimately show ?thesis
    using A us objs lk' by (auto simp: exec_inv_def executeTransaction_def Let_def sorted_wrt_append)
qed


lemma head_of_lines:
  assumes "exec_inv m A e" "tx \<in> set A" "obj \<in> set (uses e ! tx)" "conflicts e tx = {}"
  shows "line (uses e) A obj = tx # filter (\<lambda>t. t \<noteq> tx) (line (uses e) A obj)"
proof -
  have sorted: "sorted_wrt (<) A" and lk: "locks (line (uses e) A) e" using assms(1) by (auto simp: exec_inv_def)
  have "tx \<in> set (line (uses e) A obj)" using assms(2,3) by (simp add: line_def)
  moreover have "tx \<notin> set (tl (line (uses e) A obj))" using lk assms(4) by (auto simp: locks_def)
  ultimately obtain rest where rest: "line (uses e) A obj = tx # rest" by (cases "line (uses e) A obj") auto
  then have "tx \<notin> set rest" using line_props(1) [OF sorted, of "uses e" obj] by simp
  then show ?thesis using rest by (simp add: filter_id_conv) (metis (mono_tags, lifting) filter_True)
qed

lemma finish_inv:
  assumes inv: "exec_inv m A e" and tx: "tx \<in> set (running e)"
  shows "exec_inv m (filter (\<lambda>t. t \<noteq> tx) A) (finish m tx e)"
proof -
  let ?objs = "uses e ! tx" and ?A = "filter (\<lambda>t. t \<noteq> tx) A" and ?ln = "line (uses e) A"
  let ?e = "foldl (release_object m) e ?objs"
  have sorted: "sorted_wrt (<) A" and bound: "set A \<subseteq> {..<length (uses e)}" and lk: "locks ?ln e" and st: "started A e"
    and pl: "places m e" and us: "\<forall>us \<in> set (uses e). distinct us" using inv by (auto simp: exec_inv_def)
  have txA: "tx \<in> set A" "conflicts e tx = {}" using st tx by (auto simp: started_def)
  note head = head_of_lines [OF inv txA(1) _ txA(2)]
  have fin: "locks (\<lambda>obj. if obj \<in> set ?objs then tl (?ln obj) else ?ln obj) ?e" "places m ?e" "started A ?e"
    "uses ?e = uses e" "ended ?e = ended e" "set (running e) \<subseteq> set (running ?e)"
    using release_objects_lines [OF lk pl st line_props(1) [OF sorted] line_props(2), of "?objs"] head us bound txA(1)
    by (force dest: nth_mem)+
  have "line (uses e) ?A obj = (if obj \<in> set ?objs then tl (?ln obj) else ?ln obj)" for obj
  proof (cases "obj \<in> set ?objs")
    case True
    have "line (uses e) ?A obj = filter (\<lambda>t. t \<noteq> tx) (?ln obj)" by (simp add: line_def conj_commute)
    then show ?thesis using True head [OF True] by (metis filter.simps(2) list.sel(3))
  next
    case False
    then show ?thesis by (auto simp: line_def intro!: filter_cong)
  qed
  then have "locks (line (uses e) ?A) (?e\<lparr>running := remove1 tx (running ?e), ended := tx # ended ?e\<rparr>)"
    using fin(1) by (simp add: locks_def)
  moreover have "started ?A (?e\<lparr>running := remove1 tx (running ?e), ended := tx # ended ?e\<rparr>)"
  proof -
    have "distinct (running ?e @ execQueue ?e)" "set (running ?e) \<union> set (execQueue ?e) = {t \<in> set A. conflicts ?e t = {}}"
      "tx \<in> set (running ?e)" using fin(3,6) tx by (auto simp: started_def)
    then show ?thesis by (auto simp: started_def distinct_remove1)
  qed
  moreover have "places m (?e\<lparr>running := remove1 tx (running ?e), ended := tx # ended ?e\<rparr>)"
    using fin(2,6) tx by (auto simp: places_def length_remove1) (metis Suc_pred length_pos_if_in_set subsetD)+
  ultimately show ?thesis
    using sorted bound us fin(4) by (auto simp: exec_inv_def finish_def Let_def sorted_wrt_filter)
qed

lemma give_back_inv:
  assumes inv: "exec_inv m A e" and tx: "tx \<in> set (ended e)"
  shows "exec_inv m A (give_back tx e)"
proof -
  obtain k where "length (ended e) = Suc k" "length (remove1 tx (ended e)) = k"
    using tx by (cases "length (ended e)") (auto simp: length_remove1)
  then show ?thesis
    using inv by (cases "execQueue e") (auto simp: exec_inv_def give_back_def pq_finally_def locks_def places_def started_def)
qed


definition unfinished :: "executor \<Rightarrow> nat set \<Rightarrow> nat list" where
  "unfinished e F = filter (\<lambda>t. t \<notin> F) [0..<length (uses e)]"

lemma uses_steps [simp]:
  "uses (executeTransaction m objs e) = uses e @ [objs]" "uses (give_back tx e) = uses e" "uses (finish m tx e) = uses e"
proof -
  show "uses (executeTransaction m objs e) = uses e @ [objs]" by (simp add: executeTransaction_def Let_def)
  show "uses (give_back tx e) = uses e" by (simp add: give_back_def pq_finally_def split: list.split)
  have "uses (release_object m e obj) = uses e" for e obj
    by (auto simp: release_object_def Let_def split: option.split list.split)
  then have "uses (foldl (release_object m) e objs) = uses e" for objs by (induction objs rule: rev_induct) simp_all
  then show "uses (finish m tx e) = uses e" by (simp add: finish_def Let_def)
qed

lemma exec_run_inv:
  "exec_run m e F \<Longrightarrow> F \<subseteq> {..<length (uses e)} \<and> exec_inv m (unfinished e F) e"
proof (induction rule: exec_run.induct)
  case start
  then show ?case
    by (auto simp: exec_inv_def unfinished_def new_executor_def locks_def line_def places_def started_def)
next
  case (submit e F objs)
  then have "unfinished (executeTransaction m objs e) F = unfinished e F @ [length (uses e)]" by (auto simp: unfinished_def)
  then show ?case using submit submit_inv by auto
next
  case (finish e F tx)
  then have "unfinished (finish m tx e) (insert tx F) = filter (\<lambda>t. t \<noteq> tx) (unfinished e F)"
    by (auto simp: unfinished_def intro!: filter_cong)
  moreover have "tx < length (uses e)" using finish by (auto simp: exec_inv_def started_def unfinished_def)
  ultimately show ?case using finish finish_inv by auto
next
  case (give_back e F tx)
  then have "unfinished (give_back tx e) F = unfinished e F" by (simp add: unfinished_def)
  then show ?case using give_back give_back_inv by auto
qed

lemma in_tl_sorted: "sorted_wrt (<) xs \<Longrightarrow> x \<in> set (tl xs) \<longleftrightarrow> x \<in> set xs \<and> (\<exists>y \<in> set xs. y < x)" for x :: nat
  by (cases xs) force+

lemma started_iff:
  assumes "exec_run m e F"
  shows "tx \<in> set (running e) \<union> set (execQueue e) \<longleftrightarrow>
    tx \<in> set (unfinished e F) \<and> (\<forall>t \<in> set (unfinished e F). t < tx \<longrightarrow> set (uses e ! t) \<inter> set (uses e ! tx) = {})"
proof -
  let ?A = "unfinished e F"
  have inv: "exec_inv m ?A e" using exec_run_inv [OF assms] by simp
  then have sorted: "sorted_wrt (<) (line (uses e) ?A obj)" for obj
    by (simp add: exec_inv_def line_def sorted_wrt_filter)
  have "obj \<in> conflicts e tx \<longleftrightarrow> tx \<in> set ?A \<and> obj \<in> set (uses e ! tx) \<and> (\<exists>t \<in> set ?A. t < tx \<and> obj \<in> set (uses e ! t))" for obj
    using inv in_tl_sorted [OF sorted] by (auto simp: exec_inv_def locks_def line_def)
  then have "conflicts e tx = {} \<longleftrightarrow> (\<forall>t \<in> set ?A. t < tx \<longrightarrow> set (uses e ! t) \<inter> set (uses e ! tx) = {})" if "tx \<in> set ?A"
    using that by (auto simp: disjoint_iff)
  then show ?thesis using inv by (auto simp: exec_inv_def started_def)
qed

subsection \<open>What the executor guarantees\<close>

text \<open>C29: A transaction has been handed to the parallel queue exactly when it is unfinished and no earlier
  unfinished transaction uses one of its objects: conflicting transactions run in the order of their calls and
  no others wait for each other.\<close>

theorem executor_order:
  assumes "exec_run m e F" "tx < length (uses e)"
  shows "tx \<in> set (running e) \<union> set (execQueue e) \<longleftrightarrow>
    tx \<notin> F \<and> (\<forall>t < tx. t \<notin> F \<longrightarrow> set (uses e ! t) \<inter> set (uses e ! tx) = {})"
proof -
  have "t \<in> set (unfinished e F) \<longleftrightarrow> t \<notin> F" if "t \<le> tx" for t using that assms(2) by (auto simp: unfinished_def)
  then show ?thesis unfolding started_iff [OF assms(1)] by (meson less_or_eq_imp_le order_refl)
qed

text \<open>Transactions that run at the same time use different objects, and there are never more of them than
  the pool has places.\<close>

theorem executor_exclusive:
  assumes "exec_run m e F" "t \<in> set (running e)" "tx \<in> set (running e)" "t \<noteq> tx"
  shows "set (uses e ! t) \<inter> set (uses e ! tx) = {} \<and> length (running e) \<le> m"
proof -
  have "set (uses e ! t) \<inter> set (uses e ! tx) = {}"
    using assms(2-4) started_iff [OF assms(1), of t] started_iff [OF assms(1), of tx] by (cases "t < tx") auto
  moreover have "length (running e) \<le> m"
    using exec_run_inv [OF assms(1)] by (auto simp: exec_inv_def places_def)
  ultimately show ?thesis ..
qed

definition work :: "executor \<Rightarrow> nat set \<Rightarrow> nat" where
  "work e F = 2 * card ({..<length (uses e)} - F) + length (ended e)"

lemma release_ended: "ended (foldl (release_object m) e objs) = ended e"
proof (induction objs arbitrary: e)
  case (Cons obj objs)
  have "ended (release_object m e obj) = ended e"
    by (auto simp: release_object_def Let_def split: option.split list.split)
  with Cons show ?case by simp
qed simp

text \<open>C30: The executor never gets stuck: while a transaction is unfinished something runs or gives its place
  back, and every end of a transaction and every return of a place brings the executor closer to the
  point where all transactions have finished.\<close>

theorem executor_progress:
  assumes "exec_run m e F" "0 < m"
  shows "(F \<noteq> {..<length (uses e)} \<longrightarrow> running e \<noteq> [] \<or> ended e \<noteq> []) \<and>
    (\<forall>tx \<in> set (running e). work (finish m tx e) (insert tx F) < work e F) \<and>
    (\<forall>tx \<in> set (ended e). work (give_back tx e) F < work e F)"
proof -
  have inv: "exec_inv m (unfinished e F) e" and F: "F \<subseteq> {..<length (uses e)}" using exec_run_inv [OF assms(1)] by auto
  have "running e \<noteq> [] \<or> ended e \<noteq> []" if "F \<noteq> {..<length (uses e)}"
  proof -
    from that F have "unfinished e F \<noteq> []" by (auto simp: unfinished_def filter_empty_conv)
    then obtain tx A where A: "unfinished e F = tx # A" by (cases "unfinished e F") auto
    moreover have "\<forall>t \<in> set A. tx < t" using inv A by (simp add: exec_inv_def)
    ultimately have "tx \<in> set (running e) \<union> set (execQueue e)" unfolding started_iff [OF assms(1)] by auto
    then show ?thesis using inv assms(2) by (auto simp: exec_inv_def places_def)
  qed
  moreover have "work (finish m tx e) (insert tx F) < work e F" if "tx \<in> set (running e)" for tx
  proof -
    have tx: "tx \<in> {..<length (uses e)} - F" using that inv by (auto simp: exec_inv_def started_def unfinished_def)
    have "card ({..<length (uses e)} - insert tx F) < card ({..<length (uses e)} - F)"
      using tx by (intro psubset_card_mono) auto
    moreover have "ended (finish m tx e) = tx # ended e" by (simp add: finish_def Let_def release_ended)
    ultimately show ?thesis by (simp add: work_def)
  qed
  moreover have "work (give_back tx e) F < work e F" if "tx \<in> set (ended e)" for tx
  proof -
    have "ended (give_back tx e) = remove1 tx (ended e)" by (simp add: give_back_def pq_finally_def split: list.split)
    moreover have "length (remove1 tx (ended e)) < length (ended e)"
      using that length_pos_if_in_set [OF that] by (simp add: length_remove1 del: length_greater_0_conv)
    ultimately show ?thesis by (simp add: work_def)
  qed
  ultimately show ?thesis by blast
qed


subsection \<open>An example\<close>

text \<open>Two transactions that use the same object, and one that uses another, with two places.\<close>

definition busy_executor :: executor where
  "busy_executor = executeTransaction 2 [''c''] (executeTransaction 2 [''a'', ''b''] (executeTransaction 2 [''a''] new_executor))"

lemma busy_executor_eq:
  "uses busy_executor = [[''a''], [''a'', ''b''], [''c'']]" "running busy_executor = [0, 2]" "execQueue busy_executor = []"
  by (simp_all add: busy_executor_def executeTransaction_def new_executor_def lock_object_def pq_runTask_def Let_def)

lemma busy_executor_run: "exec_run 2 busy_executor {}"
  unfolding busy_executor_def by (intro exec_run.intros) auto

lemma executor_order_witness:
  "1 \<in> set (running busy_executor) \<union> set (execQueue busy_executor) \<longleftrightarrow>
    1 \<notin> ({} :: nat set) \<and> (\<forall>t < 1. t \<notin> ({} :: nat set) \<longrightarrow> set (uses busy_executor ! t) \<inter> set (uses busy_executor ! 1) = {})"
  by (rule executor_order [OF busy_executor_run]) (simp add: busy_executor_eq)

lemma executor_exclusive_witness:
  "set (uses busy_executor ! 0) \<inter> set (uses busy_executor ! 2) = {} \<and> length (running busy_executor) \<le> 2"
  by (rule executor_exclusive [OF busy_executor_run]) (simp_all add: busy_executor_eq)

lemma executor_progress_witness:
  "running busy_executor @ ended busy_executor \<noteq> [] \<and>
   work (finish 2 0 busy_executor) (insert 0 {}) < work busy_executor {}"
proof -
  note progress = executor_progress [OF busy_executor_run]
  have "({} :: nat set) \<noteq> {..<length (uses busy_executor)}" "0 \<in> set (running busy_executor)" by (auto simp: busy_executor_eq)
  with progress show ?thesis by auto
qed

end
