(* ===== verification/Coin_Pool.thy ===== *)
theory Coin_Pool
  imports Prelude "HOL-Library.AList" "HOL-Library.Multiset"
begin

text \<open>
  The gas coins of \<open>packages/myso/src/transactions/executor/parallel.ts\<close>: \<open>#getGasCoin\<close>,
  \<open>#refillCoinPool\<close> and what \<open>#execute\<close> does with the gas coin after an execution. Between two awaits the
  code runs alone, so a step of the relation is the code between two awaits. What the client answers
  (fetched objects, effects) is an argument of the step.
\<close>

subsection \<open>State\<close>

record object_id_ref =
  r_objectId :: string
  r_version :: string
  r_digest :: string

record gas_coin =
  gc_id :: string
  gc_version :: string
  gc_digest :: string
  gc_balance :: int

record pool_options =
  coinBatchSize :: int
  initialCoinBalance :: int
  minimumCoinBalance :: int
  maxPoolSize :: int

text \<open>
  The stage of a refill: \<open>Fetching\<close> awaits \<open>getObjects\<close> with the references found so far and the number
  of coins to split off, \<open>Splitting\<close> awaits the execution of the transaction that splits the gas payment; no payment
  means that the client selects one.
\<close>

datatype stage = Idle | Fetching "object_id_ref list" "string list" int | Splitting "object_id_ref list option" int

text \<open>\<open>inFlight\<close>: the gas coins of the transactions in execution; \<open>sourceCoins\<close> is a map in insertion order or null.\<close>

record gas_state =
  coinPool :: "gas_coin list"
  sourceCoins :: "(string \<times> object_id_ref option) list option"
  inFlight :: "gas_coin list"
  refill :: stage
  pendingTransactions :: int

definition new_gas_state :: "string list option \<Rightarrow> gas_state" where
  "new_gas_state source = \<lparr>coinPool = [], sourceCoins = map_option (map (\<lambda>i. (i, None))) source, inFlight = [],
     refill = Idle, pendingTransactions = 0\<rparr>"

subsection \<open>Taking a coin\<close>

definition batchSize :: "pool_options \<Rightarrow> gas_state \<Rightarrow> int" where
  "batchSize opts s =
     min (coinBatchSize opts) (maxPoolSize opts - (int (length (coinPool s)) + pendingTransactions s) + 1)"

text \<open>\<open>#getGasCoin\<close> asks for a refill.\<close>

definition needs_refill :: "pool_options \<Rightarrow> gas_state \<Rightarrow> bool" where
  "needs_refill opts s \<longleftrightarrow> coinPool s = [] \<and> pendingTransactions s \<le> maxPoolSize opts"

definition split_refs :: "(string \<times> object_id_ref option) list \<Rightarrow> object_id_ref list \<times> string list" where
  "split_refs m =
     (concat (map (\<lambda>(i, ref). case ref of Some r \<Rightarrow> [r] | None \<Rightarrow> []) m),
      concat (map (\<lambda>(i, ref). case ref of Some r \<Rightarrow> [] | None \<Rightarrow> [i]) m))"

text \<open>The refill up to its first await: the fetch, or the execution when there is nothing to fetch.\<close>

definition refill_begin :: "pool_options \<Rightarrow> gas_state \<Rightarrow> gas_state" where
  "refill_begin opts s =
     (let n = batchSize opts s in
      if n = 0 then s
      else case sourceCoins s of
        None \<Rightarrow> s\<lparr>refill := Splitting None n\<rparr>
      | Some m \<Rightarrow>
          (let (refs, ids) = split_refs m
           in if ids \<noteq> [] then s\<lparr>refill := Fetching refs ids n\<rparr>
              else s\<lparr>refill := Splitting (Some refs) n, sourceCoins := Some []\<rparr>))"

text \<open>The answer of the fetch: an object or an error for each id.\<close>

definition refill_fetched :: "(string + object_id_ref) list \<Rightarrow> gas_state \<Rightarrow> gas_state" where
  "refill_fetched objects s =
     (case refill s of
        Fetching refs ids n \<Rightarrow>
          s\<lparr>refill := Splitting (Some (refs @ concat (map (\<lambda>x. case x of Inl e \<Rightarrow> [] | Inr r \<Rightarrow> [r]) objects))) n,
            sourceCoins := Some []\<rparr>
      | _ \<Rightarrow> s)"

text \<open>The set of a JavaScript map, null being replaced by an empty map before.\<close>

definition set_source :: "string \<Rightarrow> object_id_ref option \<Rightarrow> gas_state \<Rightarrow> gas_state" where
  "set_source i ref s =
     s\<lparr>sourceCoins := Some (AList.update i ref (case sourceCoins s of None \<Rightarrow> [] | Some m \<Rightarrow> m))\<rparr>"

text \<open>The effects of the split: its changed objects, each with whether it was written, and the gas object.\<close>

definition refill_done :: "pool_options \<Rightarrow> (object_id_ref \<times> bool) list \<Rightarrow> object_id_ref \<Rightarrow> gas_state \<Rightarrow> gas_state" where
  "refill_done opts changed gasObject s =
     set_source (r_objectId gasObject) (Some gasObject)
       (s\<lparr>refill := Idle,
          coinPool := coinPool s @ map (\<lambda>(r, w). \<lparr>gc_id = r_objectId r, gc_version = r_version r,
              gc_digest = r_digest r, gc_balance = initialCoinBalance opts\<rparr>)
            (filter (\<lambda>(r, w). r_objectId r \<noteq> r_objectId gasObject \<and> w) changed)\<rparr>)"

text \<open>
  A split without a gas coin is paid from the balance of the address and may have no gas object: the coins enter the pool, then
  reading the missing object throws.
\<close>

definition refill_unpaid :: "pool_options \<Rightarrow> (object_id_ref \<times> bool) list \<Rightarrow> gas_state \<Rightarrow> gas_state" where
  "refill_unpaid opts changed s =
     s\<lparr>refill := Idle,
       sourceCoins := Some (case sourceCoins s of None \<Rightarrow> [] | Some m \<Rightarrow> m),
       coinPool := coinPool s @ map (\<lambda>(r, w). \<lparr>gc_id = r_objectId r, gc_version = r_version r,
              gc_digest = r_digest r, gc_balance = initialCoinBalance opts\<rparr>) (filter snd changed)\<rparr>"

definition take_coin :: "gas_state \<Rightarrow> gas_coin res \<times> gas_state" where
  "take_coin s =
     (case coinPool s of
        [] \<Rightarrow> (Inl (Error ''No coins available''), s)
      | coin # rest \<Rightarrow> (Inr coin, s\<lparr>coinPool := rest, inFlight := inFlight s @ [coin]\<rparr>))"

subsection \<open>After an execution\<close>

record gas_used =
  computationCost :: int
  storageCost :: int
  storageRebate :: int

definition total_used :: "gas_used \<Rightarrow> int" where
  "total_used g = computationCost g + storageCost g + storageCost g - storageRebate g"

text \<open>The gas coin of a transaction that was executed; \<open>own\<close> says that its owner is still the signer.\<close>

definition coin_executed :: "pool_options \<Rightarrow> gas_coin \<Rightarrow> object_id_ref \<Rightarrow> gas_used \<Rightarrow> bool \<Rightarrow> bool \<Rightarrow> gas_state \<Rightarrow> gas_state" where
  "coin_executed opts coin gasRef used own usesGasCoin s =
     (let s = s\<lparr>inFlight := remove1 coin (inFlight s), pendingTransactions := pendingTransactions s - 1\<rparr>;
          remainingBalance = gc_balance coin - total_used used
      in if \<not> own then s
         else if \<not> usesGasCoin \<and> remainingBalance \<ge> minimumCoinBalance opts
         then s\<lparr>coinPool := coinPool s @ [\<lparr>gc_id = r_objectId gasRef, gc_version = r_version gasRef,
                  gc_digest = r_digest gasRef, gc_balance = remainingBalance\<rparr>]\<rparr>
         else set_source (r_objectId gasRef) (Some gasRef) s)"

definition coin_failed :: "gas_coin \<Rightarrow> gas_state \<Rightarrow> gas_state" where
  "coin_failed coin s =
     set_source (gc_id coin) None
       (s\<lparr>inFlight := remove1 coin (inFlight s), pendingTransactions := pendingTransactions s - 1\<rparr>)"

text \<open>A transaction enters the build queue; one that fails before it has a coin only leaves.\<close>

definition begin_build :: "gas_state \<Rightarrow> gas_state" where
  "begin_build s = s\<lparr>pendingTransactions := pendingTransactions s + 1\<rparr>"

definition fail_build :: "gas_state \<Rightarrow> gas_state" where
  "fail_build s = s\<lparr>pendingTransactions := pendingTransactions s - 1\<rparr>"

text \<open>An await of a refill that throws ends the refill.\<close>

definition refill_failed :: "gas_state \<Rightarrow> gas_state" where
  "refill_failed s = s\<lparr>refill := Idle\<rparr>"

subsection \<open>Reachable states\<close>

fun source_ids :: "(string \<times> object_id_ref option) list option \<Rightarrow> string list" where
  "source_ids None = []"
| "source_ids (Some m) = map fst m"

fun payment_ids :: "stage \<Rightarrow> string list" where
  "payment_ids (Splitting (Some refs) n) = map r_objectId refs"
| "payment_ids _ = []"

text \<open>The ids of the coins the executor knows of.\<close>

definition known :: "gas_state \<Rightarrow> string list" where
  "known s = map gc_id (coinPool s) @ map gc_id (inFlight s) @ source_ids (sourceCoins s) @ payment_ids (refill s)"

text \<open>
  What the steps rely on: \<open>getObjects\<close> answers for the ids it was asked for, the gas object of an
  execution is the gas coin it was paid with, and the coins a split creates are new. A split with no
  payment, or an empty one, is paid with a coin the executor does not know, or without a gas object.
\<close>

definition fetched_ids :: "(string + object_id_ref) list \<Rightarrow> string list" where
  "fetched_ids objects = concat (map (\<lambda>x. case x of Inl e \<Rightarrow> [] | Inr r \<Rightarrow> [r_objectId r]) objects)"

definition created_ids :: "(object_id_ref \<times> bool) list \<Rightarrow> object_id_ref \<Rightarrow> string list" where
  "created_ids changed gasObject = map (r_objectId \<circ> fst) (filter (\<lambda>(r, w). r_objectId r \<noteq> r_objectId gasObject \<and> w) changed)"

definition written_ids :: "(object_id_ref \<times> bool) list \<Rightarrow> string list" where
  "written_ids changed = map (r_objectId \<circ> fst) (filter snd changed)"

inductive gas_run :: "pool_options \<Rightarrow> gas_state \<Rightarrow> bool" for opts where
  start: "distinct (case source of None \<Rightarrow> [] | Some is \<Rightarrow> is) \<Longrightarrow> gas_run opts (new_gas_state source)"
| build: "gas_run opts s \<Longrightarrow> gas_run opts (begin_build s)"
| unbuild: "gas_run opts s \<Longrightarrow> gas_run opts (fail_build s)"
| begins: "gas_run opts s \<Longrightarrow> refill s = Idle \<Longrightarrow> needs_refill opts s \<Longrightarrow> gas_run opts (refill_begin opts s)"
| fetched: "gas_run opts s \<Longrightarrow> refill s = Fetching refs ids n \<Longrightarrow> distinct (fetched_ids objects) \<Longrightarrow>
    set (fetched_ids objects) \<subseteq> set ids \<Longrightarrow> gas_run opts (refill_fetched objects s)"
| split: "gas_run opts s \<Longrightarrow> refill s = Splitting payment n \<Longrightarrow>
    (if payment = None \<or> payment = Some [] then r_objectId gas \<notin> set (known s)
     else r_objectId gas \<in> set (payment_ids (refill s))) \<Longrightarrow>
    distinct (created_ids changed gas) \<Longrightarrow> set (created_ids changed gas) \<inter> set (known s) = {} \<Longrightarrow>
    gas_run opts (refill_done opts changed gas s)"
| unpaid: "gas_run opts s \<Longrightarrow> refill s = Splitting payment n \<Longrightarrow> payment = None \<or> payment = Some [] \<Longrightarrow>
    distinct (written_ids changed) \<Longrightarrow> set (written_ids changed) \<inter> set (known s) = {} \<Longrightarrow>
    gas_run opts (refill_unpaid opts changed s)"
| fails: "gas_run opts s \<Longrightarrow> gas_run opts (refill_failed s)"
| takes: "gas_run opts s \<Longrightarrow> refill s = Idle \<Longrightarrow> take_coin s = (Inr coin, s') \<Longrightarrow> gas_run opts s'"
| executed: "gas_run opts s \<Longrightarrow> coin \<in> set (inFlight s) \<Longrightarrow> r_objectId gas = gc_id coin \<Longrightarrow>
    gas_run opts (coin_executed opts coin gas used own uses_gas s)"
| failed: "gas_run opts s \<Longrightarrow> coin \<in> set (inFlight s) \<Longrightarrow> gas_run opts (coin_failed coin s)"

definition gas_inv :: "gas_state \<Rightarrow> bool" where
  "gas_inv s \<longleftrightarrow> distinct (known s) \<and>
     (\<forall>i r. (i, Some r) \<in> set (case sourceCoins s of None \<Rightarrow> [] | Some m \<Rightarrow> m) \<longrightarrow> r_objectId r = i) \<and>
     (\<forall>refs ids n. refill s = Fetching refs ids n \<longrightarrow>
        distinct (map r_objectId refs @ ids) \<and> set (map r_objectId refs @ ids) \<subseteq> set (source_ids (sourceCoins s)))"

lemma split_refs_ids:
  "distinct (map fst m) \<Longrightarrow> (\<forall>i r. (i, Some r) \<in> set m \<longrightarrow> r_objectId r = i) \<Longrightarrow> split_refs m = (refs, ids) \<Longrightarrow>
   mset (map r_objectId refs @ ids) = mset (map fst m)"
proof (induction m arbitrary: refs ids)
  case (Cons x m)
  obtain i ref where x: "x = (i, ref)" by (cases x)
  obtain refs' ids' where m: "split_refs m = (refs', ids')" by (cases "split_refs m")
  have "mset (map r_objectId refs' @ ids') = mset (map fst m)"
    by (rule Cons.IH) (use Cons.prems m in auto)
  then show ?case using Cons.prems m x by (cases ref) (auto simp: split_refs_def)
qed (simp add: split_refs_def)

lemma known_set_source:
  "distinct (known s) \<Longrightarrow> i \<notin> set (known s) \<Longrightarrow> distinct (known (set_source i ref s))"
  by (cases "sourceCoins s"; auto simp: known_def set_source_def update_keys distinct_update dom_update)

lemma in_set_updateD: "x \<in> set (AList.update k v m) \<Longrightarrow> x = (k, v) \<or> x \<in> set m"
  by (induction m) (auto split: if_splits)

lemma map_remove1: "distinct (map f xs) \<Longrightarrow> x \<in> set xs \<Longrightarrow> map f (remove1 x xs) = remove1 (f x) (map f xs)"
proof (induction xs)
  case (Cons a xs)
  then have "x \<noteq> a \<Longrightarrow> f x \<noteq> f a" by auto (metis image_eqI)
  with Cons show ?case by auto
qed simp

text \<open>The bookkeeping apart from the ids.\<close>

definition ledger_ok :: "gas_state \<Rightarrow> bool" where
  "ledger_ok s \<longleftrightarrow>
     (\<forall>i r. (i, Some r) \<in> set (case sourceCoins s of None \<Rightarrow> [] | Some m \<Rightarrow> m) \<longrightarrow> r_objectId r = i) \<and>
     (\<forall>refs ids n. refill s = Fetching refs ids n \<longrightarrow>
        distinct (map r_objectId refs @ ids) \<and> set (map r_objectId refs @ ids) \<subseteq> set (source_ids (sourceCoins s)))"

lemma gas_inv_iff: "gas_inv s \<longleftrightarrow> distinct (known s) \<and> ledger_ok s"
  by (auto simp: gas_inv_def ledger_ok_def)

lemma ledger_ok_set_source:
  "ledger_ok s \<Longrightarrow> (\<And>r. ref = Some r \<Longrightarrow> r_objectId r = i) \<Longrightarrow> ledger_ok (set_source i ref s)"
proof -
  assume ok: "ledger_ok s" and i: "\<And>r. ref = Some r \<Longrightarrow> r_objectId r = i"
  have sub: "set (source_ids (sourceCoins s)) \<subseteq> set (source_ids (sourceCoins (set_source i ref s)))"
    by (cases "sourceCoins s") (auto simp: set_source_def dom_update)
  moreover have "refill (set_source i ref s) = refill s" by (simp add: set_source_def)
  moreover have "r_objectId r = j" if "(j, Some r) \<in> set (case sourceCoins (set_source i ref s) of None \<Rightarrow> [] | Some m \<Rightarrow> m)" for j r
    using that ok i by (cases "sourceCoins s") (auto simp: set_source_def ledger_ok_def dest!: in_set_updateD)
  ultimately show ?thesis
    using ok subset_trans [OF _ sub] unfolding ledger_ok_def by simp
qed

lemma leave_flight:
  assumes "coin \<in> set (inFlight s)" "distinct (known s)"
  shows "distinct (known (s\<lparr>inFlight := remove1 coin (inFlight s), pendingTransactions := n\<rparr>))"
    "set (known (s\<lparr>inFlight := remove1 coin (inFlight s), pendingTransactions := n\<rparr>)) = set (known s) - {gc_id coin}"
proof -
  have "map gc_id (remove1 coin (inFlight s)) = remove1 (gc_id coin) (map gc_id (inFlight s))"
    using assms by (intro map_remove1) (auto simp: known_def)
  then show "distinct (known (s\<lparr>inFlight := remove1 coin (inFlight s), pendingTransactions := n\<rparr>))"
    "set (known (s\<lparr>inFlight := remove1 coin (inFlight s), pendingTransactions := n\<rparr>)) = set (known s) - {gc_id coin}"
    using assms by (auto simp: known_def distinct_remove1)
qed

lemma distinct_narrow:
  "distinct (xs @ ys @ zs) \<Longrightarrow> set ws \<subseteq> set zs \<Longrightarrow> distinct ws \<Longrightarrow> distinct (xs @ ys @ ws)"
  by auto

lemma refill_begin_inv:
  assumes idle: "refill s = Idle" and d: "distinct (known s)" and ok: "ledger_ok s"
  shows "distinct (known (refill_begin opts s)) \<and> ledger_ok (refill_begin opts s)"
proof (cases "batchSize opts s = 0 \<or> sourceCoins s = None")
  case True
  then show ?thesis using d ok idle by (auto simp: refill_begin_def known_def ledger_ok_def Let_def split: option.splits)
next
  case False
  then obtain m where m: "sourceCoins s = Some m" by auto
  obtain refs ids where sp: "split_refs m = (refs, ids)" by (cases "split_refs m")
  have ids: "mset (map r_objectId refs @ ids) = mset (map fst m)"
    using split_refs_ids [OF _ _ sp] d ok m by (auto simp: known_def ledger_ok_def)
  have s: "refill_begin opts s = (if ids \<noteq> [] then s\<lparr>refill := Fetching refs ids (batchSize opts s)\<rparr>
      else s\<lparr>refill := Splitting (Some refs) (batchSize opts s), sourceCoins := Some []\<rparr>)"
    using m sp False by (simp add: refill_begin_def Let_def)
  show ?thesis
  proof (cases "ids = []")
    case True
    then have "mset (known (refill_begin opts s)) = mset (known s)"
      using ids by (simp add: s known_def m idle)
    then show ?thesis
      using d mset_eq_imp_distinct_iff ok True by (auto simp: s ledger_ok_def)
  next
    case False
    have "distinct (map r_objectId refs @ ids) \<and> set (map r_objectId refs @ ids) = fst ` set m"
      using mset_eq_imp_distinct_iff [OF ids] mset_eq_setD [OF ids] d m by (auto simp: known_def)
    then show ?thesis
      using d ok m False idle by (auto simp: s known_def ledger_ok_def)
  qed
qed

lemma gas_run_inv: "gas_run opts s \<Longrightarrow> gas_inv s"
  unfolding gas_inv_iff
proof (induction rule: gas_run.induct)
  case (start source)
  then show ?case by (cases source) (auto simp: new_gas_state_def known_def ledger_ok_def comp_def)
next
  case (begins s)
  then show ?case using refill_begin_inv by blast
next
  case (fetched s refs ids n objects)
  have r: "refill_fetched objects s = s\<lparr>refill := Splitting (Some (refs @ concat (map (\<lambda>x. case x of Inl e \<Rightarrow> [] | Inr r \<Rightarrow> [r]) objects))) n,
      sourceCoins := Some []\<rparr>" by (simp add: refill_fetched_def fetched.hyps(2))
  have "map r_objectId (concat (map (\<lambda>x. case x of Inl e \<Rightarrow> [] | Inr r \<Rightarrow> [r]) objects)) = fetched_ids objects"
    by (induction objects) (auto simp: fetched_ids_def split: sum.splits)
  then have known: "known (refill_fetched objects s) = map gc_id (coinPool s) @ map gc_id (inFlight s) @ (map r_objectId refs @ fetched_ids objects)"
    unfolding r by (simp add: known_def)
  have "distinct (map gc_id (coinPool s) @ map gc_id (inFlight s) @ source_ids (sourceCoins s))"
    using fetched.IH by (simp add: known_def fetched.hyps(2))
  then have "distinct (known (refill_fetched objects s))"
    unfolding known by (rule distinct_narrow) (use fetched in \<open>auto simp: ledger_ok_def\<close>)
  then show ?case unfolding r by (simp add: ledger_ok_def)
next
  case (split s payment n gas changed)
  let ?s = "s\<lparr>refill := Idle, coinPool := coinPool s @ map (\<lambda>(r, w). \<lparr>gc_id = r_objectId r, gc_version = r_version r,
      gc_digest = r_digest r, gc_balance = initialCoinBalance opts\<rparr>) (filter (\<lambda>(r, w). r_objectId r \<noteq> r_objectId gas \<and> w) changed)\<rparr>"
  have created: "map gc_id (coinPool ?s) = map gc_id (coinPool s) @ created_ids changed gas"
    by (induction changed) (auto simp: created_ids_def)
  have "r_objectId gas \<notin> set (created_ids changed gas)" by (auto simp: created_ids_def)
  then have "distinct (known ?s)" "r_objectId gas \<notin> set (known ?s)"
    using split unfolding known_def created by (cases payment; auto split: if_splits)+
  moreover have "ledger_ok ?s" using split by (auto simp: ledger_ok_def)
  ultimately show ?case
    unfolding refill_done_def by (intro conjI known_set_source ledger_ok_set_source) simp_all
next
  case (unpaid s payment n changed)
  have "map gc_id (coinPool (refill_unpaid opts changed s)) = map gc_id (coinPool s) @ written_ids changed"
    by (induction changed) (auto simp: written_ids_def refill_unpaid_def)
  moreover have "source_ids (sourceCoins (refill_unpaid opts changed s)) = source_ids (sourceCoins s)"
    by (cases "sourceCoins s") (simp_all add: refill_unpaid_def)
  ultimately have "distinct (known (refill_unpaid opts changed s))"
    using unpaid by (auto simp: known_def refill_unpaid_def)
  then show ?case using unpaid.IH by (auto simp: ledger_ok_def refill_unpaid_def split: option.splits)
next
  case (takes s coin s')
  then obtain rest where pool: "coinPool s = coin # rest" and s': "s' = s\<lparr>coinPool := rest, inFlight := inFlight s @ [coin]\<rparr>"
    by (auto simp: take_coin_def split: list.splits)
  then have "mset (known s') = mset (known s)" by (simp add: known_def)
  then have "distinct (known s')" using takes.IH mset_eq_imp_distinct_iff by blast
  moreover have "ledger_ok s'" using takes.IH by (simp add: s' ledger_ok_def)
  ultimately show ?case ..
next
  case (executed s coin gas used own uses_gas)
  let ?s = "s\<lparr>inFlight := remove1 coin (inFlight s), pendingTransactions := pendingTransactions s - 1\<rparr>"
  have s: "distinct (known ?s)" "gc_id coin \<notin> set (known ?s)" "ledger_ok ?s"
    using leave_flight [of coin s] executed by (auto simp: ledger_ok_def)
  then have "distinct (known (?s\<lparr>coinPool := coinPool ?s @ [c]\<rparr>)) \<and> ledger_ok (?s\<lparr>coinPool := coinPool ?s @ [c]\<rparr>)"
    if "gc_id c = gc_id coin" for c using that by (auto simp: known_def ledger_ok_def)
  then show ?case
    using s executed.hyps(3) by (auto simp: coin_executed_def Let_def intro!: known_set_source ledger_ok_set_source)
next
  case (failed s coin)
  let ?s = "s\<lparr>inFlight := remove1 coin (inFlight s), pendingTransactions := pendingTransactions s - 1\<rparr>"
  have s: "distinct (known ?s)" "gc_id coin \<notin> set (known ?s)" "ledger_ok ?s"
    using leave_flight [of coin s] failed by (auto simp: ledger_ok_def)
  then show ?case unfolding coin_failed_def by (intro conjI known_set_source ledger_ok_set_source) simp_all
qed (auto simp: begin_build_def fail_build_def refill_failed_def known_def ledger_ok_def)

subsection \<open>What the pool guarantees\<close>

text \<open>C31: No gas coin is used twice at the same time: the gas coins of the transactions in execution are
  different from each other, from the coins of the pool, and from those a refill is spending.\<close>

theorem gas_coins_exclusive:
  assumes "gas_run opts s"
  shows "distinct (map gc_id (inFlight s)) \<and>
    set (map gc_id (inFlight s)) \<inter> (set (map gc_id (coinPool s)) \<union> set (payment_ids (refill s))) = {}"
  using gas_run_inv [OF assms] by (auto simp: gas_inv_iff known_def)

text \<open>A gas coin that is given back while a refill awaits the objects it fetches is forgotten: the refill
  replaces the source coins by an empty map, so that the coin is neither spent nor kept.\<close>

theorem refill_forgets_coin:
  assumes "gas_run opts s" "refill s = Fetching refs ids n" "coin \<in> set (inFlight s)"
    and "set (fetched_ids objects) \<subseteq> set ids"
  shows "gc_id coin \<in> set (known (coin_failed coin s)) \<and>
    gc_id coin \<notin> set (known (refill_fetched objects (coin_failed coin s)))"
proof
  let ?s = "coin_failed coin s"
  have d: "distinct (known s)" "ledger_ok s" using gas_run_inv [OF assms(1)] by (auto simp: gas_inv_iff)
  show "gc_id coin \<in> set (known ?s)"
    by (cases "sourceCoins s") (auto simp: coin_failed_def set_source_def known_def dom_update)
  have "refill ?s = Fetching refs ids n" by (simp add: coin_failed_def set_source_def assms(2))
  then have "known (refill_fetched objects ?s) = map gc_id (coinPool s) @ map gc_id (remove1 coin (inFlight s)) @
      map r_objectId refs @ map r_objectId (concat (map (\<lambda>x. case x of Inl e \<Rightarrow> [] | Inr r \<Rightarrow> [r]) objects))"
    by (simp add: refill_fetched_def known_def coin_failed_def set_source_def)
  moreover have "map r_objectId (concat (map (\<lambda>x. case x of Inl e \<Rightarrow> [] | Inr r \<Rightarrow> [r]) objects)) = fetched_ids objects"
    by (induction objects) (auto simp: fetched_ids_def split: sum.splits)
  ultimately have known: "set (known (refill_fetched objects ?s)) \<subseteq>
      set (map gc_id (coinPool s)) \<union> set (map gc_id (remove1 coin (inFlight s))) \<union> set (source_ids (sourceCoins s))"
    using d(2) assms(2,4) by (auto simp: ledger_ok_def)
  have "map gc_id (remove1 coin (inFlight s)) = remove1 (gc_id coin) (map gc_id (inFlight s))"
    using d(1) assms(3) by (intro map_remove1) (auto simp: known_def)
  then have "gc_id coin \<notin> set (map gc_id (remove1 coin (inFlight s)))"
    using d(1) by (simp add: known_def set_remove1_eq)
  moreover have "gc_id coin \<notin> set (map gc_id (coinPool s)) \<union> set (source_ids (sourceCoins s))"
    using d(1) assms(3) by (auto simp: known_def)
  ultimately show "gc_id coin \<notin> set (known (refill_fetched objects ?s))" using known by blast
qed

text \<open>A refill that is asked for splits off at least one coin, at most a batch, and with the waiting and the
  running transactions at most one more than the pool's size.\<close>

theorem batchSize_bounds:
  assumes "needs_refill opts s" "1 \<le> coinBatchSize opts"
  shows "1 \<le> batchSize opts s \<and> batchSize opts s \<le> coinBatchSize opts \<and>
    int (length (coinPool s)) + batchSize opts s + pendingTransactions s \<le> maxPoolSize opts + 1"
  using assms by (auto simp: needs_refill_def batchSize_def)

subsection \<open>An example\<close>

definition example_opts :: pool_options where
  "example_opts = \<lparr>coinBatchSize = 2, initialCoinBalance = 100, minimumCoinBalance = 10, maxPoolSize = 3\<rparr>"

definition example_ref :: "string \<Rightarrow> object_id_ref" where
  "example_ref i = \<lparr>r_objectId = i, r_version = ''1'', r_digest = ''d''\<rparr>"

text \<open>A pool whose first refill has created two coins; both are in flight, one execution fails, and the
  next transaction asks for a refill that has to fetch the failed coin.\<close>

definition first_pool :: gas_state where
  "first_pool = refill_done example_opts [(example_ref ''a'', True), (example_ref ''b'', True)] (example_ref ''g'')
     (refill_begin example_opts (new_gas_state None))"

definition fetching_pool :: gas_state where
  "fetching_pool = refill_begin example_opts
     (coin_failed (coinPool first_pool ! 0) (snd (take_coin (snd (take_coin first_pool)))))"

lemma first_pool_eq:
  "first_pool = \<lparr>coinPool = [\<lparr>gc_id = ''a'', gc_version = ''1'', gc_digest = ''d'', gc_balance = 100\<rparr>,
      \<lparr>gc_id = ''b'', gc_version = ''1'', gc_digest = ''d'', gc_balance = 100\<rparr>],
     sourceCoins = Some [(''g'', Some (example_ref ''g''))], inFlight = [], refill = Idle, pendingTransactions = 0\<rparr>"
  by (simp add: first_pool_def refill_done_def refill_begin_def new_gas_state_def batchSize_def example_opts_def
      example_ref_def set_source_def Let_def)

lemma first_pool_run: "gas_run example_opts first_pool"
proof -
  have "gas_run example_opts (refill_begin example_opts (new_gas_state None))"
    by (rule gas_run.begins [OF gas_run.start]) (simp_all add: new_gas_state_def needs_refill_def example_opts_def)
  then show ?thesis
    unfolding first_pool_def
    by (rule gas_run.split [where payment = None and n = 2])
      (simp_all add: refill_begin_def new_gas_state_def batchSize_def example_opts_def known_def example_ref_def created_ids_def)
qed

lemma fetching_pool_run:
  "gas_run example_opts fetching_pool" "refill fetching_pool = Fetching [example_ref ''g''] [''a''] 2"
  "map gc_id (inFlight fetching_pool) = [''b'']"
proof -
  have "gas_run example_opts (snd (take_coin first_pool))"
    by (rule gas_run.takes [OF first_pool_run, where coin = "coinPool first_pool ! 0"]) (simp_all add: first_pool_eq take_coin_def)
  then have "gas_run example_opts (snd (take_coin (snd (take_coin first_pool))))"
    by (rule gas_run.takes [where coin = "coinPool first_pool ! 1"]) (simp_all add: first_pool_eq take_coin_def)
  then have "gas_run example_opts (coin_failed (coinPool first_pool ! 0) (snd (take_coin (snd (take_coin first_pool)))))"
    by (rule gas_run.failed) (simp add: first_pool_eq take_coin_def)
  then show "gas_run example_opts fetching_pool"
    unfolding fetching_pool_def
    by (rule gas_run.begins)
      (simp_all add: first_pool_eq take_coin_def coin_failed_def set_source_def needs_refill_def example_opts_def)
  show "refill fetching_pool = Fetching [example_ref ''g''] [''a''] 2" "map gc_id (inFlight fetching_pool) = [''b'']"
    by (simp_all add: fetching_pool_def first_pool_eq take_coin_def coin_failed_def set_source_def refill_begin_def
        batchSize_def example_opts_def split_refs_def Let_def)
qed

lemma gas_coins_exclusive_witness:
  "distinct (map gc_id (inFlight fetching_pool)) \<and>
    set (map gc_id (inFlight fetching_pool)) \<inter> (set (map gc_id (coinPool fetching_pool)) \<union> set (payment_ids (refill fetching_pool))) = {}"
  by (rule gas_coins_exclusive [OF fetching_pool_run(1)])

lemma refill_forgets_coin_witness:
  "gc_id (inFlight fetching_pool ! 0) \<in> set (known (coin_failed (inFlight fetching_pool ! 0) fetching_pool)) \<and>
    gc_id (inFlight fetching_pool ! 0) \<notin> set (known (refill_fetched [Inr (example_ref ''a'')] (coin_failed (inFlight fetching_pool ! 0) fetching_pool)))"
proof (rule refill_forgets_coin [OF fetching_pool_run(1,2)])
  have "length (inFlight fetching_pool) = 1" using fetching_pool_run(3) by (metis length_map length_Cons list.size(3) One_nat_def)
  then show "inFlight fetching_pool ! 0 \<in> set (inFlight fetching_pool)" by simp
qed (simp add: fetched_ids_def example_ref_def)

lemma batchSize_bounds_witness:
  "1 \<le> batchSize example_opts (new_gas_state None) \<and> batchSize example_opts (new_gas_state None) \<le> coinBatchSize example_opts \<and>
    int (length (coinPool (new_gas_state None))) + batchSize example_opts (new_gas_state None) + pendingTransactions (new_gas_state None)
      \<le> maxPoolSize example_opts + 1"
  by (rule batchSize_bounds) (simp_all add: needs_refill_def new_gas_state_def example_opts_def)

end
