(* ===== verification/Object_Cache.thy ===== *)
theory Object_Cache
  imports Transaction_Data
begin

text \<open>
  \<open>packages/myso/src/transactions/ObjectCache.ts\<close>. The abstract class \<open>AsyncCache\<close> is the record
  \<open>cache_ops\<close> of its four primitive operations on a store, its methods are functions over such a
  record, the locale \<open>async_cache\<close> is the contract the primitives owe, and \<open>InMemoryCache\<close> is the
  instance \<open>in_memory\<close> that meets it.

  Promises are run in the order in which the code creates them: the primitives of \<open>InMemoryCache\<close>
  do their work before they return their promise.
\<close>

record object_entry =
  e_objectId :: string
  e_version :: string
  e_digest :: string
  e_owner :: "string option"
  e_initialSharedVersion :: "string option"

record 'p function_entry =
  f_package :: string
  f_module :: string
  f_function :: string
  f_parameters :: 'p

datatype kind = OwnedObject | SharedOrImmutableObject | MoveFunction | Custom

datatype ('p, 'c) entry = ObjectEntry object_entry | FunctionEntry "'p function_entry" | CustomEntry 'c

record ('s, 'p, 'c) cache_ops =
  c_get :: "'s \<Rightarrow> kind \<Rightarrow> string \<Rightarrow> ('p, 'c) entry option"
  c_set :: "'s \<Rightarrow> kind \<Rightarrow> string \<Rightarrow> ('p, 'c) entry \<Rightarrow> 's"
  c_delete :: "'s \<Rightarrow> kind \<Rightarrow> string \<Rightarrow> 's"
  c_clear :: "'s \<Rightarrow> kind option \<Rightarrow> 's"

subsection \<open>The methods of AsyncCache\<close>

fun as_object :: "('p, 'c) entry option \<Rightarrow> object_entry option" where
  "as_object (Some (ObjectEntry e)) = Some e"
| "as_object _ = None"

fun as_function :: "('p, 'c) entry option \<Rightarrow> 'p function_entry option" where
  "as_function (Some (FunctionEntry e)) = Some e"
| "as_function _ = None"

fun as_custom :: "('p, 'c) entry option \<Rightarrow> 'c option" where
  "as_custom (Some (CustomEntry e)) = Some e"
| "as_custom _ = None"

definition getObject :: "('s, 'p, 'c) cache_ops \<Rightarrow> 's \<Rightarrow> string \<Rightarrow> object_entry option" where
  "getObject ops s objId =
     (case as_object (c_get ops s OwnedObject objId) of
        Some e \<Rightarrow> Some e
      | None \<Rightarrow> as_object (c_get ops s SharedOrImmutableObject objId))"

definition getObjects :: "('s, 'p, 'c) cache_ops \<Rightarrow> 's \<Rightarrow> string list \<Rightarrow> object_entry option list" where
  "getObjects ops s ids = map (getObject ops s) ids"

definition addObject :: "('s, 'p, 'c) cache_ops \<Rightarrow> 's \<Rightarrow> object_entry \<Rightarrow> 's" where
  "addObject ops s object =
     (if truthy_str (e_owner object) then c_set ops s OwnedObject (e_objectId object) (ObjectEntry object)
      else c_set ops s SharedOrImmutableObject (e_objectId object) (ObjectEntry object))"

definition addObjects :: "('s, 'p, 'c) cache_ops \<Rightarrow> 's \<Rightarrow> object_entry list \<Rightarrow> 's" where
  "addObjects ops s objects = foldl (addObject ops) s objects"

definition deleteObject :: "('s, 'p, 'c) cache_ops \<Rightarrow> 's \<Rightarrow> string \<Rightarrow> 's" where
  "deleteObject ops s objId = c_delete ops (c_delete ops s OwnedObject objId) SharedOrImmutableObject objId"

definition deleteObjects :: "('s, 'p, 'c) cache_ops \<Rightarrow> 's \<Rightarrow> string list \<Rightarrow> 's" where
  "deleteObjects ops s ids = foldl (deleteObject ops) s ids"

definition function_name :: "string \<Rightarrow> string \<Rightarrow> string \<Rightarrow> string" where
  "function_name package module function = normalizeMySoAddress package False @ ''::'' @ module @ ''::'' @ function"

definition getMoveFunctionDefinition ::
  "('s, 'p, 'c) cache_ops \<Rightarrow> 's \<Rightarrow> string \<Rightarrow> string \<Rightarrow> string \<Rightarrow> 'p function_entry option" where
  "getMoveFunctionDefinition ops s package module function =
     as_function (c_get ops s MoveFunction (function_name package module function))"

definition addMoveFunctionDefinition :: "('s, 'p, 'c) cache_ops \<Rightarrow> 's \<Rightarrow> 'p function_entry \<Rightarrow> 's" where
  "addMoveFunctionDefinition ops s e =
     c_set ops s MoveFunction (function_name (f_package e) (f_module e) (f_function e))
       (FunctionEntry (e\<lparr>f_package := normalizeMySoAddress (f_package e) False\<rparr>))"

definition deleteMoveFunctionDefinition :: "('s, 'p, 'c) cache_ops \<Rightarrow> 's \<Rightarrow> string \<Rightarrow> string \<Rightarrow> string \<Rightarrow> 's" where
  "deleteMoveFunctionDefinition ops s package module function =
     c_delete ops s MoveFunction (function_name package module function)"

definition getCustom :: "('s, 'p, 'c) cache_ops \<Rightarrow> 's \<Rightarrow> string \<Rightarrow> 'c option" where
  "getCustom ops s key = as_custom (c_get ops s Custom key)"

definition setCustom :: "('s, 'p, 'c) cache_ops \<Rightarrow> 's \<Rightarrow> string \<Rightarrow> 'c \<Rightarrow> 's" where
  "setCustom ops s key v = c_set ops s Custom key (CustomEntry v)"

definition deleteCustom :: "('s, 'p, 'c) cache_ops \<Rightarrow> 's \<Rightarrow> string \<Rightarrow> 's" where
  "deleteCustom ops s key = c_delete ops s Custom key"

subsection \<open>InMemoryCache\<close>

type_synonym ('p, 'c) store = "kind \<Rightarrow> string \<rightharpoonup> ('p, 'c) entry"

definition mem_get :: "('p, 'c) store \<Rightarrow> kind \<Rightarrow> string \<Rightarrow> ('p, 'c) entry option" where
  "mem_get s k key = s k key"

definition mem_set :: "('p, 'c) store \<Rightarrow> kind \<Rightarrow> string \<Rightarrow> ('p, 'c) entry \<Rightarrow> ('p, 'c) store" where
  "mem_set s k key v = s(k := (s k)(key \<mapsto> v))"

definition mem_delete :: "('p, 'c) store \<Rightarrow> kind \<Rightarrow> string \<Rightarrow> ('p, 'c) store" where
  "mem_delete s k key = s(k := (s k)(key := None))"

definition mem_clear :: "('p, 'c) store \<Rightarrow> kind option \<Rightarrow> ('p, 'c) store" where
  "mem_clear s k = (case k of Some k \<Rightarrow> s(k := Map.empty) | None \<Rightarrow> (\<lambda>_. Map.empty))"

definition in_memory :: "(('p, 'c) store, 'p, 'c) cache_ops" where
  "in_memory = \<lparr>c_get = mem_get, c_set = mem_set, c_delete = mem_delete, c_clear = mem_clear\<rparr>"

subsection \<open>ObjectCache\<close>

text \<open>The owner in the effects of a transaction.\<close>

datatype owner =
    AddressOwner string
  | ObjectOwner string
  | Shared string
  | Immutable
  | ConsensusAddressOwner string string

datatype output_state = NotExist | ObjectWrite string owner | PackageWrite string string

fun owner_address :: "owner \<Rightarrow> string option" where
  "owner_address (AddressOwner a) = Some a"
| "owner_address (ObjectOwner a) = Some a"
| "owner_address _ = None"

fun owner_shared_version :: "owner \<Rightarrow> string option" where
  "owner_shared_version (Shared v) = Some v"
| "owner_shared_version _ = None"

datatype effects = EffectsV1 | EffectsV2 (lamportVersion: string) (changedObjects: "(string \<times> output_state) list")

definition deleted_ids :: "(string \<times> output_state) list \<Rightarrow> string list" where
  "deleted_ids changes = concat (map (\<lambda>(objId, st). case st of NotExist \<Rightarrow> [objId] | _ \<Rightarrow> []) changes)"

definition added_objects :: "string \<Rightarrow> (string \<times> output_state) list \<Rightarrow> object_entry list" where
  "added_objects version changes =
     concat (map (\<lambda>(objId, st). case st of
        ObjectWrite digest own \<Rightarrow>
          [\<lparr>e_objectId = objId, e_version = version, e_digest = digest,
            e_owner = owner_address own, e_initialSharedVersion = owner_shared_version own\<rparr>]
      | _ \<Rightarrow> []) changes)"

text \<open>\<open>applyEffects\<close>; the callback \<open>onEffects\<close> works on its own state and is left out.\<close>

definition applyEffects :: "('s, 'p, 'c) cache_ops \<Rightarrow> 's \<Rightarrow> effects \<Rightarrow> 's res" where
  "applyEffects ops s eff =
     (case eff of
        EffectsV1 \<Rightarrow> Inl (Error ''Unsupported transaction effects version V1'')
      | EffectsV2 version changes \<Rightarrow>
          Inr (deleteObjects ops (addObjects ops s (added_objects version changes)) (deleted_ids changes)))"

definition cache_clearOwnedObjects :: "('s, 'p, 'c) cache_ops \<Rightarrow> 's \<Rightarrow> 's" where
  "cache_clearOwnedObjects ops s = c_clear ops s (Some OwnedObject)"

definition cache_clearCustom :: "('s, 'p, 'c) cache_ops \<Rightarrow> 's \<Rightarrow> 's" where
  "cache_clearCustom ops s = c_clear ops s (Some Custom)"

definition cache_clear :: "('s, 'p, 'c) cache_ops \<Rightarrow> 's \<Rightarrow> 's" where
  "cache_clear ops s = c_clear ops s None"

text \<open>What the plugin fills in for one unresolved input from its cached entry.\<close>

definition truthy_string :: "string \<Rightarrow> bool" where
  "truthy_string s \<longleftrightarrow> s \<noteq> []"

definition fill_unresolved :: "object_entry \<Rightarrow> unresolved_object \<Rightarrow> unresolved_object" where
  "fill_unresolved cached u =
     (if truthy_str (e_initialSharedVersion cached) \<and> \<not> truthy_u64 (uo_initialSharedVersion u)
      then u\<lparr>uo_initialSharedVersion := map_option U64Str (e_initialSharedVersion cached)\<rparr>
      else let u = (if truthy_string (e_version cached) \<and> \<not> truthy_u64 (uo_version u)
                    then u\<lparr>uo_version := Some (U64Str (e_version cached))\<rparr> else u)
           in if truthy_string (e_digest cached) \<and> \<not> truthy_str (uo_digest u)
              then u\<lparr>uo_digest := Some (e_digest cached)\<rparr> else u)"

text \<open>
  The plugin. Before \<open>next\<close> it looks up the unresolved objects, fills in their inputs and sets the
  parameter types of the known Move calls; after it, it stores the types of the calls that have
  them. A command is paired with its \<open>_argumentTypes\<close>. The \<open>byId\<close> map is built from the cached
  entries in order, a later entry of the same id replacing an earlier one.
\<close>

definition fill_inputs :: "('s, 'p, 'c) cache_ops \<Rightarrow> 's \<Rightarrow> 'v call_arg list \<Rightarrow> 'v call_arg list" where
  "fill_inputs ops s ins =
     (let unresolvedObjects = concat (map (\<lambda>i. case i of UnresolvedObject u \<Rightarrow> [uo_objectId u] | _ \<Rightarrow> []) ins);
          cached = concat (map (\<lambda>e. case e of None \<Rightarrow> [] | Some e \<Rightarrow> [e]) (getObjects ops s unresolvedObjects));
          byId = map_of (rev (map (\<lambda>e. (e_objectId e, e)) cached))
      in map (\<lambda>i. case i of
           UnresolvedObject u \<Rightarrow> (case byId (uo_objectId u) of None \<Rightarrow> i | Some e \<Rightarrow> UnresolvedObject (fill_unresolved e u))
         | _ \<Rightarrow> i) ins)"

fun fill_types :: "('s, 'p, 'c) cache_ops \<Rightarrow> 's \<Rightarrow> 'v command \<times> 'p option \<Rightarrow> 'v command \<times> 'p option" where
  "fill_types ops s (MoveCall p m f tas args, types) =
     (MoveCall p m f tas args,
      case getMoveFunctionDefinition ops s p m f of Some def \<Rightarrow> Some (f_parameters def) | None \<Rightarrow> types)"
| "fill_types ops s c = c"

fun store_types :: "('s, 'p, 'c) cache_ops \<Rightarrow> 's \<Rightarrow> 'v command \<times> 'p option \<Rightarrow> 's" where
  "store_types ops s (MoveCall p m f tas args, Some types) =
     addMoveFunctionDefinition ops s \<lparr>f_package = p, f_module = m, f_function = f, f_parameters = types\<rparr>"
| "store_types ops s c = s"

definition asPlugin :: "('s, 'p, 'c) cache_ops \<Rightarrow>
    ('v call_arg list \<times> ('v command \<times> 'p option) list \<Rightarrow> 'v call_arg list \<times> ('v command \<times> 'p option) list) \<Rightarrow>
    's \<Rightarrow> 'v call_arg list \<times> ('v command \<times> 'p option) list \<Rightarrow>
    's \<times> 'v call_arg list \<times> ('v command \<times> 'p option) list" where
  "asPlugin ops nxt s tx =
     (let (ins, cmds) = nxt (fill_inputs ops s (fst tx), map (fill_types ops s) (snd tx))
      in (foldl (store_types ops) s cmds, ins, cmds))"

subsection \<open>The contract of a cache\<close>

text \<open>The id under which an entry is found is the id of the entry.\<close>

definition filed :: "('s, 'p, 'c) cache_ops \<Rightarrow> 's \<Rightarrow> bool" where
  "filed ops s \<longleftrightarrow> (\<forall>objId. pred_option (\<lambda>e. e_objectId e = objId) (as_object (c_get ops s OwnedObject objId)) \<and>
                        pred_option (\<lambda>e. e_objectId e = objId) (as_object (c_get ops s SharedOrImmutableObject objId)))"

locale async_cache =
  fixes ops :: "('s, 'p, 'c) cache_ops"
  assumes get_set: "c_get ops (c_set ops s k key v) k' key' = (if k' = k \<and> key' = key then Some v else c_get ops s k' key')"
    and get_delete: "c_get ops (c_delete ops s k key) k' key' = (if k' = k \<and> key' = key then None else c_get ops s k' key')"
    and get_clear: "c_get ops (c_clear ops s ko) k' key' = (if ko = None \<or> ko = Some k' then None else c_get ops s k' key')"
begin

lemma getObject_addObject_other:
  "objId \<noteq> e_objectId e \<Longrightarrow> getObject ops (addObject ops s e) objId = getObject ops s objId"
  by (simp add: getObject_def addObject_def get_set cong: option.case_cong)

lemma getObject_addObject_owned:
  "truthy_str (e_owner e) \<Longrightarrow> getObject ops (addObject ops s e) (e_objectId e) = Some e"
  by (simp add: getObject_def addObject_def get_set cong: option.case_cong)

lemma getObject_addObject_shared:
  "\<not> truthy_str (e_owner e) \<Longrightarrow>
   getObject ops (addObject ops s e) (e_objectId e)
     = (case as_object (c_get ops s OwnedObject (e_objectId e)) of Some old \<Rightarrow> Some old | None \<Rightarrow> Some e)"
  by (simp add: getObject_def addObject_def get_set cong: option.case_cong)

lemma getObject_deleteObject:
  "getObject ops (deleteObject ops s d) objId = (if objId = d then None else getObject ops s objId)"
  by (simp add: getObject_def deleteObject_def get_delete cong: option.case_cong)

lemma getObject_deleteObjects:
  "getObject ops (deleteObjects ops s ids) objId = (if objId \<in> set ids then None else getObject ops s objId)"
  by (induction ids arbitrary: s) (auto simp: deleteObjects_def getObject_deleteObject)

lemma getObject_addObjects_other:
  "objId \<notin> e_objectId ` set es \<Longrightarrow> getObject ops (addObjects ops s es) objId = getObject ops s objId"
  by (induction es arbitrary: s) (auto simp: addObjects_def getObject_addObject_other)

lemma owned_entry_addObjects_other:
  "objId \<notin> e_objectId ` set es \<Longrightarrow> c_get ops (addObjects ops s es) OwnedObject objId = c_get ops s OwnedObject objId"
  by (induction es arbitrary: s) (auto simp: addObjects_def addObject_def get_set)

lemma getObject_addObject:
  "getObject ops (addObject ops s e) (e_objectId e) =
     (if truthy_str (e_owner e) then Some e
      else case as_object (c_get ops s OwnedObject (e_objectId e)) of Some old \<Rightarrow> Some old | None \<Rightarrow> Some e)"
  by (simp add: getObject_addObject_owned getObject_addObject_shared)

lemma getObject_addObjects:
  assumes "e \<in> set es" "distinct (map e_objectId es)"
  shows "getObject ops (addObjects ops s es) (e_objectId e) =
     (if truthy_str (e_owner e) then Some e
      else case as_object (c_get ops s OwnedObject (e_objectId e)) of Some old \<Rightarrow> Some old | None \<Rightarrow> Some e)"
  using assms
proof (induction es arbitrary: s)
  case (Cons x es)
  show ?case
  proof (cases "x = e")
    case True
    then have "e_objectId e \<notin> e_objectId ` set es" using Cons.prems(2) by auto
    from getObject_addObjects_other [OF this] True show ?thesis
      by (simp add: addObjects_def getObject_addObject)
  next
    case False
    with Cons.prems have "e \<in> set es" by simp
    moreover with Cons.prems have "e_objectId e \<noteq> e_objectId x" by (auto simp: image_iff)
    ultimately have "c_get ops (addObject ops s x) OwnedObject (e_objectId e) = c_get ops s OwnedObject (e_objectId e)"
      by (simp add: addObject_def get_set)
    with Cons.IH [of "addObject ops s x"] Cons.prems \<open>e \<in> set es\<close> show ?thesis
      by (simp add: addObjects_def)
  qed
qed simp

lemma getMoveFunctionDefinition_add:
  "getMoveFunctionDefinition ops (addMoveFunctionDefinition ops s e) p m f =
     (if function_name p m f = function_name (f_package e) (f_module e) (f_function e)
      then Some (e\<lparr>f_package := normalizeMySoAddress (f_package e) False\<rparr>)
      else getMoveFunctionDefinition ops s p m f)"
  by (simp add: getMoveFunctionDefinition_def addMoveFunctionDefinition_def get_set)

lemma getCustom_ops:
  "getCustom ops (setCustom ops s key v) key' = (if key' = key then Some v else getCustom ops s key')"
  "getCustom ops (deleteCustom ops s key) key' = (if key' = key then None else getCustom ops s key')"
  "getCustom ops (cache_clearCustom ops s) key = None"
  by (simp_all add: getCustom_def setCustom_def deleteCustom_def cache_clearCustom_def get_set get_delete get_clear)

lemma filed_getObject: "filed ops s \<Longrightarrow> getObject ops s objId = Some e \<Longrightarrow> e_objectId e = objId"
  unfolding filed_def getObject_def by (auto split: option.splits dest: spec [of _ objId])

lemma filed_addObjects: "filed ops s \<Longrightarrow> filed ops (addObjects ops s es)"
  by (induction es arbitrary: s) (auto simp: addObjects_def filed_def addObject_def get_set)

lemma filed_deleteObjects: "filed ops s \<Longrightarrow> filed ops (deleteObjects ops s ids)"
  by (induction ids arbitrary: s) (auto simp: deleteObjects_def filed_def deleteObject_def get_delete)

lemma filed_clear: "filed ops s \<Longrightarrow> filed ops (c_clear ops s ko)"
  by (auto simp: filed_def get_clear)

lemma filed_addMoveFunctionDefinition: "filed ops s \<Longrightarrow> filed ops (addMoveFunctionDefinition ops s def)"
  by (auto simp: filed_def addMoveFunctionDefinition_def get_set)

lemma filed_custom: "filed ops s \<Longrightarrow> filed ops (setCustom ops s key v) \<and> filed ops (deleteCustom ops s key)"
  by (auto simp: filed_def setCustom_def deleteCustom_def get_set get_delete)

lemma byId_lookup:
  assumes "filed ops s"
  shows "map_of (rev (map (\<lambda>e. (e_objectId e, e))
           (concat (map (\<lambda>e. case e of None \<Rightarrow> [] | Some e \<Rightarrow> [e]) (getObjects ops s ids))))) objId
         = (if objId \<in> set ids then getObject ops s objId else None)"
proof (induction ids)
  case Nil
  then show ?case by (simp add: getObjects_def)
next
  case (Cons x ids)
  show ?case
  proof (cases "getObject ops s x")
    case None
    with Cons show ?thesis by (auto simp: getObjects_def)
  next
    case (Some e)
    then have "e_objectId e = x" by (rule filed_getObject [OF assms])
    with Cons Some show ?thesis by (auto simp: getObjects_def map_add_def split: option.splits)
  qed
qed

lemma fill_inputs_eq:
  assumes "filed ops s"
  shows "fill_inputs ops s ins = map (\<lambda>i. case i of
           UnresolvedObject u \<Rightarrow> (case getObject ops s (uo_objectId u) of None \<Rightarrow> i | Some e \<Rightarrow> UnresolvedObject (fill_unresolved e u))
         | _ \<Rightarrow> i) ins"
  unfolding fill_inputs_def Let_def byId_lookup [OF assms]
  by (force split: call_arg.splits)

end

interpretation mem: async_cache "in_memory :: (('p, 'c) store, 'p, 'c) cache_ops"
  by unfold_locales
    (auto simp: in_memory_def mem_get_def mem_set_def mem_delete_def mem_clear_def split: option.splits)

subsection \<open>The states of the cache of an executor\<close>

text \<open>
  Every state an \<open>ObjectCache\<close> over \<open>InMemoryCache\<close> can be in. The plugin changes the cache by adding
  the definitions of Move functions only (\<open>reachable_plugin\<close>).
\<close>

inductive cache_reachable :: "('p, 'c) store \<Rightarrow> bool" where
  empty: "cache_reachable (\<lambda>_. Map.empty)"
| effects: "cache_reachable s \<Longrightarrow> applyEffects in_memory s eff = Inr s' \<Longrightarrow> cache_reachable s'"
| deletes: "cache_reachable s \<Longrightarrow> cache_reachable (deleteObjects in_memory s ids)"
| learns: "cache_reachable s \<Longrightarrow> cache_reachable (addMoveFunctionDefinition in_memory s def)"
| clears: "cache_reachable s \<Longrightarrow> cache_reachable (c_clear in_memory s ko)"
| customs: "cache_reachable s \<Longrightarrow> cache_reachable (setCustom in_memory s key v)"
| customd: "cache_reachable s \<Longrightarrow> cache_reachable (deleteCustom in_memory s key)"

lemma reachable_filed: "cache_reachable s \<Longrightarrow> filed in_memory s"
proof (induction rule: cache_reachable.induct)
  case empty
  then show ?case by (simp add: filed_def in_memory_def mem_get_def)
next
  case (effects s eff s')
  then show ?case
    by (auto simp: applyEffects_def mem.filed_addObjects mem.filed_deleteObjects split: effects.splits)
qed (auto simp: mem.filed_deleteObjects mem.filed_clear mem.filed_custom mem.filed_addMoveFunctionDefinition)

lemma reachable_store_types: "cache_reachable s \<Longrightarrow> cache_reachable (store_types in_memory s c)"
  by (cases "(in_memory :: (('a, 'b) store, 'a, 'b) cache_ops, s, c)" rule: store_types.cases)
    (auto intro: cache_reachable.learns)

lemma reachable_plugin: "cache_reachable s \<Longrightarrow> cache_reachable (fst (asPlugin in_memory nxt s tx))"
proof -
  have "cache_reachable s \<Longrightarrow> cache_reachable (foldl (store_types in_memory) s cmds)" for cmds :: "('c command \<times> 'a option) list"
    by (induction cmds arbitrary: s) (auto simp: reachable_store_types)
  then show "cache_reachable s \<Longrightarrow> ?thesis" by (simp add: asPlugin_def Let_def split_beta)
qed

definition written :: "string \<Rightarrow> string \<Rightarrow> string \<Rightarrow> owner \<Rightarrow> object_entry" where
  "written version objId digest own = \<lparr>e_objectId = objId, e_version = version, e_digest = digest,
     e_owner = owner_address own, e_initialSharedVersion = owner_shared_version own\<rparr>"

lemma e_objectId_written [simp]: "e_objectId (written version objId digest own) = objId"
  "e_owner (written version objId digest own) = owner_address own"
  by (simp_all add: written_def)

lemma set_added_objects:
  "set (added_objects version changes) = {written version objId digest own |objId digest own. (objId, ObjectWrite digest own) \<in> set changes}"
  by (force simp: added_objects_def written_def split: output_state.splits)

lemma set_deleted_ids: "set (deleted_ids changes) = {objId. (objId, NotExist) \<in> set changes}"
  by (force simp: deleted_ids_def split: output_state.splits)

lemma added_objects_Cons:
  "added_objects version ((objId, st) # changes) =
     (case st of ObjectWrite digest own \<Rightarrow> [written version objId digest own] | _ \<Rightarrow> []) @ added_objects version changes"
  by (auto simp: added_objects_def written_def split: output_state.splits)

lemma distinct_added_objects: "distinct (map fst changes) \<Longrightarrow> distinct (map e_objectId (added_objects version changes))"
proof (induction changes)
  case (Cons c changes)
  obtain objId st where c: "c = (objId, st)" by (cases c)
  have "e_objectId ` set (added_objects version changes) \<subseteq> fst ` set changes"
    by (force simp: set_added_objects)
  with Cons c show ?case by (cases st) (auto simp: added_objects_Cons)
qed (simp add: added_objects_def)

text \<open>C28: After the effects of a transaction are applied, a lookup gives nothing for a deleted object,
  the new version and digest for an object written to an owner, and what it gave before for every
  object the transaction did not write. For an object written to no owner (shared or immutable) it
  gives the new entry only if the cache held no owned entry of that id.\<close>

theorem applyEffects_getObject:
  assumes "applyEffects in_memory s (EffectsV2 version changes) = Inr s'" and "distinct (map fst changes)"
  shows "getObject in_memory s' objId =
    (case map_of changes objId of
       Some NotExist \<Rightarrow> None
     | Some (ObjectWrite digest own) \<Rightarrow>
         if truthy_str (owner_address own) then Some (written version objId digest own)
         else (case as_object (s OwnedObject objId) of
                 Some old \<Rightarrow> Some old
               | None \<Rightarrow> Some (written version objId digest own))
     | _ \<Rightarrow> getObject in_memory s objId)"
proof -
  let ?es = "added_objects version changes"
  have s': "s' = deleteObjects in_memory (addObjects in_memory s ?es) (deleted_ids changes)"
    using assms(1) by (simp add: applyEffects_def)
  have mapped: "(objId, st) \<in> set changes \<longleftrightarrow> map_of changes objId = Some st" for st
    using map_of_eq_Some_iff [OF assms(2)] by simp
  have other: "objId \<notin> e_objectId ` set ?es" if "\<And>d own. map_of changes objId \<noteq> Some (ObjectWrite d own)"
    using that by (auto simp: set_added_objects mapped [symmetric])
  have added: "getObject in_memory (addObjects in_memory s ?es) objId =
     (if truthy_str (owner_address own) then Some (written version objId d own)
      else case as_object (s OwnedObject objId) of Some old \<Rightarrow> Some old | None \<Rightarrow> Some (written version objId d own))"
    if "map_of changes objId = Some (ObjectWrite d own)" for d own
  proof -
    have "written version objId d own \<in> set ?es" using that by (force simp: set_added_objects mapped)
    from mem.getObject_addObjects [OF this distinct_added_objects [OF assms(2)], of s] show ?thesis
      by (simp add: in_memory_def mem_get_def)
  qed
  show ?thesis
    by (cases "map_of changes objId" rule: option.exhaust; cases "the (map_of changes objId)")
      (simp_all add: s' mem.getObject_deleteObjects set_deleted_ids mapped added mem.getObject_addObjects_other other)
qed

lemma applyEffects_getObject_witness:
  "getObject in_memory (deleteObjects in_memory (addObjects in_memory ((\<lambda>_. Map.empty) :: (unit, unit) store)
      [written ''7'' ''0x1'' ''d'' (AddressOwner ''0xa'')]) [''0x2'']) ''0x1''
   = Some (written ''7'' ''0x1'' ''d'' (AddressOwner ''0xa''))"
  using applyEffects_getObject [of "(\<lambda>_. Map.empty) :: (unit, unit) store" "''7''"
    "[(''0x1'', ObjectWrite ''d'' (AddressOwner ''0xa'')), (''0x2'', NotExist)]" _ "''0x1''"]
  by (simp add: applyEffects_def added_objects_Cons deleted_ids_def truthy_str_def added_objects_def written_def)

text \<open>When a transaction freezes an owned object that is cached, the cache keeps answering with the
  owned entry of the old version.\<close>

theorem applyEffects_stale:
  assumes "s OwnedObject objId = Some (ObjectEntry old)"
  shows "rmap (\<lambda>s'. getObject in_memory s' objId) (applyEffects in_memory s (EffectsV2 version [(objId, ObjectWrite digest Immutable)]))
    = Inr (Some old)"
  using assms
  by (simp add: applyEffects_def added_objects_def deleted_ids_def addObjects_def deleteObjects_def addObject_def
      truthy_str_def getObject_def in_memory_def mem_get_def mem_set_def)

lemma applyEffects_stale_witness:
  "rmap (\<lambda>s'. getObject in_memory s' ''0x1'')
     (applyEffects in_memory ((addObject in_memory (\<lambda>_. Map.empty) (written ''1'' ''0x1'' ''d'' (AddressOwner ''0xa''))) :: (unit, unit) store)
       (EffectsV2 ''7'' [(''0x1'', ObjectWrite ''e'' Immutable)]))
   = Inr (Some (written ''1'' ''0x1'' ''d'' (AddressOwner ''0xa'')))"
  by (rule applyEffects_stale) (simp add: addObject_def truthy_str_def in_memory_def mem_set_def)

text \<open>What the plugin may do to an unresolved object, given the cached entry of its id.\<close>

definition completes :: "object_entry \<Rightarrow> unresolved_object \<Rightarrow> unresolved_object \<Rightarrow> bool" where
  "completes e u u' \<longleftrightarrow>
     uo_objectId u' = uo_objectId u \<and> uo_mutable u' = uo_mutable u \<and>
     (truthy_u64 (uo_version u) \<longrightarrow> uo_version u' = uo_version u) \<and>
     (truthy_str (uo_digest u) \<longrightarrow> uo_digest u' = uo_digest u) \<and>
     (truthy_u64 (uo_initialSharedVersion u) \<longrightarrow> uo_initialSharedVersion u' = uo_initialSharedVersion u) \<and>
     (\<not> truthy_u64 (uo_version u) \<and> \<not> truthy_str (uo_digest u) \<and> \<not> truthy_u64 (uo_initialSharedVersion u) \<longrightarrow>
        (if truthy_str (e_initialSharedVersion e)
         then uo_initialSharedVersion u' = map_option U64Str (e_initialSharedVersion e)
         else (truthy_string (e_version e) \<longrightarrow> uo_version u' = Some (U64Str (e_version e))) \<and>
              (truthy_string (e_digest e) \<longrightarrow> uo_digest u' = Some (e_digest e))))"

lemma completes_fill_unresolved: "completes e u (fill_unresolved e u)"
  by (auto simp: completes_def fill_unresolved_def Let_def)

text \<open>What the plugin may do to an input before it calls \<open>next\<close>, given the cache.\<close>

definition input_completed :: "('p, 'c) store \<Rightarrow> 'v call_arg \<Rightarrow> 'v call_arg \<Rightarrow> bool" where
  "input_completed s a a' \<longleftrightarrow>
     (case a of
        UnresolvedObject u \<Rightarrow>
          (case getObject in_memory s (uo_objectId u) of
             None \<Rightarrow> a' = a
           | Some e \<Rightarrow> e_objectId e = uo_objectId u \<and> (\<exists>u'. a' = UnresolvedObject u' \<and> completes e u u'))
      | _ \<Rightarrow> a' = a)"

text \<open>And to a command: only the types of a Move call whose function the cache knows are set.\<close>

definition command_typed :: "('p, 'c) store \<Rightarrow> 'v command \<times> 'p option \<Rightarrow> 'v command \<times> 'p option \<Rightarrow> bool" where
  "command_typed s c c' \<longleftrightarrow> fst c' = fst c \<and>
     snd c' = (case fst c of
         MoveCall p m f tas args \<Rightarrow>
           (case getMoveFunctionDefinition in_memory s p m f of Some def \<Rightarrow> Some (f_parameters def) | None \<Rightarrow> snd c)
       | _ \<Rightarrow> snd c)"

text \<open>The types of the last of the commands that calls the function and has types.\<close>

fun call_types :: "string \<Rightarrow> 'v command \<times> 'p option \<Rightarrow> 'p option" where
  "call_types name (MoveCall p m f tas args, types) = (if function_name p m f = name then types else None)"
| "call_types name _ = None"

definition learned_types :: "string \<Rightarrow> ('v command \<times> 'p option) list \<Rightarrow> 'p option" where
  "learned_types name cmds = foldl (\<lambda>t c. case call_types name c of None \<Rightarrow> t | Some u \<Rightarrow> Some u) None cmds"

lemma fill_types_typed: "command_typed s c (fill_types in_memory s c)"
  by (cases "(in_memory :: (('a, 'b) store, 'a, 'b) cache_ops, s, c)" rule: fill_types.cases)
    (auto simp: command_typed_def split: option.splits)

lemma fill_inputs_completed: "filed in_memory s \<Longrightarrow> list_all2 (input_completed s) ins (fill_inputs in_memory s ins)"
  unfolding mem.fill_inputs_eq list_all2_map2
  unfolding list_all2_same
  by (auto simp: input_completed_def completes_fill_unresolved mem.filed_getObject split: call_arg.splits option.splits)

lemma learned_types_snoc:
  "learned_types name [] = None"
  "learned_types name (cmds @ [c]) = (case call_types name c of None \<Rightarrow> learned_types name cmds | Some t \<Rightarrow> Some t)"
  by (simp_all add: learned_types_def cong: option.case_cong)

lemma add_definition_keeps:
  "getObject in_memory (addMoveFunctionDefinition in_memory s def) objId = getObject in_memory s objId"
  "getCustom in_memory (addMoveFunctionDefinition in_memory s def) key = getCustom in_memory s key"
  by (simp_all add: getObject_def getCustom_def addMoveFunctionDefinition_def mem.get_set cong: option.case_cong)

lemma store_types_keeps:
  "getObject in_memory (store_types in_memory s c) objId = getObject in_memory s objId"
  "getCustom in_memory (store_types in_memory s c) key = getCustom in_memory s key"
  by (cases "(in_memory :: (('a, 'b) store, 'a, 'b) cache_ops, s, c)" rule: store_types.cases;
      simp add: add_definition_keeps)+

lemma store_types_definitions:
  "map_option f_parameters (getMoveFunctionDefinition in_memory (store_types in_memory s c) p m f) =
     (case call_types (function_name p m f) c of
        None \<Rightarrow> map_option f_parameters (getMoveFunctionDefinition in_memory s p m f) | Some t \<Rightarrow> Some t)"
proof (cases c)
  case (Pair cmd types)
  show ?thesis
  proof (cases cmd)
    case (MoveCall p' m' f' tas args)
    then show ?thesis by (cases types) (simp_all add: Pair mem.getMoveFunctionDefinition_add eq_commute [of "function_name p m f"])
  qed (simp_all add: Pair)
qed

lemma stored_types:
  "getObject in_memory (foldl (store_types in_memory) s cmds) objId = getObject in_memory s objId"
  "getCustom in_memory (foldl (store_types in_memory) s cmds) key = getCustom in_memory s key"
  "map_option f_parameters (getMoveFunctionDefinition in_memory (foldl (store_types in_memory) s cmds) p m f) =
     (case learned_types (function_name p m f) cmds of
        None \<Rightarrow> map_option f_parameters (getMoveFunctionDefinition in_memory s p m f) | Some t \<Rightarrow> Some t)"
proof -
  show "getObject in_memory (foldl (store_types in_memory) s cmds) objId = getObject in_memory s objId"
    by (induction cmds arbitrary: s) (simp_all add: store_types_keeps(1))
  show "getCustom in_memory (foldl (store_types in_memory) s cmds) key = getCustom in_memory s key"
    by (induction cmds arbitrary: s) (simp_all add: store_types_keeps(2))
  show "map_option f_parameters (getMoveFunctionDefinition in_memory (foldl (store_types in_memory) s cmds) p m f) =
     (case learned_types (function_name p m f) cmds of
        None \<Rightarrow> map_option f_parameters (getMoveFunctionDefinition in_memory s p m f) | Some t \<Rightarrow> Some t)"
    by (induction cmds rule: rev_induct)
      (simp_all add: learned_types_snoc store_types_definitions split: option.splits)
qed

text \<open>C39: In every state the cache can reach and whatever the rest of the resolution (\<open>nxt\<close>) does, the plugin
  hands on the same inputs but for the unresolved objects the cache knows, which it completes: it keeps their
  id, their mutability and every version, digest and shared version that was given, and one without any of them gets
  the cached shared version, or the cached version and digest. It hands on the same commands, but sets the
  argument types of the Move calls whose function the cache knows. It returns what the rest returns, and the cache
  has then learned the argument types of the returned Move calls, the last one of a function counting; its
  objects, its custom entries and the types of all other functions are as before.\<close>

theorem plugin_fills:
  assumes "cache_reachable s" and "asPlugin in_memory nxt s (ins, cmds) = (s', ins', cmds')"
  shows "\<exists>fins fcmds. nxt (fins, fcmds) = (ins', cmds') \<and>
      list_all2 (input_completed s) ins fins \<and> list_all2 (command_typed s) cmds fcmds \<and>
      (\<forall>objId. getObject in_memory s' objId = getObject in_memory s objId) \<and>
      (\<forall>key. getCustom in_memory s' key = getCustom in_memory s key) \<and>
      (\<forall>p m f. map_option f_parameters (getMoveFunctionDefinition in_memory s' p m f) =
         (case learned_types (function_name p m f) cmds' of
            None \<Rightarrow> map_option f_parameters (getMoveFunctionDefinition in_memory s p m f)
          | Some t \<Rightarrow> Some t))"
proof -
  let ?fins = "fill_inputs in_memory s ins" and ?fcmds = "map (fill_types in_memory s) cmds"
  have nxt: "nxt (?fins, ?fcmds) = (ins', cmds')" and s': "s' = foldl (store_types in_memory) s cmds'"
    using assms(2) by (auto simp: asPlugin_def Let_def split: prod.splits)
  have "list_all2 (command_typed s) cmds ?fcmds"
    unfolding list_all2_map2 list_all2_same by (simp add: fill_types_typed del: fill_types.simps)
  with nxt fill_inputs_completed [OF reachable_filed [OF assms(1)], of ins] show ?thesis
    unfolding s' stored_types by blast
qed

definition example_store :: "(unit, unit) store" where
  "example_store = addObject in_memory (\<lambda>_. Map.empty) (written ''1'' ''0x1'' ''d'' (AddressOwner ''0xa''))"

lemma example_store_reachable: "cache_reachable example_store"
  by (rule cache_reachable.effects [OF cache_reachable.empty, of "EffectsV2 ''1'' [(''0x1'', ObjectWrite ''d'' (AddressOwner ''0xa''))]"])
    (simp add: applyEffects_def example_store_def added_objects_def addObjects_def deleted_ids_def deleteObjects_def written_def)

definition example_unresolved :: unresolved_object where
  "example_unresolved = \<lparr>uo_objectId = ''0x1'', uo_version = None, uo_digest = None, uo_initialSharedVersion = None, uo_mutable = None\<rparr>"

definition example_call :: "string \<Rightarrow> unit command" where
  "example_call p = MoveCall p ''m'' ''f'' [] []"

text \<open>A resolution that finds the types of the call.\<close>

definition example_next :: "unit call_arg list \<times> (unit command \<times> unit option) list \<Rightarrow> unit call_arg list \<times> (unit command \<times> unit option) list" where
  "example_next tx = (fst tx, map (\<lambda>(c, types). (c, Some ())) (snd tx))"

lemma plugin_fills_witness:
  "\<exists>s' u. asPlugin in_memory example_next example_store ([UnresolvedObject example_unresolved], [(example_call ''0x2'', None)])
      = (s', [UnresolvedObject u], [(example_call ''0x2'', Some ())]) \<and>
    uo_version u = Some (U64Str ''1'') \<and>
    map_option f_parameters (getMoveFunctionDefinition in_memory s' ''0x2'' ''m'' ''f'') = Some ()"
proof -
  have e: "getObject in_memory example_store ''0x1'' = Some (written ''1'' ''0x1'' ''d'' (AddressOwner ''0xa''))"
    by (simp add: example_store_def mem.getObject_addObject_owned [of "written ''1'' ''0x1'' ''d'' (AddressOwner ''0xa'')", simplified] truthy_str_def)
  obtain s' ins' cmds' where r: "asPlugin in_memory example_next example_store ([UnresolvedObject example_unresolved], [(example_call ''0x2'', None)])
      = (s', ins', cmds')" by (metis prod.exhaust)
  from plugin_fills [OF example_store_reachable r] obtain fins fcmds where f: "example_next (fins, fcmds) = (ins', cmds')"
    "list_all2 (input_completed example_store) [UnresolvedObject example_unresolved] fins"
    "list_all2 (command_typed example_store) [(example_call ''0x2'', None)] fcmds"
    "map_option f_parameters (getMoveFunctionDefinition in_memory s' ''0x2'' ''m'' ''f'') =
         (case learned_types (function_name ''0x2'' ''m'' ''f'') cmds' of
            None \<Rightarrow> map_option f_parameters (getMoveFunctionDefinition in_memory example_store ''0x2'' ''m'' ''f'')
          | Some t \<Rightarrow> Some t)" by blast
  have c: "cmds' = [(example_call ''0x2'', Some ())]"
    using f(1,3) by (auto simp: example_next_def list_all2_Cons1 command_typed_def)
  moreover obtain u where "ins' = [UnresolvedObject u]" "uo_version u = Some (U64Str ''1'')"
    using f(1,2) e by (auto simp: example_next_def list_all2_Cons1 input_completed_def example_unresolved_def completes_def
        written_def truthy_u64_def truthy_str_def truthy_string_def)
  moreover have "learned_types (function_name ''0x2'' ''m'' ''f'') cmds' = Some ()"
    by (simp add: c learned_types_def example_call_def)
  ultimately show ?thesis using r f(4) by simp
qed

text \<open>Once the plugin has run around a resolution that finds the types of a Move call, it sets these
  types on every later call of the function, however the address of the package is written.\<close>

theorem plugin_learns_types:
  fixes nxt :: "_ \<Rightarrow> _ \<times> ('v command \<times> 'p option) list"
  assumes "asPlugin in_memory nxt s tx = (s', ins, [(MoveCall p m f tas args, Some types)])"
    and "normalizeMySoAddress p' False = normalizeMySoAddress p False"
  shows "fill_types in_memory s' (MoveCall p' m f tas' args', t) = (MoveCall p' m f tas' args', Some types)"
proof -
  have "s' = store_types in_memory s (MoveCall p m f tas args :: 'v command, Some types)"
    using assms(1)
    by (cases "nxt (fill_inputs in_memory s (fst tx), map (fill_types in_memory s) (snd tx))")
      (auto simp add: asPlugin_def Let_def simp del: store_types.simps)
  then show ?thesis by (simp add: mem.getMoveFunctionDefinition_add function_name_def assms(2))
qed

lemma normalize_2: "normalizeMySoAddress ''2'' False = normalizeMySoAddress ''0x2'' False"
  by (simp add: normalize_body toLowerCase_def lower_char_def)

lemma plugin_learns_types_witness:
  "fill_types in_memory (store_types in_memory example_store (example_call ''0x2'', Some ())) (example_call ''2'', None)
   = (example_call ''2'', Some ())"
proof -
  let ?nxt = "\<lambda>(ins, cmds). (ins, [(example_call ''0x2'', Some ())])"
  have a: "asPlugin in_memory ?nxt example_store ([], []) =
      (store_types in_memory example_store (example_call ''0x2'', Some ()), [], [(MoveCall ''0x2'' ''m'' ''f'' [] [], Some ())])"
    by (simp only: asPlugin_def fill_inputs_def getObjects_def Let_def fst_conv snd_conv list.map prod.case concat.simps foldl.simps example_call_def)
  show ?thesis unfolding example_call_def [of "''2''"] by (rule plugin_learns_types [OF a normalize_2])
qed

end
