(* ===== verification/Analysis.thy ===== *)
theory Analysis
  imports Myso_Bcs Object_Cache
begin

text \<open>
  \<open>packages/wallet-sdk/src/transaction-analyzer/rules\<close>: the analyzers of a transaction that a wallet
  runs before it approves it (objects.ts, inputs.ts, functions.ts, commands.ts, coins.ts,
  accessLevel.ts). An analyzer is a function of the results of its dependencies. What the client
  fetches (objects, Move functions) is an argument.

  A message ends, in the code, with the JSON text of the value it is about; that text is left out.
\<close>

subsection \<open>Access levels\<close>

datatype access = ReadAccess | MutateAccess | TransferAccess

text \<open>The levels in the order of what they allow.\<close>

fun rank :: "access \<Rightarrow> nat" where
  "rank ReadAccess = 0"
| "rank MutateAccess = 1"
| "rank TransferAccess = 2"

lemma rank_inject [simp]: "rank a = rank b \<longleftrightarrow> a = b"
  by (cases a; cases b) auto

instantiation access :: linorder
begin

definition less_eq_access :: "access \<Rightarrow> access \<Rightarrow> bool" where
  "less_eq_access a b \<longleftrightarrow> rank a \<le> rank b"

definition less_access :: "access \<Rightarrow> access \<Rightarrow> bool" where
  "less_access a b \<longleftrightarrow> rank a < rank b"

instance
  by standard (auto simp: less_eq_access_def less_access_def)

end

lemma access_simps [simp]:
  "ReadAccess \<le> a" "a \<le> TransferAccess" "max a ReadAccess = a" "max ReadAccess a = a"
  "max TransferAccess a = TransferAccess" "max a TransferAccess = TransferAccess"
  by (cases a; simp add: less_eq_access_def max_def)+

subsection \<open>Objects\<close>

text \<open>An analyzer returns a result or issues; it may also throw.\<close>

datatype 'a analysis = Issues "string list" | Analyzed 'a

record chain_object =
  c_objectId :: string
  c_type :: string
  c_owner :: owner
  c_content :: "byte list"

record analyzed_object =
  object :: chain_object
  ownerAddress :: "string option"

text \<open>\<open>Array.from(new Set(xs))\<close>.\<close>

definition js_set :: "'a list \<Rightarrow> 'a list" where
  "js_set xs = foldl (\<lambda>acc x. if x \<in> set acc then acc else acc @ [x]) [] xs"

fun input_object_id :: "'v call_arg \<Rightarrow> string list" where
  "input_object_id (Object (ImmOrOwnedObject r)) = [or_objectId r]"
| "input_object_id (Object (SharedObject objId v m)) = [objId]"
| "input_object_id (Object (Receiving r)) = [or_objectId r]"
| "input_object_id _ = []"

fun input_issue :: "'v call_arg \<Rightarrow> string list" where
  "input_issue (UnresolvedObject u) = [''Unexpected unresolved input: '']"
| "input_issue (UnresolvedPure v) = [''Unexpected unresolved input: '']"
| "input_issue (Pure b) = []"
| "input_issue (Object a) = []"
| "input_issue (FundsWithdrawal r t w) = [''Unknown input type: '']"

definition objectIds_rule :: "'v tx_data \<Rightarrow> string list analysis" where
  "objectIds_rule data =
     (let issues = concat (map input_issue (inputs data));
          ids = concat (map input_object_id (inputs data));
          gasObjects = (case g_payment (gasData data) of None \<Rightarrow> [] | Some ps \<Rightarrow> map or_objectId ps)
      in if issues \<noteq> [] then Issues issues else Analyzed (js_set (ids @ gasObjects)))"

text \<open>The owner of a fetched object.\<close>

fun owner_of :: "owner \<Rightarrow> string option" where
  "owner_of (AddressOwner a) = Some a"
| "owner_of (ObjectOwner a) = Some a"
| "owner_of (ConsensusAddressOwner a v) = Some a"
| "owner_of (Shared v) = None"
| "owner_of Immutable = None"

text \<open>\<open>client.core.getObjects\<close> gives, for every id, an object or an error with its message.\<close>

definition objects_rule :: "(string + chain_object) list \<Rightarrow> analyzed_object list analysis" where
  "objects_rule fetched =
     (let issues = concat (map (\<lambda>f. case f of Inl m \<Rightarrow> [''Failed to fetch object: '' @ m] | Inr _ \<Rightarrow> []) fetched);
          found = concat (map (\<lambda>f. case f of Inl _ \<Rightarrow> [] | Inr obj \<Rightarrow> [obj]) fetched)
      in if issues \<noteq> [] then Issues issues
         else Analyzed (map (\<lambda>obj. \<lparr>object = obj, ownerAddress = owner_of (c_owner obj)\<rparr>) found))"

abbreviation obj_id :: "analyzed_object \<Rightarrow> string" where
  "obj_id obj \<equiv> c_objectId (object obj)"

definition ownedObjects_rule :: "analyzed_object list \<Rightarrow> analyzed_object list" where
  "ownedObjects_rule objects = filter (\<lambda>obj. ownerAddress obj \<noteq> None) objects"

text \<open>\<open>new Map(...)\<close> and \<open>Object.fromEntries(...)\<close>: the last entry of a key is the one that counts.\<close>

definition objectsById_rule :: "analyzed_object list \<Rightarrow> string \<rightharpoonup> analyzed_object" where
  "objectsById_rule objects = map_of (rev (map (\<lambda>obj. (obj_id obj, obj)) objects))"

subsection \<open>Inputs and commands\<close>

datatype analyzed_arg =
    PureArg int string access
  | ObjectArgument int analyzed_object access
  | UnknownArg access
  | GasCoinArg access
  | ResultArg int int access

fun set_access :: "access \<Rightarrow> analyzed_arg \<Rightarrow> analyzed_arg" where
  "set_access l (PureArg i b _) = PureArg i b l"
| "set_access l (ObjectArgument i obj _) = ObjectArgument i obj l"
| "set_access l (UnknownArg _) = UnknownArg l"
| "set_access l (GasCoinArg _) = GasCoinArg l"
| "set_access l (ResultArg i j _) = ResultArg i j l"

fun inputs_loop :: "(string \<rightharpoonup> analyzed_object) \<Rightarrow> int \<Rightarrow> 'v call_arg list \<Rightarrow> analyzed_arg list res" where
  "inputs_loop byId index [] = Inr []"
| "inputs_loop byId index (input # rest) =
     rbind (case input of
         Pure b \<Rightarrow> Inr (PureArg index b TransferAccess)
       | Object a \<Rightarrow>
           (case byId (case a of ImmOrOwnedObject r \<Rightarrow> or_objectId r | Receiving r \<Rightarrow> or_objectId r
                              | SharedObject objId v m \<Rightarrow> objId) of
              None \<Rightarrow> Inl (Error ''Missing object for id'')
            | Some obj \<Rightarrow> Inr (ObjectArgument index obj ReadAccess))
       | _ \<Rightarrow> Inl (Error ''Unknown input type: ''))
     (\<lambda>x. rmap ((#) x) (inputs_loop byId (index + 1) rest))"

definition inputs_rule :: "'v tx_data \<Rightarrow> (string \<rightharpoonup> analyzed_object) \<Rightarrow> analyzed_arg list res" where
  "inputs_rule data byId = inputs_loop byId 0 (inputs data)"

datatype reference = Mutable | Immutable_ref | Unknown_ref

record move_function =
  fn_packageId :: string
  fn_moduleName :: string
  fn_name :: string
  fn_parameters :: "reference option list"

text \<open>
  The analyzed command of \<open>index\<close>; its copies of the command and of the function, which no other
  analyzer looks at, are left out.
\<close>

datatype analyzed_command =
    AMoveCall int "analyzed_arg list"
  | ATransferObjects int "analyzed_arg list" analyzed_arg
  | AMergeCoins int "analyzed_arg list" analyzed_arg
  | ASplitCoins int analyzed_arg "analyzed_arg list"
  | AMakeMoveVec int "analyzed_arg list"
  | AUpgrade int analyzed_arg
  | APublish int
  | AUnknownCommand int

text \<open>\<open>mapInput\<close>: the argument and the issues it pushes.\<close>

definition mapInput :: "analyzed_arg list \<Rightarrow> access \<Rightarrow> argument \<Rightarrow> analyzed_arg \<times> string list" where
  "mapInput ins accessLevel arg =
     (case arg of
        GasCoin \<Rightarrow> (GasCoinArg accessLevel, [])
      | Result r \<Rightarrow> (ResultArg r 0 accessLevel, [])
      | NestedResult r i \<Rightarrow> (ResultArg r i accessLevel, [])
      | Input i _ \<Rightarrow>
          (if 0 \<le> i \<and> i < int (length ins) then (set_access accessLevel (ins ! nat i), [])
           else (UnknownArg accessLevel, [''Missing input for index''])))"

definition map_inputs :: "analyzed_arg list \<Rightarrow> access \<Rightarrow> argument list \<Rightarrow> analyzed_arg list \<times> string list" where
  "map_inputs ins accessLevel args =
     (map (fst \<circ> mapInput ins accessLevel) args, concat (map (snd \<circ> mapInput ins accessLevel) args))"

fun parameter_access :: "reference option \<Rightarrow> access" where
  "parameter_access (Some Mutable) = MutateAccess"
| "parameter_access (Some Immutable_ref) = ReadAccess"
| "parameter_access _ = TransferAccess"

definition find_function :: "move_function list \<Rightarrow> string \<Rightarrow> string \<Rightarrow> string \<Rightarrow> move_function option" where
  "find_function fns p m f = find (\<lambda>fn. fn_packageId fn = p \<and> fn_moduleName fn = m \<and> fn_name fn = f) fns"

text \<open>The arguments of a Move call, each with the access of the parameter at its position.\<close>

fun call_args :: "analyzed_arg list \<Rightarrow> reference option list \<Rightarrow> argument list \<Rightarrow> (analyzed_arg list \<times> string list) res" where
  "call_args ins params [] = Inr ([], [])"
| "call_args ins [] (arg # args) = Inl (TypeError ''Cannot read properties of undefined'')"
| "call_args ins (p # ps) (arg # args) =
     rmap (\<lambda>(as, is). (fst (mapInput ins (parameter_access p) arg) # as, snd (mapInput ins (parameter_access p) arg) @ is))
       (call_args ins ps args)"

fun analyze_command :: "move_function list \<Rightarrow> analyzed_arg list \<Rightarrow> int \<Rightarrow> 'v command
    \<Rightarrow> (analyzed_command list \<times> string list) res" where
  "analyze_command fns ins index (Intent name intent_inputs data) = Inr ([], [''Unexpected $Intent command: ''])"
| "analyze_command fns ins index (MakeMoveVec type elements) =
     (let (es, is) = map_inputs ins TransferAccess elements in Inr ([AMakeMoveVec index es], is))"
| "analyze_command fns ins index (TransferObjects objects address) =
     (let (a, is) = mapInput ins TransferAccess address; (os, js) = map_inputs ins TransferAccess objects
      in Inr ([ATransferObjects index os a], is @ js))"
| "analyze_command fns ins index (MergeCoins destination sources) =
     (let (ss, is) = map_inputs ins TransferAccess sources; (d, js) = mapInput ins MutateAccess destination
      in Inr ([AMergeCoins index ss d], is @ js))"
| "analyze_command fns ins index (SplitCoins coin amounts) =
     (let (c, is) = mapInput ins MutateAccess coin; (as, js) = map_inputs ins TransferAccess amounts
      in Inr ([ASplitCoins index c as], is @ js))"
| "analyze_command fns ins index (MoveCall p m f tas args) =
     rmap (\<lambda>(as, is). ([AMoveCall index as], is))
       (call_args ins (case find_function fns p m f of None \<Rightarrow> [] | Some fn \<Rightarrow> fn_parameters fn) args)"
| "analyze_command fns ins index (Publish modules dependencies) = Inr ([APublish index], [])"
| "analyze_command fns ins index (Upgrade modules dependencies package ticket) =
     (let (t, is) = mapInput ins TransferAccess ticket in Inr ([AUpgrade index t], is))"

fun commands_loop :: "move_function list \<Rightarrow> analyzed_arg list \<Rightarrow> int \<Rightarrow> 'v command list
    \<Rightarrow> (analyzed_command list \<times> string list) res" where
  "commands_loop fns ins index [] = Inr ([], [])"
| "commands_loop fns ins index (c # cs) =
     rbind (analyze_command fns ins index c) (\<lambda>(as, is).
       rmap (\<lambda>(bs, js). (as @ bs, is @ js)) (commands_loop fns ins (index + 1) cs))"

definition commands_rule :: "'v tx_data \<Rightarrow> move_function list \<Rightarrow> analyzed_arg list \<Rightarrow> analyzed_command list analysis res" where
  "commands_rule data fns ins =
     rmap (\<lambda>(cs, issues). if issues \<noteq> [] then Issues issues else Analyzed cs) (commands_loop fns ins 0 (commands data))"

text \<open>The ids of the functions to fetch.\<close>

fun call_target :: "'v command \<Rightarrow> string list" where
  "call_target (MoveCall p m f tas args) = [p @ ''::'' @ m @ ''::'' @ f]"
| "call_target _ = []"

definition function_ids :: "'v tx_data \<Rightarrow> string list" where
  "function_ids data = js_set (concat (map call_target (commands data)))"

subsection \<open>Coins\<close>

record analyzed_coin =
  coin_object :: analyzed_object
  coin_type :: string
  balance :: int

definition is_coin_tag :: "struct_tag \<Rightarrow> bool" where
  "is_coin_tag t \<longleftrightarrow>
     st_address t = normalizeMySoAddress ''0x2'' False \<and> st_module t = ''coin'' \<and> st_name t = ''Coin'' \<and> length (st_params t) = 1"

text \<open>\<open>normalizeStructTag\<close> of a type parameter, a text or a tag.\<close>

fun normalize_param :: "type_param \<Rightarrow> string res" where
  "normalize_param (PStr s) = normalizeStructTag_str s"
| "normalize_param (PStruct t) = Inr (normalizeStructTag t)"

definition analyzed_coin_of :: "analyzed_object \<Rightarrow> analyzed_coin res" where
  "analyzed_coin_of obj =
     rbind (parseStructTag (c_type (object obj))) (\<lambda>t.
       rbind (case st_params t of [] \<Rightarrow> Inl (TypeError ''Cannot destructure property'') | p # _ \<Rightarrow> normalize_param p) (\<lambda>ct.
         rmap (\<lambda>b. \<lparr>coin_object = obj, coin_type = ct, balance = b\<rparr>) (coin_balance (c_content (object obj)))))"

definition coins_rule :: "analyzed_object list \<Rightarrow> (string \<rightharpoonup> analyzed_coin) res" where
  "coins_rule objects =
     rbind (rmapM (\<lambda>obj. rmap (\<lambda>t. (obj, is_coin_tag t)) (parseStructTag (c_type (object obj)))) objects) (\<lambda>tagged.
       rmap (\<lambda>cs. map_of (rev (map (\<lambda>c. (obj_id (coin_object c), c)) cs)))
         (rmapM (analyzed_coin_of \<circ> fst) (filter snd tagged)))"

definition gasCoins_rule :: "'v tx_data \<Rightarrow> (string \<rightharpoonup> analyzed_object) \<Rightarrow> analyzed_coin list res" where
  "gasCoins_rule data byId =
     rmapM (\<lambda>r. case byId (or_objectId r) of
                 None \<Rightarrow> Inl (TypeError ''Cannot read properties of undefined'')
               | Some obj \<Rightarrow> analyzed_coin_of obj)
       (case g_payment (gasData data) of None \<Rightarrow> [] | Some ps \<Rightarrow> ps)"

subsection \<open>The access a transaction takes to each object\<close>

type_synonym levels = "string \<rightharpoonup> access"

definition updateAccessLevel :: "string \<Rightarrow> access \<Rightarrow> levels \<Rightarrow> levels" where
  "updateAccessLevel objId level ls =
     (case ls objId of
        Some TransferAccess \<Rightarrow> ls
      | Some MutateAccess \<Rightarrow> if level = TransferAccess then ls(objId \<mapsto> TransferAccess) else ls
      | _ \<Rightarrow> ls(objId \<mapsto> level))"

fun updateFromArgument :: "string list \<Rightarrow> levels \<Rightarrow> analyzed_arg \<Rightarrow> levels" where
  "updateFromArgument gasCoinIds ls (GasCoinArg level) = foldl (\<lambda>ls objId. updateAccessLevel objId level ls) ls gasCoinIds"
| "updateFromArgument gasCoinIds ls (ObjectArgument i obj level) = updateAccessLevel (obj_id obj) level ls"
| "updateFromArgument gasCoinIds ls _ = ls"

text \<open>The arguments of a command the analyzer looks at, in its order.\<close>

fun access_args :: "analyzed_command \<Rightarrow> analyzed_arg list" where
  "access_args (ATransferObjects i objects address) = objects"
| "access_args (AMoveCall i args) = args"
| "access_args (ASplitCoins i coin amounts) = [coin]"
| "access_args (AMergeCoins i sources destination) = destination # sources"
| "access_args (AMakeMoveVec i elements) = elements"
| "access_args (AUpgrade i ticket) = [ticket]"
| "access_args (APublish i) = []"
| "access_args (AUnknownCommand i) = []"

fun is_unknown_command :: "analyzed_command \<Rightarrow> bool" where
  "is_unknown_command (AUnknownCommand i) = True"
| "is_unknown_command _ = False"

definition accessLevel_rule :: "analyzed_command list \<Rightarrow> analyzed_object list \<Rightarrow> analyzed_coin list \<Rightarrow> levels analysis" where
  "accessLevel_rule cmds objects gasCoins =
     (let gasCoinIds = js_set (map (\<lambda>g. obj_id (coin_object g)) gasCoins);
          start = map_of (rev (map (\<lambda>obj. (obj_id obj, ReadAccess)) objects));
          gas = foldl (\<lambda>ls objId. ls(objId \<mapsto> MutateAccess)) start gasCoinIds;
          levels = foldl (\<lambda>ls c. foldl (updateFromArgument gasCoinIds) ls (access_args c)) gas cmds;
          issues = concat (map (\<lambda>c. if is_unknown_command c then [''Unknown command type: ''] else []) cmds)
      in if issues \<noteq> [] then Issues issues else Analyzed levels)"

subsection \<open>The level of an object is the highest of its uses\<close>

fun arg_access :: "analyzed_arg \<Rightarrow> access" where
  "arg_access (PureArg i b l) = l"
| "arg_access (ObjectArgument i obj l) = l"
| "arg_access (UnknownArg l) = l"
| "arg_access (GasCoinArg l) = l"
| "arg_access (ResultArg i j l) = l"

text \<open>An argument is the object of an id, or the gas coin that is paid with it.\<close>

fun touches :: "string list \<Rightarrow> string \<Rightarrow> analyzed_arg \<Rightarrow> bool" where
  "touches gasCoinIds objId (ObjectArgument i obj l) = (obj_id obj = objId)"
| "touches gasCoinIds objId (GasCoinArg l) = (objId \<in> set gasCoinIds)"
| "touches gasCoinIds objId _ = False"

definition raise :: "access \<Rightarrow> access option \<Rightarrow> access option" where
  "raise l o' = Some (case o' of None \<Rightarrow> l | Some k \<Rightarrow> max k l)"

lemma raise_raise [simp]: "raise l (raise l o') = raise l o'"
  by (cases o') (simp_all add: raise_def)

lemma updateAccessLevel_raise: "updateAccessLevel objId l ls = ls(objId := raise l (ls objId))"
proof (cases "ls objId")
  case (Some k)
  then show ?thesis
    by (cases k; cases l) (auto simp: updateAccessLevel_def raise_def max_def less_eq_access_def fun_upd_idem)
qed (simp add: updateAccessLevel_def raise_def)

lemma foldl_updateAccessLevel:
  "foldl (\<lambda>ls objId. ls(objId := raise l (ls objId))) ls ids objId = (if objId \<in> set ids then raise l (ls objId) else ls objId)"
  by (induction ids arbitrary: ls) auto

lemma updateFromArgument_raise:
  "updateFromArgument ids ls arg objId = (if touches ids objId arg then raise (arg_access arg) (ls objId) else ls objId)"
  by (cases arg) (auto simp: foldl_updateAccessLevel updateAccessLevel_raise)

definition uses_of :: "string list \<Rightarrow> string \<Rightarrow> analyzed_arg list \<Rightarrow> access list" where
  "uses_of ids objId args = map arg_access (filter (touches ids objId) args)"

lemma foldl_updateFromArgument:
  "foldl (updateFromArgument ids) ls args objId = foldl (\<lambda>o' l. raise l o') (ls objId) (uses_of ids objId args)"
  by (induction args arbitrary: ls) (auto simp: uses_of_def updateFromArgument_raise)

lemma foldl_commands:
  "foldl (\<lambda>ls c. foldl (updateFromArgument ids) ls (access_args c)) ls cmds objId
   = foldl (\<lambda>o' l. raise l o') (ls objId) (uses_of ids objId (concat (map access_args cmds)))"
  by (induction cmds arbitrary: ls) (auto simp: foldl_updateFromArgument uses_of_def)

lemma foldl_raise:
  "foldl (\<lambda>o' l. raise l o') o0 ls = (case o0 of
      Some k \<Rightarrow> Some (Max (insert k (set ls)))
    | None \<Rightarrow> if ls = [] then None else Some (Max (set ls)))"
proof (induction ls arbitrary: o0)
  case (Cons l ls)
  then show ?case by (cases o0; cases "ls = []") (auto simp: raise_def insert_commute max.commute max.left_commute)
qed (auto split: option.splits)

lemma js_set_aux: "set (foldl (\<lambda>acc x. if x \<in> set acc then acc else acc @ [x]) acc xs) = set acc \<union> set xs"
  by (induction xs arbitrary: acc) auto

lemma set_js_set [simp]: "set (js_set xs) = set xs"
  by (simp add: js_set_def js_set_aux)

lemma distinct_js_set [simp]: "distinct (js_set xs)"
proof -
  have "distinct acc \<Longrightarrow> distinct (foldl (\<lambda>acc x. if x \<in> set acc then acc else acc @ [x]) acc xs)" for acc
    by (induction xs arbitrary: acc) auto
  then show ?thesis by (simp add: js_set_def)
qed

lemma map_of_const: "map_of (map (\<lambda>x. (f x, c)) xs) k = (if k \<in> f ` set xs then Some c else None)"
  by (induction xs) auto

definition base_access :: "string list \<Rightarrow> analyzed_object list \<Rightarrow> string \<Rightarrow> access list" where
  "base_access gasCoinIds objects objId =
     (if objId \<in> set gasCoinIds then [MutateAccess] else if objId \<in> obj_id ` set objects then [ReadAccess] else [])"

lemma gas_levels:
  "foldl (\<lambda>ls objId. ls(objId \<mapsto> MutateAccess)) ls ids objId = (if objId \<in> set ids then Some MutateAccess else ls objId)"
  by (induction ids arbitrary: ls) auto

definition gas_ids :: "analyzed_coin list \<Rightarrow> string list" where
  "gas_ids gasCoins = js_set (map (\<lambda>g. obj_id (coin_object g)) gasCoins)"

lemma accessLevel_foldl:
  assumes "accessLevel_rule cmds objects gasCoins = Analyzed ls"
  shows "ls objId = foldl (\<lambda>o' l. raise l o') (case base_access (gas_ids gasCoins) objects objId of [] \<Rightarrow> None | b # _ \<Rightarrow> Some b)
      (uses_of (gas_ids gasCoins) objId (concat (map access_args cmds)))"
proof -
  let ?ids = "gas_ids gasCoins"
  let ?start = "map_of (rev (map (\<lambda>obj. (obj_id obj, ReadAccess)) objects))"
  have "ls objId = foldl (\<lambda>o' l. raise l o') (if objId \<in> set ?ids then Some MutateAccess else ?start objId)
      (uses_of ?ids objId (concat (map access_args cmds)))"
    using assms by (auto simp: accessLevel_rule_def Let_def foldl_commands gas_levels gas_ids_def split: if_splits)
  moreover have "?start objId = (if objId \<in> obj_id ` set objects then Some ReadAccess else None)"
    using map_of_const [of obj_id ReadAccess "rev objects"] by (simp add: rev_map)
  ultimately show ?thesis by (simp add: base_access_def)
qed

lemma foldl_raise_list:
  "foldl (\<lambda>o' l. raise l o') (case bs of [] \<Rightarrow> None | b # _ \<Rightarrow> Some b) ls
   = (if bs @ ls = [] then None else Some (Max (set (bs @ ls))))" if "length bs \<le> 1"
  using that by (cases bs) (auto simp: foldl_raise)

text \<open>C32: The access level computed for an object is the highest level of all the uses of the object by the
  arguments of the commands, at least read for an object of the transaction and at least mutate for a
  gas coin, and there is none for other objects.\<close>

theorem accessLevel_max:
  assumes "accessLevel_rule cmds objects gasCoins = Analyzed ls"
  shows "ls objId =
    (let all = base_access (gas_ids gasCoins) objects objId
               @ uses_of (gas_ids gasCoins) objId (concat (map access_args cmds))
     in if all = [] then None else Some (Max (set all)))"
  unfolding accessLevel_foldl [OF assms] Let_def
  by (rule foldl_raise_list) (simp add: base_access_def)

definition example_object :: "string \<Rightarrow> analyzed_object" where
  "example_object objId = \<lparr>object = \<lparr>c_objectId = objId, c_type = ''0x2::m::T'', c_owner = AddressOwner ''0xa'', c_content = []\<rparr>,
     ownerAddress = Some ''0xa''\<rparr>"

lemma accessLevel_max_witness:
  "map_of [(''0x1'', MutateAccess)] ''0x1'' =
    (let all = base_access (gas_ids []) [example_object ''0x1''] ''0x1''
               @ uses_of (gas_ids []) ''0x1'' (concat (map access_args [AMoveCall 0 [ObjectArgument 0 (example_object ''0x1'') MutateAccess]]))
     in if all = [] then None else Some (Max (set all)))"
  by (rule accessLevel_max)
    (simp add: accessLevel_rule_def Let_def js_set_def example_object_def updateAccessLevel_def fun_eq_iff)

subsection \<open>No use of an object escapes the analysis\<close>

text \<open>The arguments by which a command of a transaction takes objects, each with the access it takes.\<close>

fun command_uses :: "move_function list \<Rightarrow> 'v command \<Rightarrow> (argument \<times> access) list" where
  "command_uses fns (MoveCall p m f tas args) =
     zip args (map parameter_access (case find_function fns p m f of None \<Rightarrow> [] | Some fn \<Rightarrow> fn_parameters fn))"
| "command_uses fns (TransferObjects objects address) = map (\<lambda>x. (x, TransferAccess)) objects"
| "command_uses fns (SplitCoins coin amounts) = [(coin, MutateAccess)]"
| "command_uses fns (MergeCoins destination sources) = (destination, MutateAccess) # map (\<lambda>x. (x, TransferAccess)) sources"
| "command_uses fns (MakeMoveVec type elements) = map (\<lambda>x. (x, TransferAccess)) elements"
| "command_uses fns (Upgrade modules dependencies package ticket) = [(ticket, TransferAccess)]"
| "command_uses fns (Publish modules dependencies) = []"
| "command_uses fns (Intent name intent_inputs data) = []"

lemma call_args_zip:
  assumes "call_args ins params args = Inr (as, is)"
  shows "as = map (\<lambda>(arg, p). fst (mapInput ins p arg)) (zip args (map parameter_access params))"
  using assms by (induction ins params args arbitrary: as "is" rule: call_args.induct) (auto simp: res_simps)

lemma analyze_command_uses:
  assumes "analyze_command fns ins index c = Inr (as, is)"
  shows "concat (map access_args as) = map (\<lambda>(arg, p). fst (mapInput ins p arg)) (command_uses fns c)"
  using assms
  by (cases c)
    (auto simp: res_simps map_inputs_def split_beta split: prod.splits dest!: call_args_zip)

lemma commands_loop_uses:
  assumes "commands_loop fns ins index cs = Inr (as, is)"
  shows "concat (map access_args as) = map (\<lambda>(arg, p). fst (mapInput ins p arg)) (concat (map (command_uses fns) cs))"
  using assms
  by (induction fns ins index cs arbitrary: as "is" rule: commands_loop.induct)
    (auto simp: res_simps dest!: analyze_command_uses)

lemma commands_rule_loop:
  "commands_rule data fns ins = Inr (Analyzed cs) \<longleftrightarrow> commands_loop fns ins 0 (commands data) = Inr (cs, [])"
  by (auto simp: commands_rule_def res_simps split: if_splits)

lemma inputs_loop_length: "inputs_loop byId index xs = Inr ys \<Longrightarrow> length ys = length xs"
  by (induction byId index xs arbitrary: ys rule: inputs_loop.induct) (auto simp: res_simps)

text \<open>C37: When the analysis of a transaction succeeds, every object a command takes by an input or as the
  gas coin has, in the result, at least the access the command takes: transfer for a transferred, merged
  or by-value object, mutate for a mutable reference.\<close>

theorem access_covers_uses:
  assumes "inputs_rule data byId = Inr ins" and "commands_rule data fns ins = Inr (Analyzed cmds)"
    and "accessLevel_rule cmds objects gasCoins = Analyzed ls"
    and "c \<in> set (commands data)" and "(arg, level) \<in> set (command_uses fns c)"
    and "case arg of Input i t \<Rightarrow> 0 \<le> i \<and> i < int (length ins) \<and> (\<exists>l. ins ! nat i = ObjectArgument i obj l) \<and> objId = obj_id obj
         | GasCoin \<Rightarrow> objId \<in> set (gas_ids gasCoins) | _ \<Rightarrow> False"
  shows "\<exists>l. ls objId = Some l \<and> level \<le> l"
proof -
  let ?a = "fst (mapInput ins level arg)"
  have "?a \<in> set (concat (map access_args cmds))"
    using commands_loop_uses [OF iffD1 [OF commands_rule_loop assms(2)]] assms(4,5) by force
  moreover have "touches (gas_ids gasCoins) objId ?a" "arg_access ?a = level"
    using assms(6) by (auto simp: mapInput_def split: argument.splits)
  ultimately have mem: "level \<in> set (uses_of (gas_ids gasCoins) objId (concat (map access_args cmds)))"
    by (force simp: uses_of_def)
  let ?all = "base_access (gas_ids gasCoins) objects objId @ uses_of (gas_ids gasCoins) objId (concat (map access_args cmds))"
  have "ls objId = (if ?all = [] then None else Some (Max (set ?all)))"
    unfolding accessLevel_foldl [OF assms(3)] by (rule foldl_raise_list) (simp add: base_access_def)
  with mem show ?thesis by (auto intro: Max_ge)
qed

definition example_data :: "unit tx_data" where
  "example_data = empty_tx\<lparr>
     inputs := [Object (ImmOrOwnedObject \<lparr>or_objectId = ''0x1'', or_version = U64Num 1, or_digest = ''d''\<rparr>), Pure ''AA==''],
     commands := [TransferObjects [Input 0 None] (Input 1 None)]\<rparr>"

lemma access_covers_uses_witness:
  "\<exists>l. [''0x1'' \<mapsto> TransferAccess] ''0x1'' = Some l \<and> TransferAccess \<le> l"
proof -
  let ?o = "example_object ''0x1''"
  let ?ins = "[ObjectArgument 0 ?o ReadAccess, PureArg 1 ''AA=='' TransferAccess]"
  have i: "inputs_rule example_data [''0x1'' \<mapsto> ?o] = Inr ?ins"
    by (simp add: inputs_rule_def example_data_def)
  have c: "commands_rule example_data [] ?ins
      = Inr (Analyzed [ATransferObjects 0 [ObjectArgument 0 ?o TransferAccess] (PureArg 1 ''AA=='' TransferAccess)])"
    by (simp add: commands_rule_def example_data_def mapInput_def map_inputs_def)
  have a: "accessLevel_rule [ATransferObjects 0 [ObjectArgument 0 ?o TransferAccess] (PureArg 1 ''AA=='' TransferAccess)] [?o] []
      = Analyzed [''0x1'' \<mapsto> TransferAccess]"
    by (simp add: accessLevel_rule_def Let_def js_set_def example_object_def updateAccessLevel_def)
  show ?thesis
    by (rule access_covers_uses [OF i c a, where c = "TransferObjects [Input 0 None] (Input 1 None)" and arg = "Input 0 None" and obj = ?o])
      (simp_all add: example_data_def example_object_def)
qed

end
