(* ===== verification/Coin_Flows.thy ===== *)
theory Coin_Flows
  imports Analysis
begin

text \<open>
  \<open>packages/wallet-sdk/src/transaction-analyzer/rules/coin-flows.ts\<close> and \<open>coin-value.ts\<close>: how much of
  each coin type leaves the sender. \<open>trackedCoins\<close> is the ledger: the \<open>TrackedCoin\<close> objects by their
  key, in insertion order. A coin object is changed in place, so an update goes to its key.
\<close>

subsection \<open>Tracked coins\<close>

text \<open>The keys \<open>gas\<close>, \<open>input:i\<close> and \<open>result:c,i\<close>.\<close>

datatype coin_key = KGas | KInput int | KResult int int

record tracked_coin =
  tc_coinType :: string
  initialBalance :: int
  remainingBalance :: int
  owned :: bool
  consumed :: bool

definition new_TrackedCoin :: "string \<Rightarrow> int \<Rightarrow> bool \<Rightarrow> tracked_coin" where
  "new_TrackedCoin ct b own = \<lparr>tc_coinType = ct, initialBalance = b, remainingBalance = b, owned = own, consumed = False\<rparr>"

definition consume :: "tracked_coin \<Rightarrow> tracked_coin" where
  "consume c = c\<lparr>remainingBalance := 0, consumed := True\<rparr>"

definition credit :: "int \<Rightarrow> tracked_coin \<Rightarrow> tracked_coin" where
  "credit n c = c\<lparr>remainingBalance := remainingBalance c + n\<rparr>"

type_synonym ledger = "(coin_key \<times> tracked_coin) list"

definition change :: "coin_key \<Rightarrow> (tracked_coin \<Rightarrow> tracked_coin) \<Rightarrow> ledger \<Rightarrow> ledger" where
  "change k f st = map (\<lambda>(k', c). (k', if k' = k then f c else c)) st"

fun coin_ref :: "analyzed_arg \<Rightarrow> coin_key option" where
  "coin_ref (GasCoinArg l) = Some KGas"
| "coin_ref (ObjectArgument i obj l) = Some (KInput i)"
| "coin_ref (ResultArg r i l) = Some (KResult r i)"
| "coin_ref (UnknownArg l) = None"
| "coin_ref (PureArg i b l) = None"

text \<open>\<open>getTrackedCoin\<close>, as the key of the coin.\<close>

definition getTrackedCoin :: "ledger \<Rightarrow> analyzed_arg \<Rightarrow> coin_key option" where
  "getTrackedCoin st ref =
     (case coin_ref ref of None \<Rightarrow> None | Some k \<Rightarrow> if k \<in> set (map fst st) then Some k else None)"

definition remaining :: "ledger \<Rightarrow> coin_key option \<Rightarrow> int" where
  "remaining st k' = (case k' of None \<Rightarrow> 0 | Some k \<Rightarrow> (case map_of st k of None \<Rightarrow> 0 | Some c \<Rightarrow> remainingBalance c))"

definition consume_key :: "coin_key option \<Rightarrow> ledger \<Rightarrow> ledger" where
  "consume_key k' st = (case k' of None \<Rightarrow> st | Some k \<Rightarrow> change k consume st)"

text \<open>\<open>args.forEach(arg => getTrackedCoin(arg)?.consume())\<close>.\<close>

definition consume_all :: "analyzed_arg list \<Rightarrow> ledger \<Rightarrow> ledger" where
  "consume_all args st = foldl (\<lambda>st a. consume_key (getTrackedCoin st a) st) st args"

subsection \<open>The commands\<close>

fun is_pure :: "analyzed_arg \<Rightarrow> bool" where
  "is_pure (PureArg i b l) = True"
| "is_pure _ = False"

fun pure_amount :: "analyzed_arg \<Rightarrow> int res" where
  "pure_amount (PureArg i b l) = pure_u64 b"
| "pure_amount _ = Inl (Error ''Expected pure value'')"

fun set_results :: "int \<Rightarrow> string \<Rightarrow> int \<Rightarrow> int list \<Rightarrow> ledger \<Rightarrow> ledger" where
  "set_results index ct i [] st = st"
| "set_results index ct i (a # as) st =
     set_results index ct (i + 1) as (AList.update (KResult index i) (new_TrackedCoin ct a False) st)"

definition splitCoin :: "int \<Rightarrow> analyzed_arg \<Rightarrow> analyzed_arg list \<Rightarrow> ledger \<Rightarrow> ledger res" where
  "splitCoin index coin amounts st =
     (case getTrackedCoin st coin of
        None \<Rightarrow> Inr st
      | Some k \<Rightarrow>
          if \<not> list_all is_pure amounts then Inr (change k consume st)
          else rmap (\<lambda>as. set_results index (tc_coinType (the (map_of st k))) 0 as (change k (credit (- sum_list as)) st))
                 (rmapM pure_amount amounts))"

definition mergeCoins :: "analyzed_arg list \<Rightarrow> analyzed_arg \<Rightarrow> ledger \<Rightarrow> ledger" where
  "mergeCoins sources destination st =
     (let srcs = map (getTrackedCoin st) sources;
          amount = sum_list (map (remaining st) srcs);
          st = foldl (\<lambda>st k. consume_key k st) st srcs
      in case getTrackedCoin st destination of None \<Rightarrow> st | Some k \<Rightarrow> change k (credit amount) st)"

text \<open>One object of \<open>transferObjects\<close>; \<open>self\<close> says that the address is the sender's.\<close>

definition transfer_one :: "bool \<Rightarrow> ledger \<Rightarrow> analyzed_arg \<Rightarrow> ledger" where
  "transfer_one self st obj =
     (case getTrackedCoin st obj of
        None \<Rightarrow> st
      | Some k \<Rightarrow> change k consume (if self then change KGas (credit (remaining st (Some k))) st else st))"

definition transferObjects :: "string option \<Rightarrow> analyzed_arg list \<Rightarrow> analyzed_arg \<Rightarrow> ledger \<Rightarrow> ledger res" where
  "transferObjects sender' objects address st =
     rmap (\<lambda>addr. foldl (transfer_one (truthy_str addr \<and> sender' = addr)) st objects)
       (case address of PureArg i b l \<Rightarrow> rmap Some (pure_address b) | _ \<Rightarrow> Inr None)"

fun flow_step :: "string option \<Rightarrow> ledger \<Rightarrow> analyzed_command \<Rightarrow> ledger res" where
  "flow_step sender' st (ASplitCoins index coin amounts) = splitCoin index coin amounts st"
| "flow_step sender' st (AMergeCoins index sources destination) = Inr (mergeCoins sources destination st)"
| "flow_step sender' st (ATransferObjects index objects address) = transferObjects sender' objects address st"
| "flow_step sender' st (AMakeMoveVec index elements) = Inr (consume_all elements st)"
| "flow_step sender' st (AMoveCall index args) = Inr (consume_all args st)"
| "flow_step sender' st (AUpgrade index ticket) = Inr st"
| "flow_step sender' st (APublish index) = Inr st"
| "flow_step sender' st (AUnknownCommand index) = Inl (Error ''Unsupported command type: '')"

definition run_flows :: "string option \<Rightarrow> ledger \<Rightarrow> analyzed_command list \<Rightarrow> ledger res" where
  "run_flows sender' st cmds = rfold (flow_step sender') st cmds"

subsection \<open>The analyzer\<close>

fun track_inputs :: "(string \<rightharpoonup> analyzed_coin) \<Rightarrow> analyzed_arg list \<Rightarrow> ledger \<Rightarrow> ledger" where
  "track_inputs coins [] st = st"
| "track_inputs coins (ObjectArgument i obj l # rest) st =
     track_inputs coins rest
       (case coins (obj_id obj) of
          None \<Rightarrow> st
        | Some coin \<Rightarrow> AList.update (KInput i) (new_TrackedCoin (coin_type coin) (balance coin) True) st)"
| "track_inputs coins (_ # rest) st = track_inputs coins rest st"

text \<open>The gas coin before and after the budget is taken from it.\<close>

definition start_ledger :: "string \<Rightarrow> analyzed_coin list \<Rightarrow> int \<Rightarrow> (string \<rightharpoonup> analyzed_coin) \<Rightarrow> analyzed_arg list \<Rightarrow> ledger" where
  "start_ledger gas_type gasCoins budget coins ins =
     track_inputs coins ins
       [(KGas, credit (- budget) (new_TrackedCoin gas_type (sum_list (map balance gasCoins)) True))]"

fun add_outflow :: "(string \<times> int) list \<Rightarrow> tracked_coin \<Rightarrow> (string \<times> int) list" where
  "add_outflow fs c =
     (if \<not> owned c then fs
      else AList.update (tc_coinType c)
             ((case map_of fs (tc_coinType c) of None \<Rightarrow> 0 | Some n \<Rightarrow> n) + (initialBalance c - remainingBalance c)) fs)"

definition outflows :: "ledger \<Rightarrow> (string \<times> int) list" where
  "outflows st = foldl add_outflow [] (map snd st)"

definition coinFlows_rule :: "'v tx_data \<Rightarrow> analyzed_command list \<Rightarrow> analyzed_arg list \<Rightarrow> (string \<rightharpoonup> analyzed_coin)
    \<Rightarrow> analyzed_coin list \<Rightarrow> (string \<times> int) list analysis res" where
  "coinFlows_rule data cmds ins coins gasCoins =
     rbind (normalizeStructTag_str ''0x2::myso::MYSO'') (\<lambda>gas_type.
     rbind (if truthy_u64 (g_budget (gasData data)) then u64_bigint (the (g_budget (gasData data))) else Inr 0) (\<lambda>budget.
     rmap (\<lambda>st. if truthy_u64 (g_budget (gasData data)) then Analyzed (outflows st)
                else Issues [''Gas budget not set in Transaction''])
       (run_flows (sender data) (start_ledger gas_type gasCoins budget coins ins) cmds)))"

subsection \<open>The ledger as an account\<close>

text \<open>What remains of a coin type in the ledger, and what an owned coin type had and has.\<close>

definition total_of :: "(tracked_coin \<Rightarrow> bool) \<Rightarrow> (tracked_coin \<Rightarrow> int) \<Rightarrow> ledger \<Rightarrow> int" where
  "total_of P f st = sum_list (map (\<lambda>(k, c). if P c then f c else 0) st)"

definition remains :: "string \<Rightarrow> ledger \<Rightarrow> int" where
  "remains ct st = total_of (\<lambda>c. tc_coinType c = ct) remainingBalance st"

definition unowned_remains :: "string \<Rightarrow> ledger \<Rightarrow> int" where
  "unowned_remains ct st = total_of (\<lambda>c. tc_coinType c = ct \<and> \<not> owned c) remainingBalance st"

definition owned_initial :: "string \<Rightarrow> ledger \<Rightarrow> int" where
  "owned_initial ct st = total_of (\<lambda>c. tc_coinType c = ct \<and> owned c) initialBalance st"

definition owned_remains :: "string \<Rightarrow> ledger \<Rightarrow> int" where
  "owned_remains ct st = total_of (\<lambda>c. tc_coinType c = ct \<and> owned c) remainingBalance st"

definition owns :: "string \<Rightarrow> ledger \<Rightarrow> bool" where
  "owns ct st \<longleftrightarrow> (\<exists>(k, c) \<in> set st. tc_coinType c = ct \<and> owned c)"

lemma total_of_Nil [simp]: "total_of P f [] = 0"
  by (simp add: total_of_def)

lemma total_of_Cons [simp]: "total_of P f ((k, c) # st) = (if P c then f c else 0) + total_of P f st"
  by (simp add: total_of_def)

lemma remains_split: "remains ct st = owned_remains ct st + unowned_remains ct st"
  by (induction st) (auto simp: remains_def owned_remains_def unowned_remains_def)

lemma owns_Cons [simp]: "owns ct ((k, c) # st) \<longleftrightarrow> tc_coinType c = ct \<and> owned c \<or> owns ct st"
  and owns_Nil [simp]: "\<not> owns ct []"
  by (auto simp: owns_def)

lemma owned_initial_none: "\<not> owns ct st \<Longrightarrow> owned_initial ct st = 0"
  by (induction st) (auto simp: owned_initial_def)

lemma outflows_aux:
  "map_of (foldl add_outflow fs (map snd st)) ct =
     (if owns ct st \<or> ct \<in> fst ` set fs
      then Some ((case map_of fs ct of None \<Rightarrow> 0 | Some n \<Rightarrow> n) + owned_initial ct st - owned_remains ct st) else None)"
proof (induction st arbitrary: fs)
  case Nil
  show ?case
    by (cases "map_of fs ct") (auto simp: owns_def owned_initial_def owned_remains_def map_of_eq_None_iff dest: map_of_SomeD intro: rev_image_eqI)
next
  case (Cons e st)
  obtain k c where e: "e = (k, c)" by (cases e)
  show ?case
  proof (cases "owned c")
    case False
    then show ?thesis using Cons [of fs] e by (simp add: owns_def owned_initial_def owned_remains_def)
  next
    case True
    have "owns ct (e # st) \<longleftrightarrow> tc_coinType c = ct \<or> owns ct st" using e True by (auto simp: owns_def)
    then show ?thesis
      using Cons [of "add_outflow fs c"] e True
      by (auto simp: update_conv' owned_initial_def owned_remains_def dom_update image_iff)
  qed
qed

lemma map_of_outflows:
  "map_of (outflows st) ct = (if owns ct st then Some (owned_initial ct st - owned_remains ct st) else None)"
  unfolding outflows_def outflows_aux by simp

subsection \<open>Changes of one coin\<close>

lemma keys_change [simp]: "map fst (change k f st) = map fst st"
  by (auto simp: change_def)

lemma map_of_change: "map_of (change k f st) k' = map_option (if k' = k then f else id) (map_of st k')"
  by (induction st) (auto simp: change_def option.map_id)

lemma total_of_change:
  assumes "distinct (map fst st)" "map_of st k = Some c" "P (f c) = P c"
  shows "total_of P g (change k f st) = total_of P g st + (if P c then g (f c) - g c else 0)"
  using assms(1,2)
proof (induction st)
  case (Cons e st)
  obtain k' c' where e: "e = (k', c')" by (cases e)
  show ?case
  proof (cases "k' = k")
    case True
    then have "change k f st = st" using Cons.prems(1) e by (force simp: change_def intro!: map_idI)
    with True e Cons.prems(2) assms(3) show ?thesis by (auto simp: change_def)
  next
    case False
    with e Cons show ?thesis by (auto simp: change_def)
  qed
qed simp

lemma getTracked_lookup: "getTrackedCoin st a = Some k \<Longrightarrow> \<exists>c. map_of st k = Some c \<and> coin_ref a = Some k"
  by (auto simp: getTrackedCoin_def split: option.splits if_splits intro: weak_map_of_SomeI)

text \<open>Consuming and crediting keep everything of a coin but what remains of it.\<close>

definition keeps_coin :: "(tracked_coin \<Rightarrow> tracked_coin) \<Rightarrow> bool" where
  "keeps_coin f \<longleftrightarrow> (\<forall>c. tc_coinType (f c) = tc_coinType c \<and> initialBalance (f c) = initialBalance c \<and> owned (f c) = owned c)"

lemma keeps_coin [simp]: "keeps_coin consume" "keeps_coin (credit n)"
  by (simp_all add: keeps_coin_def consume_def credit_def)

lemma coin_fields [simp]:
  "tc_coinType (consume c) = tc_coinType c" "tc_coinType (credit n c) = tc_coinType c"
  "owned (consume c) = owned c" "owned (credit n c) = owned c"
  "remainingBalance (consume c) = 0" "remainingBalance (credit n c) = remainingBalance c + n"
  by (simp_all add: consume_def credit_def)

lemma coin_fields_new [simp]:
  "tc_coinType (new_TrackedCoin ct b own) = ct" "owned (new_TrackedCoin ct b own) = own"
  "initialBalance (new_TrackedCoin ct b own) = b" "remainingBalance (new_TrackedCoin ct b own) = b"
  by (simp_all add: new_TrackedCoin_def)

lemma change_Cons [simp]: "change k f ((k', c) # st) = (k', if k' = k then f c else c) # change k f st"
  and change_Nil [simp]: "change k f [] = []"
  by (simp_all add: change_def)

lemma lookup_key: "k \<in> set (map fst st) \<Longrightarrow> \<exists>c. map_of st k = Some c"
  using map_of_eq_None_iff [of st k] by auto

lemma change_keeps:
  assumes "keeps_coin f"
  shows "owned_initial ct (change k f st) = owned_initial ct st" "owns ct (change k f st) = owns ct st"
proof -
  show "owned_initial ct (change k f st) = owned_initial ct st"
    using assms by (induction st) (auto simp: keeps_coin_def owned_initial_def)
  show "owns ct (change k f st) = owns ct st"
    using assms by (induction st) (auto simp: keeps_coin_def split: if_splits)
qed

lemma remains_change:
  assumes "distinct (map fst st)" "map_of st k = Some c" "keeps_coin f"
  shows "remains ct (change k f st) = remains ct st + (if tc_coinType c = ct then remainingBalance (f c) - remainingBalance c else 0)"
  unfolding remains_def using assms(3)
  by (subst total_of_change [OF assms(1,2)]) (auto simp: keeps_coin_def)

lemma getTracked_change [simp]: "getTrackedCoin (change k f st) = getTrackedCoin st"
  by (rule ext) (simp only: getTrackedCoin_def keys_change)

subsection \<open>Commands as movements of value\<close>

definition tracked_keys :: "ledger \<Rightarrow> analyzed_arg list \<Rightarrow> coin_key list" where
  "tracked_keys st args = List.map_filter (getTrackedCoin st) args"

definition worth :: "string \<Rightarrow> ledger \<Rightarrow> coin_key list \<Rightarrow> int" where
  "worth ct st ks = sum_list (map (\<lambda>k. case map_of st k of None \<Rightarrow> 0
     | Some c \<Rightarrow> if tc_coinType c = ct then remainingBalance c else 0) ks)"

definition consume_keys :: "coin_key list \<Rightarrow> ledger \<Rightarrow> ledger" where
  "consume_keys ks st = foldl (\<lambda>st k. change k consume st) st ks"

lemma map_filter_simps' [simp]:
  "List.map_filter f [] = []"
  "List.map_filter f (x # xs) = (case f x of None \<Rightarrow> List.map_filter f xs | Some y \<Rightarrow> y # List.map_filter f xs)"
  by (simp_all add: List.map_filter_def split: option.splits)

lemma consume_keys_options:
  "foldl (\<lambda>st k. consume_key k st) st (map (getTrackedCoin s) args) = consume_keys (tracked_keys s args) st"
  by (induction args arbitrary: st) (auto simp: consume_key_def consume_keys_def tracked_keys_def split: option.splits)

lemma consume_all_keys: "consume_all args st = consume_keys (tracked_keys st args) st"
proof -
  have "foldl (\<lambda>st a. consume_key (getTrackedCoin st a) st) s args = consume_keys (tracked_keys st args) s"
    if "map fst s = map fst st" for s
    using that
  proof (induction args arbitrary: s)
    case (Cons a args)
    have g: "getTrackedCoin s = getTrackedCoin st" by (rule ext) (simp only: getTrackedCoin_def Cons.prems)
    show ?case
      using Cons.IH [of "consume_key (getTrackedCoin st a) s"] Cons.prems g
      by (auto simp: consume_key_def consume_keys_def tracked_keys_def split: option.splits)
  qed (simp add: consume_keys_def tracked_keys_def)
  then show ?thesis by (simp add: consume_all_def)
qed

lemma keys_consume_keys [simp]: "map fst (consume_keys ks st) = map fst st"
  by (induction ks arbitrary: st) (auto simp: consume_keys_def)

lemma getTracked_consume_keys [simp]: "getTrackedCoin (consume_keys ks st) = getTrackedCoin st"
  by (rule ext) (simp only: getTrackedCoin_def keys_consume_keys)

lemma map_of_consume_keys: "map_of (consume_keys ks st) k = map_option (if k \<in> set ks then consume else id) (map_of st k)"
proof (induction ks arbitrary: st)
  case (Cons x ks)
  have "consume (consume c) = consume c" for c by (simp add: consume_def)
  then show ?case
    using Cons [of "change x consume st"] by (cases "map_of st k") (auto simp: consume_keys_def map_of_change)
qed (simp add: consume_keys_def option.map_id)

lemma consume_keys_keeps: "owned_initial ct (consume_keys ks st) = owned_initial ct st" "owns ct (consume_keys ks st) = owns ct st"
  by (induction ks arbitrary: st) (simp_all add: consume_keys_def change_keeps)

lemma worth_change_other: "k \<notin> set ks \<Longrightarrow> worth ct (change k f st) ks = worth ct st ks"
  unfolding worth_def by (rule arg_cong [where f = sum_list], rule map_cong) (auto simp: map_of_change split: option.splits)

lemma remains_consume_keys:
  assumes "distinct (map fst st)" "distinct ks" "set ks \<subseteq> set (map fst st)"
  shows "remains ct (consume_keys ks st) = remains ct st - worth ct st ks"
  using assms
proof (induction ks arbitrary: st)
  case (Cons k ks)
  obtain c where c: "map_of st k = Some c" using Cons.prems(3) lookup_key [of k st] by auto
  have "remains ct (consume_keys ks (change k consume st)) = remains ct (change k consume st) - worth ct (change k consume st) ks"
    by (rule Cons.IH) (use Cons.prems in \<open>simp_all only: keys_change distinct.simps list.set insert_subset\<close>)
  also have "worth ct (change k consume st) ks = worth ct st ks" using Cons.prems(2) by (simp add: worth_change_other)
  finally show ?case
    using remains_change [OF Cons.prems(1) c keeps_coin(1), of ct] c by (simp add: consume_keys_def worth_def)
qed (simp add: consume_keys_def worth_def)

lemma tracked_keys_subset: "set (tracked_keys st args) \<subseteq> set (map fst st)"
proof (induction args)
  case (Cons a args)
  then show ?case by (auto simp: tracked_keys_def getTrackedCoin_def split: option.splits if_splits)
qed (simp add: tracked_keys_def)

text \<open>The amounts of the results of a split.\<close>

definition fresh_results :: "int \<Rightarrow> ledger \<Rightarrow> bool" where
  "fresh_results index st \<longleftrightarrow> list_all (\<lambda>k. case k of KResult c i \<Rightarrow> c \<noteq> index | _ \<Rightarrow> True) (map fst st)"

lemma set_results_append:
  assumes "\<And>j. i \<le> j \<Longrightarrow> KResult index j \<notin> set (map fst st)"
  shows "\<exists>rs. set_results index ct i as st = st @ rs \<and> map snd rs = map (\<lambda>a. new_TrackedCoin ct a False) as \<and>
    distinct (map fst rs) \<and> (\<forall>k \<in> set (map fst rs). \<exists>j \<ge> i. k = KResult index j)"
  using assms
proof (induction as arbitrary: i st)
  case (Cons a as)
  let ?e = "(KResult index i, new_TrackedCoin ct a False)"
  have u: "AList.update (KResult index i) (new_TrackedCoin ct a False) st = st @ [?e]"
    using Cons.prems [of i] by (induction st) auto
  have "\<And>j. i + 1 \<le> j \<Longrightarrow> KResult index j \<notin> set (map fst (st @ [?e]))" using Cons.prems by auto
  from Cons.IH [of "i + 1" "st @ [?e]", OF this] obtain rs where rs:
    "set_results index ct (i + 1) as (st @ [?e]) = (st @ [?e]) @ rs" "map snd rs = map (\<lambda>a. new_TrackedCoin ct a False) as"
    "distinct (map fst rs)" "\<forall>k \<in> set (map fst rs). \<exists>j \<ge> i + 1. k = KResult index j" by auto
  have "KResult index i \<notin> set (map fst rs)" using rs(4) by fastforce
  then show ?case
    using rs u by (intro exI [of _ "?e # rs"]) (force intro: order_trans [of i "i + 1"])
qed simp

lemma total_of_append [simp]: "total_of P f (st @ st') = total_of P f st + total_of P f st'"
  by (simp add: total_of_def)

lemma new_results:
  assumes "map snd rs = map (\<lambda>a. new_TrackedCoin ct a False) as"
  shows "remains ct' rs = (if ct = ct' then sum_list as else 0)" "owned_initial ct' rs = 0" "\<not> owns ct' rs"
proof -
  show "remains ct' rs = (if ct = ct' then sum_list as else 0)"
    using assms by (induction as arbitrary: rs) (auto simp: remains_def)
  have unowned: "\<not> owned c" if "(k, c) \<in> set rs" for k c
  proof -
    have "c \<in> set (map snd rs)" using that by force
    then show ?thesis unfolding assms by auto
  qed
  then show "\<not> owns ct' rs" by (auto simp: owns_def)
  then show "owned_initial ct' rs = 0" by (rule owned_initial_none)
qed

text \<open>What a command lets leave the ledger, in coins of a type.\<close>

definition to_self :: "string option \<Rightarrow> analyzed_arg \<Rightarrow> bool" where
  "to_self sender' address =
     (case address of
        PureArg i b l \<Rightarrow> (case pure_address b of Inr a \<Rightarrow> a \<noteq> [] \<and> sender' = Some a | Inl _ \<Rightarrow> False)
      | _ \<Rightarrow> False)"

fun leaves :: "string option \<Rightarrow> ledger \<Rightarrow> analyzed_command \<Rightarrow> string \<Rightarrow> int" where
  "leaves sender' st (ASplitCoins index coin amounts) ct =
     (if list_all is_pure amounts then 0 else worth ct st (tracked_keys st [coin]))"
| "leaves sender' st (AMergeCoins index sources destination) ct =
     (if getTrackedCoin st destination = None then worth ct st (tracked_keys st sources) else 0)"
| "leaves sender' st (ATransferObjects index objects address) ct =
     (if to_self sender' address then 0 else worth ct st (tracked_keys st objects))"
| "leaves sender' st (AMakeMoveVec index elements) ct = worth ct st (tracked_keys st elements)"
| "leaves sender' st (AMoveCall index args) ct = worth ct st (tracked_keys st args)"
| "leaves sender' st _ ct = 0"

text \<open>
  What a transfer to the sender books wrongly: every coin but the gas coin is taken from its type and put on
  the gas coin, whatever its type, and the gas coin is taken from the gas type. Nothing of this leaves the sender.
\<close>

fun self_sent :: "string \<Rightarrow> ledger \<Rightarrow> analyzed_arg list \<Rightarrow> string \<Rightarrow> int" where
  "self_sent gas st [] ct = 0"
| "self_sent gas st (a # objects) ct =
     (case getTrackedCoin st a of None \<Rightarrow> 0
      | Some k \<Rightarrow> worth ct st [k] - (if ct = gas \<and> k \<noteq> KGas then remaining st (Some k) else 0))
     + self_sent gas (transfer_one True st a) objects ct"

fun misbooked :: "string \<Rightarrow> string option \<Rightarrow> ledger \<Rightarrow> analyzed_command \<Rightarrow> string \<Rightarrow> int" where
  "misbooked gas sender' st (ATransferObjects index objects address) ct =
     (if to_self sender' address then self_sent gas st objects ct else 0)"
| "misbooked gas sender' st _ ct = 0"

text \<open>
  A command is tidy if it gives no coin away twice, gives its results new keys, and merges coins of one type
  into another coin of that type.
\<close>

definition of_type :: "string \<Rightarrow> ledger \<Rightarrow> coin_key \<Rightarrow> bool" where
  "of_type ct st k = (case map_of st k of None \<Rightarrow> False | Some c \<Rightarrow> tc_coinType c = ct)"

fun tidy :: "string \<Rightarrow> string option \<Rightarrow> ledger \<Rightarrow> analyzed_command \<Rightarrow> bool" where
  "tidy gas sender' st (ASplitCoins index coin amounts) = fresh_results index st"
| "tidy gas sender' st (AMergeCoins index sources destination) =
     (distinct (tracked_keys st sources) \<and>
      (case getTrackedCoin st destination of None \<Rightarrow> True
       | Some k \<Rightarrow> k \<notin> set (tracked_keys st sources) \<and>
           list_all (of_type (tc_coinType (the (map_of st k))) st) (tracked_keys st sources)))"
| "tidy gas sender' st (ATransferObjects index objects address) =
     (to_self sender' address \<or> distinct (tracked_keys st objects))"
| "tidy gas sender' st (AMakeMoveVec index elements) = distinct (tracked_keys st elements)"
| "tidy gas sender' st (AMoveCall index args) = distinct (tracked_keys st args)"
| "tidy gas sender' st _ = True"

definition books :: "string \<Rightarrow> ledger \<Rightarrow> bool" where
  "books gas st \<longleftrightarrow> distinct (map fst st) \<and> of_type gas st KGas"

definition accounted :: "string \<Rightarrow> (string \<Rightarrow> int) \<Rightarrow> ledger \<Rightarrow> ledger \<Rightarrow> bool" where
  "accounted gas out st st' \<longleftrightarrow> books gas st' \<and>
     (\<forall>ct. remains ct st' = remains ct st - out ct \<and> owned_initial ct st' = owned_initial ct st \<and> owns ct st' = owns ct st)"

lemma of_type_change: "keeps_coin f \<Longrightarrow> of_type ct (change k f st) k' = of_type ct st k'"
  by (auto simp: of_type_def map_of_change keeps_coin_def split: option.splits)

lemma of_type_consume_keys: "of_type ct (consume_keys ks st) k' = of_type ct st k'"
  by (auto simp: of_type_def map_of_consume_keys split: option.splits)

lemma books_change: "keeps_coin f \<Longrightarrow> books gas (change k f st) = books gas st"
  unfolding books_def keys_change by (simp add: of_type_change)

lemma books_consume_keys: "books gas (consume_keys ks st) = books gas st"
  unfolding books_def keys_consume_keys by (simp add: of_type_consume_keys)

lemma accounted_consume:
  assumes "books gas st" "distinct (tracked_keys st args)"
  shows "accounted gas (\<lambda>ct. worth ct st (tracked_keys st args)) st (consume_keys (tracked_keys st args) st)"
proof -
  have "distinct (map fst st)" using assms(1) by (simp add: books_def)
  from remains_consume_keys [OF this assms(2) tracked_keys_subset] assms(1) show ?thesis
    by (simp add: accounted_def books_consume_keys consume_keys_keeps)
qed

lemma worth_same_type:
  assumes "list_all (of_type t st) ks"
  shows "worth ct st ks = (if t = ct then sum_list (map (\<lambda>k. remaining st (Some k)) ks) else 0)"
  using assms by (induction ks) (auto simp: worth_def of_type_def remaining_def split: option.splits)

lemma remaining_sum:
  "sum_list (map (remaining st) (map (getTrackedCoin st) args)) = sum_list (map (\<lambda>k. remaining st (Some k)) (tracked_keys st args))"
  by (induction args) (auto simp: tracked_keys_def remaining_def split: option.splits)

lemma accounted_merge:
  assumes "books gas st" "tidy gas sender' st (AMergeCoins index sources destination)"
  shows "accounted gas (leaves sender' st (AMergeCoins index sources destination)) st (mergeCoins sources destination st)"
proof -
  let ?ks = "tracked_keys st sources"
  let ?amount = "sum_list (map (\<lambda>k. remaining st (Some k)) ?ks)"
  have consumed: "accounted gas (\<lambda>ct. worth ct st ?ks) st (consume_keys ?ks st)"
    by (rule accounted_consume [OF assms(1)]) (use assms(2) in simp)
  have merge: "mergeCoins sources destination st =
      (case getTrackedCoin st destination of None \<Rightarrow> consume_keys ?ks st
       | Some k \<Rightarrow> change k (credit ?amount) (consume_keys ?ks st))"
    unfolding mergeCoins_def Let_def consume_keys_options remaining_sum by simp
  show ?thesis
  proof (cases "getTrackedCoin st destination")
    case None
    then show ?thesis using consumed merge by (simp add: accounted_def)
  next
    case (Some k)
    obtain c where c: "map_of st k = Some c" using getTracked_lookup [OF Some] by blast
    have k: "k \<notin> set ?ks" "list_all (of_type (tc_coinType c) st) ?ks" using assms(2) Some c by auto
    then have c': "map_of (consume_keys ?ks st) k = Some c" by (simp add: map_of_consume_keys c option.map_id)
    have d: "distinct (map fst (consume_keys ?ks st))" using consumed by (simp add: accounted_def books_def)
    have "remains ct (change k (credit ?amount) (consume_keys ?ks st)) = remains ct st" for ct
      using remains_change [OF d c' keeps_coin(2), of ct ?amount] consumed worth_same_type [OF k(2), of ct]
      by (auto simp: accounted_def)
    then show ?thesis
      using consumed merge Some by (simp add: accounted_def books_change change_keeps)
  qed
qed

lemma accounted_split:
  assumes "books gas st" "fresh_results index st" "splitCoin index coin amounts st = Inr st'"
  shows "accounted gas (leaves sender' st (ASplitCoins index coin amounts)) st st'"
proof (cases "getTrackedCoin st coin")
  case None
  then show ?thesis using assms by (simp add: splitCoin_def accounted_def tracked_keys_def worth_def)
next
  case (Some k)
  obtain c where c: "map_of st k = Some c" using getTracked_lookup [OF Some] by blast
  have d: "distinct (map fst st)" using assms(1) by (simp add: books_def)
  show ?thesis
  proof (cases "list_all is_pure amounts")
    case False
    then have "st' = change k consume st" using assms(3) Some by (simp add: splitCoin_def)
    moreover have "tracked_keys st [coin] = [k]" using Some by (simp add: tracked_keys_def)
    ultimately show ?thesis
      using False assms(1) c remains_change [OF d c keeps_coin(1)]
      by (simp add: accounted_def books_change change_keeps worth_def)
  next
    case True
    then obtain as where st': "st' = set_results index (tc_coinType c) 0 as (change k (credit (- sum_list as)) st)"
      using assms(3) Some c by (auto simp: splitCoin_def res_simps)
    let ?s = "change k (credit (- sum_list as)) st"
    have fresh: "KResult index j \<notin> set (map fst ?s)" for j
      using assms(2) unfolding keys_change fresh_results_def list_all_iff by fastforce
    obtain rs where rs: "st' = ?s @ rs" "map snd rs = map (\<lambda>a. new_TrackedCoin (tc_coinType c) a False) as"
      "distinct (map fst rs)" "\<forall>k \<in> set (map fst rs). \<exists>j \<ge> 0. k = KResult index j"
      using set_results_append [of 0 index ?s "tc_coinType c" as] fresh st' by auto
    have "books gas st'"
    proof -
      have "set (map fst ?s) \<inter> set (map fst rs) = {}"
        unfolding disjoint_iff using fresh rs(4) by metis
      then have "distinct (map fst st')" using d rs(1,3) by (simp only: map_append distinct_append keys_change simp_thms)
      moreover have "of_type gas ?s KGas" using assms(1) by (simp add: books_def of_type_change)
      then have "of_type gas st' KGas" by (auto simp: rs(1) of_type_def split: option.splits)
      ultimately show ?thesis by (simp add: books_def)
    qed
    moreover have "remains ct st' = remains ct ?s + remains ct rs" "owned_initial ct st' = owned_initial ct ?s + owned_initial ct rs"
      "owns ct st' = (owns ct ?s \<or> owns ct rs)" for ct
      by (auto simp: rs(1) remains_def owned_initial_def owns_def)
    ultimately show ?thesis
      using True new_results [OF rs(2)] remains_change [OF d c keeps_coin(2), of _ "- sum_list as"]
      by (simp add: accounted_def change_keeps)
  qed
qed

lemma books_gas:
  assumes "books gas st"
  obtains g where "map_of st KGas = Some g" "tc_coinType g = gas" "distinct (map fst st)"
  using assms by (auto simp: books_def of_type_def split: option.splits)

lemma accounted_transfer_one:
  assumes "books gas st"
  shows "accounted gas (\<lambda>ct. case getTrackedCoin st a of None \<Rightarrow> 0
      | Some k \<Rightarrow> worth ct st [k] - (if ct = gas \<and> k \<noteq> KGas then remaining st (Some k) else 0)) st (transfer_one True st a)"
proof (cases "getTrackedCoin st a")
  case None
  then show ?thesis using assms by (simp add: transfer_one_def accounted_def)
next
  case (Some k)
  obtain c where c: "map_of st k = Some c" using getTracked_lookup [OF Some] by blast
  let ?n = "remaining st (Some k)"
  let ?s = "change KGas (credit ?n) st"
  have n: "?n = remainingBalance c" by (simp add: remaining_def c)
  obtain g where g: "map_of st KGas = Some g" "tc_coinType g = gas" "distinct (map fst st)"
    using books_gas [OF assms] .
  have d: "distinct (map fst ?s)" using g(3) by simp
  have step: "transfer_one True st a = change k consume ?s" using Some by (simp add: transfer_one_def)
  have "remains ct (change k consume ?s) = remains ct st - (worth ct st [k] - (if ct = gas \<and> k \<noteq> KGas then ?n else 0))" for ct
  proof (cases "k = KGas")
    case True
    then have "map_of ?s k = Some (credit ?n c)" using c by (simp add: map_of_change)
    from remains_change [OF d this keeps_coin(1), of ct] remains_change [OF g(3,1) keeps_coin(2), of ct ?n] show ?thesis
      using True c g(1,2) n by (auto simp: worth_def)
  next
    case False
    then have "map_of ?s k = Some c" using c by (simp add: map_of_change option.map_id)
    from remains_change [OF d this keeps_coin(1), of ct] remains_change [OF g(3,1) keeps_coin(2), of ct ?n] show ?thesis
      using False c g(2) n by (auto simp: worth_def)
  qed
  then show ?thesis
    using assms unfolding step accounted_def by (simp add: Some books_change change_keeps)
qed

lemma accounted_self_transfer:
  "books gas st \<Longrightarrow> accounted gas (self_sent gas st objects) st (foldl (transfer_one True) st objects)"
proof (induction objects arbitrary: st)
  case Nil
  then show ?case by (simp add: accounted_def)
next
  case (Cons a objects)
  note step = accounted_transfer_one [OF Cons.prems, of a]
  from Cons.IH [OF conjunct1 [OF step [unfolded accounted_def]]] step show ?case
    by (simp add: accounted_def)
qed

lemma transfer_consume: "foldl (transfer_one False) st objects = consume_all objects st"
proof -
  have "transfer_one False = (\<lambda>st a. consume_key (getTrackedCoin st a) st)"
    by (intro ext) (simp add: transfer_one_def consume_key_def split: option.split)
  then show ?thesis by (simp add: consume_all_def)
qed

lemma accounted_transfer:
  assumes "books gas st" "tidy gas sender' st (ATransferObjects index objects address)"
    and "transferObjects sender' objects address st = Inr st'"
  shows "accounted gas (\<lambda>ct. leaves sender' st (ATransferObjects index objects address) ct
    + misbooked gas sender' st (ATransferObjects index objects address) ct) st st'"
proof -
  have st': "st' = foldl (transfer_one (to_self sender' address)) st objects"
    using assms(3) by (cases address) (auto simp: transferObjects_def to_self_def truthy_str_def res_simps)
  show ?thesis
  proof (cases "to_self sender' address")
    case True
    then show ?thesis using accounted_self_transfer [OF assms(1)] assms(2) st' by (simp add: accounted_def)
  next
    case False
    then have "st' = consume_keys (tracked_keys st objects) st" using st' by (simp add: transfer_consume consume_all_keys)
    with False accounted_consume [OF assms(1)] assms(2) show ?thesis by (simp add: accounted_def)
  qed
qed

lemma flow_step_accounted:
  assumes "flow_step sender' st c = Inr st'" "tidy gas sender' st c" "books gas st"
  shows "accounted gas (\<lambda>ct. leaves sender' st c ct + misbooked gas sender' st c ct) st st'"
proof (cases c)
  case (ASplitCoins index coin amounts)
  then have "accounted gas (leaves sender' st (ASplitCoins index coin amounts)) st st'"
    using assms by (intro accounted_split) simp_all
  then show ?thesis by (simp only: ASplitCoins misbooked.simps add_0_right)
next
  case (AMergeCoins index sources destination)
  then show ?thesis using assms(1) accounted_merge [OF assms(3) assms(2) [unfolded AMergeCoins]]
    by (simp only: flow_step.simps misbooked.simps add_0_right sum.inject)
next
  case (ATransferObjects index objects address)
  then show ?thesis using assms(1) accounted_transfer [OF assms(3) assms(2) [unfolded ATransferObjects]] by simp
next
  case (AMakeMoveVec index elements)
  then show ?thesis using assms accounted_consume [OF assms(3)] by (auto simp: consume_all_keys accounted_def)
next
  case (AMoveCall index args)
  then show ?thesis using assms accounted_consume [OF assms(3)] by (auto simp: consume_all_keys accounted_def)
qed (use assms in \<open>simp_all add: accounted_def\<close>)

text \<open>What leaves over a run whose commands are all tidy, and what is booked wrongly; \<open>None\<close> if one is not.\<close>

fun audit :: "string \<Rightarrow> string option \<Rightarrow> ledger \<Rightarrow> analyzed_command list \<Rightarrow> ((string \<Rightarrow> int) \<times> (string \<Rightarrow> int)) option" where
  "audit gas sender' st [] = Some (\<lambda>_. 0, \<lambda>_. 0)"
| "audit gas sender' st (c # cs) =
     (if \<not> tidy gas sender' st c then None
      else case flow_step sender' st c of
             Inl e \<Rightarrow> None
           | Inr st' \<Rightarrow> map_option (\<lambda>(out, wrong). (\<lambda>ct. leaves sender' st c ct + out ct,
                                                \<lambda>ct. misbooked gas sender' st c ct + wrong ct)) (audit gas sender' st' cs))"

lemma run_accounted:
  assumes "run_flows sender' st cmds = Inr st'" "audit gas sender' st cmds = Some (out, wrong)" "books gas st"
  shows "accounted gas (\<lambda>ct. out ct + wrong ct) st st'"
  using assms
proof (induction cmds arbitrary: st out wrong)
  case Nil
  then show ?case by (auto simp: run_flows_def accounted_def)
next
  case (Cons c cmds)
  obtain s where s: "flow_step sender' st c = Inr s" "run_flows sender' s cmds = Inr st'"
    using Cons.prems(1) by (auto simp: run_flows_def res_simps)
  obtain out' wrong' where out: "tidy gas sender' st c" "audit gas sender' s cmds = Some (out', wrong')"
    "out = (\<lambda>ct. leaves sender' st c ct + out' ct)" "wrong = (\<lambda>ct. misbooked gas sender' st c ct + wrong' ct)"
    using Cons.prems(2) s(1) by (auto split: if_splits)
  have step: "accounted gas (\<lambda>ct. leaves sender' st c ct + misbooked gas sender' st c ct) st s"
    by (rule flow_step_accounted [OF s(1) out(1) Cons.prems(3)])
  then have "accounted gas (\<lambda>ct. out' ct + wrong' ct) s st'" using Cons.IH [OF s(2) out(2)] by (simp add: accounted_def)
  with step out(3,4) show ?case by (simp add: accounted_def)
qed

text \<open>The ledger at the start: the gas coin, then untouched owned coins.\<close>

definition untouched :: "ledger \<Rightarrow> bool" where
  "untouched rest \<longleftrightarrow> distinct (map fst rest) \<and> KGas \<notin> set (map fst rest) \<and>
     (\<forall>c \<in> set (map snd rest). owned c \<and> initialBalance c = remainingBalance c)"

lemma untouched_update:
  assumes "untouched rest"
  shows "untouched (AList.update (KInput i) (new_TrackedCoin ct b True) rest)"
proof -
  let ?c = "new_TrackedCoin ct b True"
  have "set (AList.update (KInput i) ?c rest) \<subseteq> insert (KInput i, ?c) (set rest)"
    by (induction rest) auto
  then have "owned c \<and> initialBalance c = remainingBalance c" if "c \<in> set (map snd (AList.update (KInput i) ?c rest))" for c
    using that assms by (fastforce simp: untouched_def)
  moreover have "distinct (map fst (AList.update (KInput i) ?c rest))"
    by (rule distinct_update) (use assms in \<open>simp add: untouched_def\<close>)
  moreover have "KGas \<notin> set (map fst (AList.update (KInput i) ?c rest))"
    using assms by (simp add: untouched_def update_keys)
  ultimately show ?thesis unfolding untouched_def by blast
qed

lemma track_inputs_untouched:
  "untouched rest \<Longrightarrow> \<exists>rest'. track_inputs coins ins ((KGas, g) # rest) = (KGas, g) # rest' \<and> untouched rest'"
proof (induction ins arbitrary: rest)
  case (Cons a ins)
  show ?case
  proof (cases a)
    case (ObjectArgument i obj l)
    then show ?thesis
      using Cons untouched_update [OF Cons.prems] by (cases "coins (obj_id obj)") auto
  qed (use Cons in simp_all)
qed simp

lemma start_ledger_shape:
  "\<exists>rest. start_ledger gas gasCoins budget coins ins =
      (KGas, credit (- budget) (new_TrackedCoin gas (sum_list (map balance gasCoins)) True)) # rest \<and> untouched rest"
  unfolding start_ledger_def by (rule track_inputs_untouched) (simp add: untouched_def)

lemma start_ledger_account:
  "books gas (start_ledger gas gasCoins budget coins ins)"
  "unowned_remains ct (start_ledger gas gasCoins budget coins ins) = 0"
  "owned_initial ct (start_ledger gas gasCoins budget coins ins) - owned_remains ct (start_ledger gas gasCoins budget coins ins)
     = (if ct = gas then budget else 0)"
proof -
  obtain rest where rest: "start_ledger gas gasCoins budget coins ins =
      (KGas, credit (- budget) (new_TrackedCoin gas (sum_list (map balance gasCoins)) True)) # rest"
    "untouched rest"
    using start_ledger_shape [of gas gasCoins budget coins ins] by auto
  show "books gas (start_ledger gas gasCoins budget coins ins)"
    using rest(2) by (simp add: rest(1) books_def of_type_def untouched_def)
  have "unowned_remains ct rest = 0 \<and> owned_initial ct rest = owned_remains ct rest"
    using rest(2) unfolding untouched_def
    by (induction rest) (auto simp: unowned_remains_def owned_initial_def owned_remains_def)
  moreover have "initialBalance (credit n c) = initialBalance c" for n c by (simp add: credit_def)
  ultimately show "unowned_remains ct (start_ledger gas gasCoins budget coins ins) = 0"
    "owned_initial ct (start_ledger gas gasCoins budget coins ins) - owned_remains ct (start_ledger gas gasCoins budget coins ins)
     = (if ct = gas then budget else 0)"
    by (auto simp: rest(1) unowned_remains_def owned_initial_def owned_remains_def)
qed

text \<open>C10: If no command gives a coin away twice, results are numbered anew and coins are merged within their
  type (\<open>tidy\<close>), the outflow reported for an owned coin type is exactly what the commands let leave, plus
  the gas budget for the gas type, plus what is left in coins that the transaction split off and did not hand on,
  plus what transfers to the sender book wrongly: \<open>wrong\<close> is the worth of the coins of the type that are sent to the
  sender, less, for the gas type, the amounts of all coins but the gas coin that are sent to the sender, whatever their type.\<close>

theorem outflows_account:
  assumes "run_flows sender' (start_ledger gas gasCoins budget coins ins) cmds = Inr st'"
    and "audit gas sender' (start_ledger gas gasCoins budget coins ins) cmds = Some (out, wrong)"
  shows "map_of (outflows st') ct =
    (if owns ct (start_ledger gas gasCoins budget coins ins)
     then Some (out ct + (if ct = gas then budget else 0) + unowned_remains ct st' + wrong ct) else None)"
proof -
  let ?st = "start_ledger gas gasCoins budget coins ins"
  have start: "books gas ?st" "unowned_remains ct ?st = 0"
    "owned_initial ct ?st - owned_remains ct ?st = (if ct = gas then budget else 0)"
    by (rule start_ledger_account)+
  have "accounted gas (\<lambda>ct. out ct + wrong ct) ?st st'" by (rule run_accounted [OF assms start(1)])
  then have "remains ct st' = remains ct ?st - (out ct + wrong ct)" "owned_initial ct st' = owned_initial ct ?st"
    "owns ct st' = owns ct ?st"
    by (simp_all add: accounted_def)
  then show ?thesis
    using start(2,3) remains_split [of ct ?st] remains_split [of ct st'] by (simp add: map_of_outflows)
qed

text \<open>With a budget of 10, 5 are split off the gas coin and handed to an unknown address, and 1000 of another coin
  are sent to the sender: the outflow of the gas type is reported as \<open>5 + 10 - 1000\<close>, that of the other type as 1000.\<close>

definition example_flow :: "analyzed_command list" where
  "example_flow =
     [ASplitCoins 0 (GasCoinArg MutateAccess) [PureArg 0 (toBase64 (le_bytes 8 5)) TransferAccess],
      ATransferObjects 1 [ResultArg 0 0 TransferAccess] (UnknownArg TransferAccess),
      ATransferObjects 2 [ObjectArgument 1 (example_object ''0x1'') TransferAccess] (PureArg 2 (toBase64 (replicate 32 7)) TransferAccess)]"

abbreviation example_self :: string where
  "example_self \<equiv> ''0x'' @ toHex (replicate 32 7)"

definition example_coin :: analyzed_coin where
  "example_coin = \<lparr>coin_object = example_object ''0x1'', coin_type = ''spam'', balance = 1000\<rparr>"

lemma outflows_account_witness:
  "\<exists>st. run_flows (Some example_self) (start_ledger ''g'' [] 10 [''0x1'' \<mapsto> example_coin]
      [ObjectArgument 1 (example_object ''0x1'') ReadAccess]) example_flow = Inr st \<and>
    map_of (outflows st) ''g'' = Some (5 + 10 - 1000) \<and> map_of (outflows st) ''spam'' = Some 1000"
proof -
  let ?gas = "\<lambda>n. (KGas, credit n (credit (- 10) (new_TrackedCoin ''g'' 0 True)))"
  let ?spam = "(KInput 1, new_TrackedCoin ''spam'' 1000 True)"
  let ?s0 = "[(KGas, credit (- 10) (new_TrackedCoin ''g'' 0 True)), ?spam]"
  let ?s1 = "[?gas (- 5), ?spam, (KResult 0 0, new_TrackedCoin ''g'' 5 False)]"
  let ?s2 = "[?gas (- 5), ?spam, (KResult 0 0, consume (new_TrackedCoin ''g'' 5 False))]"
  let ?s3 = "[(KGas, credit 1000 (snd (?gas (- 5)))), (KInput 1, consume (snd ?spam)), (KResult 0 0, consume (new_TrackedCoin ''g'' 5 False))]"
  let ?c1 = "ASplitCoins 0 (GasCoinArg MutateAccess) [PureArg 0 (toBase64 (le_bytes 8 5)) TransferAccess]"
  let ?c2 = "ATransferObjects 1 [ResultArg 0 0 TransferAccess] (UnknownArg TransferAccess)"
  let ?c3 = "ATransferObjects 2 [ObjectArgument 1 (example_object ''0x1'') TransferAccess] (PureArg 2 (toBase64 (replicate 32 7)) TransferAccess)"
  have p: "pure_u64 (toBase64 (le_bytes 8 5)) = Inr 5" using pure_u64_bytes [of 5] by simp
  have a: "pure_address (toBase64 (replicate 32 7)) = Inr example_self" by (rule pure_address_bytes) simp
  have self: "to_self (Some example_self) (PureArg 2 (toBase64 (replicate 32 7)) TransferAccess)" by (simp add: to_self_def a)
  have st: "start_ledger ''g'' [] 10 [''0x1'' \<mapsto> example_coin] [ObjectArgument 1 (example_object ''0x1'') ReadAccess] = ?s0"
    by (simp add: start_ledger_def example_object_def example_coin_def)
  have 1: "flow_step (Some example_self) ?s0 ?c1 = Inr ?s1" by (simp add: splitCoin_def getTrackedCoin_def p)
  have 2: "flow_step (Some example_self) ?s1 ?c2 = Inr ?s2"
    by (simp add: transferObjects_def transfer_one_def getTrackedCoin_def truthy_str_def)
  have 3: "flow_step (Some example_self) ?s2 ?c3 = Inr ?s3"
    by (simp add: transferObjects_def transfer_one_def getTrackedCoin_def truthy_str_def a remaining_def)
  have run: "run_flows (Some example_self) (start_ledger ''g'' [] 10 [''0x1'' \<mapsto> example_coin]
      [ObjectArgument 1 (example_object ''0x1'') ReadAccess]) example_flow = Inr ?s3"
    unfolding st example_flow_def run_flows_def by (simp only: rfold.simps 1 2 3 rbind.simps)
  have t: "tidy ''g'' (Some example_self) ?s0 ?c1" "tidy ''g'' (Some example_self) ?s1 ?c2" "tidy ''g'' (Some example_self) ?s2 ?c3"
    using self by (simp_all add: fresh_results_def tracked_keys_def getTrackedCoin_def)
  have aud: "audit ''g'' (Some example_self) (start_ledger ''g'' [] 10 [''0x1'' \<mapsto> example_coin]
      [ObjectArgument 1 (example_object ''0x1'') ReadAccess]) example_flow
    = Some (\<lambda>ct. leaves (Some example_self) ?s0 ?c1 ct + (leaves (Some example_self) ?s1 ?c2 ct + (leaves (Some example_self) ?s2 ?c3 ct + 0)),
            \<lambda>ct. misbooked ''g'' (Some example_self) ?s0 ?c1 ct + (misbooked ''g'' (Some example_self) ?s1 ?c2 ct +
              (misbooked ''g'' (Some example_self) ?s2 ?c3 ct + 0)))"
    unfolding st example_flow_def
    by (simp only: audit.simps t 1 2 3 sum.case option.map prod.case not_True_eq_False if_False)
  have l: "leaves (Some example_self) ?s0 ?c1 ct = 0" "leaves (Some example_self) ?s1 ?c2 ct = (if ct = ''g'' then 5 else 0)"
    "leaves (Some example_self) ?s2 ?c3 ct = 0" for ct
    using self by (simp_all add: worth_def tracked_keys_def getTrackedCoin_def to_self_def [of _ "UnknownArg l" for l])
  have m: "misbooked ''g'' (Some example_self) ?s0 ?c1 ct = 0" "misbooked ''g'' (Some example_self) ?s1 ?c2 ct = 0"
    "misbooked ''g'' (Some example_self) ?s2 ?c3 ct = (if ct = ''spam'' then 1000 else 0) - (if ct = ''g'' then 1000 else 0)" for ct
    using self by (simp_all add: worth_def getTrackedCoin_def remaining_def to_self_def [of _ "UnknownArg l" for l])
  note flow = outflows_account [OF run aud [unfolded l m], unfolded st]
  have "map_of (outflows ?s3) ''g'' = Some (5 + 10 - 1000)" using flow [of "''g''"] by (simp add: unowned_remains_def)
  moreover have "map_of (outflows ?s3) ''spam'' = Some 1000" using flow [of "''spam''"] by (simp add: unowned_remains_def)
  ultimately show ?thesis using run by blast
qed

text \<open>Sending any coin to the sender lowers the outflow reported for the gas type by the balance of the
  coin, whatever its type, so that a worthless coin sent to oneself hides gas coins that leave.\<close>

theorem self_transfer_hides_gas:
  assumes "pure_address b = Inr a" "a \<noteq> []" "sender' = Some a"
    and "getTrackedCoin st obj = Some k" "k \<noteq> KGas" "map_of st k = Some c" "tc_coinType c \<noteq> gas"
    and "map_of st KGas = Some g" "tc_coinType g = gas" "owned g" "distinct (map fst st)"
  shows "\<exists>st'. transferObjects sender' [obj] (PureArg i b l) st = Inr st' \<and>
    map_of (outflows st') gas = map_option (\<lambda>n. n - remainingBalance c) (map_of (outflows st) gas)"
proof -
  let ?s = "change KGas (credit (remaining st (Some k))) st"
  have t: "transferObjects sender' [obj] (PureArg i b l) st = Inr (change k consume ?s)"
    using assms(1-4) by (simp add: transferObjects_def transfer_one_def truthy_str_def)
  have c: "map_of ?s k = Some c" using assms(5,6) by (simp add: map_of_change option.map_id)
  have "owned_remains gas (change k consume ?s) = owned_remains gas ?s"
    unfolding owned_remains_def using assms(7,11) by (subst total_of_change [OF _ c]) simp_all
  also have "\<dots> = owned_remains gas st + remainingBalance c"
    unfolding owned_remains_def using assms(6,9,10)
    by (subst total_of_change [OF assms(11,8)]) (simp_all add: remaining_def)
  finally have "map_of (outflows (change k consume ?s)) gas = map_option (\<lambda>n. n - remainingBalance c) (map_of (outflows st) gas)"
    by (simp add: map_of_outflows change_keeps)
  with t show ?thesis by blast
qed

lemma self_transfer_hides_gas_witness:
  "\<exists>st'. transferObjects (Some (''0x'' @ toHex (replicate 32 7))) [ObjectArgument 0 (example_object ''0x1'') TransferAccess]
      (PureArg 1 (toBase64 (replicate 32 7)) TransferAccess)
      [(KGas, new_TrackedCoin ''gas'' 100 True), (KInput 0, new_TrackedCoin ''spam'' 1000 True)] = Inr st' \<and>
    map_of (outflows st') ''gas'' = map_option (\<lambda>n. n - remainingBalance (new_TrackedCoin ''spam'' 1000 True))
      (map_of (outflows [(KGas, new_TrackedCoin ''gas'' 100 True), (KInput 0, new_TrackedCoin ''spam'' 1000 True)]) ''gas'')"
  by (rule self_transfer_hides_gas [OF pure_address_bytes, where k = "KInput 0" and c = "new_TrackedCoin ''spam'' 1000 True" and g = "new_TrackedCoin ''gas'' 100 True"])
    (simp_all add: getTrackedCoin_def)

end
