(* ===== verification/Auto_Approval.thy ===== *)
theory Auto_Approval
  imports Coin_Flows
begin

text \<open>
  \<open>packages/wallet-sdk/src/auto-approvals/manager.ts\<close> (\<open>AutoApprovalManager\<close>), with the schemas of
  \<open>schemas/policy.ts\<close> and \<open>schemas/state.ts\<close>, and \<open>transaction-analyzer/rules/coin-value.ts\<close>.

  Values in a currency are JavaScript numbers: they are of the type parameter \<open>'f\<close>, and the operations
  the code applies to them are the record \<open>numbers\<close>. A method that throws may have changed the state
  before, so the methods return the state they leave together with their result.

  \<open>authorized\<close> says what a policy with the settings of its user authorizes, and the last section where the decision of
  \<open>checkTransaction\<close> agrees with it and where not.
\<close>

subsection \<open>Coin values\<close>

record 'f numbers =
  n_zero :: 'f
  n_less :: "'f \<Rightarrow> 'f \<Rightarrow> bool"
  n_add :: "'f \<Rightarrow> 'f \<Rightarrow> 'f"
  n_sub :: "'f \<Rightarrow> 'f \<Rightarrow> 'f"
  n_convert :: "int \<Rightarrow> int \<Rightarrow> 'f \<Rightarrow> 'f"

text \<open>\<open>n_convert amount decimals price\<close> is \<open>(Number(amount) / 10 ** decimals) * price\<close>.\<close>

record 'f coin_price =
  pr_coinType :: string
  pr_decimals :: int
  pr_price :: "'f option"

record 'f coin_value =
  cv_coinType :: string
  cv_decimals :: int
  cv_price :: 'f
  cv_amount :: int
  cv_convertedAmount :: 'f

record 'f coin_values =
  coinTypesWithoutPrice :: "string list"
  v_total :: 'f
  coinTypes :: "'f coin_value list"

text \<open>One turn of the loop over the outflows.\<close>

definition value_step :: "'f numbers \<Rightarrow> 'f coin_price list \<Rightarrow> 'f coin_values \<Rightarrow> string \<times> int \<Rightarrow> 'f coin_values" where
  "value_step num prices v flow =
     (let ct = fst flow; amount = snd flow in
      if amount > 0 then
        (case find (\<lambda>p. pr_coinType p = ct) prices of
           Some p \<Rightarrow>
             (case pr_price p of
                Some price \<Rightarrow>
                  let converted = n_convert num amount (pr_decimals p) price
                  in v\<lparr>v_total := n_add num (v_total v) converted,
                       coinTypes := coinTypes v @ [\<lparr>cv_coinType = ct, cv_decimals = pr_decimals p, cv_price = price,
                         cv_amount = amount, cv_convertedAmount = converted\<rparr>]\<rparr>
              | None \<Rightarrow> v\<lparr>coinTypesWithoutPrice := coinTypesWithoutPrice v @ [ct]\<rparr>)
         | None \<Rightarrow> v\<lparr>coinTypesWithoutPrice := coinTypesWithoutPrice v @ [ct]\<rparr>)
      else v)"

definition coinValues_rule :: "'f numbers \<Rightarrow> 'f coin_price list \<Rightarrow> (string \<times> int) list \<Rightarrow> 'f coin_values" where
  "coinValues_rule num prices flows =
     foldl (value_step num prices) \<lparr>coinTypesWithoutPrice = [], v_total = n_zero num, coinTypes = []\<rparr> flows"

subsection \<open>Policies, settings, state\<close>

record object_permission =
  p_objectType :: string
  p_accessLevel :: access

record operation =
  op_id :: string
  p_ownedObjects :: "object_permission list option"
  p_balances :: "string list option"
  p_anyBalance :: bool

text \<open>The properties of a policy that the manager only compares are the text \<open>pol_other\<close>.\<close>

record policy =
  pol_operations :: "operation list"
  pol_other :: string

record 'f settings =
  approvedOperations :: "string list"
  expiresAt :: int
  remainingTransactions :: "int option"
  sharedBudget :: "'f option"
  coinBudgets :: "string \<rightharpoonup> string"

record 'f manager =
  m_policy :: policy
  m_settings :: "'f settings option"
  pendingDigests :: "string list"

definition new_manager :: "policy \<Rightarrow> 'f manager option \<Rightarrow> 'f manager" where
  "new_manager pol saved =
     (case saved of
        Some m \<Rightarrow> if m_policy m = pol then m else \<lparr>m_policy = pol, m_settings = None, pendingDigests = []\<rparr>
      | None \<Rightarrow> \<lparr>m_policy = pol, m_settings = None, pendingDigests = []\<rparr>)"

text \<open>What \<open>autoApprovalAnalyzer\<close> finds out about a transaction.\<close>

record 'f approval =
  operationType :: "string option"
  a_outflows :: "(string \<times> int) list"
  a_coinTypes :: "'f coin_value list"
  a_accessLevel :: levels
  a_ownedObjects :: "analyzed_object list"
  a_digest :: string

record checked =
  matchesPolicy :: bool
  canAutoApprove :: bool
  policyIssues :: "string list"
  settingsIssues :: "string list"
  analysisIssues :: "string list"

subsection \<open>Checking a transaction\<close>

definition isCoinType :: "string \<Rightarrow> bool res" where
  "isCoinType type = rmap is_coin_tag (parseStructTag type)"

fun compareAccessLevel :: "access \<Rightarrow> access option \<Rightarrow> bool" where
  "compareAccessLevel ReadAccess actual = True"
| "compareAccessLevel MutateAccess actual = (actual = Some MutateAccess \<or> actual = Some TransferAccess)"
| "compareAccessLevel TransferAccess actual = (actual = Some TransferAccess)"

definition object_issues :: "operation \<Rightarrow> levels \<Rightarrow> analyzed_object \<Rightarrow> string list res" where
  "object_issues op ls obj =
     rmap (\<lambda>coin.
       if coin then []
       else let level = ls (obj_id obj);
                permission = (case p_ownedObjects op of None \<Rightarrow> None
                              | Some ps \<Rightarrow> find (\<lambda>p. p_objectType p = c_type (object obj)) ps)
            in (if level = None then [''Access level could not be determined for object '' @ obj_id obj] else [])
             @ (case permission of
                  None \<Rightarrow> [''No permission found for object '' @ obj_id obj]
                | Some p \<Rightarrow> if compareAccessLevel (p_accessLevel p) level then []
                            else [''Insufficient access level for object '' @ obj_id obj]))
       (isCoinType (c_type (object obj)))"

definition balance_issues :: "operation \<Rightarrow> (string \<times> int) list \<Rightarrow> string list" where
  "balance_issues op flows =
     (if p_anyBalance op then []
      else concat (map (\<lambda>(ct, amount).
        if ct \<in> set (case p_balances op of None \<Rightarrow> [] | Some bs \<Rightarrow> bs) then []
        else [''Operation does not have permission to use coin type '' @ ct]) flows))"

definition policy_issues :: "'f manager \<Rightarrow> 'f approval analysis \<Rightarrow> string list res" where
  "policy_issues m analysis =
     (case analysis of
        Issues _ \<Rightarrow> Inr [''Transaction analysis failed'']
      | Analyzed a \<Rightarrow>
          if \<not> truthy_str (operationType a) then Inr [''Operation type not found in Transaction'']
          else case find (\<lambda>op. Some (op_id op) = operationType a) (pol_operations (m_policy m)) of
                 None \<Rightarrow> Inr [''Operation not found in policy'']
               | Some op \<Rightarrow>
                   rmap (\<lambda>is. balance_issues op (a_outflows a) @ concat is)
                     (rmapM (object_issues op (a_accessLevel a)) (a_ownedObjects a)))"

text \<open>\<open>new Date() > new Date(expiration)\<close>: comparing with an invalid date gives false.\<close>

definition expired :: "int \<Rightarrow> int \<Rightarrow> bool" where
  "expired now e \<longleftrightarrow> \<bar>e\<bar> \<le> 8640000000000000 \<and> now > e"

definition find_value :: "'f coin_value list \<Rightarrow> string \<Rightarrow> 'f coin_value option" where
  "find_value vs ct = find (\<lambda>v. cv_coinType v = ct) vs"

definition outflow_issues :: "'f numbers \<Rightarrow> 'f settings \<Rightarrow> 'f coin_value list \<Rightarrow> string \<times> int \<Rightarrow> string list res" where
  "outflow_issues num s vs flow =
     (let ct = fst flow; amount = snd flow in
      if amount \<le> 0 then Inr []
      else case coinBudgets s ct of
        Some b \<Rightarrow>
          if b = [] then Inr []
          else rmap (\<lambda>n. if n < amount then [''Insufficient budget for coin type '' @ ct] else []) (bigint_of_string b)
      | None \<Rightarrow>
          (case find_value vs ct of
             None \<Rightarrow> Inr [''No budget configured for coin type '' @ ct]
           | Some v \<Rightarrow> Inr (if n_less num (case sharedBudget s of None \<Rightarrow> n_zero num | Some x \<Rightarrow> x) (cv_convertedAmount v)
                         then [''Insufficient budget for coin type '' @ ct] else [])))"

definition settings_issues :: "'f numbers \<Rightarrow> int \<Rightarrow> 'f manager \<Rightarrow> 'f approval analysis \<Rightarrow> string list res" where
  "settings_issues num now m analysis =
     (case m_settings m of
        None \<Rightarrow> Inr [''No auto-approval settings configured'']
      | Some s \<Rightarrow>
          (case analysis of
             Issues _ \<Rightarrow> Inr [''Transaction analysis failed'']
           | Analyzed a \<Rightarrow>
               rmap (\<lambda>is.
                 (if expired now (expiresAt s) then [''Auto-approval settings have expired''] else [])
                 @ (case remainingTransactions s of
                      Some n \<Rightarrow> if n \<le> 0 then [''No remaining auto-approved transactions''] else []
                    | None \<Rightarrow> [])
                 @ (if \<not> truthy_str (operationType a) \<or> the (operationType a) \<notin> set (approvedOperations s)
                    then [''Operation type not approved for auto-approval''] else [])
                 @ concat is)
               (rmapM (outflow_issues num s (a_coinTypes a)) (a_outflows a))))"

definition checkTransaction :: "'f numbers \<Rightarrow> int \<Rightarrow> 'f manager \<Rightarrow> 'f approval analysis \<Rightarrow> checked res" where
  "checkTransaction num now m analysis =
     (let issues = (case analysis of Issues is \<Rightarrow> is | Analyzed _ \<Rightarrow> []);
          results = \<lparr>matchesPolicy = False, canAutoApprove = False, policyIssues = [], settingsIssues = [], analysisIssues = issues\<rparr>
      in if issues \<noteq> [] then Inr results
         else rbind (policy_issues m analysis) (\<lambda>pis.
           if pis \<noteq> [] then Inr (results\<lparr>policyIssues := pis\<rparr>)
           else rmap (\<lambda>sis.
             if sis \<noteq> [] then results\<lparr>matchesPolicy := True, settingsIssues := sis\<rparr>
             else results\<lparr>matchesPolicy := True, canAutoApprove := True\<rparr>)
             (settings_issues num now m analysis)))"

subsection \<open>Committing and reverting\<close>

text \<open>
  The loop over the outflows: \<open>op\<close> and \<open>fop\<close> are subtraction when a transaction is committed and
  addition when it is reverted.
\<close>

fun flow_loop :: "(int \<Rightarrow> int \<Rightarrow> int) \<Rightarrow> ('f \<Rightarrow> 'f \<Rightarrow> 'f) \<Rightarrow> 'f coin_value list \<Rightarrow> (string \<times> int) list \<Rightarrow> 'f settings
    \<Rightarrow> unit res \<times> 'f settings" where
  "flow_loop op fop vs [] s = (Inr (), s)"
| "flow_loop op fop vs ((ct, amount) # flows) s =
     (case coinBudgets s ct of
        Some b \<Rightarrow>
          (case bigint_of_string b of
             Inl e \<Rightarrow> (Inl e, s)
           | Inr n \<Rightarrow> flow_loop op fop vs flows (s\<lparr>coinBudgets := (coinBudgets s)(ct \<mapsto> show_int (op n amount))\<rparr>))
      | None \<Rightarrow>
          (case sharedBudget s of
             None \<Rightarrow> (Inl (Error (''No budget available for coin type '' @ ct)), s)
           | Some x \<Rightarrow>
               (case find_value vs ct of
                  None \<Rightarrow> (Inl (Error (''No value available for coin type '' @ ct)), s)
                | Some v \<Rightarrow> flow_loop op fop vs flows (s\<lparr>sharedBudget := Some (fop x (cv_convertedAmount v))\<rparr>))))"

definition commitTransaction :: "'f numbers \<Rightarrow> 'f approval analysis \<Rightarrow> 'f manager \<Rightarrow> unit res \<times> 'f manager" where
  "commitTransaction num analysis m =
     (case m_settings m of
        None \<Rightarrow> (Inl (Error ''No auto-approval settings configured''), m)
      | Some s \<Rightarrow>
          (case analysis of
             Issues _ \<Rightarrow> (Inl (Error ''Transaction analysis failed''), m)
           | Analyzed a \<Rightarrow>
               (let s = s\<lparr>remainingTransactions := map_option (\<lambda>n. max 0 (n - 1)) (remainingTransactions s)\<rparr>
                in case flow_loop (-) (n_sub num) (a_coinTypes a) (a_outflows a) s of
                     (Inl e, s) \<Rightarrow> (Inl e, m\<lparr>m_settings := Some s\<rparr>)
                   | (Inr _, s) \<Rightarrow> (Inr (), m\<lparr>m_settings := Some s, pendingDigests := pendingDigests m @ [a_digest a]\<rparr>))))"

definition removePendingDigest :: "string \<Rightarrow> 'f manager \<Rightarrow> unit res \<times> 'f manager" where
  "removePendingDigest digest m =
     (if digest \<in> set (pendingDigests m) then (Inr (), m\<lparr>pendingDigests := remove1 digest (pendingDigests m)\<rparr>)
      else (Inl (Error (''Transaction with digest '' @ digest @ '' not found in pending digests'')), m))"

definition revertCoinFlows :: "'f numbers \<Rightarrow> 'f approval analysis \<Rightarrow> 'f manager \<Rightarrow> unit res \<times> 'f manager" where
  "revertCoinFlows num analysis m =
     (case m_settings m of
        None \<Rightarrow> (Inl (Error ''No auto-approval settings configured''), m)
      | Some s \<Rightarrow>
          (case analysis of
             Issues _ \<Rightarrow> (Inl (Error ''Transaction analysis failed''), m)
           | Analyzed a \<Rightarrow>
               (case flow_loop (+) (n_add num) (a_coinTypes a) (a_outflows a) s of
                  (r, s) \<Rightarrow> (r, m\<lparr>m_settings := Some s\<rparr>))))"

text \<open>Sequencing of methods that may throw.\<close>

definition andThen :: "unit res \<times> 's \<Rightarrow> ('s \<Rightarrow> unit res \<times> 's) \<Rightarrow> unit res \<times> 's" where
  "andThen r f = (case r of (Inl e, s) \<Rightarrow> (Inl e, s) | (Inr _, s) \<Rightarrow> f s)"

definition revertTransaction :: "'f numbers \<Rightarrow> 'f approval analysis \<Rightarrow> 'f manager \<Rightarrow> unit res \<times> 'f manager" where
  "revertTransaction num analysis m =
     andThen
       (case analysis of
          Analyzed a \<Rightarrow> if a_digest a \<noteq> [] then removePendingDigest (a_digest a) m else (Inr (), m)
        | Issues _ \<Rightarrow> (Inr (), m))
       (\<lambda>m. revertCoinFlows num analysis
          (m\<lparr>m_settings := map_option (\<lambda>s. s\<lparr>remainingTransactions := map_option (\<lambda>n. n + 1) (remainingTransactions s)\<rparr>)
                             (m_settings m)\<rparr>))"

text \<open>The balance changes of an executed transaction; \<open>amount\<close> is the value of its decimal text.\<close>

fun change_loop :: "'f numbers \<Rightarrow> 'f coin_value list \<Rightarrow> (string \<times> int) list \<Rightarrow> 'f settings \<Rightarrow> unit res \<times> 'f settings" where
  "change_loop num vs [] s = (Inr (), s)"
| "change_loop num vs ((ct, amount) # changes) s =
     (case coinBudgets s ct of
        Some b \<Rightarrow>
          (case bigint_of_string b of
             Inl e \<Rightarrow> (Inl e, s)
           | Inr n \<Rightarrow> change_loop num vs changes (s\<lparr>coinBudgets := (coinBudgets s)(ct \<mapsto> show_int (n + amount))\<rparr>))
      | None \<Rightarrow>
          (case sharedBudget s of
             None \<Rightarrow> (Inl (Error (''No budget available for coin type '' @ ct)), s)
           | Some x \<Rightarrow>
               (case find_value vs ct of
                  None \<Rightarrow> (Inl (Error (''No value available for coin type '' @ ct)), s)
                | Some v \<Rightarrow> change_loop num vs changes
                    (s\<lparr>sharedBudget := Some (n_add num x (n_convert num amount (cv_decimals v) (cv_price v)))\<rparr>))))"

definition applyTransactionEffects ::
  "'f numbers \<Rightarrow> 'f approval analysis \<Rightarrow> string \<Rightarrow> (string \<times> int) list \<Rightarrow> 'f manager \<Rightarrow> unit res \<times> 'f manager" where
  "applyTransactionEffects num analysis digest balanceChanges m =
     andThen (removePendingDigest digest m) (\<lambda>m.
     andThen (revertCoinFlows num analysis m) (\<lambda>m.
       case (m_settings m, analysis) of
         (Some s, Analyzed a) \<Rightarrow>
           (case change_loop num (a_coinTypes a) balanceChanges s of (r, s) \<Rightarrow> (r, m\<lparr>m_settings := Some s\<rparr>))
       | _ \<Rightarrow> (Inr (), m)))"

definition reset :: "'f manager \<Rightarrow> 'f manager" where
  "reset m = \<lparr>m_policy = m_policy m, m_settings = None, pendingDigests = []\<rparr>"

definition updateSettings :: "'f settings \<Rightarrow> 'f manager \<Rightarrow> 'f manager" where
  "updateSettings s m = m\<lparr>m_settings := Some s\<rparr>"

subsection \<open>What is approved\<close>

lemma rmapM_no_issues: "(\<exists>iss. rmapM f xs = Inr iss \<and> concat iss = []) \<longleftrightarrow> (\<forall>x \<in> set xs. f x = Inr [])"
proof (induction xs)
  case (Cons x xs)
  show ?case
  proof (cases "f x")
    case (Inr y)
    then show ?thesis using Cons by (cases "rmapM f xs") (auto simp: Inr)
  qed simp
qed simp

text \<open>
  The checks of the code without their messages, with the comparisons as the code makes them; what a policy
  is meant to allow is \<open>authorized\<close> below.
\<close>

definition policy_passes :: "operation \<Rightarrow> 'f approval \<Rightarrow> bool" where
  "policy_passes op a \<longleftrightarrow>
     (p_anyBalance op \<or> (\<forall>(ct, amount) \<in> set (a_outflows a). ct \<in> set (case p_balances op of None \<Rightarrow> [] | Some bs \<Rightarrow> bs))) \<and>
     (\<forall>obj \<in> set (a_ownedObjects a). isCoinType (c_type (object obj)) = Inr True \<or>
        isCoinType (c_type (object obj)) = Inr False \<and>
        (\<exists>level p. a_accessLevel a (obj_id obj) = Some level \<and> p_accessLevel p \<le> level \<and>
           find (\<lambda>p. p_objectType p = c_type (object obj)) (case p_ownedObjects op of None \<Rightarrow> [] | Some ps \<Rightarrow> ps) = Some p))"

definition outflow_passes :: "'f numbers \<Rightarrow> 'f settings \<Rightarrow> 'f coin_value list \<Rightarrow> string \<times> int \<Rightarrow> bool" where
  "outflow_passes num s vs flow \<longleftrightarrow> snd flow \<le> 0 \<or>
     (case coinBudgets s (fst flow) of
        Some b \<Rightarrow> b = [] \<or> (\<exists>n. bigint_of_string b = Inr n \<and> snd flow \<le> n)
      | None \<Rightarrow> \<exists>v. find_value vs (fst flow) = Some v \<and>
          \<not> n_less num (case sharedBudget s of None \<Rightarrow> n_zero num | Some x \<Rightarrow> x) (cv_convertedAmount v))"

definition settings_pass :: "'f numbers \<Rightarrow> int \<Rightarrow> 'f settings \<Rightarrow> 'f approval \<Rightarrow> bool" where
  "settings_pass num now s a \<longleftrightarrow>
     \<not> expired now (expiresAt s) \<and>
     (case remainingTransactions s of None \<Rightarrow> True | Some n \<Rightarrow> 0 < n) \<and>
     truthy_str (operationType a) \<and> the (operationType a) \<in> set (approvedOperations s) \<and>
     (\<forall>flow \<in> set (a_outflows a). outflow_passes num s (a_coinTypes a) flow)"

lemma compareAccessLevel_le: "compareAccessLevel p (Some a) \<longleftrightarrow> p \<le> a"
  by (cases p; cases a) (simp_all add: less_eq_access_def)

lemma object_issues_none:
  "object_issues op ls obj = Inr [] \<longleftrightarrow> isCoinType (c_type (object obj)) = Inr True \<or>
     isCoinType (c_type (object obj)) = Inr False \<and>
     (\<exists>level p. ls (obj_id obj) = Some level \<and> p_accessLevel p \<le> level \<and>
        find (\<lambda>p. p_objectType p = c_type (object obj)) (case p_ownedObjects op of None \<Rightarrow> [] | Some ps \<Rightarrow> ps) = Some p)"
proof (cases "isCoinType (c_type (object obj))")
  case (Inr coin)
  then show ?thesis
    by (cases coin; cases "ls (obj_id obj)"; cases "p_ownedObjects op")
      (auto simp: object_issues_def Let_def compareAccessLevel_le split: option.splits)
qed (simp add: object_issues_def)

lemma balance_issues_none:
  "balance_issues op flows = [] \<longleftrightarrow>
     p_anyBalance op \<or> (\<forall>(ct, amount) \<in> set flows. ct \<in> set (case p_balances op of None \<Rightarrow> [] | Some bs \<Rightarrow> bs))"
  by (cases "p_balances op") (auto simp: balance_issues_def split: if_splits prod.splits)

lemma policy_issues_none:
  "policy_issues m (Analyzed a) = Inr [] \<longleftrightarrow> truthy_str (operationType a) \<and>
     (\<exists>op. find (\<lambda>op. Some (op_id op) = operationType a) (pol_operations (m_policy m)) = Some op \<and> policy_passes op a)"
proof -
  have "rmap (\<lambda>is. balance_issues op (a_outflows a) @ concat is) (rmapM (object_issues op (a_accessLevel a)) (a_ownedObjects a)) = Inr []
      \<longleftrightarrow> policy_passes op a" for op
    using rmapM_no_issues [of "object_issues op (a_accessLevel a)" "a_ownedObjects a"]
    by (auto simp: policy_passes_def balance_issues_none object_issues_none res_simps)
  then show ?thesis by (auto simp: policy_issues_def split: option.splits)
qed

lemma outflow_issues_none: "outflow_issues num s vs flow = Inr [] \<longleftrightarrow> outflow_passes num s vs flow"
proof (cases "coinBudgets s (fst flow)")
  case (Some b)
  then show ?thesis
    by (cases "bigint_of_string b") (auto simp: outflow_issues_def outflow_passes_def Let_def)
qed (auto simp: outflow_issues_def outflow_passes_def Let_def split: option.splits if_splits)

lemma settings_issues_none:
  "settings_issues num now m (Analyzed a) = Inr [] \<longleftrightarrow> (\<exists>s. m_settings m = Some s \<and> settings_pass num now s a)"
proof (cases "m_settings m")
  case (Some s)
  have "settings_issues num now m (Analyzed a) = Inr [] \<longleftrightarrow>
     \<not> expired now (expiresAt s) \<and> (case remainingTransactions s of None \<Rightarrow> True | Some n \<Rightarrow> 0 < n) \<and>
     truthy_str (operationType a) \<and> the (operationType a) \<in> set (approvedOperations s) \<and>
     (\<exists>is. rmapM (outflow_issues num s (a_coinTypes a)) (a_outflows a) = Inr is \<and> concat is = [])"
    by (auto simp: settings_issues_def Some res_simps split: option.splits)
  then show ?thesis
    unfolding rmapM_no_issues outflow_issues_none by (simp add: Some settings_pass_def)
qed (simp add: settings_issues_def)

definition approves :: "'f numbers \<Rightarrow> int \<Rightarrow> 'f manager \<Rightarrow> 'f approval analysis \<Rightarrow> bool" where
  "approves num now m analysis \<longleftrightarrow> (case checkTransaction num now m analysis of Inl _ \<Rightarrow> False | Inr r \<Rightarrow> canAutoApprove r)"

lemma approves_Analyzed:
  "approves num now m (Analyzed a) \<longleftrightarrow>
     policy_issues m (Analyzed a) = Inr [] \<and> settings_issues num now m (Analyzed a) = Inr []"
  by (cases "policy_issues m (Analyzed a)"; cases "settings_issues num now m (Analyzed a)")
    (auto simp: approves_def checkTransaction_def Let_def)

lemma approves_Issues: "\<not> approves num now m (Issues is)"
  by (auto simp: approves_def checkTransaction_def Let_def policy_issues_def)

subsection \<open>What is approved, and what the policy authorizes\<close>

text \<open>
  What a policy with the settings of its user authorizes, stated on the transaction itself: the accesses the commands take
  to each object, not the level the analysis makes of them. A permission for a type allows the accesses up to its level.
\<close>

definition permissions :: "operation \<Rightarrow> object_permission list" where
  "permissions op = (case p_ownedObjects op of None \<Rightarrow> [] | Some ps \<Rightarrow> ps)"

definition may_use :: "operation \<Rightarrow> string \<Rightarrow> access \<Rightarrow> bool" where
  "may_use op type level \<longleftrightarrow> (\<exists>p \<in> set (permissions op). p_objectType p = type \<and> level \<le> p_accessLevel p)"

text \<open>The accesses to an object: reading it as an object of the transaction, mutating it as a gas coin, and the
  uses by the commands.\<close>

definition accesses :: "analyzed_command list \<Rightarrow> analyzed_object list \<Rightarrow> analyzed_coin list \<Rightarrow> string \<Rightarrow> access set" where
  "accesses cmds objects gasCoins objId =
     set (base_access (gas_ids gasCoins) objects objId @ uses_of (gas_ids gasCoins) objId (concat (map access_args cmds)))"

definition object_authorized ::
  "analyzed_command list \<Rightarrow> analyzed_object list \<Rightarrow> analyzed_coin list \<Rightarrow> operation \<Rightarrow> analyzed_object \<Rightarrow> bool" where
  "object_authorized cmds objects gasCoins op obj \<longleftrightarrow>
     (case isCoinType (c_type (object obj)) of
        Inl _ \<Rightarrow> False
      | Inr coin \<Rightarrow> coin \<or> (\<forall>level \<in> accesses cmds objects gasCoins (obj_id obj). may_use op (c_type (object obj)) level))"

text \<open>The budget of its coin type pays a positive outflow, or the shared budget its value where the type has no budget.\<close>

definition paid :: "'f numbers \<Rightarrow> 'f settings \<Rightarrow> 'f coin_value list \<Rightarrow> string \<Rightarrow> int \<Rightarrow> bool" where
  "paid num s vs ct amount \<longleftrightarrow>
     (case coinBudgets s ct of
        Some b \<Rightarrow> (case bigint_of_string b of Inl _ \<Rightarrow> False | Inr budget \<Rightarrow> amount \<le> budget)
      | None \<Rightarrow> (case find_value vs ct of
          None \<Rightarrow> False
        | Some v \<Rightarrow> \<not> n_less num (case sharedBudget s of None \<Rightarrow> n_zero num | Some x \<Rightarrow> x) (cv_convertedAmount v)))"

text \<open>The operation is the one of the transaction, the user has approved it, transactions remain, and it may use the coin types.\<close>

definition granted :: "'f settings \<Rightarrow> operation \<Rightarrow> 'f approval \<Rightarrow> bool" where
  "granted s op a \<longleftrightarrow> operationType a = Some (op_id op) \<and> op_id op \<noteq> [] \<and> op_id op \<in> set (approvedOperations s) \<and>
     (\<forall>n. remainingTransactions s = Some n \<longrightarrow> 0 < n) \<and>
     (\<forall>(ct, amount) \<in> set (a_outflows a). p_anyBalance op \<or> (\<exists>bs. p_balances op = Some bs \<and> ct \<in> set bs))"

definition authorized :: "'f numbers \<Rightarrow> int \<Rightarrow> 'f manager \<Rightarrow>
    analyzed_command list \<Rightarrow> analyzed_object list \<Rightarrow> analyzed_coin list \<Rightarrow> 'f approval \<Rightarrow> bool" where
  "authorized num now m cmds objects gasCoins a \<longleftrightarrow>
     (\<exists>op \<in> set (pol_operations (m_policy m)). \<exists>s. m_settings m = Some s \<and>
        granted s op a \<and> now \<le> expiresAt s \<and>
        (\<forall>(ct, amount) \<in> set (a_outflows a). 0 < amount \<longrightarrow> paid num s (a_coinTypes a) ct amount) \<and>
        (\<forall>obj \<in> set (a_ownedObjects a). object_authorized cmds objects gasCoins op obj))"

text \<open>An object that is no coin is used above its permission, or only below it.\<close>

definition used_above :: "analyzed_command list \<Rightarrow> analyzed_object list \<Rightarrow> analyzed_coin list \<Rightarrow> operation \<Rightarrow> analyzed_object \<Rightarrow> bool" where
  "used_above cmds objects gasCoins op obj \<longleftrightarrow> isCoinType (c_type (object obj)) = Inr False \<and>
     (\<exists>p \<in> set (permissions op). p_objectType p = c_type (object obj) \<and>
        (\<exists>level \<in> accesses cmds objects gasCoins (obj_id obj). p_accessLevel p < level))"

definition used_below :: "analyzed_command list \<Rightarrow> analyzed_object list \<Rightarrow> analyzed_coin list \<Rightarrow> operation \<Rightarrow> analyzed_object \<Rightarrow> bool" where
  "used_below cmds objects gasCoins op obj \<longleftrightarrow> isCoinType (c_type (object obj)) = Inr False \<and>
     (\<exists>p \<in> set (permissions op). p_objectType p = c_type (object obj) \<and>
        (\<forall>level \<in> accesses cmds objects gasCoins (obj_id obj). level < p_accessLevel p))"

text \<open>A positive outflow of a type whose budget is the empty text.\<close>

definition blank_budget :: "'f settings \<Rightarrow> 'f approval \<Rightarrow> bool" where
  "blank_budget s a \<longleftrightarrow> (\<exists>(ct, amount) \<in> set (a_outflows a). 0 < amount \<and> coinBudgets s ct = Some [])"

lemma level_accesses:
  assumes "accessLevel_rule cmds objects gasCoins = Analyzed ls"
  shows "ls objId = (if accesses cmds objects gasCoins objId = {} then None else Some (Max (accesses cmds objects gasCoins objId)))"
  unfolding accessLevel_foldl [OF assms]
  by (subst foldl_raise_list) (simp_all add: base_access_def accesses_def)

lemma finite_accesses [simp]: "finite (accesses cmds objects gasCoins objId)"
  by (simp add: accesses_def)

text \<open>One object: the code lets it through when its strongest use reaches the permission.\<close>

lemma object_passes:
  assumes "accessLevel_rule cmds objects gasCoins = Analyzed ls" "distinct (map p_objectType (permissions op))"
  shows "object_issues op ls obj = Inr [] \<longleftrightarrow> isCoinType (c_type (object obj)) = Inr True \<or>
    isCoinType (c_type (object obj)) = Inr False \<and>
    (\<exists>p \<in> set (permissions op). p_objectType p = c_type (object obj) \<and>
       (\<exists>level \<in> accesses cmds objects gasCoins (obj_id obj). p_accessLevel p \<le> level))"
proof -
  let ?A = "accesses cmds objects gasCoins (obj_id obj)"
  have "(\<exists>level. ls (obj_id obj) = Some level \<and> p_accessLevel p \<le> level) \<longleftrightarrow> (\<exists>level \<in> ?A. p_accessLevel p \<le> level)" for p
    by (auto simp: level_accesses [OF assms(1)] Max_ge_iff)
  then show ?thesis
    unfolding object_issues_none permissions_def [symmetric] find_distinct_key [OF assms(2)] by blast
qed

lemma object_authorized_passes:
  assumes "accessLevel_rule cmds objects gasCoins = Analyzed ls" "distinct (map p_objectType (permissions op))" "obj \<in> set objects"
  shows "object_issues op ls obj = Inr [] \<Longrightarrow> \<not> used_above cmds objects gasCoins op obj \<Longrightarrow> object_authorized cmds objects gasCoins op obj"
    and "object_authorized cmds objects gasCoins op obj \<Longrightarrow> \<not> used_below cmds objects gasCoins op obj \<Longrightarrow> object_issues op ls obj = Inr []"
    and "used_below cmds objects gasCoins op obj \<Longrightarrow> object_issues op ls obj \<noteq> Inr []"
proof -
  note passes = object_passes [OF assms(1,2), of obj]
  show "object_issues op ls obj = Inr [] \<Longrightarrow> \<not> used_above cmds objects gasCoins op obj \<Longrightarrow> object_authorized cmds objects gasCoins op obj"
    unfolding passes used_above_def object_authorized_def may_use_def
    by (cases "isCoinType (c_type (object obj))") (simp_all add: not_less, blast)
  obtain level where level: "level \<in> accesses cmds objects gasCoins (obj_id obj)"
  proof -
    have "base_access (gas_ids gasCoins) objects (obj_id obj) \<noteq> []" using assms(3) by (simp add: base_access_def)
    then show ?thesis using that [of "hd (base_access (gas_ids gasCoins) objects (obj_id obj))"] by (simp add: accesses_def)
  qed
  show "object_issues op ls obj = Inr []"
    if auth: "object_authorized cmds objects gasCoins op obj" and below: "\<not> used_below cmds objects gasCoins op obj"
  proof (cases "isCoinType (c_type (object obj)) = Inr True")
    case False
    then have coin: "isCoinType (c_type (object obj)) = Inr False"
      using auth by (auto simp: object_authorized_def split: sum.splits)
    then obtain p where "p \<in> set (permissions op)" "p_objectType p = c_type (object obj)"
      using auth level by (auto simp: object_authorized_def may_use_def)
    then show ?thesis using coin below unfolding passes by (force simp: used_below_def not_less)
  qed (simp add: passes)
  show "used_below cmds objects gasCoins op obj \<Longrightarrow> object_issues op ls obj \<noteq> Inr []"
  proof
    assume below: "used_below cmds objects gasCoins op obj" and "object_issues op ls obj = Inr []"
    then obtain p p' level where p: "p \<in> set (permissions op)" "p_objectType p = c_type (object obj)"
      "\<forall>level \<in> accesses cmds objects gasCoins (obj_id obj). level < p_accessLevel p"
      "p' \<in> set (permissions op)" "p_objectType p' = c_type (object obj)"
      "level \<in> accesses cmds objects gasCoins (obj_id obj)" "p_accessLevel p' \<le> level"
      unfolding passes by (auto simp: used_below_def)
    then have "p = p'" using assms(2) by (metis distinct_map inj_onD)
    with p(3,6,7) show False by force
  qed
qed

text \<open>One outflow: the code lets a budget of the empty text pay everything.\<close>

lemma outflow_paid:
  "outflow_passes num s vs (ct, amount) \<longleftrightarrow> (0 < amount \<and> coinBudgets s ct \<noteq> Some [] \<longrightarrow> paid num s vs ct amount)"
  by (cases "coinBudgets s ct") (auto simp: outflow_passes_def paid_def split: sum.splits option.splits)

lemma not_paid_blank: "coinBudgets s ct = Some [] \<Longrightarrow> 0 < amount \<Longrightarrow> \<not> paid num s vs ct amount"
  by (simp add: paid_def bigint_of_string_def trim_def)

definition some_object :: "'f manager \<Rightarrow> 'f approval \<Rightarrow> (operation \<Rightarrow> analyzed_object \<Rightarrow> bool) \<Rightarrow> bool" where
  "some_object m a P \<longleftrightarrow> (\<exists>op \<in> set (pol_operations (m_policy m)). operationType a = Some (op_id op) \<and>
     (\<exists>obj \<in> set (a_ownedObjects a). P op obj))"

lemma approves_parts:
  assumes "distinct (map op_id (pol_operations (m_policy m)))"
  shows "approves num now m (Analyzed a) \<longleftrightarrow>
    (\<exists>op \<in> set (pol_operations (m_policy m)). \<exists>s. m_settings m = Some s \<and>
       granted s op a \<and> \<not> expired now (expiresAt s) \<and>
       (\<forall>(ct, amount) \<in> set (a_outflows a). outflow_passes num s (a_coinTypes a) (ct, amount)) \<and>
       (\<forall>obj \<in> set (a_ownedObjects a). object_issues op (a_accessLevel a) obj = Inr []))"
proof (cases "operationType a")
  case None
  then show ?thesis by (simp add: approves_Analyzed policy_issues_none truthy_str_def granted_def)
next
  case (Some id)
  have ops: "find (\<lambda>op. Some (op_id op) = operationType a) (pol_operations (m_policy m)) = Some op \<longleftrightarrow>
      op \<in> set (pol_operations (m_policy m)) \<and> op_id op = id" for op
    using find_distinct_key [OF assms, of id op] by (simp add: Some)
  have coins: "(p_anyBalance op \<or> (\<forall>(ct, amount) \<in> set (a_outflows a). ct \<in> set (case p_balances op of None \<Rightarrow> [] | Some bs \<Rightarrow> bs))) \<longleftrightarrow>
      (\<forall>(ct, amount) \<in> set (a_outflows a). p_anyBalance op \<or> (\<exists>bs. p_balances op = Some bs \<and> ct \<in> set bs))" for op
    by (cases "p_balances op") auto
  have passes: "policy_passes op a \<longleftrightarrow>
      (\<forall>(ct, amount) \<in> set (a_outflows a). p_anyBalance op \<or> (\<exists>bs. p_balances op = Some bs \<and> ct \<in> set bs)) \<and>
      (\<forall>obj \<in> set (a_ownedObjects a). object_issues op (a_accessLevel a) obj = Inr [])" for op
    unfolding policy_passes_def object_issues_none coins ..
  have left: "(case r of None \<Rightarrow> True | Some n \<Rightarrow> (0::int) < n) \<longleftrightarrow> (\<forall>n. r = Some n \<longrightarrow> 0 < n)" for r
    by (cases r) simp_all
  show ?thesis
    unfolding approves_Analyzed policy_issues_none settings_issues_none settings_pass_def ops passes left
    by (auto simp: Some truthy_str_def granted_def)
qed

lemma not_expired: "\<bar>t\<bar> \<le> 8640000000000000 \<Longrightarrow> \<not> expired now t \<longleftrightarrow> now \<le> t"
  by (simp add: expired_def not_less)

lemma approved_authorized:
  assumes "accessLevel_rule cmds objects gasCoins = Analyzed (a_accessLevel a)" "set (a_ownedObjects a) \<subseteq> set objects"
    and "distinct (map op_id (pol_operations (m_policy m)))"
    and "\<And>op. op \<in> set (pol_operations (m_policy m)) \<Longrightarrow> distinct (map p_objectType (permissions op))"
    and "\<And>s. m_settings m = Some s \<Longrightarrow> \<bar>expiresAt s\<bar> \<le> 8640000000000000"
    and "approves num now m (Analyzed a)" "\<not> some_object m a (used_above cmds objects gasCoins)"
    and "\<not> (\<exists>s. m_settings m = Some s \<and> blank_budget s a)"
  shows "authorized num now m cmds objects gasCoins a"
proof -
  obtain op s where op: "op \<in> set (pol_operations (m_policy m))" "m_settings m = Some s" "granted s op a"
    "\<not> expired now (expiresAt s)" "\<forall>(ct, amount) \<in> set (a_outflows a). outflow_passes num s (a_coinTypes a) (ct, amount)"
    "\<forall>obj \<in> set (a_ownedObjects a). object_issues op (a_accessLevel a) obj = Inr []"
    using assms(6) unfolding approves_parts [OF assms(3)] by blast
  have "\<forall>(ct, amount) \<in> set (a_outflows a). 0 < amount \<longrightarrow> paid num s (a_coinTypes a) ct amount"
    using op(5) assms(8) unfolding outflow_paid blank_budget_def op(2) by auto
  moreover have "object_authorized cmds objects gasCoins op obj" if "obj \<in> set (a_ownedObjects a)" for obj
    using op(1,3,6) that assms(2,7) object_authorized_passes(1) [OF assms(1) assms(4)]
    unfolding some_object_def granted_def by blast
  ultimately show ?thesis using op(1-4) not_expired [OF assms(5) [OF op(2)]] unfolding authorized_def by blast
qed

lemma authorized_approved:
  assumes "accessLevel_rule cmds objects gasCoins = Analyzed (a_accessLevel a)" "set (a_ownedObjects a) \<subseteq> set objects"
    and "distinct (map op_id (pol_operations (m_policy m)))"
    and "\<And>op. op \<in> set (pol_operations (m_policy m)) \<Longrightarrow> distinct (map p_objectType (permissions op))"
    and "\<And>s. m_settings m = Some s \<Longrightarrow> \<bar>expiresAt s\<bar> \<le> 8640000000000000"
    and "authorized num now m cmds objects gasCoins a" "\<not> some_object m a (used_below cmds objects gasCoins)"
  shows "approves num now m (Analyzed a)"
proof -
  obtain op s where op: "op \<in> set (pol_operations (m_policy m))" "m_settings m = Some s" "granted s op a" "now \<le> expiresAt s"
    "\<forall>(ct, amount) \<in> set (a_outflows a). 0 < amount \<longrightarrow> paid num s (a_coinTypes a) ct amount"
    "\<forall>obj \<in> set (a_ownedObjects a). object_authorized cmds objects gasCoins op obj"
    using assms(6) unfolding authorized_def by blast
  have "\<forall>(ct, amount) \<in> set (a_outflows a). outflow_passes num s (a_coinTypes a) (ct, amount)"
    using op(5) unfolding outflow_paid by blast
  moreover have "object_issues op (a_accessLevel a) obj = Inr []" if "obj \<in> set (a_ownedObjects a)" for obj
    using op(1,3,6) that assms(2,7) object_authorized_passes(2) [OF assms(1) assms(4)]
    unfolding some_object_def granted_def by blast
  ultimately show ?thesis
    using op(1-4) not_expired [OF assms(5) [OF op(2)]] unfolding approves_parts [OF assms(3)] by blast
qed

lemma used_below_rejected:
  assumes "accessLevel_rule cmds objects gasCoins = Analyzed (a_accessLevel a)" "set (a_ownedObjects a) \<subseteq> set objects"
    and "distinct (map op_id (pol_operations (m_policy m)))"
    and "\<And>op. op \<in> set (pol_operations (m_policy m)) \<Longrightarrow> distinct (map p_objectType (permissions op))"
    and "some_object m a (used_below cmds objects gasCoins)"
  shows "\<not> approves num now m (Analyzed a)"
proof
  obtain op obj where op: "op \<in> set (pol_operations (m_policy m))" "operationType a = Some (op_id op)"
    "obj \<in> set (a_ownedObjects a)" "used_below cmds objects gasCoins op obj"
    using assms(5) unfolding some_object_def by blast
  assume "approves num now m (Analyzed a)"
  then obtain op' where op': "op' \<in> set (pol_operations (m_policy m))" "operationType a = Some (op_id op')"
    "object_issues op' (a_accessLevel a) obj = Inr []"
    using op(3) unfolding approves_parts [OF assms(3)] granted_def by blast
  have "op' = op" using op(1,2) op'(1,2) assms(3) by (auto simp: distinct_map dest: inj_onD)
  with op' op show False using object_authorized_passes(3) [OF assms(1) assms(4)] assms(2) by blast
qed


text \<open>A policy that lets an operation only read the objects of a type, and a transaction that transfers one of them:
  it is approved though it is not authorized.\<close>

definition reader_manager :: "int manager" where
  "reader_manager =
     \<lparr>m_policy = \<lparr>pol_operations = [\<lparr>op_id = ''op'',
          p_ownedObjects = Some [\<lparr>p_objectType = ''0x2::m::T'', p_accessLevel = ReadAccess\<rparr>], p_balances = None, p_anyBalance = False\<rparr>],
        pol_other = []\<rparr>,
      m_settings = Some \<lparr>approvedOperations = [''op''], expiresAt = 1000, remainingTransactions = None, sharedBudget = None,
        coinBudgets = Map.empty\<rparr>,
      pendingDigests = []\<rparr>"

definition taking_command :: analyzed_command where
  "taking_command = ATransferObjects 0 [ObjectArgument 0 (example_object ''0x1'') TransferAccess] (UnknownArg TransferAccess)"

definition taking_approval :: "int approval" where
  "taking_approval = \<lparr>operationType = Some ''op'', a_outflows = [], a_coinTypes = [],
     a_accessLevel = [''0x1'' \<mapsto> TransferAccess], a_ownedObjects = [example_object ''0x1''], a_digest = ''d''\<rparr>"

definition example_numbers :: "int numbers" where
  "example_numbers = \<lparr>n_zero = 0, n_less = (<), n_add = (+), n_sub = (-), n_convert = (\<lambda>a d p. a * p)\<rparr>"


text \<open>The comparison of access levels is the wrong way round: a permission is taken to be enough for every
  use that needs at least as much, so a permission to read lets an object be transferred.\<close>

theorem permission_inverted:
  "compareAccessLevel permission (Some level) = (permission \<le> level) \<and>
   compareAccessLevel ReadAccess (Some TransferAccess) \<and> \<not> compareAccessLevel TransferAccess (Some ReadAccess)"
  by (cases permission; cases level) (simp_all add: less_eq_access_def)

end
