(* ===== verification/Approval_Runs.thy ===== *)
theory Approval_Runs
  imports Auto_Approval
begin

text \<open>
  What the auto-approval manager does to the budgets and the count of transactions when it commits,
  reverts and settles transactions, and over runs of approved transactions.
\<close>

subsection \<open>Booking a list of flows\<close>

text \<open>The loops of commit, revert and settlement differ only in what they compute: \<open>op\<close> on a coin budget and
  \<open>step\<close> on the shared budget.\<close>

fun book_loop :: "(int \<Rightarrow> int \<Rightarrow> int) \<Rightarrow> ('f coin_value \<Rightarrow> int \<Rightarrow> 'f \<Rightarrow> 'f) \<Rightarrow> 'f coin_value list \<Rightarrow> (string \<times> int) list
    \<Rightarrow> 'f settings \<Rightarrow> unit res \<times> 'f settings" where
  "book_loop op step vs [] s = (Inr (), s)"
| "book_loop op step vs ((ct, amount) # flows) s =
     (case coinBudgets s ct of
        Some b \<Rightarrow>
          (case bigint_of_string b of
             Inl e \<Rightarrow> (Inl e, s)
           | Inr n \<Rightarrow> book_loop op step vs flows (s\<lparr>coinBudgets := (coinBudgets s)(ct \<mapsto> show_int (op n amount))\<rparr>))
      | None \<Rightarrow>
          (case sharedBudget s of
             None \<Rightarrow> (Inl (Error (''No budget available for coin type '' @ ct)), s)
           | Some x \<Rightarrow>
               (case find_value vs ct of
                  None \<Rightarrow> (Inl (Error (''No value available for coin type '' @ ct)), s)
                | Some v \<Rightarrow> book_loop op step vs flows (s\<lparr>sharedBudget := Some (step v amount x)\<rparr>))))"

lemma flow_loop_book: "flow_loop op fop vs flows s = book_loop op (\<lambda>v a x. fop x (cv_convertedAmount v)) vs flows s"
  by (induction op fop vs flows s rule: flow_loop.induct) (simp_all split: option.split sum.split)

lemma change_loop_book:
  "change_loop num vs changes s =
   book_loop (+) (\<lambda>v a x. n_add num x (n_convert num a (cv_decimals v) (cv_price v))) vs changes s"
  by (induction num vs changes s rule: change_loop.induct) (simp_all split: option.split sum.split)

text \<open>The number a coin budget stands for.\<close>

definition budget_value :: "'f settings \<Rightarrow> string \<Rightarrow> int option" where
  "budget_value s ct = (case coinBudgets s ct of None \<Rightarrow> None
     | Some b \<Rightarrow> (case bigint_of_string b of Inl _ \<Rightarrow> None | Inr n \<Rightarrow> Some n))"

definition flow_of :: "string \<Rightarrow> (string \<times> int) list \<Rightarrow> int" where
  "flow_of ct flows = sum_list (map (\<lambda>(t, amount). if t = ct then amount else 0) flows)"

lemma flow_of_simps [simp]:
  "flow_of ct [] = 0"
  "flow_of ct ((t, amount) # flows) = (if t = ct then amount else 0) + flow_of ct flows"
  by (simp_all add: flow_of_def)

text \<open>A flow can be booked: its type has a budget that is a numeral, or the shared budget and a value.\<close>

definition bookable :: "'f coin_value list \<Rightarrow> 'f settings \<Rightarrow> string \<Rightarrow> bool" where
  "bookable vs s ct \<longleftrightarrow>
     (case coinBudgets s ct of Some b \<Rightarrow> is_ok (bigint_of_string b)
      | None \<Rightarrow> sharedBudget s \<noteq> None \<and> find_value vs ct \<noteq> None)"

text \<open>The settings up to the two budgets.\<close>

definition frame :: "'f settings \<Rightarrow> string list \<times> int \<times> int option" where
  "frame s = (approvedOperations s, expiresAt s, remainingTransactions s)"

lemma show_int_nonempty: "show_int k \<noteq> []"
  by (simp add: show_int_def show_base_nonempty)

lemma settings_updates:
  "coinBudgets s t = Some b \<Longrightarrow> is_ok (bigint_of_string b) \<Longrightarrow>
   bookable vs (s\<lparr>coinBudgets := (coinBudgets s)(t \<mapsto> show_int k)\<rparr>) ct = bookable vs s ct"
  "sharedBudget s \<noteq> None \<Longrightarrow> bookable vs (s\<lparr>sharedBudget := Some y\<rparr>) ct = bookable vs s ct"
  "budget_value (s\<lparr>coinBudgets := (coinBudgets s)(t \<mapsto> show_int k)\<rparr>) ct = (if ct = t then Some k else budget_value s ct)"
  "budget_value (s\<lparr>sharedBudget := z\<rparr>) ct = budget_value s ct"
  "budget_value (s\<lparr>remainingTransactions := r\<rparr>) ct = budget_value s ct"
  "bookable vs (s\<lparr>remainingTransactions := r\<rparr>) ct = bookable vs s ct"
  "frame (s\<lparr>coinBudgets := c\<rparr>) = frame s" "frame (s\<lparr>sharedBudget := z\<rparr>) = frame s"
  by (auto simp: bookable_def budget_value_def frame_def split: option.splits)

text \<open>One flow of the loop: it is not bookable and the loop throws, or the loop goes on with the
  settings \<open>s1\<close>.\<close>

lemma book_loop_step:
  fixes s :: "'f settings"
  obtains e where "\<not> bookable vs s t" "\<And>rest. book_loop op step vs ((t, amount) # rest) s = (Inl e, s)"
  | s1 where "bookable vs s t" "\<And>rest. book_loop op step vs ((t, amount) # rest) s = book_loop op step vs rest s1"
      "\<And>ct. bookable vs s1 ct = bookable vs s ct" "frame s1 = frame s"
      "\<And>ct. budget_value s1 ct = map_option (\<lambda>n. if ct = t then op n amount else n) (budget_value s ct)"
      "\<And>ct. coinBudgets s ct \<noteq> Some [] \<Longrightarrow> coinBudgets s1 ct \<noteq> Some []"
proof (cases "coinBudgets s t")
  case (Some b)
  show ?thesis
  proof (cases "bigint_of_string b")
    case (Inl e)
    with Some that(1) [of e] show ?thesis by (simp add: bookable_def)
  next
    case (Inr n)
    then have "budget_value s t = Some n" using Some by (simp add: budget_value_def)
    then show ?thesis
      using that(2) [of "s\<lparr>coinBudgets := (coinBudgets s)(t \<mapsto> show_int (op n amount))\<rparr>"] Some Inr
      by (simp add: settings_updates bookable_def [of vs s t] option.map_ident show_int_nonempty)
  qed
next
  case None
  then have t: "budget_value s t = None" by (simp add: budget_value_def)
  show ?thesis
  proof (cases "sharedBudget s"; cases "find_value vs t")
    fix x v assume x: "sharedBudget s = Some x" "find_value vs t = Some v"
    have "map_option (\<lambda>n. if ct = t then op n amount else n) (budget_value s ct) = budget_value s ct" for ct
      using t by (cases "ct = t") (simp_all add: option.map_ident)
    then show ?thesis
      using that(2) [of "s\<lparr>sharedBudget := Some (step v amount x)\<rparr>"] None x
      by (simp add: settings_updates bookable_def [of vs s t])
  qed (use that(1) None in \<open>simp_all add: bookable_def\<close>)
qed

text \<open>The loop succeeds exactly when every flow can be booked; then every coin budget has been changed by the
  flows of its type and nothing else of the settings but the shared budget has changed.\<close>

lemma book_loop_succeeds: "(\<exists>s'. book_loop op step vs flows s = (Inr (), s')) \<longleftrightarrow> (\<forall>flow \<in> set flows. bookable vs s (fst flow))"
proof (induction flows arbitrary: s)
  case (Cons f flows)
  obtain t amount where f: "f = (t, amount)" by (cases f)
  from book_loop_step [of vs s t op step amount] show ?case
    by cases (simp_all add: f Cons.IH)
qed simp

lemma book_loop_values:
  assumes "\<And>n a. op n a = n + \<sigma> * a"
  shows "book_loop op step vs flows s = (Inr (), s') \<Longrightarrow>
     budget_value s' ct = map_option (\<lambda>n. n + \<sigma> * flow_of ct flows) (budget_value s ct) \<and>
     bookable vs s' ct = bookable vs s ct \<and> frame s' = frame s \<and>
     (coinBudgets s ct \<noteq> Some [] \<longrightarrow> coinBudgets s' ct \<noteq> Some [])"
proof (induction flows arbitrary: s)
  case Nil
  then show ?case by (simp add: option.map_ident)
next
  case (Cons f flows)
  obtain t amount where f: "f = (t, amount)" by (cases f)
  from book_loop_step [of vs s t op step amount] show ?case
  proof cases
    case (2 s1)
    have "book_loop op step vs flows s1 = (Inr (), s')" using Cons.prems f 2(2) by (simp del: book_loop.simps)
    from Cons.IH [OF this] 2(3-6) show ?thesis
      by (simp add: f assms option.map_comp o_def algebra_simps if_distrib cong: if_cong)
  qed (use Cons.prems f in simp)
qed

lemma book_loop_frame: "frame (snd (book_loop op step vs flows s)) = frame s"
proof (induction flows arbitrary: s)
  case (Cons f flows)
  obtain t amount where f: "f = (t, amount)" by (cases f)
  from book_loop_step [of vs s t op step amount] show ?case
    by cases (simp_all add: f Cons.IH)
qed simp


subsection \<open>Commit, revert, settle\<close>

lemma commit_ok:
  assumes "commitTransaction num (Analyzed a) m = (Inr (), m')"
  obtains s s' where "m_settings m = Some s"
    "m' = m\<lparr>m_settings := Some s', pendingDigests := pendingDigests m @ [a_digest a]\<rparr>"
    "book_loop (-) (\<lambda>v a x. n_sub num x (cv_convertedAmount v)) (a_coinTypes a) (a_outflows a)
       (s\<lparr>remainingTransactions := map_option (\<lambda>n. max 0 (n - 1)) (remainingTransactions s)\<rparr>) = (Inr (), s')"
  using assms by (auto simp: commitTransaction_def flow_loop_book Let_def split: option.splits prod.splits sum.splits)

text \<open>What a successful commit leaves.\<close>

lemma commit_effect:
  assumes "commitTransaction num (Analyzed a) m = (Inr (), m')"
  obtains s s' where "m_settings m = Some s"
    "m' = m\<lparr>m_settings := Some s', pendingDigests := pendingDigests m @ [a_digest a]\<rparr>"
    "frame s' = (approvedOperations s, expiresAt s, map_option (\<lambda>n. max 0 (n - 1)) (remainingTransactions s))"
    "\<And>ct. budget_value s' ct = map_option (\<lambda>n. n - flow_of ct (a_outflows a)) (budget_value s ct)"
    "\<forall>flow \<in> set (a_outflows a). bookable (a_coinTypes a) s' (fst flow)"
    "\<And>ct. coinBudgets s ct \<noteq> Some [] \<Longrightarrow> coinBudgets s' ct \<noteq> Some []"
proof -
  obtain s s' where s: "m_settings m = Some s"
    "m' = m\<lparr>m_settings := Some s', pendingDigests := pendingDigests m @ [a_digest a]\<rparr>"
    and loop: "book_loop (-) (\<lambda>v a x. n_sub num x (cv_convertedAmount v)) (a_coinTypes a) (a_outflows a)
       (s\<lparr>remainingTransactions := map_option (\<lambda>n. max 0 (n - 1)) (remainingTransactions s)\<rparr>) = (Inr (), s')"
    using commit_ok [OF assms] .
  have minus: "n - a = n + (- 1) * a" for n a :: int by simp
  note vals = book_loop_values [OF minus loop]
  have "\<forall>flow \<in> set (a_outflows a). bookable (a_coinTypes a) s' (fst flow)"
    using loop book_loop_succeeds vals by (metis (no_types, lifting))
  moreover have "frame s' = (approvedOperations s, expiresAt s, map_option (\<lambda>n. max 0 (n - 1)) (remainingTransactions s))"
    using vals by (simp add: frame_def)
  ultimately show ?thesis
    using that [OF s] vals by (simp add: settings_updates)
qed

lemma revert_flows:
  assumes "m_settings m = Some s" "\<forall>flow \<in> set (a_outflows a). bookable (a_coinTypes a) s (fst flow)"
  obtains s' where "revertCoinFlows num (Analyzed a) m = (Inr (), m\<lparr>m_settings := Some s'\<rparr>)" "frame s' = frame s"
    "\<And>ct. budget_value s' ct = map_option (\<lambda>n. n + flow_of ct (a_outflows a)) (budget_value s ct)"
proof -
  obtain s' where loop: "book_loop (+) (\<lambda>v a x. n_add num x (cv_convertedAmount v)) (a_coinTypes a) (a_outflows a) s = (Inr (), s')"
    using assms(2) book_loop_succeeds by blast
  have plus: "n + a = n + 1 * a" for n a :: int by simp
  note vals = book_loop_values [OF plus loop]
  show ?thesis
    using that [of s'] vals loop by (simp add: revertCoinFlows_def assms(1) flow_loop_book)
qed


lemma pending_added:
  "d \<notin> set ps \<Longrightarrow> remove1 d (ps @ [d]) = ps"
  by (simp add: remove1_append)

subsection \<open>An example\<close>

definition example_approval :: "(string \<times> int) list \<Rightarrow> int approval" where
  "example_approval flows = \<lparr>operationType = Some ''swap'', a_outflows = flows,
     a_coinTypes = coinTypes (coinValues_rule example_numbers [] flows),
     a_accessLevel = Map.empty, a_ownedObjects = [], a_digest = ''d''\<rparr>"

definition example_settings :: "int settings" where
  "example_settings = \<lparr>approvedOperations = [''swap''], expiresAt = 100, remainingTransactions = Some 2,
     sharedBudget = None, coinBudgets = [''A'' \<mapsto> show_int 10]\<rparr>"

definition example_manager :: "int manager" where
  "example_manager = \<lparr>m_policy = \<lparr>pol_operations = [\<lparr>op_id = ''swap'', p_ownedObjects = None, p_balances = None, p_anyBalance = True\<rparr>],
     pol_other = []\<rparr>, m_settings = Some example_settings, pendingDigests = []\<rparr>"

lemma example_budget: "budget_value example_settings ''A'' = Some 10" "coinBudgets example_settings ''A'' \<noteq> Some []"
  by (simp_all add: budget_value_def example_settings_def show_int_nonempty del: show_int_of_nat)

lemma example_approves:
  assumes "\<And>ct n. (ct, n) \<in> set flows \<Longrightarrow> n \<le> 0 \<or> ct = ''A'' \<and> n \<le> 10"
  shows "approves example_numbers 0 example_manager (Analyzed (example_approval flows))"
proof -
  have "outflow_passes example_numbers example_settings vs flow" if "flow \<in> set flows" for vs :: "int coin_value list" and flow
    using assms [of "fst flow" "snd flow"] that
    by (auto simp: outflow_passes_def example_settings_def)
  then show ?thesis
    by (simp add: approves_Analyzed policy_issues_none settings_issues_none)
      (simp add: policy_passes_def settings_pass_def example_manager_def example_approval_def example_settings_def expired_def truthy_str_def)
qed

definition committed_example :: "int manager" where
  "committed_example = snd (commitTransaction example_numbers (Analyzed (example_approval [(''A'', 5)])) example_manager)"

lemma example_commit:
  "commitTransaction example_numbers (Analyzed (example_approval [(''A'', 5)])) example_manager = (Inr (), committed_example)"
  by (simp add: committed_example_def commitTransaction_def example_manager_def example_settings_def example_approval_def Let_def)

subsection \<open>Commit and revert, commit and settle\<close>

text \<open>Reverting a transaction that was committed last succeeds, restores every coin budget and the pending
  digests, and gives the transaction back to the count, which becomes 1 when it was already 0.\<close>

theorem commit_revert:
  assumes "commitTransaction num (Analyzed a) m = (Inr (), m')" "a_digest a \<noteq> []" "a_digest a \<notin> set (pendingDigests m)"
  shows "\<exists>m'' s s''. revertTransaction num (Analyzed a) m' = (Inr (), m'') \<and>
    pendingDigests m'' = pendingDigests m \<and> m_policy m'' = m_policy m \<and>
    m_settings m = Some s \<and> m_settings m'' = Some s'' \<and>
    budget_value s'' = budget_value s \<and>
    remainingTransactions s'' = map_option (\<lambda>n. max 1 n) (remainingTransactions s)"
proof -
  obtain s s' where s: "m_settings m = Some s"
    and m': "m' = m\<lparr>m_settings := Some s', pendingDigests := pendingDigests m @ [a_digest a]\<rparr>"
    and fr: "frame s' = (approvedOperations s, expiresAt s, map_option (\<lambda>n. max 0 (n - 1)) (remainingTransactions s))"
    and val: "\<And>ct. budget_value s' ct = map_option (\<lambda>n. n - flow_of ct (a_outflows a)) (budget_value s ct)"
    and bk: "\<forall>flow \<in> set (a_outflows a). bookable (a_coinTypes a) s' (fst flow)"
    by (rule commit_effect [OF assms(1)]) (rule that)
  let ?s = "s'\<lparr>remainingTransactions := map_option (\<lambda>n. n + 1) (remainingTransactions s')\<rparr>"
  let ?m = "m\<lparr>m_settings := Some ?s\<rparr>"
  obtain s'' where rev: "revertCoinFlows num (Analyzed a) ?m = (Inr (), ?m\<lparr>m_settings := Some s''\<rparr>)" "frame s'' = frame ?s"
    "\<And>ct. budget_value s'' ct = map_option (\<lambda>n. n + flow_of ct (a_outflows a)) (budget_value ?s ct)"
    by (rule revert_flows [of ?m ?s a num]) (use bk in \<open>simp_all add: settings_updates\<close>)
  have "revertTransaction num (Analyzed a) m' = (Inr (), m\<lparr>m_settings := Some s''\<rparr>)"
    using rev(1) assms(2,3) by (simp add: revertTransaction_def andThen_def removePendingDigest_def m' pending_added)
  moreover have "budget_value s'' = budget_value s"
    by (rule ext) (simp add: rev(3) val settings_updates option.map_comp o_def option.map_ident)
  moreover have "remainingTransactions s'' = map_option (\<lambda>n. max 1 n) (remainingTransactions s)"
    using rev(2) fr by (auto simp: frame_def option.map_comp o_def max_def intro!: option.map_cong)
  ultimately show ?thesis using s by (intro exI [of _ "m\<lparr>m_settings := Some s''\<rparr>"] exI [of _ s] exI [of _ s'']) simp
qed

lemma commit_revert_witness:
  "\<exists>m'' s s''. revertTransaction example_numbers (Analyzed (example_approval [(''A'', 5)])) committed_example = (Inr (), m'') \<and>
    pendingDigests m'' = pendingDigests example_manager \<and> m_policy m'' = m_policy example_manager \<and>
    m_settings example_manager = Some s \<and> m_settings m'' = Some s'' \<and>
    budget_value s'' = budget_value s \<and>
    remainingTransactions s'' = map_option (\<lambda>n. max 1 n) (remainingTransactions s)"
  by (rule commit_revert [OF example_commit]) (simp_all add: example_approval_def example_manager_def)

text \<open>Settling a committed transaction takes its digest off the pending ones and leaves every coin budget
  changed by the balance changes of the execution, whatever flows were predicted.\<close>

theorem commit_settle:
  assumes "commitTransaction num (Analyzed a) m = (Inr (), m')" "a_digest a \<notin> set (pendingDigests m)"
    and "applyTransactionEffects num (Analyzed a) (a_digest a) changes m' = (Inr (), m'')"
  shows "\<exists>s s''. m_settings m = Some s \<and> m_settings m'' = Some s'' \<and> pendingDigests m'' = pendingDigests m \<and>
    remainingTransactions s'' = map_option (\<lambda>n. max 0 (n - 1)) (remainingTransactions s) \<and>
    (\<forall>ct. budget_value s'' ct = map_option (\<lambda>n. n + flow_of ct changes) (budget_value s ct))"
proof -
  obtain s s' where s: "m_settings m = Some s"
    and m': "m' = m\<lparr>m_settings := Some s', pendingDigests := pendingDigests m @ [a_digest a]\<rparr>"
    and fr: "frame s' = (approvedOperations s, expiresAt s, map_option (\<lambda>n. max 0 (n - 1)) (remainingTransactions s))"
    and val: "\<And>ct. budget_value s' ct = map_option (\<lambda>n. n - flow_of ct (a_outflows a)) (budget_value s ct)"
    and bk: "\<forall>flow \<in> set (a_outflows a). bookable (a_coinTypes a) s' (fst flow)"
    by (rule commit_effect [OF assms(1)]) (rule that)
  let ?m = "m\<lparr>m_settings := Some s'\<rparr>"
  obtain s1 where rev: "revertCoinFlows num (Analyzed a) ?m = (Inr (), ?m\<lparr>m_settings := Some s1\<rparr>)" "frame s1 = frame s'"
    "\<And>ct. budget_value s1 ct = map_option (\<lambda>n. n + flow_of ct (a_outflows a)) (budget_value s' ct)"
    by (rule revert_flows [of ?m s' a num]) (use bk in simp_all)
  obtain s2 where m'': "m'' = m\<lparr>m_settings := Some s2\<rparr>"
    and loop: "book_loop (+) (\<lambda>v a x. n_add num x (n_convert num a (cv_decimals v) (cv_price v))) (a_coinTypes a) changes s1 = (Inr (), s2)"
    using assms(2,3) rev(1)
    by (auto simp: applyTransactionEffects_def andThen_def removePendingDigest_def m' pending_added change_loop_book split: prod.splits)
  have plus: "n + a = n + 1 * a" for n a :: int by simp
  note vals = book_loop_values [OF plus loop]
  have "budget_value s2 ct = map_option (\<lambda>n. n + flow_of ct changes) (budget_value s ct)" for ct
    using vals [of ct] by (simp add: rev(3) val option.map_comp o_def)
  then show ?thesis using s m'' vals rev(2) fr by (simp add: frame_def)
qed


lemma commit_settle_witness:
  "\<exists>s s''. m_settings example_manager = Some s \<and> m_settings (snd (applyTransactionEffects example_numbers
      (Analyzed (example_approval [(''A'', 5)])) ''d'' [(''A'', - 4)] committed_example)) = Some s'' \<and>
    pendingDigests (snd (applyTransactionEffects example_numbers
      (Analyzed (example_approval [(''A'', 5)])) ''d'' [(''A'', - 4)] committed_example)) = pendingDigests example_manager \<and>
    remainingTransactions s'' = map_option (\<lambda>n. max 0 (n - 1)) (remainingTransactions s) \<and>
    (\<forall>ct. budget_value s'' ct = map_option (\<lambda>n. n + flow_of ct [(''A'', - 4)]) (budget_value s ct))"
  by (rule commit_settle [OF example_commit])
    (simp_all add: example_approval_def example_manager_def example_settings_def committed_example_def commitTransaction_def
      applyTransactionEffects_def removePendingDigest_def andThen_def revertCoinFlows_def Let_def)

lemma method_throws: "(\<nexists>s. r = (Inr (), s)) \<Longrightarrow> \<exists>e s. r = (Inl e, s)" for r :: "unit res \<times> 's"
  by (cases r; cases "fst r") auto

lemma value_step_types:
  "v \<in> set (coinTypes (value_step num prices vs flow)) \<Longrightarrow> v \<in> set (coinTypes vs) \<or> 0 < snd flow \<and> cv_coinType v = fst flow"
  by (auto simp: value_step_def Let_def split: if_splits option.splits)

lemma valued_positive:
  "v \<in> set (coinTypes (foldl (value_step num prices) vs flows)) \<Longrightarrow>
   v \<in> set (coinTypes vs) \<or> (\<exists>n > 0. (cv_coinType v, n) \<in> set flows)"
proof (induction flows arbitrary: vs)
  case (Cons f flows)
  then have "v \<in> set (coinTypes (value_step num prices vs f)) \<or> (\<exists>n > 0. (cv_coinType v, n) \<in> set flows)" by simp
  then show ?case using value_step_types [of v num prices vs f] by (cases f) auto
qed simp

text \<open>An approved transaction with an outflow that is not positive, of a type without a budget, cannot be
  committed when no value was computed for the type, as it never is for such an outflow: the commit throws
  after it has counted the transaction, and the digest does not become pending.\<close>

theorem approved_commit_throws:
  assumes "approves num now m (Analyzed a)" "m_settings m = Some s"
    and "(ct, amount) \<in> set (a_outflows a)" "amount \<le> 0" "coinBudgets s ct = None"
    and "a_coinTypes a = coinTypes (coinValues_rule num prices (a_outflows a))" "distinct (map fst (a_outflows a))"
  shows "\<exists>e s'. commitTransaction num (Analyzed a) m = (Inl e, m\<lparr>m_settings := Some s'\<rparr>) \<and>
    remainingTransactions s' = map_option (\<lambda>n. n - 1) (remainingTransactions s)"
proof -
  let ?r = "map_option (\<lambda>n. max 0 (n - 1)) (remainingTransactions s)"
  let ?loop = "book_loop (-) (\<lambda>v a x. n_sub num x (cv_convertedAmount v)) (a_coinTypes a) (a_outflows a) (s\<lparr>remainingTransactions := ?r\<rparr>)"
  have no: "(ct, n) \<notin> set (a_outflows a)" if "n > 0" for n
    using eq_key_imp_eq_value [OF assms(7,3), of n] that assms(4) by auto
  have "cv_coinType v \<noteq> ct" if "v \<in> set (a_coinTypes a)" for v
    using valued_positive [OF that [unfolded assms(6) coinValues_rule_def]] no by auto
  then have "find_value (a_coinTypes a) ct = None" by (simp add: find_value_def find_None_iff)
  then have "\<not> bookable (a_coinTypes a) (s\<lparr>remainingTransactions := ?r\<rparr>) ct"
    using assms(5) by (simp add: bookable_def)
  then have "\<nexists>s'. ?loop = (Inr (), s')"
    using assms(3) unfolding book_loop_succeeds by force
  then obtain e s' where loop: "?loop = (Inl e, s')" using method_throws by blast
  then have "frame s' = frame (s\<lparr>remainingTransactions := ?r\<rparr>)"
    using book_loop_frame [of "(-)" _ "a_coinTypes a" "a_outflows a" "s\<lparr>remainingTransactions := ?r\<rparr>"] by (metis snd_conv)
  moreover have "case remainingTransactions s of None \<Rightarrow> True | Some n \<Rightarrow> 0 < n"
    using assms(1,2) by (auto simp: approves_Analyzed settings_issues_none settings_pass_def)
  ultimately show ?thesis
    using loop by (cases "remainingTransactions s") (auto simp: commitTransaction_def assms(2) flow_loop_book Let_def frame_def)
qed

lemma approved_commit_throws_witness:
  "\<exists>e s'. commitTransaction example_numbers (Analyzed (example_approval [(''B'', 0)])) example_manager
      = (Inl e, example_manager\<lparr>m_settings := Some s'\<rparr>) \<and>
    remainingTransactions s' = map_option (\<lambda>n. n - 1) (remainingTransactions example_settings)"
  by (rule approved_commit_throws [where num = example_numbers and now = 0 and ct = "''B''" and amount = 0 and prices = "[]"])
    (rule example_approves, simp_all add: example_manager_def example_settings_def example_approval_def)

text \<open>A run of transactions that were all approved and committed.\<close>

inductive approved_run :: "'f numbers \<Rightarrow> 'f manager \<Rightarrow> 'f approval list \<Rightarrow> 'f manager \<Rightarrow> bool" for num m where
  start: "approved_run num m [] m"
| commit: "approved_run num m as m' \<Longrightarrow> approves num now m' (Analyzed a) \<Longrightarrow>
    commitTransaction num (Analyzed a) m' = (Inr (), m'') \<Longrightarrow> approved_run num m (as @ [a]) m''"

lemma example_run: "approved_run example_numbers example_manager [example_approval [(''A'', 5)]] committed_example"
  using approved_run.commit [OF approved_run.start example_approves example_commit] by simp

text \<open>However many approved transactions are committed, a limit on their number is never exceeded.\<close>

theorem approved_run_count:
  assumes "approved_run num m as m'" "m_settings m = Some s" "remainingTransactions s = Some k" "0 \<le> k"
  shows "int (length as) \<le> k \<and> (\<exists>s'. m_settings m' = Some s' \<and> remainingTransactions s' = Some (k - int (length as)))"
  using assms(1)
proof induction
  case start
  then show ?case using assms(2-) by simp
next
  case (commit as m' now a m'')
  then obtain s' where s': "m_settings m' = Some s'" "remainingTransactions s' = Some (k - int (length as))" by blast
  moreover have "0 < k - int (length as)"
    using commit.hyps(2) s' by (auto simp: approves_Analyzed settings_issues_none settings_pass_def)
  moreover obtain t where "m_settings m'' = Some t"
    "remainingTransactions t = map_option (\<lambda>n. max 0 (n - 1)) (remainingTransactions s')"
    by (rule commit_effect [OF commit.hyps(3)]) (use s'(1) in \<open>auto simp: frame_def\<close>)
  ultimately show ?case by auto
qed

lemma approved_run_count_witness:
  "int (length [example_approval [(''A'', 5)]]) \<le> 2 \<and>
   (\<exists>s'. m_settings committed_example = Some s' \<and>
     remainingTransactions s' = Some (2 - int (length [example_approval [(''A'', 5)]])))"
  by (rule approved_run_count [OF example_run, where s = example_settings]) (simp_all add: example_manager_def example_settings_def)

lemma flow_of_absent: "ct \<notin> fst ` set flows \<Longrightarrow> flow_of ct flows = 0"
  by (induction flows) auto

text \<open>What an approved transaction takes of a coin with a budget.\<close>

lemma covered_flow:
  assumes "coinBudgets s ct \<noteq> Some []" "budget_value s ct = Some k" "0 \<le> k"
  shows "(\<And>flow. flow \<in> set flows \<Longrightarrow> outflow_passes num s vs flow) \<Longrightarrow> distinct (map fst flows) \<Longrightarrow> flow_of ct flows \<le> k"
proof (induction flows)
  case (Cons f flows)
  obtain t amount where f: "f = (t, amount)" by (cases f)
  show ?case
  proof (cases "t = ct")
    case True
    have "flow_of ct flows = 0" using Cons.prems(2) f True by (intro flow_of_absent) simp
    moreover have "amount \<le> k"
      using Cons.prems(1) [of f] assms f True by (auto simp: outflow_passes_def budget_value_def split: option.splits sum.splits)
    ultimately show ?thesis by (simp add: f True)
  qed (use Cons f in simp)
qed (use assms(3) in simp)

text \<open>C13: Over a run of approved transactions a coin budget goes down by exactly what the transactions were
  predicted to spend of the coin, and is never overspent.\<close>

theorem approved_run_budget:
  assumes "approved_run num m as m'" "m_settings m = Some s"
    and "budget_value s ct = Some n" "coinBudgets s ct \<noteq> Some []" "0 \<le> n"
    and "\<And>a. a \<in> set as \<Longrightarrow> distinct (map fst (a_outflows a))"
  shows "\<exists>s'. m_settings m' = Some s' \<and>
    budget_value s' ct = Some (n - sum_list (map (\<lambda>a. flow_of ct (a_outflows a)) as)) \<and>
    sum_list (map (\<lambda>a. flow_of ct (a_outflows a)) as) \<le> n"
proof -
  have "\<exists>s'. m_settings m' = Some s' \<and> coinBudgets s' ct \<noteq> Some [] \<and>
      budget_value s' ct = Some (n - sum_list (map (\<lambda>a. flow_of ct (a_outflows a)) as)) \<and>
      sum_list (map (\<lambda>a. flow_of ct (a_outflows a)) as) \<le> n"
    using assms(1,6)
  proof induction
    case start
    then show ?case using assms(2-5) by simp
  next
    case (commit as m' now a m'')
    let ?k = "n - sum_list (map (\<lambda>a. flow_of ct (a_outflows a)) as)"
    obtain s' where s': "m_settings m' = Some s'" "coinBudgets s' ct \<noteq> Some []" "budget_value s' ct = Some ?k" "0 \<le> ?k"
      using commit.IH commit.prems by auto
    have "outflow_passes num s' (a_coinTypes a) flow" if "flow \<in> set (a_outflows a)" for flow
      using commit.hyps(2) s'(1) that by (auto simp: approves_Analyzed settings_issues_none settings_pass_def)
    then have "flow_of ct (a_outflows a) \<le> ?k"
      using commit.prems [of a] by (intro covered_flow [OF s'(2-4)]) simp_all
    moreover obtain t where "m_settings m'' = Some t" "coinBudgets t ct \<noteq> Some []"
      "budget_value t ct = map_option (\<lambda>n. n - flow_of ct (a_outflows a)) (budget_value s' ct)"
      by (rule commit_effect [OF commit.hyps(3)]) (use s'(1,2) in auto)
    ultimately show ?case using s'(3) by (auto simp: algebra_simps)
  qed
  then show ?thesis by blast
qed

lemma approved_run_budget_witness:
  "\<exists>s'. m_settings committed_example = Some s' \<and>
    budget_value s' ''A'' = Some (10 - sum_list (map (\<lambda>a. flow_of ''A'' (a_outflows a)) [example_approval [(''A'', 5)]])) \<and>
    sum_list (map (\<lambda>a. flow_of ''A'' (a_outflows a)) [example_approval [(''A'', 5)]]) \<le> 10"
  by (rule approved_run_budget [OF example_run, where s = example_settings])
    (simp_all add: example_budget, simp_all add: example_manager_def example_approval_def)

end
