(* ===== verification/Spec2Isabelle.thy ===== *)
theory Spec2Isabelle
  imports Bcs_Format Shamir Type_Tag Transaction_Restore Zk_Login_Props Multisig_Props Keypair_Props Executor
    Coin_Pool Approval_Runs
begin

text \<open>
  A model of the parts of the MySo TypeScript SDKs that hold logic of their own: the BCS codec
  (\<open>packages/bcs\<close>), the encodings of \<open>packages/utils\<close>, Shamir secret sharing (\<open>packages/mydata\<close>),
  addresses, type tags, the transaction data builder, the parallel executor, the object cache, zkLogin, keypairs,
  multisigs and the verification of signatures (\<open>packages/myso\<close>), and the
  transaction analyzers with the auto-approval manager (\<open>packages/wallet-sdk\<close>).

  How the parts interact. A transaction is built by the transaction data builder: commands and
  inputs are appended, inserted, replaced and resolved, with the object cache as a plugin of the
  resolution; the result is written by the BCS codec with the schemas of \<open>bcs.ts\<close>, whose addresses
  and type tags go through the functions on texts. Before a wallet signs it, the analyzers read the
  transaction and the objects it uses, the coin flows book what leaves the sender, and the
  auto-approval manager compares both with a policy and budgets. A signer then signs the bytes under their intent, with a keypair,
  a passkey, a zkLogin proof or the keys of a multisig, and the verifier parses the signature and asks the public key;
  the parallel executor orders transactions on shared objects and hands the gas coins on.

  Representation. Texts are \<open>string\<close>s of characters below 256; bytes are \<open>8 word\<close>s; bigints and the numbers that
  are used as counts and indices are \<open>int\<close> or \<open>nat\<close>, and the places where the code reduces a number to
  its width write the reduction out. A function that can throw returns \<open>'a res\<close>, \<open>Inl\<close> of the error or
  \<open>Inr\<close> of the value; a method that may throw after it has changed its object returns the
  state too. A JavaScript value whose shape the code inspects is the datatype \<open>jsval\<close>. A class with
  state is a record that its methods return updated. Maps are \<open>\<rightharpoonup>\<close>, and association lists where the
  order is observable. Loops are recursive functions on the list they run over, or on a measure
  with its termination proof. The schemas that refer to themselves lazily (type tags, Move signatures) recurse
  on the JavaScript stack: they take its depth as an argument, and \<open>Transaction_Bcs\<close> shows that the height of a
  type is enough.

  The theories, in the order they build on each other:

  \<^item> \<open>Prelude\<close>: the results that may be errors (\<open>rbind\<close>, \<open>rmap\<close>, \<open>rmapM\<close>, \<open>rfold\<close>), their rules in \<open>res_simps\<close>,
    and lemmas on lists the other theories share.
  \<^item> \<open>Uleb\<close>, \<open>Bcs_Writer\<close>, \<open>Bcs_Reader\<close>: \<open>uleb.ts\<close>, \<open>writer.ts\<close>, \<open>reader.ts\<close>. The writer is its buffer, position and
    sizes; its invariant \<open>winv\<close> says that the position lies in the buffer.
  \<^item> \<open>Js_Text\<close>, \<open>Encodings\<close>: the string functions the code uses; hexadecimal, base64 and \<open>chunk\<close>.
  \<^item> \<open>Bcs_Type\<close>, \<open>Bcs_Containers\<close>: \<open>bcs-type.ts\<close> and \<open>bcs.ts\<close>. A \<open>BcsType\<close> is the record of its functions; every
    constructor of \<open>bcs\<close> builds one.
  \<^item> \<open>Bcs_Codec\<close>, \<open>Bcs_Schema\<close>, \<open>Bcs_Map\<close>, \<open>Bcs_Format\<close>: the format the types promise. \<open>codec t v x bs\<close> says that
    the type writes the value \<open>v\<close> as \<open>bs\<close> and reads \<open>bs\<close> back as \<open>x\<close>; \<open>encodes\<close> is the BCS format as a
    relation on schemas, independent of readers and writers, and \<open>Bcs_Format\<close> shows that the code implements
    it: round trips, exact appending, announced sizes, canonical maps.
  \<^item> \<open>Gf256\<close>, \<open>Field_Poly\<close>, \<open>Shamir\<close>: \<open>shamir.ts\<close>. The tables are shown to be logarithm and exponential
    of a field, polynomials are developed over any field in a locale that is interpreted on
    GF(256), and the properties of \<open>split\<close>, \<open>combine\<close> and \<open>interpolate\<close> follow: any threshold shares
    give the secret, fewer say nothing about it.
  \<^item> \<open>Myso_Types\<close>, \<open>Type_Tag\<close>: \<open>utils/myso-types.ts\<close>, \<open>mysons.ts\<close>, \<open>move-registry.ts\<close>, \<open>format.ts\<close> and
    \<open>bcs/type-tag-serializer.ts\<close>; regular expressions are written out as functions.
  \<^item> \<open>Myso_Bcs\<close>, \<open>Transaction_Schemas\<close>: the schemas of \<open>bcs/bcs.ts\<close>.
  \<^item> \<open>Transaction_Data\<close>, \<open>Transaction_Props\<close>: \<open>TransactionData.ts\<close>, \<open>transactions/utils.ts\<close>, \<open>Inputs.ts\<close>, \<open>resolve.ts\<close>
    with the types of \<open>data/internal.ts\<close>. \<open>wf_tx\<close> is the invariant: every argument refers to an input or to a
    command before its own.
  \<^item> \<open>Bcs_Carries\<close>: \<open>carries t v x\<close> says that the type writes \<open>v\<close> and reads it back as \<open>x\<close>, with a rule per constructor.
  \<^item> \<open>Transaction_Bcs\<close>, \<open>Transaction_Restore\<close>: \<open>build\<close> of \<open>TransactionData.ts\<close> down to the bytes, the valibot schemas of
    \<open>data/internal.ts\<close>, and \<open>restore\<close>, \<open>fromBytes\<close> and \<open>fromKindBytes\<close>. The main theorems say when \<open>build\<close> succeeds
    and that a built transaction restores to its canonical form; restoring checks addresses and widths, not indices.
  \<^item> \<open>Zk_Utils\<close>, \<open>Zk_Login\<close>: \<open>zklogin/*.ts\<close>: packing of claims into field elements, Poseidon's choice of the hash, the
    nonce, the length checks, the decoder of claims, the zkLogin identifier with its addresses, and the signatures.
    \<open>Zk_Props\<close> and \<open>Zk_Login_Props\<close> hold their lemmas: packing is injective, the two ways to an address agree,
    a signature parses back to what it was made of.
  \<^item> \<open>Signatures\<close>, \<open>Multisig\<close>, \<open>Keypairs\<close>: \<open>cryptography/*.ts\<close>, \<open>keypairs\<close>, \<open>multisig\<close> and \<open>verify/verify.ts\<close>. A \<open>key\<close> is a
    public key of one of five schemes with its methods as functions; a multisig key holds such keys. \<open>Multisig_Bcs\<close> shows
    which structures of a multisig are written and read, \<open>Signature_Props\<close> states what the classes of keys share as
    locales and interprets them on the four classes of fixed size, \<open>Multisig_Props\<close> shows when a multisig key can be made, which
    members' registered keys accept the signatures of an accepted multisig and how signatures combine, \<open>Keypair_Props\<close> that what a signer signs is verified under its address.
  \<^item> \<open>Object_Cache\<close>: \<open>ObjectCache.ts\<close>. \<open>AsyncCache\<close> is a record of the four abstract methods, the locale of
    the cache states the laws a store owes, and \<open>InMemoryCache\<close> interprets it. The plugin is specified for any rest of
    the resolution: which inputs it completes, which Move calls get argument types, what the cache learns.
  \<^item> \<open>Executor\<close>, \<open>Coin_Pool\<close>: \<open>executor/queue.ts\<close> and \<open>executor/parallel.ts\<close>. A step is the code between two awaits;
    \<open>exec_run\<close> and \<open>gas_run\<close> are the reachable states. The object locks are shown to implement the order of
    the calls on conflicting transactions without getting stuck, and the pool never to hand out a coin twice.
  \<^item> \<open>Analysis\<close>, \<open>Coin_Flows\<close>, \<open>Auto_Approval\<close>, \<open>Approval_Runs\<close>: \<open>transaction-analyzer/rules\<close> and
    \<open>auto-approvals/manager.ts\<close>. The ledger of tracked coins is kept in the order of the map; an account
    of what the commands let leave, and of what transfers to the sender book wrongly (\<open>audit\<close>), is compared with the
    outflows the code computes. The decision of the manager is compared with what the policy and the settings authorize
    on the accesses of the commands (\<open>authorized\<close>), and the theorem names where they
    differ. \<open>Approval_Runs\<close> follows budgets and counts over commits, reverts and runs of approved transactions.

  Parameters. Random bytes, base58, the platform's text encoder (the record \<open>platform\<close>), the hashes, curves and signature checks of the noble packages, bech32
  and the functions on JSON and URIs (the record \<open>packages\<close>) and the client's answers are arguments of the
  definitions; valibot's \<open>parse\<close> is an argument with the locale \<open>valibot\<close> for its documented behaviour; amounts in a currency, floating point numbers in the code, are of a type parameter
  with the operations the code applies to them.

  Not modelled: network clients and generated code (\<open>graphql\<close>, \<open>grpc\<close>, \<open>jsonRpc\<close>, contract
  bindings), cryptography that packages provide (key generation, curves, pairings), user interfaces and wallet
  glue, the code generators, the fluent \<open>Transaction\<close> class with the serial and caching executors, and in the parallel
  executor its signing, epoch information and wait for the last transaction. Promises run in the order the code awaits them,
  except in the executor, where the steps between awaits interleave freely. Planned next: the conversion of version 1
  transaction data and the runner of the analyzers.
\<close>

end
